(* ===== verification/Prelude.thy ===== *)
theory Prelude
  imports Main "HOL-Library.Word"
begin

text \<open>
  Shared vocabulary of the development: the result type that stands for a Python call
  that returns or raises, the byte strings every protocol component works on, the JSON
  values that state, queue and account files hold, and the list and dictionary lemmas
  the component theories share. The collections declared here carry the component proofs.
\<close>

unbundle bit_operations_syntax

named_theorems mb_defs "definitions that proofs about a component unfold together"
named_theorems mb_len "length facts about encoders, ciphers and chunk plans"
named_theorems mb_bound "order and bound facts"

section \<open>Results\<close>

text \<open>A Python call either raises (\<open>Inl\<close>) or returns (\<open>Inr\<close>).\<close>

definition bindR :: "'e + 'a \<Rightarrow> ('a \<Rightarrow> 'e + 'b) \<Rightarrow> 'e + 'b" where
  "bindR m f = (case m of Inl e \<Rightarrow> Inl e | Inr x \<Rightarrow> f x)"

definition require :: "bool \<Rightarrow> 'e \<Rightarrow> 'e + unit" where
  "require c e = (if c then Inr () else Inl e)"

lemma bindR_simps [simp]:
  "bindR (Inl e) f = Inl e"
  "bindR (Inr x) f = f x"
  by (simp_all add: bindR_def)

lemma bindR_Inr_iff: "bindR m f = Inr y \<longleftrightarrow> (\<exists>x. m = Inr x \<and> f x = Inr y)"
  by (cases m) auto

lemma bindR_Inl_iff: "bindR m f = Inl e \<longleftrightarrow> m = Inl e \<or> (\<exists>x. m = Inr x \<and> f x = Inl e)"
  by (cases m) auto

lemma require_simps [simp]:
  "require True e = Inr ()"
  "require False e = Inl e"
  "require c e = Inr u \<longleftrightarrow> c"
  "require c e = Inl e' \<longleftrightarrow> \<not> c \<and> e' = e"
  by (auto simp: require_def)

text \<open>A \<open>for\<close> loop whose body may raise stops at the first exception.\<close>

fun foldR :: "('a \<Rightarrow> 's \<Rightarrow> 'e + 's) \<Rightarrow> 'a list \<Rightarrow> 's \<Rightarrow> 'e + 's" where
  "foldR f [] s = Inr s"
| "foldR f (x # xs) s = bindR (f x s) (foldR f xs)"

fun mapR :: "('a \<Rightarrow> 'e + 'b) \<Rightarrow> 'a list \<Rightarrow> 'e + 'b list" where
  "mapR f [] = Inr []"
| "mapR f (x # xs) = bindR (f x) (\<lambda>y. bindR (mapR f xs) (\<lambda>ys. Inr (y # ys)))"

lemma foldR_append: "foldR f (xs @ ys) s = bindR (foldR f xs s) (foldR f ys)"
proof (induction xs arbitrary: s)
  case (Cons x xs)
  then show ?case by (cases "f x s") auto
qed simp

lemma foldR_invariant:
  assumes "foldR f xs s = Inr t" and "P s"
    and "\<And>x s s'. x \<in> set xs \<Longrightarrow> P s \<Longrightarrow> f x s = Inr s' \<Longrightarrow> P s'"
  shows "P t"
  using assms
proof (induction xs arbitrary: s)
  case (Cons x xs)
  from Cons.prems(1) obtain s' where s': "f x s = Inr s'" "foldR f xs s' = Inr t"
    by (auto simp: bindR_Inr_iff)
  have "P s'" by (rule Cons.prems(3) [OF _ Cons.prems(2) s'(1)]) simp
  with s'(2) show ?case
    by (rule Cons.IH) (use Cons.prems(3) in auto)
qed simp

lemma mapR_length [mb_len]: "mapR f xs = Inr ys \<Longrightarrow> length ys = length xs"
  by (induction xs arbitrary: ys) (auto simp: bindR_Inr_iff)

lemma mapR_all: "mapR f xs = Inr ys \<Longrightarrow> list_all2 (\<lambda>x y. f x = Inr y) xs ys"
  by (induction xs arbitrary: ys) (auto simp: bindR_Inr_iff)

section \<open>Bytes\<close>

type_synonym byte = "8 word"
type_synonym bytes = "byte list"

definition zeros :: "nat \<Rightarrow> bytes" where
  "zeros n = replicate n 0"

lemma length_zeros [simp]: "length (zeros n) = n"
  by (simp add: zeros_def)

lemma zeros_0 [simp]: "zeros 0 = []"
  by (simp add: zeros_def)

text \<open>\<open>bytes(a ^ b for a, b in zip(xs, ys))\<close>.\<close>

definition xor_bytes :: "bytes \<Rightarrow> bytes \<Rightarrow> bytes" where
  "xor_bytes xs ys = map2 (XOR) xs ys"

lemma length_xor_bytes [simp]: "length (xor_bytes xs ys) = min (length xs) (length ys)"
  by (simp add: xor_bytes_def)

lemma xor_bytes_Nil [simp]: "xor_bytes [] ys = []" "xor_bytes xs [] = []"
  by (simp_all add: xor_bytes_def)

lemma xor_bytes_Cons [simp]: "xor_bytes (x # xs) (y # ys) = (x XOR y) # xor_bytes xs ys"
  by (simp add: xor_bytes_def)

lemma xor_bytes_cancel:
  "length xs \<le> length ys \<Longrightarrow> xor_bytes (xor_bytes xs ys) ys = xs"
proof (induction xs arbitrary: ys)
  case (Cons x xs)
  then obtain y ys' where "ys = y # ys'" by (cases ys) auto
  with Cons show ?case by (simp add: xor.assoc)
qed simp

lemma xor_bytes_append:
  "length xs = length us \<Longrightarrow> xor_bytes (xs @ ys) (us @ vs) = xor_bytes xs us @ xor_bytes ys vs"
  by (simp add: xor_bytes_def zip_append)

lemma drop_xor_bytes: "drop n (xor_bytes xs ys) = xor_bytes (drop n xs) (drop n ys)"
  by (simp add: xor_bytes_def drop_map drop_zip)

lemma take_xor_bytes: "take n (xor_bytes xs ys) = xor_bytes (take n xs) (take n ys)"
  by (simp add: xor_bytes_def take_map take_zip)

lemma xor_bytes_take_right: "length xs \<le> n \<Longrightarrow> xor_bytes xs (take n ys) = xor_bytes xs ys"
proof (induction xs arbitrary: n ys)
  case (Cons x xs)
  then show ?case by (cases n; cases ys) auto
qed simp

text \<open>Splitting a byte string into pieces of \<open>n\<close> bytes, the last one possibly short.\<close>

function blocks_of :: "nat \<Rightarrow> 'a list \<Rightarrow> 'a list list" where
  "blocks_of n xs = (if n = 0 \<or> xs = [] then [] else take n xs # blocks_of n (drop n xs))"
  by pat_completeness auto
termination
  by (relation "measure (\<lambda>(n, xs). length xs)") auto

declare blocks_of.simps [simp del]

lemma blocks_of_Nil [simp]: "blocks_of n [] = []"
  by (simp add: blocks_of.simps)

lemma blocks_of_step: "0 < n \<Longrightarrow> xs \<noteq> [] \<Longrightarrow> blocks_of n xs = take n xs # blocks_of n (drop n xs)"
  by (subst blocks_of.simps) simp

lemma concat_blocks_of [simp]: "0 < n \<Longrightarrow> concat (blocks_of n xs) = xs"
proof (induction n xs rule: blocks_of.induct)
  case (1 n xs)
  then show ?case by (cases "xs = []") (auto simp: blocks_of_step)
qed

lemma blocks_of_length:
  assumes "0 < n" and "n dvd length xs"
  shows "\<forall>b \<in> set (blocks_of n xs). length b = n"
  using assms
proof (induction n xs rule: blocks_of.induct)
  case (1 n xs)
  show ?case
  proof (cases "xs = []")
    case False
    then have n: "n \<le> length xs" using "1.prems" by (auto intro: dvd_imp_le)
    have d: "n dvd length (drop n xs)" using "1.prems"(2) by (simp add: dvd_diff_nat)
    have "\<not> (n = 0 \<or> xs = [])" using "1.prems"(1) False by simp
    from "1.IH" [OF this "1.prems"(1) d]
    have "\<forall>b \<in> set (blocks_of n (drop n xs)). length b = n" .
    moreover have "length (take n xs) = n" using n by simp
    ultimately show ?thesis
      unfolding blocks_of_step [OF "1.prems"(1) False] by (simp only: list.set ball_simps insert_iff)
  qed simp
qed

lemma blocks_of_bound: "b \<in> set (blocks_of n xs) \<Longrightarrow> length b \<le> n"
proof (induction n xs rule: blocks_of.induct)
  case (1 n xs)
  then show ?case
    by (cases "n = 0 \<or> xs = []") (auto simp: blocks_of.simps [of n xs] split: if_splits)
qed

lemma blocks_of_nonempty: "b \<in> set (blocks_of n xs) \<Longrightarrow> b \<noteq> []"
proof (induction n xs rule: blocks_of.induct)
  case (1 n xs)
  then show ?case
    by (cases "n = 0 \<or> xs = []") (auto simp: blocks_of.simps [of n xs] split: if_splits)
qed

lemma blocks_of_append:
  assumes "length xs = n" and "0 < n"
  shows "blocks_of n (xs @ ys) = xs # blocks_of n ys"
proof -
  have "xs @ ys \<noteq> []" using assms by auto
  then show ?thesis using assms by (simp add: blocks_of_step)
qed

lemma blocks_of_concat:
  assumes "\<forall>b \<in> set bs. length b = n" and "0 < n"
  shows "blocks_of n (concat bs) = bs"
  using assms by (induction bs) (auto simp: blocks_of_append)

lemma length_concat_uniform [mb_len]:
  "\<forall>b \<in> set bs. length b = n \<Longrightarrow> length (concat bs) = n * length bs"
  by (induction bs) auto

section \<open>Python slices and dictionaries\<close>

text \<open>\<open>xs[i:j]\<close> for non-negative bounds: out-of-range bounds are clipped, never an error.\<close>

definition slice :: "nat \<Rightarrow> nat \<Rightarrow> 'a list \<Rightarrow> 'a list" where
  "slice i j xs = take (j - i) (drop i xs)"

lemma length_slice: "length (slice i j xs) = min (j - i) (length xs - i)"
  by (simp add: slice_def)

lemma slice_append_adjacent: "i \<le> j \<Longrightarrow> j \<le> k \<Longrightarrow> slice i j xs @ slice j k xs = slice i k xs"
proof -
  assume ij: "i \<le> j" "j \<le> k"
  have "take (j - i) (drop i xs) @ take (k - j) (drop (j - i) (drop i xs))
      = take ((j - i) + (k - j)) (drop i xs)"
    by (simp only: take_add)
  with ij show ?thesis by (simp add: slice_def)
qed

lemma slice_all: "length xs \<le> n \<Longrightarrow> slice 0 n xs = xs"
  by (simp add: slice_def)

text \<open>
  Insertion-ordered dictionaries as association lists: assignment replaces the value of an
  existing key in place and appends a new one, as Python does.
\<close>

fun dict_set :: "'k \<Rightarrow> 'v \<Rightarrow> ('k \<times> 'v) list \<Rightarrow> ('k \<times> 'v) list" where
  "dict_set k v [] = [(k, v)]"
| "dict_set k v ((k', v') # d) = (if k' = k then (k, v) # d else (k', v') # dict_set k v d)"

definition dict_del :: "'k \<Rightarrow> ('k \<times> 'v) list \<Rightarrow> ('k \<times> 'v) list" where
  "dict_del k d = filter (\<lambda>p. fst p \<noteq> k) d"

lemma map_of_dict_set [simp]: "map_of (dict_set k v d) = (map_of d)(k \<mapsto> v)"
  by (induction k v d rule: dict_set.induct) auto

lemma map_of_dict_del [simp]: "map_of (dict_del k d) = (map_of d)(k := None)"
proof (induction d)
  case (Cons p d)
  then show ?case by (cases p) (auto simp: dict_del_def fun_eq_iff)
qed (auto simp: dict_del_def)

lemma keys_dict_set: "fst ` set (dict_set k v d) = insert k (fst ` set d)"
  by (induction k v d rule: dict_set.induct) auto

lemma distinct_dict_set:
  "distinct (map fst d) \<Longrightarrow> distinct (map fst (dict_set k v d))"
proof (induction k v d rule: dict_set.induct)
  case (2 k v k' v' d)
  then show ?case using keys_dict_set [of k v d] by (auto simp: image_iff)
qed simp

lemma pad16: "(n + (16 - n mod 16) mod 16) mod 16 = (0 :: nat)"
proof -
  have "n mod 16 \<le> 16" by simp
  then have "n mod 16 + (16 - n mod 16) = 16" by simp
  then have "(n mod 16 + (16 - n mod 16)) mod 16 = 0" by simp
  then show ?thesis by (simp only: mod_add_left_eq mod_add_right_eq)
qed

section \<open>JSON values\<close>

text \<open>
  What \<open>json.loads\<close> returns. An object is the list of its members in file order; a float
  is kept as its numerator and denominator, since no component reads one.
\<close>

datatype json =
    JNull
  | JBool bool
  | JInt int
  | JFloat int int
  | JStr string
  | JArr "json list"
  | JObj "(string \<times> json) list"

fun is_JObj :: "json \<Rightarrow> bool" where
  "is_JObj (JObj _) = True"
| "is_JObj _ = False"

fun is_JStr :: "json \<Rightarrow> bool" where
  "is_JStr (JStr _) = True"
| "is_JStr _ = False"

text \<open>
  \<open>isinstance(v, int) and not isinstance(v, bool)\<close>: \<open>bool\<close> is a subclass of \<open>int\<close> in
  Python, and every validator of the program excludes it.
\<close>

fun is_plain_int :: "json \<Rightarrow> bool" where
  "is_plain_int (JInt _) = True"
| "is_plain_int _ = False"

lemma is_plain_int_iff: "is_plain_int v \<longleftrightarrow> (\<exists>n. v = JInt n)"
  by (cases v) auto

lemma is_JStr_iff: "is_JStr v \<longleftrightarrow> (\<exists>s. v = JStr s)"
  by (cases v) auto

lemma is_JObj_iff: "is_JObj v \<longleftrightarrow> (\<exists>d. v = JObj d)"
  by (cases v) auto

text \<open>
  A duplicated member name keeps its last value in \<open>json.loads\<close>; \<open>obj_of\<close> builds the
  dictionary the parser would.
\<close>

definition obj_of :: "(string \<times> json) list \<Rightarrow> (string \<times> json) list" where
  "obj_of ms = foldl (\<lambda>d (k, v). dict_set k v d) [] ms"

definition jget :: "string \<Rightarrow> (string \<times> json) list \<Rightarrow> json option" where
  "jget k d = map_of d k"

definition jget_default :: "string \<Rightarrow> json \<Rightarrow> (string \<times> json) list \<Rightarrow> json" where
  "jget_default k v d = (case jget k d of None \<Rightarrow> v | Some w \<Rightarrow> w)"

text \<open>\<open>d.get(k)\<close> with no default: a missing member reads as \<open>None\<close>.\<close>

abbreviation jget_none :: "string \<Rightarrow> (string \<times> json) list \<Rightarrow> json" where
  "jget_none k d \<equiv> jget_default k JNull d"

end
