(* ===== verification/PyText.thy ===== *)
theory PyText
  imports Prelude
begin

text \<open>
  The parts of Python's text handling the program uses: stripping, splitting, \<open>int()\<close>,
  \<open>bytes.hex\<close> and \<open>bytes.fromhex\<close>, decimal printing, and the fragment of the \<open>re\<close> module
  its patterns are written in. A \<open>char\<close> is one code point of Latin-1, the range in which
  HTTP headers, URLs, handles, keys and JSON field names of the program live; code points
  above 255 are outside these definitions.
\<close>

section \<open>Character classes\<close>

text \<open>\<open>str.isspace\<close> and the \<open>\s\<close> of a \<open>str\<close> pattern, on Latin-1.\<close>

definition is_ws :: "char \<Rightarrow> bool" where
  "is_ws c = (let n = of_char c :: nat in (9 \<le> n \<and> n \<le> 13) \<or> (28 \<le> n \<and> n \<le> 32) \<or> n = 133 \<or> n = 160)"

text \<open>\<open>Py_ISSPACE\<close>, the whitespace that \<open>bytes.fromhex\<close> skips.\<close>

definition ascii_ws :: "char \<Rightarrow> bool" where
  "ascii_ws c = (let n = of_char c :: nat in (9 \<le> n \<and> n \<le> 13) \<or> n = 32)"

definition is_digit :: "char \<Rightarrow> bool" where
  "is_digit c = (let n = of_char c :: nat in 48 \<le> n \<and> n \<le> 57)"

definition is_upper :: "char \<Rightarrow> bool" where
  "is_upper c = (let n = of_char c :: nat in 65 \<le> n \<and> n \<le> 90)"

definition is_lower :: "char \<Rightarrow> bool" where
  "is_lower c = (let n = of_char c :: nat in 97 \<le> n \<and> n \<le> 122)"

definition is_alnum :: "char \<Rightarrow> bool" where
  "is_alnum c \<longleftrightarrow> is_digit c \<or> is_upper c \<or> is_lower c"

definition lower_char :: "char \<Rightarrow> char" where
  "lower_char c = (let n = of_char c :: nat in
     if (65 \<le> n \<and> n \<le> 90) \<or> (192 \<le> n \<and> n \<le> 222 \<and> n \<noteq> 215) then char_of (n + 32) else c)"

definition lower :: "string \<Rightarrow> string" where
  "lower s = map lower_char s"

definition ascii_upper :: "string \<Rightarrow> string" where
  "ascii_upper s = map (\<lambda>c. if is_lower c then char_of ((of_char c :: nat) - 32) else c) s"

section \<open>Stripping, searching and splitting\<close>

definition lstrip_by :: "('a \<Rightarrow> bool) \<Rightarrow> 'a list \<Rightarrow> 'a list" where
  "lstrip_by p s = dropWhile p s"

definition rstrip_by :: "('a \<Rightarrow> bool) \<Rightarrow> 'a list \<Rightarrow> 'a list" where
  "rstrip_by p s = rev (dropWhile p (rev s))"

definition strip :: "string \<Rightarrow> string" where
  "strip s = rstrip_by is_ws (lstrip_by is_ws s)"

definition starts_with :: "'a list \<Rightarrow> 'a list \<Rightarrow> bool" where
  "starts_with p s \<longleftrightarrow> take (length p) s = p"

definition ends_with :: "'a list \<Rightarrow> 'a list \<Rightarrow> bool" where
  "ends_with p s \<longleftrightarrow> starts_with (rev p) (rev s)"

text \<open>\<open>needle in hay\<close> for strings.\<close>

fun contains :: "'a list \<Rightarrow> 'a list \<Rightarrow> bool" where
  "contains p [] = (p = [])"
| "contains p (c # s) = (starts_with p (c # s) \<or> contains p s)"

text \<open>\<open>s.partition(c)\<close>: the head, whether the separator was there, and the tail.\<close>

fun partition_at :: "char \<Rightarrow> string \<Rightarrow> string \<times> bool \<times> string" where
  "partition_at c [] = ([], False, [])"
| "partition_at c (x # s) =
     (if x = c then ([], True, s)
      else case partition_at c s of (h, f, t) \<Rightarrow> (x # h, f, t))"

text \<open>\<open>s.split(c)\<close>: always at least one piece.\<close>

fun split_on :: "char \<Rightarrow> string \<Rightarrow> string list" where
  "split_on c [] = [[]]"
| "split_on c (x # s) =
     (if x = c then [] # split_on c s
      else case split_on c s of [] \<Rightarrow> [[x]] | p # ps \<Rightarrow> (x # p) # ps)"

definition replace_char :: "char \<Rightarrow> char \<Rightarrow> string \<Rightarrow> string" where
  "replace_char a b s = map (\<lambda>c. if c = a then b else c) s"

definition remove_char :: "char \<Rightarrow> string \<Rightarrow> string" where
  "remove_char a s = filter (\<lambda>c. c \<noteq> a) s"

lemma rstrip_by_all: "(\<forall>c \<in> set s. \<not> p c) \<Longrightarrow> rstrip_by p s = s"
proof -
  assume a: "\<forall>c \<in> set s. \<not> p c"
  have "dropWhile p (rev s) = rev s"
    using a by (cases "rev s") (auto simp: rev_swap)
  then show ?thesis by (simp add: rstrip_by_def)
qed

lemma rstrip_by_last: "s = [] \<or> \<not> p (last s) \<Longrightarrow> rstrip_by p s = s"
  by (cases s rule: rev_cases) (auto simp: rstrip_by_def)

lemma rstrip_by_not_last: "rstrip_by p s \<noteq> [] \<Longrightarrow> \<not> p (last (rstrip_by p s))"
  using hd_dropWhile [of p "rev s"] by (auto simp: rstrip_by_def last_rev)

lemma rstrip_by_subset: "set (rstrip_by p s) \<subseteq> set s"
  using set_dropWhileD [of _ p "rev s"] by (auto simp: rstrip_by_def)

lemma rstrip_by_append_all: "(\<forall>c \<in> set t. p c) \<Longrightarrow> rstrip_by p (s @ t) = rstrip_by p s"
proof -
  assume "\<forall>c \<in> set t. p c"
  then have "dropWhile p (rev t @ rev s) = dropWhile p (rev s)"
    by (intro dropWhile_append2) simp
  then show ?thesis by (simp add: rstrip_by_def)
qed

lemma strip_id: "(\<forall>c \<in> set s. \<not> is_ws c) \<Longrightarrow> strip s = s"
proof -
  assume a: "\<forall>c \<in> set s. \<not> is_ws c"
  then have "lstrip_by is_ws s = s" by (cases s) (auto simp: lstrip_by_def)
  with a show ?thesis by (simp add: strip_def rstrip_by_all)
qed

lemma starts_with_append [simp]: "starts_with p (p @ s)"
  by (simp add: starts_with_def)

lemma starts_with_iff: "starts_with p s \<longleftrightarrow> (\<exists>t. s = p @ t)"
proof
  assume "starts_with p s"
  then have "s = p @ drop (length p) s"
    by (metis starts_with_def append_take_drop_id)
  then show "\<exists>t. s = p @ t" ..
qed (auto simp: starts_with_def)

lemma partition_at_split:
  "partition_at c s = (h, f, t) \<Longrightarrow> s = (if f then h @ c # t else h) \<and> c \<notin> set h"
proof (induction c s arbitrary: h rule: partition_at.induct)
  case (2 c x s)
  then show ?case by (auto split: if_splits prod.splits)
qed auto

lemma partition_at_found: "c \<notin> set h \<Longrightarrow> partition_at c (h @ c # t) = (h, True, t)"
  by (induction h) auto

lemma partition_at_missing: "c \<notin> set h \<Longrightarrow> partition_at c h = (h, False, [])"
  by (induction h) auto

section \<open>Integers\<close>

definition digit_val :: "char \<Rightarrow> nat" where
  "digit_val c = (of_char c :: nat) - 48"

text \<open>Digits with single underscores between them, as \<open>int()\<close> accepts.\<close>

fun int_digits :: "bool \<Rightarrow> string \<Rightarrow> string option" where
  "int_digits d [] = (if d then Some [] else None)"
| "int_digits d (c # s) =
     (if is_digit c then map_option ((#) c) (int_digits True s)
      else if c = CHR ''_'' \<and> d then int_digits False s
      else None)"

definition digits_val :: "string \<Rightarrow> nat" where
  "digits_val s = foldl (\<lambda>a c. 10 * a + digit_val c) 0 s"

text \<open>
  \<open>int(s)\<close>: surrounding whitespace, one sign, digits; \<open>None\<close> stands for the \<open>ValueError\<close>.
  CPython refuses more than 4300 digits (\<open>sys.int_info.default_max_str_digits\<close>).
\<close>

definition max_str_digits :: nat where
  "max_str_digits = 4300"

definition py_nat :: "string \<Rightarrow> nat option" where
  "py_nat s = (case int_digits False s of
      None \<Rightarrow> None
    | Some ds \<Rightarrow> if max_str_digits < length ds then None else Some (digits_val ds))"

definition py_int :: "string \<Rightarrow> int option" where
  "py_int s = (case strip s of
      [] \<Rightarrow> None
    | c # t \<Rightarrow>
        if c = CHR ''-'' then map_option (\<lambda>n. - int n) (py_nat t)
        else if c = CHR ''+'' then map_option int (py_nat t)
        else map_option int (py_nat (c # t)))"

text \<open>\<open>str(n)\<close> for a natural number.\<close>

definition digit_char :: "nat \<Rightarrow> char" where
  "digit_char d = char_of (48 + d)"

fun show_nat :: "nat \<Rightarrow> string" where
  "show_nat n = (if n < 10 then [digit_char n] else show_nat (n div 10) @ [digit_char (n mod 10)])"

declare show_nat.simps [simp del]

definition show_int :: "int \<Rightarrow> string" where
  "show_int n = (if n < 0 then CHR ''-'' # show_nat (nat (- n)) else show_nat (nat n))"

lemma of_char_digit_char: "d < 10 \<Longrightarrow> (of_char (digit_char d) :: nat) = 48 + d"
  by (simp add: digit_char_def)

lemma digit_char_facts:
  assumes "d < 10"
  shows "is_digit (digit_char d)" and "digit_val (digit_char d) = d" and "\<not> is_ws (digit_char d)"
    and "digit_char d \<noteq> CHR ''-''" and "digit_char d \<noteq> CHR ''+''"
proof -
  note of_char_digit_char [OF assms]
  then show "is_digit (digit_char d)" "digit_val (digit_char d) = d" "\<not> is_ws (digit_char d)"
    using assms by (simp_all add: is_digit_def digit_val_def is_ws_def Let_def)
  show "digit_char d \<noteq> CHR ''-''" "digit_char d \<noteq> CHR ''+''"
    using of_char_digit_char [OF assms] by auto
qed

lemma show_nat_nonempty: "show_nat n \<noteq> []"
  by (subst show_nat.simps) simp

lemma show_nat_digits: "c \<in> set (show_nat n) \<Longrightarrow> \<exists>d < 10. c = digit_char d"
proof (induction n rule: show_nat.induct)
  case (1 n)
  show ?case
  proof (cases "n < 10")
    case True
    with "1.prems" show ?thesis by (subst (asm) show_nat.simps) auto
  next
    case False
    with "1.prems" have "c \<in> set (show_nat (n div 10)) \<or> c = digit_char (n mod 10)"
      by (subst (asm) show_nat.simps) auto
    then show ?thesis using "1.IH" False by (auto intro: exI [of _ "n mod 10"])
  qed
qed

lemma int_digits_all: "(\<forall>c \<in> set s. is_digit c) \<Longrightarrow> s \<noteq> [] \<or> d \<Longrightarrow> int_digits d s = Some s"
  by (induction s arbitrary: d) auto

lemma digits_val_snoc: "digits_val (s @ [c]) = 10 * digits_val s + digit_val c"
  by (simp add: digits_val_def)

lemma digits_val_show_nat: "digits_val (show_nat n) = n"
proof (induction n rule: show_nat.induct)
  case (1 n)
  show ?case
  proof (cases "n < 10")
    case True
    then show ?thesis
      by (subst show_nat.simps) (simp add: digits_val_def digit_char_facts)
  next
    case False
    then have "digits_val (show_nat n) = 10 * digits_val (show_nat (n div 10)) + n mod 10"
      by (subst show_nat.simps) (simp add: digits_val_snoc digit_char_facts)
    with 1 False show ?thesis by simp
  qed
qed

lemma py_nat_show_nat:
  assumes "length (show_nat n) \<le> max_str_digits"
  shows "py_nat (show_nat n) = Some n"
proof -
  have "int_digits False (show_nat n) = Some (show_nat n)"
    using show_nat_nonempty show_nat_digits digit_char_facts(1) by (intro int_digits_all) blast+
  with assms show ?thesis by (simp add: py_nat_def digits_val_show_nat)
qed

lemma py_int_show_int:
  assumes "length (show_int n) \<le> max_str_digits"
  shows "py_int (show_int n) = Some n"
proof (cases "n < 0")
  case True
  have "\<not> is_ws (CHR ''-'')" by (simp add: is_ws_def)
  then have ns: "\<forall>c \<in> set (show_int n). \<not> is_ws c"
    using True show_nat_digits digit_char_facts(3) by (auto simp: show_int_def)
  from True show ?thesis
    using assms py_nat_show_nat [of "nat (- n)"]
    unfolding py_int_def strip_id [OF ns] by (simp add: show_int_def)
next
  case False
  have ns: "\<forall>c \<in> set (show_nat (nat n)). \<not> is_ws c"
    using show_nat_digits digit_char_facts(3) by blast
  obtain c t where ct: "show_nat (nat n) = c # t"
    using show_nat_nonempty by (cases "show_nat (nat n)") auto
  then have "c \<noteq> CHR ''-''" "c \<noteq> CHR ''+''"
    using show_nat_digits [of c "nat n"] digit_char_facts(4,5) by auto
  moreover have "py_nat (c # t) = Some (nat n)"
    using py_nat_show_nat [of "nat n"] assms False ct by (simp add: show_int_def)
  ultimately show ?thesis
    using False ct strip_id [OF ns] by (simp add: py_int_def show_int_def)
qed

section \<open>Hexadecimal\<close>

definition hex_val :: "char \<Rightarrow> nat option" where
  "hex_val c = (let n = of_char c :: nat in
     if 48 \<le> n \<and> n \<le> 57 then Some (n - 48)
     else if 97 \<le> n \<and> n \<le> 102 then Some (n - 87)
     else if 65 \<le> n \<and> n \<le> 70 then Some (n - 55)
     else None)"

definition hex_char :: "nat \<Rightarrow> char" where
  "hex_char d = (if d < 10 then char_of (48 + d) else char_of (87 + d))"

text \<open>\<open>bytes.hex()\<close>: two lower-case digits per byte.\<close>

definition to_hex :: "bytes \<Rightarrow> string" where
  "to_hex bs = concat (map (\<lambda>b. [hex_char (unat b div 16), hex_char (unat b mod 16)]) bs)"

text \<open>
  \<open>bytes.fromhex(s)\<close>: ASCII whitespace is skipped between bytes, then two hexadecimal
  digits make one byte; anything else is a \<open>ValueError\<close>.
\<close>

fun from_hex :: "string \<Rightarrow> bytes option" where
  "from_hex [] = Some []"
| "from_hex [c] = (if ascii_ws c then Some [] else None)"
| "from_hex (c # d # s) =
     (if ascii_ws c then from_hex (d # s)
      else case (hex_val c, hex_val d) of
          (Some h, Some l) \<Rightarrow> map_option ((#) (of_nat (16 * h + l))) (from_hex s)
        | _ \<Rightarrow> None)"

lemma hex_char_facts:
  assumes "d < 16"
  shows "hex_val (hex_char d) = Some d" and "\<not> ascii_ws (hex_char d)"
proof -
  have "(of_char (hex_char d) :: nat) = (if d < 10 then 48 + d else 87 + d)"
    using assms by (simp add: hex_char_def)
  then show "hex_val (hex_char d) = Some d" "\<not> ascii_ws (hex_char d)"
    using assms by (auto simp: hex_val_def ascii_ws_def Let_def)
qed

lemma to_hex_simps [simp]:
  "to_hex [] = []"
  "to_hex (b # bs) = hex_char (unat b div 16) # hex_char (unat b mod 16) # to_hex bs"
  by (simp_all add: to_hex_def)

lemma length_to_hex [simp, mb_len]: "length (to_hex bs) = 2 * length bs"
  by (induction bs) auto

lemma byte_halves: "unat (b :: byte) div 16 < 16" "unat b mod 16 < 16"
proof -
  have "unat b < 2 ^ LENGTH(8)" by (rule unsigned_less)
  then have "unat b < 256" by simp
  then show "unat b div 16 < 16" "unat b mod 16 < 16" by simp_all
qed

theorem from_hex_to_hex: "from_hex (to_hex bs) = Some bs"
proof (induction bs)
  case (Cons b bs)
  have "of_nat (16 * (unat b div 16) + unat b mod 16) = b"
    by (simp only: mult_div_mod_eq of_nat_unat ucast_id)
  with Cons show ?case
    using byte_halves [of b] by (simp add: hex_char_facts)
qed simp

lemma from_hex_length: "from_hex s = Some bs \<Longrightarrow> 2 * length bs \<le> length s"
  by (induction s arbitrary: bs rule: from_hex.induct)
    (fastforce split: if_splits option.splits)+

section \<open>Regular expressions\<close>

text \<open>
  The patterns of the program are sequences of literals, character classes, greedy class
  repetitions, optional parts, alternatives and capture groups. \<open>rx_results\<close> lists every
  way a pattern can match at the start of a string, in the order the backtracking engine of
  \<open>re\<close> tries them; \<open>rx_match\<close> is \<open>pattern.match\<close>, the first of them.
\<close>

datatype rx =
    Eps
  | Cls "char \<Rightarrow> bool"
  | Many "char \<Rightarrow> bool"
  | Seq rx rx
  | Alt rx rx
  | Opt rx
  | Grp string rx
  | Dollar
  | EndZ

type_synonym groups = "(string \<times> string) list"

primrec rx_results :: "rx \<Rightarrow> string \<Rightarrow> (groups \<times> string) list" where
  "rx_results Eps s = [([], s)]"
| "rx_results (Cls p) s = (case s of [] \<Rightarrow> [] | c # t \<Rightarrow> if p c then [([], t)] else [])"
| "rx_results (Many p) s =
     map (\<lambda>k. ([], drop k s)) (rev [0..<Suc (length (takeWhile p s))])"
| "rx_results (Seq a b) s =
     concat (map (\<lambda>(g, t). map (\<lambda>(h, u). (g @ h, u)) (rx_results b t)) (rx_results a s))"
| "rx_results (Alt a b) s = rx_results a s @ rx_results b s"
| "rx_results (Opt a) s = rx_results a s @ [([], s)]"
| "rx_results (Grp n a) s =
     map (\<lambda>(g, t). (g @ [(n, take (length s - length t) s)], t)) (rx_results a s)"
| "rx_results Dollar s = (if s = [] \<or> s = [CHR 0x0A] then [([], s)] else [])"
| "rx_results EndZ s = (if s = [] then [([], s)] else [])"

definition rx_match :: "rx \<Rightarrow> string \<Rightarrow> groups option" where
  "rx_match r s = (case rx_results r s of [] \<Rightarrow> None | (g, t) # _ \<Rightarrow> Some g)"

definition rx_seq :: "rx list \<Rightarrow> rx" where
  "rx_seq rs = foldr Seq rs Eps"

definition lit :: "string \<Rightarrow> rx" where
  "lit s = rx_seq (map (\<lambda>c. Cls (\<lambda>d. d = c)) s)"

definition liti :: "string \<Rightarrow> rx" where
  "liti s = rx_seq (map (\<lambda>c. Cls (\<lambda>d. lower_char d = lower_char c)) s)"

definition many1 :: "(char \<Rightarrow> bool) \<Rightarrow> rx" where
  "many1 p = Seq (Cls p) (Many p)"

definition not_in :: "string \<Rightarrow> char \<Rightarrow> bool" where
  "not_in s c \<longleftrightarrow> c \<notin> set s"

text \<open>\<open>.\<close> matches anything but a newline.\<close>

definition any_char :: "char \<Rightarrow> bool" where
  "any_char c \<longleftrightarrow> c \<noteq> CHR 0x0A"

text \<open>\<open>m.group(n)\<close>: \<open>None\<close> when the group took no part in the match.\<close>

definition group :: "string \<Rightarrow> groups \<Rightarrow> string option" where
  "group n g = map_of g n"

text \<open>Every result of a pattern consumes a prefix of its input.\<close>

lemma rx_results_suffix: "(g, t) \<in> set (rx_results r s) \<Longrightarrow> \<exists>u. s = u @ t"
proof (induction r arbitrary: s g t)
  case (Many p)
  then obtain k where "t = drop k s" by auto
  then have "s = take k s @ t" by simp
  then show ?case ..
next
  case (Seq a b)
  from Seq.prems obtain g1 t1 where "(g1, t1) \<in> set (rx_results a s)"
    and "\<exists>h. (h, t) \<in> set (rx_results b t1)"
    by auto
  then obtain u v where "s = u @ t1" "t1 = v @ t" using Seq.IH by blast
  then show ?case by auto
next
  case (Grp n a)
  then show ?case by auto
qed (auto split: list.splits if_splits)

text \<open>The first way a pattern matches, which is all that \<open>rx_match\<close> looks at.\<close>

definition rx_first :: "rx \<Rightarrow> string \<Rightarrow> (groups \<times> string) option" where
  "rx_first r s = (case rx_results r s of [] \<Rightarrow> None | x # _ \<Rightarrow> Some x)"

lemma rx_match_first: "rx_match r s = map_option fst (rx_first r s)"
  by (auto simp: rx_match_def rx_first_def split: list.splits)

lemma rx_first_iff: "rx_first r s = Some x \<longleftrightarrow> (\<exists>xs. rx_results r s = x # xs)"
  by (auto simp: rx_first_def split: list.splits)

lemma rx_first_Eps [simp]: "rx_first Eps s = Some ([], s)"
  by (simp add: rx_first_def)

lemma rx_first_Cls: "p c \<Longrightarrow> rx_first (Cls p) (c # t) = Some ([], t)"
  by (simp add: rx_first_def)

lemma rx_first_Seq:
  "rx_first a s = Some (g, t) \<Longrightarrow> rx_first b t = Some (h, u) \<Longrightarrow> rx_first (Seq a b) s = Some (g @ h, u)"
  by (auto simp: rx_first_iff)

lemma rx_first_Grp:
  "rx_first a s = Some (g, t) \<Longrightarrow>
   rx_first (Grp n a) s = Some (g @ [(n, take (length s - length t) s)], t)"
  by (auto simp: rx_first_iff)

lemma rx_first_Alt: "rx_first a s = Some x \<Longrightarrow> rx_first (Alt a b) s = Some x"
  by (auto simp: rx_first_iff)

lemma rx_first_Dollar: "rx_first Dollar [] = Some ([], [])"
  by (simp add: rx_first_def)

lemma takeWhile_prefix:
  "(\<forall>c \<in> set ds. p c) \<Longrightarrow> rest = [] \<or> \<not> p (hd rest) \<Longrightarrow> takeWhile p (ds @ rest) = ds"
  by (cases rest) (auto simp: takeWhile_append takeWhile_eq_all_conv)

lemma rx_first_Many:
  assumes "\<forall>c \<in> set ds. p c" and "rest = [] \<or> \<not> p (hd rest)"
  shows "rx_first (Many p) (ds @ rest) = Some ([], rest)"
  by (simp add: rx_first_def takeWhile_prefix [OF assms])

lemma rx_first_many1:
  assumes "\<forall>c \<in> set ds. p c" and "ds \<noteq> []" and "rest = [] \<or> \<not> p (hd rest)"
  shows "rx_first (many1 p) (ds @ rest) = Some ([], rest)"
proof -
  obtain c cs where ds: "ds = c # cs" using assms(2) by (cases ds) auto
  have c: "rx_first (Cls p) (c # (cs @ rest)) = Some ([], cs @ rest)"
    by (rule rx_first_Cls) (use assms ds in simp)
  have m: "rx_first (Many p) (cs @ rest) = Some ([], rest)"
    by (rule rx_first_Many) (use assms ds in auto)
  show ?thesis using rx_first_Seq [OF c m] by (simp add: many1_def ds)
qed

lemma rx_seq_simps: "rx_seq [] = Eps" "rx_seq (r # rs) = Seq r (rx_seq rs)"
  by (simp_all add: rx_seq_def)

lemma rx_first_lit: "rx_first (lit p) (p @ rest) = Some ([], rest)"
proof (induction p)
  case (Cons c p)
  from rx_first_Seq [OF rx_first_Cls Cons] show ?case by (simp add: lit_def rx_seq_simps)
qed (simp add: lit_def rx_seq_simps)

lemma rx_first_liti: "rx_first (liti p) (p @ rest) = Some ([], rest)"
proof (induction p)
  case (Cons c p)
  from rx_first_Seq [OF rx_first_Cls Cons] show ?case by (simp add: liti_def rx_seq_simps)
qed (simp add: liti_def rx_seq_simps)

lemma strip_ends: "s \<noteq> [] \<Longrightarrow> \<not> is_ws (hd s) \<Longrightarrow> \<not> is_ws (last s) \<Longrightarrow> strip s = s"
  by (cases s) (simp_all add: strip_def lstrip_by_def rstrip_by_last)

section \<open>Order\<close>

text \<open>The order of strings and \<open>sorted\<close> on them.\<close>

fun str_less :: "string \<Rightarrow> string \<Rightarrow> bool" where
  "str_less [] t = (t \<noteq> [])"
| "str_less (c # s) [] = False"
| "str_less (c # s) (d # t) =
    (let m = of_char c :: nat; n = of_char d in m < n \<or> m = n \<and> str_less s t)"

fun insert_str :: "string \<Rightarrow> string list \<Rightarrow> string list" where
  "insert_str s [] = [s]"
| "insert_str s (t # ts) = (if str_less t s then t # insert_str s ts else s # t # ts)"

definition sorted_strs :: "string list \<Rightarrow> string list" where
  "sorted_strs ss = foldr insert_str ss []"

lemma set_sorted_strs [simp]: "set (sorted_strs ss) = set ss"
proof -
  have "set (insert_str s ts) = insert s (set ts)" for s ts by (induction ts) auto
  then show ?thesis by (induction ss) (simp_all add: sorted_strs_def)
qed

end
