(* ===== verification/Errors.thy ===== *)
theory Errors
  imports PyText
begin

text \<open>
  The exception classes of the program (\<open>core/errors.py\<close> and the classes the other
  modules derive from them), the subset of Python's and \<open>requests\<close>' classes its handlers
  name, the mapping from MEGA's negative result codes, and the two retry allowlists that
  decide which chunk failures are replayed. An exception is its class and, for a
  \<open>MegaError\<close>, the API code it carries; message texts are not modelled.
\<close>

section \<open>The class hierarchy\<close>

datatype (plugins only: code size) exc_class =
    ValueError | TypeError | KeyError | IndexError | RuntimeError | BinasciiError | StructError
  | OSError | FileNotFoundError | PermissionError | FileExistsError | TimeoutError
  | OverflowError | UnicodeError | AttributeError
  | RequestException | ConnectionError | RequestsTimeout | ConnectTimeout | ReadTimeout | HTTPError
  | ChunkedEncodingError | LookupError
  | MegaError | TransferError | NonRetryableTransferError | RetryableTransferError
  | TransferCancelled | AuthError | QuotaError | RateLimitError | IntegrityError
  | CdnUrlExpired | UploadUrlExpiredError | UploadInProgressError
  | DeclaredSizeError | InsufficientDiskSpaceError | ProxyRequiredError
  | HashcashBudgetExceededError | AmbiguousMutationError | HashcashError
  | StateDurabilityError | StateCorruptionError | RangeNotHonoredError
  | PayloadTooLargeError | UnsafeTargetError | ShortUpstreamBodyError
  | FileLockError | QueueLockError | QueueCorruptionError | QueueOwnershipError | QueueKeyError
  | CrypterError | SplitterError | SplitterAliasError | InvalidTag
  | ProxyPoolCorruptionError | ConfigCorruptionError | ConfigLockError | JSONDecodeError
  | AccountCorruptionError | AccountNotFound | VaultUnlockError | VaultFormatError
  | SelectionCancelled

datatype exc = Exc exc_class "int option"

type_synonym 'a py = "exc + 'a"

abbreviation raise :: "exc_class \<Rightarrow> 'a py" where
  "raise c \<equiv> Inl (Exc c None)"

primrec exc_cls :: "exc \<Rightarrow> exc_class" where
  "exc_cls (Exc c n) = c"

primrec exc_code :: "exc \<Rightarrow> int option" where
  "exc_code (Exc c n) = n"

text \<open>The direct bases of each class that has one below \<open>Exception\<close>.\<close>

fun bases :: "exc_class \<Rightarrow> exc_class list" where
  "bases BinasciiError = [ValueError]"
| "bases UnicodeError = [ValueError]"
| "bases JSONDecodeError = [ValueError]"
| "bases FileNotFoundError = [OSError]"
| "bases PermissionError = [OSError]"
| "bases FileExistsError = [OSError]"
| "bases TimeoutError = [OSError]"
| "bases RequestException = [OSError]"
| "bases ConnectionError = [RequestException]"
| "bases RequestsTimeout = [RequestException]"
| "bases HTTPError = [RequestException]"
| "bases ChunkedEncodingError = [RequestException]"
| "bases KeyError = [LookupError]"
| "bases IndexError = [LookupError]"
| "bases ConnectTimeout = [ConnectionError, RequestsTimeout]"
| "bases ReadTimeout = [RequestsTimeout]"
| "bases TransferError = [MegaError]"
| "bases AuthError = [MegaError]"
| "bases QuotaError = [MegaError]"
| "bases RateLimitError = [MegaError]"
| "bases IntegrityError = [MegaError]"
| "bases StateDurabilityError = [MegaError]"
| "bases HashcashBudgetExceededError = [MegaError]"
| "bases AmbiguousMutationError = [MegaError]"
| "bases NonRetryableTransferError = [TransferError]"
| "bases RetryableTransferError = [TransferError]"
| "bases CdnUrlExpired = [TransferError]"
| "bases UploadInProgressError = [TransferError]"
| "bases TransferCancelled = [NonRetryableTransferError]"
| "bases DeclaredSizeError = [NonRetryableTransferError]"
| "bases InsufficientDiskSpaceError = [NonRetryableTransferError]"
| "bases ProxyRequiredError = [NonRetryableTransferError]"
| "bases HashcashError = [ValueError]"
| "bases PayloadTooLargeError = [ValueError]"
| "bases UnsafeTargetError = [ValueError]"
| "bases ShortUpstreamBodyError = [RuntimeError]"
| "bases SplitterAliasError = [SplitterError]"
| "bases VaultUnlockError = [InvalidTag]"
| "bases VaultFormatError = [VaultUnlockError]"
| "bases c = []"

text \<open>No chain of bases is longer than five, so five unfoldings reach every ancestor.\<close>

fun ancestors :: "nat \<Rightarrow> exc_class \<Rightarrow> exc_class list" where
  "ancestors 0 c = [c]"
| "ancestors (Suc n) c = c # concat (map (ancestors n) (bases c))"

definition isinstance :: "exc \<Rightarrow> exc_class \<Rightarrow> bool" where
  "isinstance e c \<longleftrightarrow> c \<in> set (ancestors 5 (exc_cls e))"

lemma ancestors_5: "ancestors 5 c = c # concat (map (ancestors 4) (bases c))"
  "ancestors 4 c = c # concat (map (ancestors 3) (bases c))"
  "ancestors 3 c = c # concat (map (ancestors 2) (bases c))"
  "ancestors 2 c = c # concat (map (ancestors 1) (bases c))"
  "ancestors 1 c = c # concat (map (ancestors 0) (bases c))"
  by (simp_all add: eval_nat_numeral)

lemma isinstance_self [simp]: "isinstance (Exc c n) c"
  by (simp add: isinstance_def ancestors_5)

section \<open>Result codes\<close>

text \<open>The codes of \<open>ERROR_CODES\<close> with their symbolic names.\<close>

definition error_codes :: "(int \<times> string) list" where
  "error_codes =
    [(-1, ''EINTERNAL''), (-2, ''EARGS''), (-3, ''EAGAIN''), (-4, ''ERATELIMIT''),
     (-5, ''EFAILED''), (-6, ''ETOOMANY''), (-7, ''ERANGE''), (-8, ''EEXPIRED''),
     (-9, ''ENOENT''), (-10, ''ECIRCULAR''), (-11, ''EACCESS''), (-12, ''EEXIST''),
     (-13, ''EINCOMPLETE''), (-14, ''EKEY''), (-15, ''ESID''), (-16, ''EBLOCKED''),
     (-17, ''EOVERQUOTA''), (-18, ''ETEMPUNAVAIL''), (-19, ''ETOOMANYCONNECTIONS''),
     (-20, ''EWRITE''), (-21, ''EREAD''), (-22, ''EAPPKEY''), (-24, ''EGOINGOVERQUOTA''),
     (-26, ''EMFAREQUIRED''), (-29, ''EMASTERONLY'')]"

text \<open>\<open>MegaError.name\<close>: the table's name, or \<open>UNKNOWN\<close>.\<close>

definition mega_error_name :: "int option \<Rightarrow> string" where
  "mega_error_name code = (case code of
      None \<Rightarrow> ''UNKNOWN''
    | Some c \<Rightarrow> (case map_of error_codes c of None \<Rightarrow> ''UNKNOWN'' | Some n \<Rightarrow> n))"

definition raise_for_code :: "int \<Rightarrow> unit py" where
  "raise_for_code code =
     (if 0 \<le> code then Inr ()
      else if code \<in> set [-15] then Inl (Exc AuthError (Some code))
      else if code \<in> set [-4] then Inl (Exc RateLimitError (Some code))
      else if code \<in> set [-17, -24] then Inl (Exc QuotaError (Some code))
      else Inl (Exc MegaError (Some code)))"

lemma raise_for_code_iff: "raise_for_code c = Inr u \<longleftrightarrow> 0 \<le> c"
  by (auto simp: raise_for_code_def split: if_splits)

lemma raise_for_code_mega: "raise_for_code c = Inl e \<Longrightarrow> isinstance e MegaError \<and> exc_code e = Some c"
  by (auto simp: raise_for_code_def isinstance_def ancestors_5 split: if_splits)

section \<open>Retry allowlists\<close>

text \<open>\<open>_is_transient_chunk_failure\<close> of the downloader.\<close>

definition is_transient_chunk_failure :: "exc \<Rightarrow> bool" where
  "is_transient_chunk_failure e \<longleftrightarrow>
     list_ex (isinstance e) [ConnectionError, RequestsTimeout, CdnUrlExpired, RetryableTransferError]"

text \<open>\<open>is_retryable_upload_error\<close> of the upload transport.\<close>

definition is_retryable_upload_error :: "exc \<Rightarrow> bool" where
  "is_retryable_upload_error e \<longleftrightarrow>
     list_ex (isinstance e) [ConnectionError, RequestsTimeout, RetryableTransferError]"

text \<open>
  A connection that is cut while a body is read reaches the handlers as a
  \<open>ChunkedEncodingError\<close>, which neither allowlist holds: the chunk is not tried again.
\<close>

lemma cut_body_not_retried:
  "\<not> is_transient_chunk_failure (Exc ChunkedEncodingError None) \<and> \<not> is_retryable_upload_error (Exc ChunkedEncodingError None)"
  by (simp add: is_transient_chunk_failure_def is_retryable_upload_error_def isinstance_def ancestors_5)

lemma non_retryable_class:
  "NonRetryableTransferError \<in> set (ancestors 5 c) \<Longrightarrow>
   c \<in> {NonRetryableTransferError, TransferCancelled, DeclaredSizeError,
        InsufficientDiskSpaceError, ProxyRequiredError}"
  by (cases c) (simp_all add: ancestors_5)

lemma non_retryable_never_replayed:
  assumes "isinstance e NonRetryableTransferError"
  shows "\<not> is_transient_chunk_failure e \<and> \<not> is_retryable_upload_error e"
  using non_retryable_class [OF assms [unfolded isinstance_def]]
  by (auto simp: isinstance_def is_transient_chunk_failure_def is_retryable_upload_error_def ancestors_5)

end
