(* ===== verification/Encoding.thy ===== *)
theory Encoding
  imports Errors
begin

text \<open>
  The text and integer codecs of \<open>core/crypto.py\<close>: MEGA's unpadded URL base64 and the
  big-endian arrays of 32-bit words that keys travel as. The library decoder behind
  \<open>base64.b64decode\<close> is written out as the state machine CPython runs.
\<close>

section \<open>Big-endian integers and UTF-8\<close>

definition nat_of_be :: "bytes \<Rightarrow> nat" where
  "nat_of_be bs = foldl (\<lambda>a b. 256 * a + unat b) 0 bs"

fun be_of_nat :: "nat \<Rightarrow> nat \<Rightarrow> bytes" where
  "be_of_nat 0 v = []"
| "be_of_nat (Suc n) v = be_of_nat n (v div 256) @ [of_nat (v mod 256)]"

lemma length_be_of_nat [simp, mb_len]: "length (be_of_nat n v) = n"
  by (induction n arbitrary: v) auto

lemma nat_of_be_snoc [simp]: "nat_of_be (bs @ [b]) = 256 * nat_of_be bs + unat b"
  by (simp add: nat_of_be_def)

lemma nat_of_be_Nil [simp]: "nat_of_be [] = 0"
  by (simp add: nat_of_be_def)

lemma unat_byte_less: "unat (b :: byte) < 256"
  using unsigned_less [of b, where 'a = nat] by simp

lemma unat_byte_of_nat: "v < 256 \<Longrightarrow> unat (of_nat v :: byte) = v"
  by (simp add: unat_of_nat take_bit_eq_mod)

lemma nat_of_be_be_of_nat: "v < 256 ^ n \<Longrightarrow> nat_of_be (be_of_nat n v) = v"
proof (induction n arbitrary: v)
  case (Suc n)
  then have "v div 256 < 256 ^ n" by (simp add: less_mult_imp_div_less mult.commute)
  then show ?case using Suc.IH by (simp add: unat_byte_of_nat)
qed simp

lemma be_of_nat_nat_of_be: "length bs = n \<Longrightarrow> be_of_nat n (nat_of_be bs) = bs"
proof (induction n arbitrary: bs)
  case (Suc n)
  then obtain cs c where bs: "bs = cs @ [c]" by (cases bs rule: rev_cases) auto
  have "(256 * nat_of_be cs + unat c) div 256 = nat_of_be cs"
    and "(256 * nat_of_be cs + unat c) mod 256 = unat c"
    using unat_byte_less [of c] by auto
  with Suc bs show ?case by simp
qed simp

lemma nat_of_be_less: "nat_of_be bs < 256 ^ length bs"
proof (induction bs rule: rev_induct)
  case (snoc b bs)
  then show ?case using unat_byte_less [of b] by simp
qed simp

definition utf8_char :: "char \<Rightarrow> bytes" where
  "utf8_char c = (let n = of_char c :: nat in
     if n < 128 then [of_nat n] else [of_nat (192 + n div 64), of_nat (128 + n mod 64)])"

text \<open>\<open>s.encode("utf-8")\<close> on Latin-1.\<close>

definition utf8 :: "string \<Rightarrow> bytes" where
  "utf8 s = concat (map utf8_char s)"

section \<open>Base64\<close>

definition b64_char :: "nat \<Rightarrow> char" where
  "b64_char n =
    (if n < 26 then char_of (65 + n)
     else if n < 52 then char_of (71 + n)
     else if n < 62 then char_of (n - 4)
     else if n = 62 then CHR ''+'' else CHR ''/'')"

definition b64_val :: "char \<Rightarrow> nat option" where
  "b64_val c = (let n = of_char c :: nat in
     if 65 \<le> n \<and> n \<le> 90 then Some (n - 65)
     else if 97 \<le> n \<and> n \<le> 122 then Some (n - 71)
     else if 48 \<le> n \<and> n \<le> 57 then Some (n + 4)
     else if n = 43 then Some 62
     else if n = 47 then Some 63
     else None)"

text \<open>\<open>base64.b64encode\<close>, with the padding.\<close>

fun b64encode :: "bytes \<Rightarrow> string" where
  "b64encode [] = []"
| "b64encode [a] =
     (let n = unat a in [b64_char (n div 4), b64_char (n mod 4 * 16), CHR ''='', CHR ''=''])"
| "b64encode [a, b] =
     (let n = unat a; m = unat b in
      [b64_char (n div 4), b64_char (n mod 4 * 16 + m div 16), b64_char (m mod 16 * 4), CHR ''=''])"
| "b64encode (a # b # c # s) =
     (let n = unat a; m = unat b; k = unat c in
      b64_char (n div 4) # b64_char (n mod 4 * 16 + m div 16)
      # b64_char (m mod 16 * 4 + k div 64) # b64_char (k mod 64) # b64encode s)"

text \<open>
  \<open>binascii.a2b_base64\<close> in its non-strict mode, the decoder behind \<open>base64.b64decode\<close>:
  position in the quad, the bits left over, the pads seen. Characters outside the alphabet
  are skipped and a complete pad ends the input.
\<close>

fun a2b :: "nat \<Rightarrow> nat \<Rightarrow> nat \<Rightarrow> string \<Rightarrow> bytes py" where
  "a2b q l p [] = (if q = 0 then Inr [] else raise BinasciiError)"
| "a2b q l p (c # s) =
     (if c = CHR ''='' then
        (if 2 \<le> q \<and> 4 \<le> q + Suc p then Inr [] else a2b q l (if 2 \<le> q then Suc p else p) s)
      else case b64_val c of
          None \<Rightarrow> a2b q l p s
        | Some v \<Rightarrow>
            (if q = 0 then a2b 1 v 0 s
             else if q = 1 then bindR (a2b 2 (v mod 16) 0 s) (\<lambda>r. Inr (of_nat (l * 4 + v div 16) # r))
             else if q = 2 then bindR (a2b 3 (v mod 4) 0 s) (\<lambda>r. Inr (of_nat (l * 16 + v div 4) # r))
             else bindR (a2b 0 0 0 s) (\<lambda>r. Inr (of_nat (l * 64 + v) # r))))"

definition b64decode :: "string \<Rightarrow> bytes py" where
  "b64decode s = a2b 0 0 0 s"

definition is_std_b64 :: "string \<Rightarrow> bool" where
  "is_std_b64 s \<longleftrightarrow> list_all (\<lambda>c. is_alnum c \<or> c = CHR ''+'' \<or> c = CHR ''/'') s"

definition b64_url_decode :: "string \<Rightarrow> bytes py" where
  "b64_url_decode data0 =
    (let data = remove_char (CHR '','')
                 (replace_char (CHR ''_'') (CHR ''/'') (replace_char (CHR ''-'') (CHR ''+'') data0))
     in if \<not> is_std_b64 data then raise BinasciiError
        else b64decode (data @ replicate ((4 - length data mod 4) mod 4) (CHR ''='')))"

definition b64_url_encode :: "bytes \<Rightarrow> string" where
  "b64_url_encode data =
     rstrip_by (\<lambda>c. c = CHR ''='')
       (replace_char (CHR ''/'') (CHR ''_'') (replace_char (CHR ''+'') (CHR ''-'') (b64encode data)))"

lemma of_char_b64:
  "n < 64 \<Longrightarrow> (of_char (b64_char n) :: nat) =
     (if n < 26 then 65 + n else if n < 52 then 71 + n else if n < 62 then n - 4
      else if n = 62 then 43 else 47)"
  by (auto simp: b64_char_def)

lemma char_neq_code: "(of_char c :: nat) \<noteq> of_char d \<Longrightarrow> c \<noteq> d"
  by auto

lemma b64_char_facts:
  assumes "n < 64"
  shows "b64_val (b64_char n) = Some n" and "b64_char n \<noteq> CHR ''=''"
    and "b64_char n \<noteq> CHR '',''" and "b64_char n \<noteq> CHR ''-''" and "b64_char n \<noteq> CHR ''_''"
    and "is_alnum (b64_char n) \<or> b64_char n = CHR ''+'' \<or> b64_char n = CHR ''/''"
proof -
  note c = of_char_b64 [OF assms]
  show "b64_val (b64_char n) = Some n" using assms by (auto simp: b64_val_def c Let_def)
  show "b64_char n \<noteq> CHR ''=''" "b64_char n \<noteq> CHR '',''"
    "b64_char n \<noteq> CHR ''-''" "b64_char n \<noteq> CHR ''_''"
    using assms by (auto intro!: char_neq_code simp: c split: if_splits)
  show "is_alnum (b64_char n) \<or> b64_char n = CHR ''+'' \<or> b64_char n = CHR ''/''"
  proof (cases "n < 62")
    case True
    then show ?thesis by (auto simp: is_alnum_def is_digit_def is_upper_def is_lower_def c Let_def)
  qed (simp add: b64_char_def)
qed

text \<open>The arithmetic of regrouping three bytes as four sextets.\<close>

lemma sextets:
  fixes a b c :: nat
  shows "a < 256 \<Longrightarrow> a div 4 < 64" and "a mod 4 * 16 < 64" and "b mod 16 * 4 < 64"
    and "b < 256 \<Longrightarrow> a mod 4 * 16 + b div 16 < 64"
    and "c < 256 \<Longrightarrow> b mod 16 * 4 + c div 64 < 64" and "c mod 64 < 64"
  by linarith+

lemma div_mod_pair:
  fixes x y n :: nat
  assumes "x < n"
  shows "(y * n + x) div n = y" and "(y * n + x) mod n = x"
  using assms by simp_all

lemma regroup:
  fixes a b c :: nat
  shows "a div 4 * 4 + (a mod 4 * 16) div 16 = a"
    and "b < 256 \<Longrightarrow> a div 4 * 4 + (a mod 4 * 16 + b div 16) div 16 = a"
    and "b < 256 \<Longrightarrow> (a mod 4 * 16 + b div 16) mod 16 * 16 + (b mod 16 * 4) div 4 = b"
    and "b < 256 \<Longrightarrow> c < 256 \<Longrightarrow>
      (a mod 4 * 16 + b div 16) mod 16 * 16 + (b mod 16 * 4 + c div 64) div 4 = b"
    and "c < 256 \<Longrightarrow> (b mod 16 * 4 + c div 64) mod 4 * 64 + c mod 64 = c"
proof -
  have q: "b < 256 \<Longrightarrow> b div 16 < 16" "c < 256 \<Longrightarrow> c div 64 < 4" by linarith+
  show "a div 4 * 4 + (a mod 4 * 16) div 16 = a" by simp
  show "b < 256 \<Longrightarrow> a div 4 * 4 + (a mod 4 * 16 + b div 16) div 16 = a"
    using q(1) by (simp only: div_mod_pair div_mult_mod_eq)
  show "b < 256 \<Longrightarrow> (a mod 4 * 16 + b div 16) mod 16 * 16 + (b mod 16 * 4) div 4 = b"
    using q(1) by (simp add: div_mod_pair)
  show "b < 256 \<Longrightarrow> c < 256 \<Longrightarrow>
      (a mod 4 * 16 + b div 16) mod 16 * 16 + (b mod 16 * 4 + c div 64) div 4 = b"
    using q by (simp only: div_mod_pair div_mult_mod_eq)
  show "c < 256 \<Longrightarrow> (b mod 16 * 4 + c div 64) mod 4 * 64 + c mod 64 = c"
    using q(2) by (simp only: div_mod_pair div_mult_mod_eq)
qed

text \<open>The encoding without its padding, as sextets.\<close>

fun b64raw :: "bytes \<Rightarrow> nat list" where
  "b64raw [] = []"
| "b64raw [a] = (let n = unat a in [n div 4, n mod 4 * 16])"
| "b64raw [a, b] =
     (let n = unat a; m = unat b in [n div 4, n mod 4 * 16 + m div 16, m mod 16 * 4])"
| "b64raw (a # b # c # s) =
     (let n = unat a; m = unat b; k = unat c in
      n div 4 # (n mod 4 * 16 + m div 16) # (m mod 16 * 4 + k div 64) # k mod 64 # b64raw s)"

definition b64_pad :: "nat \<Rightarrow> string" where
  "b64_pad n = replicate ((4 - n mod 4) mod 4) (CHR ''='')"

lemma b64raw_bounds: "list_all (\<lambda>v. v < 64) (b64raw bs)"
  by (induction bs rule: b64raw.induct)
    (simp_all only: b64raw.simps Let_def list.pred_inject sextets unat_byte_less simp_thms)

lemma b64raw_bound: "v \<in> set (b64raw bs) \<Longrightarrow> v < 64"
  using b64raw_bounds by (simp add: list_all_iff)

lemma b64_pad_simps [simp]:
  "b64_pad 0 = []" "b64_pad (Suc (Suc 0)) = ''==''" "b64_pad (Suc (Suc (Suc 0))) = ''=''"
  "b64_pad (Suc (Suc (Suc (Suc n)))) = b64_pad n"
proof -
  have "Suc (Suc (Suc (Suc n))) = n + 4" by simp
  then show "b64_pad (Suc (Suc (Suc (Suc n)))) = b64_pad n"
    unfolding b64_pad_def by (simp only: mod_add_self2)
qed (simp_all add: b64_pad_def numeral_2_eq_2)

lemma b64encode_raw: "b64encode bs = map b64_char (b64raw bs) @ b64_pad (length (b64raw bs))"
  by (induction bs rule: b64encode.induct) (simp_all add: Let_def b64_pad_simps)

lemma unat_byte_eq: "v = unat b \<Longrightarrow> (of_nat v :: byte) = b"
  by simp

lemma a2b_steps [simp]:
  assumes "v < 64"
  shows "a2b 0 l p (b64_char v # s) = a2b 1 v 0 s"
    and "a2b (Suc 0) l p (b64_char v # s) =
      bindR (a2b 2 (v mod 16) 0 s) (\<lambda>r. Inr (of_nat (l * 4 + v div 16) # r))"
    and "a2b 2 l p (b64_char v # s) =
      bindR (a2b 3 (v mod 4) 0 s) (\<lambda>r. Inr (of_nat (l * 16 + v div 4) # r))"
    and "a2b 3 l p (b64_char v # s) = bindR (a2b 0 0 0 s) (\<lambda>r. Inr (of_nat (l * 64 + v) # r))"
  using b64_char_facts(1,2) [OF assms] by simp_all

declare a2b.simps(2) [simp del]

lemma a2b_pads: "a2b 2 l 0 ''=='' = Inr []" "a2b 3 l 0 ''='' = Inr []"
  by (simp_all add: a2b.simps(2))

lemma a2b_raw:
  "a2b 0 0 0 (map b64_char (b64raw bs) @ b64_pad (length (b64raw bs))) = Inr bs"
proof (induction bs rule: b64raw.induct)
  case (2 a)
  have "(of_nat (unat a div 4 * 4 + unat a mod 4 * 16 div 16) :: byte) = a"
    by (rule unat_byte_eq) (rule regroup(1))
  then show ?case
    by (simp only: b64raw.simps Let_def list.map list.size append.simps a2b_steps sextets
        unat_byte_less a2b_pads bindR_simps add_0_right add_Suc_right One_nat_def b64_pad_simps)
next
  case (3 a b)
  have "(of_nat (unat a div 4 * 4 + (unat a mod 4 * 16 + unat b div 16) div 16) :: byte) = a"
    by (rule unat_byte_eq) (rule regroup(2) [OF unat_byte_less])
  moreover have "(of_nat ((unat a mod 4 * 16 + unat b div 16) mod 16 * 16
      + (unat b mod 16 * 4) div 4) :: byte) = b"
    by (rule unat_byte_eq) (rule regroup(3) [OF unat_byte_less])
  ultimately show ?case
    by (simp only: b64raw.simps Let_def list.map list.size append.simps a2b_steps sextets
        unat_byte_less a2b_pads bindR_simps add_0_right add_Suc_right One_nat_def b64_pad_simps)
next
  case (4 a b c s)
  let ?x = "unat a mod 4 * 16 + unat b div 16" and ?y = "unat b mod 16 * 4 + unat c div 64"
  have e: "(of_nat (unat a div 4 * 4 + ?x div 16) :: byte) = a"
    "(of_nat (?x mod 16 * 16 + ?y div 4) :: byte) = b"
    "(of_nat (?y mod 4 * 64 + unat c mod 64) :: byte) = c"
    by (rule unat_byte_eq, rule regroup, (rule unat_byte_less)+)+
  show ?case
    by (simp only: b64raw.simps Let_def list.map list.size append.simps a2b_steps sextets
        unat_byte_less bindR_simps add_0_right add_Suc_right One_nat_def b64_pad_simps e 4)
qed simp

lemma b64_url_raw:
  "b64_url_encode bs =
     replace_char (CHR ''/'') (CHR ''_'')
       (replace_char (CHR ''+'') (CHR ''-'') (map b64_char (b64raw bs)))"
proof -
  let ?t = "\<lambda>s. replace_char (CHR ''/'') (CHR ''_'') (replace_char (CHR ''+'') (CHR ''-'') s)"
  have app: "?t (s @ t) = ?t s @ ?t t" for s t by (simp add: replace_char_def)
  have "?t (b64_pad n) = b64_pad n" for n by (simp add: replace_char_def b64_pad_def)
  moreover have "\<forall>c \<in> set (b64_pad n). c = CHR ''=''" for n by (simp add: b64_pad_def)
  moreover have "\<forall>c \<in> set (?t (map b64_char (b64raw bs))). c \<noteq> CHR ''=''"
    using b64_char_facts(2) [OF b64raw_bound] by (fastforce simp: replace_char_def)
  ultimately show ?thesis
    unfolding b64_url_encode_def b64encode_raw app by (simp add: rstrip_by_append_all rstrip_by_all)
qed

lemma b64_retranslate:
  "replace_char (CHR ''_'') (CHR ''/'') (replace_char (CHR ''-'') (CHR ''+'') (b64_url_encode bs))
     = map b64_char (b64raw bs)"
proof -
  have id: "map f (b64raw bs) = map b64_char (b64raw bs)"
    if "\<And>n. n < 64 \<Longrightarrow> f n = b64_char n" for f
    using that b64raw_bound by auto
  show ?thesis
    unfolding b64_url_raw replace_char_def map_map by (rule id) (auto simp: b64_char_facts)
qed

lemma b64_untranslate:
  "remove_char (CHR '','') (replace_char (CHR ''_'') (CHR ''/'')
     (replace_char (CHR ''-'') (CHR ''+'') (b64_url_encode bs))) = map b64_char (b64raw bs)"
  unfolding b64_retranslate remove_char_def
  using b64raw_bound b64_char_facts(3) by (auto intro!: filter_True)

lemma b64_url_decode_encode: "b64_url_decode (b64_url_encode bs) = Inr bs"
proof -
  have "is_std_b64 (map b64_char (b64raw bs))"
    using b64raw_bound b64_char_facts(6) by (auto simp: is_std_b64_def list_all_iff)
  then show ?thesis
    unfolding b64_url_decode_def b64_untranslate Let_def b64decode_def
    using a2b_raw [of bs] by (simp add: b64_pad_def)
qed

text \<open>Decoding inverts encoding for MEGA's unpadded URL alphabet, on every byte string.\<close>

theorem b64_url_roundtrip: "b64_url_decode (b64_url_encode bs) = Inr bs"
  by (rule b64_url_decode_encode)

section \<open>Arrays of 32-bit words\<close>

type_synonym a32 = "32 word list"

definition bytes_to_a32 :: "bytes \<Rightarrow> a32" where
  "bytes_to_a32 data =
    (let padded = (if length data mod 4 \<noteq> 0 then data @ zeros (4 - length data mod 4) else data)
     in map (\<lambda>b. of_nat (nat_of_be b)) (blocks_of 4 padded))"

definition a32_to_bytes :: "a32 \<Rightarrow> bytes" where
  "a32_to_bytes arr = concat (map (\<lambda>w. be_of_nat 4 (unat w)) arr)"

definition a32_to_str :: "a32 \<Rightarrow> string" where
  "a32_to_str arr = b64_url_encode (a32_to_bytes arr)"

definition str_to_a32 :: "string \<Rightarrow> a32 py" where
  "str_to_a32 s = bindR (b64_url_decode s) (\<lambda>b. Inr (bytes_to_a32 b))"

lemma length_a32_to_bytes [simp, mb_len]: "length (a32_to_bytes a) = 4 * length a"
  by (induction a) (auto simp: a32_to_bytes_def)

lemma unat_word32: "unat (w :: 32 word) < 256 ^ 4"
  using unsigned_less [of w, where 'a = nat] by simp

lemma bytes_to_a32_aligned:
  "4 dvd length data \<Longrightarrow> bytes_to_a32 data = map (\<lambda>b. of_nat (nat_of_be b)) (blocks_of 4 data)"
  by (simp add: bytes_to_a32_def dvd_eq_mod_eq_0)

lemma bytes_to_a32_to_bytes [simp]: "bytes_to_a32 (a32_to_bytes a) = a"
proof -
  have "blocks_of 4 (a32_to_bytes a) = map (\<lambda>w. be_of_nat 4 (unat w)) a"
    unfolding a32_to_bytes_def by (rule blocks_of_concat) auto
  moreover have "(of_nat (nat_of_be (be_of_nat 4 (unat w))) :: 32 word) = w" for w :: "32 word"
    by (simp only: nat_of_be_be_of_nat [OF unat_word32] of_nat_unat ucast_id)
  ultimately show ?thesis
    by (simp add: bytes_to_a32_aligned comp_def del: of_nat_unat)
qed

lemma a32_to_bytes_of_bytes:
  assumes "4 dvd length data"
  shows "a32_to_bytes (bytes_to_a32 data) = data"
proof -
  have "be_of_nat 4 (unat (of_nat (nat_of_be b) :: 32 word)) = b" if "length b = 4" for b
  proof -
    have "nat_of_be b < 256 ^ 4" using nat_of_be_less [of b] that by simp
    then have "unat (of_nat (nat_of_be b) :: 32 word) = nat_of_be b"
      by (simp add: unat_of_nat take_bit_eq_mod)
    then show ?thesis using be_of_nat_nat_of_be [OF that] by simp
  qed
  then have "map (\<lambda>b. be_of_nat 4 (unat (of_nat (nat_of_be b) :: 32 word))) (blocks_of 4 data)
      = blocks_of 4 data"
    using blocks_of_length [OF _ assms] by (intro map_idI) auto
  then show ?thesis
    using assms by (simp add: bytes_to_a32_aligned a32_to_bytes_def comp_def)
qed

lemma length_bytes_to_a32: "4 dvd length data \<Longrightarrow> 4 * length (bytes_to_a32 data) = length data"
  using arg_cong [OF a32_to_bytes_of_bytes, of data length] by simp

text \<open>The key strings of links and API replies parse back to the word array they print.\<close>

theorem a32_str_roundtrip: "str_to_a32 (a32_to_str a) = Inr a"
  by (simp add: str_to_a32_def a32_to_str_def b64_url_decode_encode)

end
