(* ===== verification/Cipher.thy ===== *)
theory Cipher
  imports Encoding
begin

text \<open>
  The ciphers and keys of \<open>core/crypto.py\<close>: CBC and CTR, key wrapping, file keys, legacy
  key derivation and password links.

  AES itself and the key derivation functions are third-party code. The block cipher is a
  parameter \<open>aes\<close> with the hypothesis \<open>aes_ok\<close> (16-byte blocks, mutual inverses); the modes
  CBC and CTR are written out as NIST SP 800-38A defines them, with the length errors
  PyCryptodome raises. PBKDF2, HMAC-SHA256 and \<open>os.urandom\<close> are function arguments.

  The locale \<open>seek_cipher\<close> is the law every consumer of the content cipher rests on: a
  segment decrypted at its own offset is the segment of the whole decryption.
\<close>

section \<open>AES modes\<close>

record aes =
  enc_block :: "bytes \<Rightarrow> bytes \<Rightarrow> bytes"
  dec_block :: "bytes \<Rightarrow> bytes \<Rightarrow> bytes"

definition aes_key_size :: "bytes \<Rightarrow> bool" where
  "aes_key_size key \<longleftrightarrow> length key \<in> {16, 24, 32}"

text \<open>What FIPS 197 promises of the block cipher.\<close>

definition aes_ok :: "aes \<Rightarrow> bool" where
  "aes_ok C \<longleftrightarrow> (\<forall>k b. aes_key_size k \<longrightarrow> length b = 16 \<longrightarrow>
     length (enc_block C k b) = 16 \<and> length (dec_block C k b) = 16
     \<and> dec_block C k (enc_block C k b) = b \<and> enc_block C k (dec_block C k b) = b)"

text \<open>A cipher that satisfies the hypothesis, for examples: XOR with 16 bytes of the key.\<close>

definition demo_aes :: aes where
  "demo_aes = \<lparr>enc_block = \<lambda>k b. xor_bytes b (take 16 k), dec_block = \<lambda>k b. xor_bytes b (take 16 k)\<rparr>"

lemma demo_aes_ok: "aes_ok demo_aes"
  by (auto simp: aes_ok_def demo_aes_def aes_key_size_def xor_bytes_cancel)

fun cbc_enc :: "(bytes \<Rightarrow> bytes) \<Rightarrow> bytes \<Rightarrow> bytes list \<Rightarrow> bytes list" where
  "cbc_enc E prev [] = []"
| "cbc_enc E prev (b # bs) = (let c = E (xor_bytes b prev) in c # cbc_enc E c bs)"

fun cbc_dec :: "(bytes \<Rightarrow> bytes) \<Rightarrow> bytes \<Rightarrow> bytes list \<Rightarrow> bytes list" where
  "cbc_dec D prev [] = []"
| "cbc_dec D prev (c # cs) = xor_bytes (D c) prev # cbc_dec D c cs"

text \<open>\<open>AES.new(key, MODE_CBC, iv).encrypt(data)\<close> and \<open>.decrypt(data)\<close>.\<close>

definition cbc_encrypt :: "aes \<Rightarrow> bytes \<Rightarrow> bytes \<Rightarrow> bytes \<Rightarrow> bytes py" where
  "cbc_encrypt C key iv data =
    (if \<not> aes_key_size key \<or> length iv \<noteq> 16 \<or> length data mod 16 \<noteq> 0 then raise ValueError
     else Inr (concat (cbc_enc (enc_block C key) iv (blocks_of 16 data))))"

definition cbc_decrypt :: "aes \<Rightarrow> bytes \<Rightarrow> bytes \<Rightarrow> bytes \<Rightarrow> bytes py" where
  "cbc_decrypt C key iv data =
    (if \<not> aes_key_size key \<or> length iv \<noteq> 16 \<or> length data mod 16 \<noteq> 0 then raise ValueError
     else Inr (concat (cbc_dec (dec_block C key) iv (blocks_of 16 data))))"

definition aes_cbc_encrypt :: "aes \<Rightarrow> bytes \<Rightarrow> bytes \<Rightarrow> bytes py" where
  "aes_cbc_encrypt C data key = cbc_encrypt C key (zeros 16) data"

definition aes_cbc_decrypt :: "aes \<Rightarrow> bytes \<Rightarrow> bytes \<Rightarrow> bytes py" where
  "aes_cbc_decrypt C data key = cbc_decrypt C key (zeros 16) data"

text \<open>The key wrap starts a new cipher with a zero IV for every 16-byte block.\<close>

definition aes_key_wrap_encrypt :: "aes \<Rightarrow> bytes \<Rightarrow> bytes \<Rightarrow> bytes py" where
  "aes_key_wrap_encrypt C data key =
    (if length data mod 16 \<noteq> 0 then raise ValueError
     else foldR (\<lambda>b out. bindR (cbc_encrypt C key (zeros 16) b) (\<lambda>c. Inr (out @ c)))
            (blocks_of 16 data) [])"

definition aes_key_wrap_decrypt :: "aes \<Rightarrow> bytes \<Rightarrow> bytes \<Rightarrow> bytes py" where
  "aes_key_wrap_decrypt C data key =
    (if length data mod 16 \<noteq> 0 then raise ValueError
     else foldR (\<lambda>b out. bindR (cbc_decrypt C key (zeros 16) b) (\<lambda>c. Inr (out @ c)))
            (blocks_of 16 data) [])"

definition aes_cbc_encrypt_a32 :: "aes \<Rightarrow> a32 \<Rightarrow> a32 \<Rightarrow> a32 py" where
  "aes_cbc_encrypt_a32 C data key =
     bindR (aes_cbc_encrypt C (a32_to_bytes data) (a32_to_bytes key)) (\<lambda>b. Inr (bytes_to_a32 b))"

definition aes_cbc_decrypt_a32 :: "aes \<Rightarrow> a32 \<Rightarrow> a32 \<Rightarrow> a32 py" where
  "aes_cbc_decrypt_a32 C data key =
     bindR (aes_cbc_decrypt C (a32_to_bytes data) (a32_to_bytes key)) (\<lambda>b. Inr (bytes_to_a32 b))"

lemma aes_okD:
  assumes "aes_ok C" and "aes_key_size k" and "length b = 16"
  shows "length (enc_block C k b) = 16" and "length (dec_block C k b) = 16"
    and "dec_block C k (enc_block C k b) = b" and "enc_block C k (dec_block C k b) = b"
  using assms by (auto simp: aes_ok_def)

lemma cbc_enc_lengths:
  assumes "aes_ok C" and "aes_key_size k"
    and "\<forall>b \<in> set bs. length b = 16" and "length iv = 16"
  shows "\<forall>c \<in> set (cbc_enc (enc_block C k) iv bs). length c = 16"
  using assms(3,4)
proof (induction bs arbitrary: iv)
  case (Cons b bs)
  have "length (enc_block C k (xor_bytes b iv)) = 16"
    by (rule aes_okD(1) [OF assms(1,2)]) (use Cons.prems in simp)
  with Cons show ?case by (simp add: Let_def)
qed simp

lemma length_cbc_enc [simp]: "length (cbc_enc E iv bs) = length bs"
  by (induction E iv bs rule: cbc_enc.induct) (auto simp: Let_def)

lemma cbc_dec_enc:
  assumes "aes_ok C" and "aes_key_size k"
    and "\<forall>b \<in> set bs. length b = 16" and "length iv = 16"
  shows "cbc_dec (dec_block C k) iv (cbc_enc (enc_block C k) iv bs) = bs"
  using assms(3,4)
proof (induction bs arbitrary: iv)
  case (Cons b bs)
  have x: "length (xor_bytes b iv) = 16" using Cons.prems by simp
  note ok = aes_okD [OF assms(1,2) x]
  have "cbc_dec (dec_block C k) (enc_block C k (xor_bytes b iv))
      (cbc_enc (enc_block C k) (enc_block C k (xor_bytes b iv)) bs) = bs"
    using Cons ok(1) by simp
  then show ?case using Cons.prems ok(3) by (simp add: Let_def xor_bytes_cancel)
qed simp

lemma cbc_encrypt_ok:
  assumes "aes_ok C" and "aes_key_size k" and "length iv = 16" and "16 dvd length data"
  obtains c where "cbc_encrypt C k iv data = Inr c" and "length c = length data"
    and "cbc_decrypt C k iv c = Inr data"
proof -
  let ?bs = "blocks_of 16 data"
  let ?cs = "cbc_enc (enc_block C k) iv ?bs"
  have b16: "\<forall>b \<in> set ?bs. length b = 16" using blocks_of_length [OF _ assms(4)] by simp
  note c16 = cbc_enc_lengths [OF assms(1,2) b16 assms(3)]
  have len: "length (concat ?cs) = length data"
    using length_concat_uniform [OF c16] length_concat_uniform [OF b16] by simp
  have "cbc_decrypt C k iv (concat ?cs) = Inr data"
    using assms len c16 by (simp add: cbc_decrypt_def blocks_of_concat dvd_eq_mod_eq_0 cbc_dec_enc b16)
  moreover have "cbc_encrypt C k iv data = Inr (concat ?cs)"
    using assms by (simp add: cbc_encrypt_def dvd_eq_mod_eq_0)
  ultimately show ?thesis using that len by blast
qed

lemma foldR_collect:
  assumes "\<And>b. b \<in> set bs \<Longrightarrow> f b = Inr (g b)"
  shows "foldR (\<lambda>b out. bindR (f b) (\<lambda>c. Inr (out @ c))) bs out = Inr (out @ concat (map g bs))"
  using assms by (induction bs arbitrary: out) auto

lemma blocks_of_16: "blocks_of 16 b = [b]" if "length b = 16" for b :: bytes
  using blocks_of_append [OF that, of "[]"] by simp

lemma key_wrap_blocks:
  assumes "aes_key_size k" and "16 dvd length data"
  shows "aes_key_wrap_encrypt C data k =
      Inr (concat (map (\<lambda>b. enc_block C k (xor_bytes b (zeros 16))) (blocks_of 16 data)))"
    and "aes_key_wrap_decrypt C data k =
      Inr (concat (map (\<lambda>b. xor_bytes (dec_block C k b) (zeros 16)) (blocks_of 16 data)))"
  using assms blocks_of_length [OF _ assms(2)]
  by (auto simp: aes_key_wrap_encrypt_def aes_key_wrap_decrypt_def dvd_eq_mod_eq_0
      cbc_encrypt_def cbc_decrypt_def blocks_of_16 Let_def intro!: foldR_collect [where out = "[]", simplified])

text \<open>
  Unwrapping a wrapped node key gives the key back, for every AES key size and every
  input made of whole blocks.
\<close>

theorem key_wrap_roundtrip:
  assumes "aes_ok C" and "aes_key_size k" and "16 dvd length data"
  shows "bindR (aes_key_wrap_encrypt C data k) (\<lambda>w. aes_key_wrap_decrypt C w k) = Inr data"
proof -
  let ?e = "\<lambda>b. enc_block C k (xor_bytes b (zeros 16))"
  let ?cs = "map ?e (blocks_of 16 data)"
  have b16: "\<forall>b \<in> set (blocks_of 16 data). length b = 16" using blocks_of_length [OF _ assms(3)] by simp
  have ok: "length (?e b) = 16" "dec_block C k (?e b) = xor_bytes b (zeros 16)" if "length b = 16" for b
    using aes_okD [OF assms(1,2), of "xor_bytes b (zeros 16)"] that by simp_all
  have c16: "\<forall>c \<in> set ?cs. length c = 16" using b16 ok(1) by auto
  have "16 dvd length (concat ?cs)" using length_concat_uniform [OF c16] by simp
  moreover have "map (\<lambda>b. xor_bytes (dec_block C k b) (zeros 16)) ?cs = blocks_of 16 data"
    using b16 ok(2) by (auto simp: comp_def xor_bytes_cancel intro!: map_idI)
  ultimately show ?thesis
    using assms(2,3) c16 by (simp add: key_wrap_blocks blocks_of_concat)
qed

lemma key_wrap_roundtrip_witness:
  "bindR (aes_key_wrap_encrypt demo_aes (replicate 32 7) (replicate 16 5))
     (\<lambda>w. aes_key_wrap_decrypt demo_aes w (replicate 16 5)) = Inr (replicate 32 7)"
  by (rule key_wrap_roundtrip [OF demo_aes_ok]) (simp_all add: aes_key_size_def)

section \<open>Legacy derivation and login hash\<close>

text \<open>\<open>range(0, n, 4)\<close>.\<close>

definition range4 :: "nat \<Rightarrow> nat list" where
  "range4 n = map (\<lambda>q. 4 * q) [0..<(n + 3) div 4]"

definition key_chunk :: "a32 \<Rightarrow> nat \<Rightarrow> a32" where
  "key_chunk pw j = map (\<lambda>i. if i + j < length pw then pw ! (i + j) else 0) [0..<4]"

definition legacy_rounds :: nat where
  "legacy_rounds = 65536"

definition derive_key_legacy :: "aes \<Rightarrow> string \<Rightarrow> a32 py" where
  "derive_key_legacy C password =
    (let pw = bytes_to_a32 (utf8 password)
     in foldR (\<lambda>_. foldR (\<lambda>j pkey. aes_cbc_encrypt_a32 C pkey (key_chunk pw j)) (range4 (length pw)))
          [0..<legacy_rounds] [0x93C467E3, 0x7DB0C7A4, 0xD1BE3F81, 0x0152CB56])"

definition hash_rounds :: nat where
  "hash_rounds = 0x4000"

definition stringhash :: "aes \<Rightarrow> string \<Rightarrow> a32 \<Rightarrow> string py" where
  "stringhash C s aeskey =
    (let s32 = bytes_to_a32 (utf8 s);
         h32 = foldl (\<lambda>h i. h[i mod 4 := h ! (i mod 4) XOR s32 ! i]) [0, 0, 0, 0] [0..<length s32]
     in bindR (foldR (\<lambda>_ h. aes_cbc_encrypt_a32 C h aeskey) [0..<hash_rounds] h32)
          (\<lambda>h. Inr (a32_to_str [h ! 0, h ! 2])))"

lemma cbc_a32_total:
  assumes "aes_ok C" and "length key = 4" and "length data = 4"
  shows "\<exists>r. aes_cbc_encrypt_a32 C data key = Inr r \<and> length r = 4"
proof -
  have "aes_key_size (a32_to_bytes key)" using assms(2) by (simp add: aes_key_size_def)
  then obtain c where "cbc_encrypt C (a32_to_bytes key) (zeros 16) (a32_to_bytes data) = Inr c"
    and "length c = 16"
    using cbc_encrypt_ok [OF assms(1), of "a32_to_bytes key" "zeros 16" "a32_to_bytes data"] assms
    by auto
  moreover from this(2) have "length (bytes_to_a32 c) = 4" using length_bytes_to_a32 [of c] by simp
  ultimately show ?thesis by (simp add: aes_cbc_encrypt_a32_def aes_cbc_encrypt_def)
qed

lemma foldR_total:
  assumes "\<And>x s. x \<in> set xs \<Longrightarrow> P s \<Longrightarrow> \<exists>t. f x s = Inr t \<and> P t" and "P s"
  shows "\<exists>t. foldR f xs s = Inr t \<and> P t"
  using assms
proof (induction xs arbitrary: s)
  case (Cons x xs)
  obtain t where t: "f x s = Inr t" "P t" using Cons.prems(1) [of x s] Cons.prems(2) by auto
  obtain u where "foldR f xs t = Inr u" "P u" using Cons.IH [of t] Cons.prems(1) t(2) by auto
  with t show ?case by simp
qed simp

lemma derive_key_legacy_total:
  assumes "aes_ok C"
  shows "\<exists>k. derive_key_legacy C password = Inr k \<and> length k = 4"
proof -
  have "length (key_chunk pw j) = 4" for pw j by (simp add: key_chunk_def)
  then show ?thesis
    unfolding derive_key_legacy_def Let_def
    by (intro foldR_total [where P = "\<lambda>k. length k = 4"] cbc_a32_total assms) simp_all
qed

lemma stringhash_total:
  assumes "aes_ok C" and "length aeskey = 4"
  shows "\<exists>h. stringhash C s aeskey = Inr h"
proof -
  let ?f = "\<lambda>h i. h[i mod 4 := h ! (i mod 4) XOR bytes_to_a32 (utf8 s) ! i]"
  have "length (foldl ?f h xs) = length h" for h :: a32 and xs
    by (induction xs arbitrary: h) auto
  then have "\<exists>h. foldR (\<lambda>_ h. aes_cbc_encrypt_a32 C h aeskey) [0..<hash_rounds]
      (foldl ?f [0, 0, 0, 0] [0..<length (bytes_to_a32 (utf8 s))]) = Inr h \<and> length h = 4"
    by (intro foldR_total cbc_a32_total assms) simp_all
  then show ?thesis by (auto simp: stringhash_def Let_def)
qed

section \<open>AES-CTR\<close>

text \<open>
  A CTR cipher object: its key, its nonce and the position in the key stream. Key-stream
  byte \<open>p\<close> is byte \<open>p mod 16\<close> of the encryption of the nonce followed by the 64-bit block
  counter \<open>p div 16\<close>.
\<close>

record ctr_cipher =
  cc_key :: bytes
  cc_nonce :: bytes
  cc_pos :: nat

definition ctr_keystream :: "aes \<Rightarrow> bytes \<Rightarrow> bytes \<Rightarrow> nat \<Rightarrow> byte" where
  "ctr_keystream C key nonce p = enc_block C key (nonce @ be_of_nat 8 (p div 16)) ! (p mod 16)"

definition ctr_crypt :: "aes \<Rightarrow> bytes \<Rightarrow> bytes \<Rightarrow> nat \<Rightarrow> bytes \<Rightarrow> bytes" where
  "ctr_crypt C key nonce p xs = xor_bytes xs (map (ctr_keystream C key nonce) [p..<p + length xs])"

text \<open>\<open>cipher.encrypt(data)\<close>, which is also \<open>cipher.decrypt(data)\<close>.\<close>

definition ctr_update :: "aes \<Rightarrow> ctr_cipher \<Rightarrow> bytes \<Rightarrow> bytes \<times> ctr_cipher" where
  "ctr_update C c data =
     (ctr_crypt C (cc_key c) (cc_nonce c) (cc_pos c) data, c\<lparr>cc_pos := cc_pos c + length data\<rparr>)"

definition make_ctr_cipher :: "bytes \<Rightarrow> bytes \<Rightarrow> nat \<Rightarrow> ctr_cipher py" where
  "make_ctr_cipher key nonce initial_value =
    (if length key \<noteq> 16 then raise ValueError
     else if length nonce \<noteq> 8 then raise ValueError
     else Inr \<lparr>cc_key = key, cc_nonce = nonce, cc_pos = 16 * initial_value\<rparr>)"

definition ctr_offset_to_counter :: "nat \<Rightarrow> nat py" where
  "ctr_offset_to_counter byte_offset =
    (if byte_offset mod 16 \<noteq> 0 then raise ValueError else Inr (byte_offset div 16))"

text \<open>A cipher fed one segment after another.\<close>

fun seg_crypt :: "(nat \<Rightarrow> bytes \<Rightarrow> bytes) \<Rightarrow> nat \<Rightarrow> bytes list \<Rightarrow> bytes" where
  "seg_crypt f p [] = []"
| "seg_crypt f p (b # bs) = f p b @ seg_crypt f (p + length b) bs"

locale seek_cipher =
  fixes crypt :: "nat \<Rightarrow> bytes \<Rightarrow> bytes"
  assumes crypt_length: "length (crypt p xs) = length xs"
    and crypt_append: "crypt p (xs @ ys) = crypt p xs @ crypt (p + length xs) ys"
    and crypt_crypt: "crypt p (crypt p xs) = xs"
begin

lemma crypt_Nil: "crypt p [] = []"
  using crypt_length [of p "[]"] by simp

lemma crypt_segments: "seg_crypt crypt p bs = crypt p (concat bs)"
  by (induction bs arbitrary: p) (simp_all add: crypt_Nil crypt_append)

lemma crypt_drop: "i \<le> length xs \<Longrightarrow> drop i (crypt p xs) = crypt (p + i) (drop i xs)"
  using crypt_append [of p "take i xs" "drop i xs"] crypt_length [of p "take i xs"] by simp

lemma crypt_take: "take i (crypt p xs) = crypt p (take i xs)"
proof (cases "i \<le> length xs")
  case True
  then show ?thesis
    using crypt_append [of p "take i xs" "drop i xs"] crypt_length [of p "take i xs"] by simp
next
  case False
  then show ?thesis using crypt_length [of p xs] by simp
qed

text \<open>The window law: a range of the whole is the same range crypted at its own offset.\<close>

lemma crypt_slice: "i \<le> length xs \<Longrightarrow> slice i j (crypt p xs) = crypt (p + i) (slice i j xs)"
  by (simp add: slice_def crypt_drop crypt_take)

lemma crypt_window:
  "i \<le> length xs \<Longrightarrow> crypt (p + i) (slice i j (crypt p xs)) = slice i j xs"
  by (simp add: crypt_slice crypt_crypt)

lemma crypt_inj: "crypt p xs = crypt p ys \<Longrightarrow> xs = ys"
  by (metis crypt_crypt)

end

lemma ctr_crypt_length: "length (ctr_crypt C k n p xs) = length xs"
  by (simp add: ctr_crypt_def)

lemma ctr_crypt_append:
  "ctr_crypt C k n p (xs @ ys) = ctr_crypt C k n p xs @ ctr_crypt C k n (p + length xs) ys"
proof -
  have "[p..<p + length (xs @ ys)] = [p..<p + length xs] @ [p + length xs..<p + length xs + length ys]"
    using upt_add_eq_append [of p "p + length xs" "length ys"] by (simp add: add.assoc)
  then show ?thesis by (simp add: ctr_crypt_def xor_bytes_append)
qed

interpretation ctr: seek_cipher "ctr_crypt C key nonce" for C key nonce
proof unfold_locales
  fix p xs
  show "ctr_crypt C key nonce p (ctr_crypt C key nonce p xs) = xs"
    by (simp add: ctr_crypt_def xor_bytes_cancel)
qed (simp_all only: ctr_crypt_length ctr_crypt_append)

text \<open>The cipher the program opens for a byte offset, run over consecutive segments.\<close>

definition open_at :: "bytes \<Rightarrow> bytes \<Rightarrow> nat \<Rightarrow> ctr_cipher py" where
  "open_at key nonce off =
     bindR (ctr_offset_to_counter off) (\<lambda>n. make_ctr_cipher key nonce n)"

fun ctr_feed :: "aes \<Rightarrow> ctr_cipher \<Rightarrow> bytes list \<Rightarrow> bytes" where
  "ctr_feed C c [] = []"
| "ctr_feed C c (b # bs) = (case ctr_update C c b of (out, c') \<Rightarrow> out @ ctr_feed C c' bs)"

lemma ctr_feed_seg: "ctr_feed C c bs = seg_crypt (ctr_crypt C (cc_key c) (cc_nonce c)) (cc_pos c) bs"
  by (induction bs arbitrary: c) (auto simp: ctr_update_def)

lemma ctr_feed_concat: "ctr_feed C c bs = ctr_crypt C (cc_key c) (cc_nonce c) (cc_pos c) (concat bs)"
  by (simp add: ctr_feed_seg ctr.crypt_segments)

lemma open_at_iff:
  "open_at k n off = Inr c \<longleftrightarrow>
     16 dvd off \<and> length k = 16 \<and> length n = 8 \<and> c = \<lparr>cc_key = k, cc_nonce = n, cc_pos = off\<rparr>"
  by (auto simp: open_at_def ctr_offset_to_counter_def make_ctr_cipher_def bindR_Inr_iff
      dvd_eq_mod_eq_0 split: if_splits)

text \<open>
  Random access is exact. A cipher opened at an aligned offset of the encrypted file
  and fed any segmentation of the bytes of a window yields the plaintext of that window.
\<close>

theorem ctr_random_access:
  assumes "open_at key nonce off = Inr c" and "off \<le> length plain"
    and "concat segs = slice off stop (ctr_crypt C key nonce 0 plain)"
  shows "ctr_feed C c segs = slice off stop plain"
  using assms ctr.crypt_window [of off plain C key nonce 0 stop]
  by (simp add: ctr_feed_concat open_at_iff)

lemma ctr_random_access_witness:
  "ctr_feed demo_aes \<lparr>cc_key = replicate 16 3, cc_nonce = replicate 8 1, cc_pos = 16\<rparr>
     [slice 16 20 (ctr_crypt demo_aes (replicate 16 3) (replicate 8 1) 0 (replicate 40 9))]
   = slice 16 20 (replicate 40 9)"
  by (rule ctr_random_access [where key = "replicate 16 3" and nonce = "replicate 8 1" and off = 16])
    (simp_all add: open_at_iff)

end
