(* ===== verification/Keys.thy ===== *)
theory Keys
  imports Cipher
begin

text \<open>
  File keys and password links of \<open>core/crypto.py\<close>. A file key is eight 32-bit words; the
  AES key is the XOR of its halves, the second half is the CTR nonce and the condensed MAC.
  PBKDF2-HMAC-SHA512 and HMAC-SHA256 are a record of functions; \<open>prims_ok\<close> is the length
  their documentation gives for their results.
\<close>

section \<open>File keys\<close>

definition unpack_file_key :: "a32 \<Rightarrow> (bytes \<times> bytes \<times> a32) py" where
  "unpack_file_key k =
    (if length k \<noteq> 8 then raise ValueError
     else Inr (a32_to_bytes [k ! 0 XOR k ! 4, k ! 1 XOR k ! 5, k ! 2 XOR k ! 6, k ! 3 XOR k ! 7],
               a32_to_bytes (slice 4 6 k), slice 6 8 k))"

definition pack_file_key :: "bytes \<Rightarrow> bytes \<Rightarrow> a32 \<Rightarrow> a32 py" where
  "pack_file_key aes_key nonce mac_iv =
    (let a = bytes_to_a32 aes_key; n = bytes_to_a32 nonce
     in if length a < 4 \<or> length n < 2 \<or> length mac_iv < 2 then raise IndexError
        else Inr [a ! 0 XOR n ! 0, a ! 1 XOR n ! 1, a ! 2 XOR mac_iv ! 0, a ! 3 XOR mac_iv ! 1,
                  n ! 0, n ! 1, mac_iv ! 0, mac_iv ! 1])"

lemma list_of_length_2: "length k = 2 \<Longrightarrow> k = [k ! 0, k ! 1]"
  by (cases k; cases "tl k") auto

lemma list_of_length_4: "length k = 4 \<Longrightarrow> k = [k ! 0, k ! 1, k ! 2, k ! 3]"
  by (auto simp: list_eq_iff_nth_eq less_Suc_eq numeral_eq_Suc)

lemma list_of_length_8:
  "length k = 8 \<Longrightarrow> k = [k ! 0, k ! 1, k ! 2, k ! 3, k ! 4, k ! 5, k ! 6, k ! 7]"
  by (auto simp: list_eq_iff_nth_eq less_Suc_eq numeral_eq_Suc)

lemma xor_cancel_right [simp]: "(a XOR b) XOR b = (a :: 'a::len word)"
  by (simp add: xor.assoc)

lemma slice_nth: "j \<le> length k \<Longrightarrow> slice i j k = map ((!) k) [i..<j]"
  by (auto simp: slice_def list_eq_iff_nth_eq)

lemma unpack_file_key_ok:
  assumes "length k = 8"
  shows "unpack_file_key k =
    Inr (a32_to_bytes [k ! 0 XOR k ! 4, k ! 1 XOR k ! 5, k ! 2 XOR k ! 6, k ! 3 XOR k ! 7],
         a32_to_bytes [k ! 4, k ! 5], [k ! 6, k ! 7])"
  using assms by (simp add: unpack_file_key_def slice_nth upt_rec)

lemma unpack_file_key_sizes:
  "unpack_file_key k = Inr (a, n, m) \<Longrightarrow> length a = 16 \<and> length n = 8 \<and> length m = 2"
  by (auto simp: unpack_file_key_def length_slice split: if_splits)

lemma pack_unpack_file_key:
  assumes "length k = 8"
  shows "bindR (unpack_file_key k) (\<lambda>(a, n, m). pack_file_key a n m) = Inr k"
  using assms list_of_length_8 [OF assms]
  by (simp add: unpack_file_key_ok pack_file_key_def Let_def)

lemma unpack_pack_file_key:
  assumes "length a = 16" and "length n = 8" and "length m = 2"
  shows "bindR (pack_file_key a n m) unpack_file_key = Inr (a, n, m)"
proof -
  have "length (bytes_to_a32 a) = 4" "length (bytes_to_a32 n) = 2"
    using length_bytes_to_a32 [of a] length_bytes_to_a32 [of n] assms by simp_all
  then obtain a0 a1 a2 a3 n0 n1 where aw: "bytes_to_a32 a = [a0, a1, a2, a3]"
    and nw: "bytes_to_a32 n = [n0, n1]"
    using list_of_length_4 list_of_length_2 by blast
  obtain m0 m1 where mw: "m = [m0, m1]" using assms list_of_length_2 by blast
  have ab: "a32_to_bytes [a0, a1, a2, a3] = a" "a32_to_bytes [n0, n1] = n"
    using a32_to_bytes_of_bytes [of a] a32_to_bytes_of_bytes [of n] assms aw nw by simp_all
  show ?thesis
    by (simp add: pack_file_key_def aw nw mw Let_def unpack_file_key_ok ab)
qed

text \<open>
  The uploader's and the downloader's views of a file key agree. Packing the parts and
  unpacking the result gives exactly the parts, and unpacking any eight-word key and packing
  it again gives the key.
\<close>

theorem file_key_roundtrip:
  assumes "length a = 16" and "length n = 8" and "length m = 2" and "length k = 8"
  shows "bindR (pack_file_key a n m) unpack_file_key = Inr (a, n, m)
    \<and> bindR (unpack_file_key k) (\<lambda>(a, n, m). pack_file_key a n m) = Inr k"
  using unpack_pack_file_key [OF assms(1-3)] pack_unpack_file_key [OF assms(4)] by simp

lemma file_key_roundtrip_witness:
  "bindR (pack_file_key (replicate 16 1) (replicate 8 2) [3, 4]) unpack_file_key
     = Inr (replicate 16 1, replicate 8 2, [3, 4])
   \<and> bindR (unpack_file_key [1, 2, 3, 4, 5, 6, 7, 8]) (\<lambda>(a, n, m). pack_file_key a n m)
     = Inr [1, 2, 3, 4, 5, 6, 7, 8]"
  by (rule file_key_roundtrip) simp_all

section \<open>Password links\<close>

record prims =
  pbkdf2_sha512 :: "bytes \<Rightarrow> bytes \<Rightarrow> nat \<Rightarrow> nat \<Rightarrow> bytes"
  hmac_sha256 :: "bytes \<Rightarrow> bytes \<Rightarrow> bytes"

definition prims_ok :: "prims \<Rightarrow> bool" where
  "prims_ok P \<longleftrightarrow> (\<forall>pw salt n c. length (pbkdf2_sha512 P pw salt n c) = n)
     \<and> (\<forall>k m. length (hmac_sha256 P k m) = 32)"

text \<open>Functions with those lengths, for examples.\<close>

definition demo_prims :: prims where
  "demo_prims = \<lparr>pbkdf2_sha512 = \<lambda>pw salt n c. take n (pw @ salt @ zeros n),
                 hmac_sha256 = \<lambda>k m. take 32 (m @ k @ zeros 32)\<rparr>"

lemma demo_prims_ok: "prims_ok demo_prims"
  by (auto simp: prims_ok_def demo_prims_def)

text \<open>\<open>derive_key_v2\<close> with its default iteration count.\<close>

definition derive_key_v2 :: "prims \<Rightarrow> string \<Rightarrow> bytes \<Rightarrow> bytes" where
  "derive_key_v2 P password salt = pbkdf2_sha512 P (utf8 password) salt 32 100000"

definition derive_password_link_keys :: "prims \<Rightarrow> string \<Rightarrow> bytes \<Rightarrow> nat \<Rightarrow> (bytes \<times> bytes) py" where
  "derive_password_link_keys P password salt algo =
    (if algo \<notin> set [1, 2] then raise ValueError
     else let derived = pbkdf2_sha512 P (utf8 password) salt 64 100000
          in Inr (take 32 derived, drop 32 derived))"

definition decrypt_password_link :: "prims \<Rightarrow> string \<Rightarrow> string \<Rightarrow> (nat \<times> bytes \<times> bytes) py" where
  "decrypt_password_link P encoded_blob password =
    bindR (b64_url_decode encoded_blob) (\<lambda>raw.
      if length raw < 1 + 1 + 6 + 32 + 16 + 32 then raise ValueError
      else let algo = unat (raw ! 0);
               node_type = unat (raw ! 1);
               public_handle = slice 2 8 raw;
               salt = slice 8 40 raw;
               key_len = (if node_type = 0 then 32 else 16);
               encrypted_key = slice 40 (40 + key_len) raw;
               expected_hmac = slice (40 + key_len) (40 + key_len + 32) raw;
               body = slice 0 (40 + key_len) raw
           in bindR (derive_password_link_keys P password salt algo) (\<lambda>(aes_xor_key, hmac_key).
                if hmac_sha256 P hmac_key body \<noteq> expected_hmac then raise ValueError
                else if length encrypted_key \<noteq> length (slice 0 key_len aes_xor_key) then raise ValueError
                else Inr (node_type, public_handle,
                          xor_bytes encrypted_key (slice 0 key_len aes_xor_key))))"

definition encrypt_password_link ::
  "prims \<Rightarrow> bytes \<Rightarrow> nat \<Rightarrow> bytes \<Rightarrow> bytes \<Rightarrow> string \<Rightarrow> nat \<Rightarrow> string py" where
  "encrypt_password_link P salt node_type public_handle raw_key password algo =
    (if node_type \<notin> set [0, 1] then raise ValueError
     else let expected_len = (if node_type = 0 then 32 else 16)
          in if length raw_key \<noteq> expected_len then raise ValueError
             else if length public_handle \<noteq> 6 then raise ValueError
             else bindR (derive_password_link_keys P password salt algo) (\<lambda>(aes_xor_key, hmac_key).
                    if length raw_key \<noteq> length (slice 0 expected_len aes_xor_key) then raise ValueError
                    else let enc_key = xor_bytes raw_key (slice 0 expected_len aes_xor_key);
                             body = [of_nat algo, of_nat node_type] @ public_handle @ salt @ enc_key
                         in Inr (b64_url_encode (body @ hmac_sha256 P hmac_key body))))"

lemma slice_prefix: "length xs = i \<Longrightarrow> length ys = j - i \<Longrightarrow> i \<le> j \<Longrightarrow> slice i j (xs @ ys @ zs) = ys"
  by (simp add: slice_def)

lemma derive_password_link_keys_sizes:
  assumes "prims_ok P" and "derive_password_link_keys P pw salt algo = Inr (x, h)"
  shows "length x = 32 \<and> length h = 32 \<and> (algo = 1 \<or> algo = 2)"
  using assms by (auto simp: derive_password_link_keys_def prims_ok_def Let_def split: if_splits)

lemma password_link_opens:
  assumes "prims_ok P" and "length salt = 32"
    and "encrypt_password_link P salt node_type handle raw_key password algo = Inr blob"
  shows "decrypt_password_link P blob password = Inr (node_type, handle, raw_key)"
proof -
  let ?len = "if node_type = 0 then 32 else 16 :: nat"
  from assms(3) obtain x h where keys: "derive_password_link_keys P password salt algo = Inr (x, h)"
    and t: "node_type = 0 \<or> node_type = 1" and lk: "length raw_key = ?len" and lh: "length handle = 6"
    by (auto simp: encrypt_password_link_def bindR_Inr_iff Let_def split: if_splits)
  note sz = derive_password_link_keys_sizes [OF assms(1) keys]
  define enc where "enc = xor_bytes raw_key (slice 0 ?len x)"
  define body where "body = [of_nat algo, of_nat node_type] @ handle @ salt @ enc"
  define mac where "mac = hmac_sha256 P h body"
  have lx: "length (slice 0 ?len x) = ?len" using sz by (simp add: length_slice)
  have le: "length enc = ?len" using lx lk by (simp add: enc_def)
  have lm: "length mac = 32" using assms(1) by (simp add: mac_def prims_ok_def)
  have lb: "length body = 40 + ?len" using lh assms(2) le by (simp add: body_def)
  have blob: "blob = b64_url_encode (body @ mac)"
    using assms(3) t keys lk lh lx
    by (auto simp: encrypt_password_link_def Let_def enc_def body_def mac_def)
  have nt: "unat (of_nat node_type :: byte) = node_type" "unat (of_nat algo :: byte) = algo"
    using t sz by auto
  have s: "slice 2 8 (body @ mac) = handle" "slice 8 40 (body @ mac) = salt"
    "slice 40 (40 + ?len) (body @ mac) = enc"
    using lh assms(2) le by (auto simp: body_def slice_def)
  have m: "slice (40 + ?len) (40 + ?len + 32) (body @ mac) = mac" "slice 0 (40 + ?len) (body @ mac) = body"
    using lb lm by (simp_all add: slice_def)
  have key: "xor_bytes enc (slice 0 ?len x) = raw_key"
    using lx lk by (simp add: enc_def xor_bytes_cancel)
  have n01: "(body @ mac) ! 0 = of_nat algo" "(body @ mac) ! 1 = of_nat node_type"
    by (simp_all add: body_def)
  have "\<not> length (body @ mac) < 1 + 1 + 6 + 32 + 16 + 32" using lb lm by auto
  then show ?thesis
    unfolding decrypt_password_link_def blob b64_url_decode_encode bindR_simps Let_def n01 nt s m
    by (simp add: keys mac_def [symmetric] le lx key)
qed

text \<open>
  Whatever the key derivation and the MAC compute, a password link built for a node opens
  under the same password to the same node type, handle and key.
\<close>

theorem password_link_roundtrip:
  assumes "prims_ok P" and "length salt = 32"
    and "encrypt_password_link P salt node_type handle raw_key password algo = Inr blob"
  shows "decrypt_password_link P blob password = Inr (node_type, handle, raw_key)"
  by (rule password_link_opens [OF assms])

text \<open>
  Nothing is accepted without the MAC. A blob that opens carries, at the place its node
  type fixes, the HMAC of everything before it under the key derived from the given password.
\<close>

theorem password_link_authentic:
  assumes "decrypt_password_link P blob password = Inr (node_type, handle, key)"
  shows "\<exists>raw x h n. b64_url_decode blob = Inr raw \<and> n = (if node_type = 0 then 72 else 56)
    \<and> derive_password_link_keys P password (slice 8 40 raw) (unat (raw ! 0)) = Inr (x, h)
    \<and> slice n (n + 32) raw = hmac_sha256 P h (slice 0 n raw)
    \<and> node_type = unat (raw ! 1) \<and> handle = slice 2 8 raw
    \<and> length key = length (slice 40 n raw) \<and> key = xor_bytes (slice 40 n raw) (slice 0 (n - 40) x)"
  using assms unfolding decrypt_password_link_def bindR_Inr_iff Let_def
  by (auto simp: bindR_Inr_iff split: if_splits prod.splits)

text \<open>A link built by the program, for the examples of both theorems.\<close>

definition demo_link :: string where
  "demo_link = (case encrypt_password_link demo_prims (replicate 32 9) 1 (replicate 6 2)
      (replicate 16 5) ''pw'' 2 of Inl e \<Rightarrow> [] | Inr b \<Rightarrow> b)"

lemma demo_link_built:
  "encrypt_password_link demo_prims (replicate 32 9) 1 (replicate 6 2) (replicate 16 5) ''pw'' 2
     = Inr demo_link"
  unfolding demo_link_def encrypt_password_link_def derive_password_link_keys_def
  by (simp add: Let_def demo_prims_def length_slice)

lemma password_link_roundtrip_witness:
  "decrypt_password_link demo_prims demo_link ''pw'' = Inr (1, replicate 6 2, replicate 16 5)"
  by (rule password_link_roundtrip [OF demo_prims_ok _ demo_link_built]) simp

lemma demo_link_opens:
  "decrypt_password_link demo_prims demo_link ''pw'' = Inr (1, replicate 6 2, replicate 16 5)"
  by (rule password_link_opens [OF demo_prims_ok _ demo_link_built]) simp

lemma password_link_authentic_witness:
  "\<exists>raw x h n. b64_url_decode demo_link = Inr raw \<and> n = (if (1::nat) = 0 then 72 else 56)
    \<and> derive_password_link_keys demo_prims ''pw'' (slice 8 40 raw) (unat (raw ! 0)) = Inr (x, h)
    \<and> slice n (n + 32) raw = hmac_sha256 demo_prims h (slice 0 n raw)
    \<and> 1 = unat (raw ! 1) \<and> replicate 6 2 = slice 2 8 raw
    \<and> length (replicate 16 (5 :: byte)) = length (slice 40 n raw)
    \<and> replicate 16 5 = xor_bytes (slice 40 n raw) (slice 0 (n - 40) x)"
  by (rule password_link_authentic [OF demo_link_opens])

end
