(* ===== verification/Chunks.thy ===== *)
theory Chunks
  imports Keys
begin

text \<open>
  \<open>core/chunks.py\<close>: the chunk plan of a file (eight growing chunks, then 1 MiB each), its
  closed-form length and the size limit built on it, the per-chunk CBC-MAC and the file MAC.
  File sizes are natural numbers: every caller has rejected a negative size before.

  The locale \<open>chunk_plan\<close> is what the downloader, the uploader and the verifier need of a
  plan: it tiles the file in order. Its lemmas say that the pieces of a plan put together
  are the file, and that writing them in any order, with repetitions, rebuilds it.
\<close>

section \<open>The chunk plan\<close>

record chunk =
  ch_index :: nat
  ch_offset :: nat
  ch_size :: nat

definition ch_end :: "chunk \<Rightarrow> nat" where
  "ch_end c = ch_offset c + ch_size c"

definition CHUNK_SIZES_KB :: "nat list" where
  "CHUNK_SIZES_KB = [128, 256, 384, 512, 640, 768, 896, 1024]"

definition MAX_CHUNK_SIZE :: nat where
  "MAX_CHUNK_SIZE = 1024 * 1024"

function iter_tail :: "nat \<Rightarrow> nat \<Rightarrow> nat \<Rightarrow> chunk list" where
  "iter_tail file_size offset index =
    (if offset < file_size then
       let actual = min MAX_CHUNK_SIZE (file_size - offset)
       in \<lparr>ch_index = index, ch_offset = offset, ch_size = actual\<rparr>
          # iter_tail file_size (offset + actual) (index + 1)
     else [])"
  by pat_completeness auto
termination
  by (relation "measure (\<lambda>(n, off, i). n - off)") (auto simp: MAX_CHUNK_SIZE_def)

declare iter_tail.simps [simp del]

fun iter_ramp :: "nat list \<Rightarrow> nat \<Rightarrow> nat \<Rightarrow> nat \<Rightarrow> chunk list" where
  "iter_ramp [] file_size offset index = iter_tail file_size offset index"
| "iter_ramp (size_kb # rest) file_size offset index =
    (if file_size \<le> offset then []
     else let actual = min (size_kb * 1024) (file_size - offset)
          in \<lparr>ch_index = index, ch_offset = offset, ch_size = actual\<rparr>
             # iter_ramp rest file_size (offset + actual) (index + 1))"

definition iter_chunks :: "nat \<Rightarrow> chunk list" where
  "iter_chunks file_size = iter_ramp CHUNK_SIZES_KB file_size 0 0"

definition MAX_CHUNKS :: nat where
  "MAX_CHUNKS = 200000"

definition MAX_FILE_SIZE :: nat where
  "MAX_FILE_SIZE =
     sum_list (map (\<lambda>kb. kb * 1024) CHUNK_SIZES_KB)
     + (MAX_CHUNKS - length CHUNK_SIZES_KB) * MAX_CHUNK_SIZE"

fun count_ramp :: "nat list \<Rightarrow> nat \<Rightarrow> nat \<Rightarrow> nat \<Rightarrow> nat" where
  "count_ramp [] file_size offset count =
     count + (file_size - offset + MAX_CHUNK_SIZE - 1) div MAX_CHUNK_SIZE"
| "count_ramp (size_kb # rest) file_size offset count =
    (if file_size \<le> offset then count
     else count_ramp rest file_size (offset + min (size_kb * 1024) (file_size - offset)) (count + 1))"

definition chunk_count :: "nat \<Rightarrow> nat" where
  "chunk_count file_size = (if file_size = 0 then 0 else count_ramp CHUNK_SIZES_KB file_size 0 0)"

fun select_range :: "nat \<Rightarrow> nat \<Rightarrow> chunk list \<Rightarrow> chunk list" where
  "select_range start stop [] = []"
| "select_range start stop (ch # chs) =
    (if ch_end ch \<le> start then select_range start stop chs
     else if stop \<le> ch_offset ch then []
     else ch # select_range start stop chs)"

definition chunks_for_range :: "nat \<Rightarrow> nat \<Rightarrow> nat \<Rightarrow> chunk list" where
  "chunks_for_range file_size start stop = select_range start stop (iter_chunks file_size)"

section \<open>Tiling\<close>

fun tiles :: "nat \<Rightarrow> nat \<Rightarrow> chunk list \<Rightarrow> bool" where
  "tiles a b [] \<longleftrightarrow> a = b"
| "tiles a b (c # cs) \<longleftrightarrow> ch_offset c = a \<and> 0 < ch_size c \<and> tiles (ch_end c) b cs"

lemma tiles_le: "tiles a b cs \<Longrightarrow> a \<le> b"
proof (induction cs arbitrary: a)
  case (Cons c cs)
  then have "ch_end c \<le> b" "ch_offset c = a" by auto
  then show ?case by (simp add: ch_end_def)
qed simp

lemma tiles_bounds: "tiles a b cs \<Longrightarrow> c \<in> set cs \<Longrightarrow> a \<le> ch_offset c \<and> ch_end c \<le> b \<and> 0 < ch_size c"
proof (induction cs arbitrary: a)
  case (Cons d cs)
  then have "ch_end d \<le> b" using tiles_le by auto
  with Cons show ?case by (fastforce simp: ch_end_def)
qed simp

lemma tiles_concat:
  "tiles a b cs \<Longrightarrow> concat (map (\<lambda>c. slice (ch_offset c) (ch_end c) xs) cs) = slice a b xs"
proof (induction cs arbitrary: a)
  case (Cons c cs)
  then have t: "tiles (ch_end c) b cs" and o: "ch_offset c = a" by auto
  have "a \<le> ch_end c" "ch_end c \<le> b" using o tiles_le [OF t] by (auto simp: ch_end_def)
  then show ?case using Cons.IH [OF t] o by (simp add: slice_append_adjacent)
qed (simp add: slice_def)

lemma tiles_point: "tiles a b cs \<Longrightarrow> a \<le> i \<Longrightarrow> i < b \<Longrightarrow> \<exists>c \<in> set cs. ch_offset c \<le> i \<and> i < ch_end c"
proof (induction cs arbitrary: a)
  case (Cons c cs)
  show ?case
  proof (cases "i < ch_end c")
    case True
    then show ?thesis using Cons.prems by auto
  next
    case False
    then show ?thesis using Cons.IH [of "ch_end c"] Cons.prems by auto
  qed
qed simp

lemma tiles_sorted: "tiles a b cs \<Longrightarrow> sorted_wrt (\<lambda>c d. ch_end c \<le> ch_offset d) cs"
proof (induction cs arbitrary: a)
  case (Cons c cs)
  then have t: "tiles (ch_end c) b cs" by simp
  show ?case using Cons.IH [OF t] tiles_bounds [OF t] by auto
qed simp

lemma tiles_sum: "tiles a b cs \<Longrightarrow> a + sum_list (map ch_size cs) = b"
proof (induction cs arbitrary: a)
  case (Cons c cs)
  then have "ch_end c + sum_list (map ch_size cs) = b" "ch_offset c = a" by auto
  then show ?case by (simp add: ch_end_def)
qed simp

text \<open>A write at an offset of an open file, which grows the file with zeros when it must.\<close>

definition pwrite :: "nat \<Rightarrow> bytes \<Rightarrow> bytes \<Rightarrow> bytes" where
  "pwrite off data buf =
     take off (buf @ zeros (off - length buf)) @ data @ drop (off + length data) buf"

lemma length_pwrite: "off + length data \<le> length buf \<Longrightarrow> length (pwrite off data buf) = length buf"
  by (simp add: pwrite_def)

lemma nth_pwrite:
  assumes "off + length data \<le> length buf" and "i < length buf"
  shows "pwrite off data buf ! i =
    (if off \<le> i \<and> i < off + length data then data ! (i - off) else buf ! i)"
  using assms by (auto simp: pwrite_def nth_append)

definition write_chunk :: "bytes \<Rightarrow> chunk \<Rightarrow> bytes \<Rightarrow> bytes" where
  "write_chunk xs c buf = pwrite (ch_offset c) (slice (ch_offset c) (ch_end c) xs) buf"

locale chunk_plan =
  fixes plan :: "nat \<Rightarrow> chunk list"
  assumes plan_tiles: "tiles 0 n (plan n)"
    and plan_index: "map ch_index (plan n) = [0..<length (plan n)]"
    and plan_aligned: "c \<in> set (plan n) \<Longrightarrow> 16 dvd ch_offset c"
begin

lemma plan_bounds: "c \<in> set (plan n) \<Longrightarrow> ch_end c \<le> n \<and> 0 < ch_size c"
  using tiles_bounds [OF plan_tiles] by auto

lemma plan_nth_index: "i < length (plan n) \<Longrightarrow> ch_index (plan n ! i) = i"
  using arg_cong [OF plan_index [of n], of "\<lambda>xs. xs ! i"] by simp

lemma plan_index_unique:
  "c \<in> set (plan n) \<Longrightarrow> d \<in> set (plan n) \<Longrightarrow> ch_index c = ch_index d \<Longrightarrow> c = d"
  using plan_nth_index by (metis in_set_conv_nth)

lemma plan_split: "concat (map (\<lambda>c. slice (ch_offset c) (ch_end c) xs) (plan (length xs))) = xs"
  using tiles_concat [OF plan_tiles [of "length xs"], of xs] by (simp add: slice_all)

lemma plan_disjoint:
  assumes "c \<in> set (plan n)" and "d \<in> set (plan n)" and "c \<noteq> d"
  shows "ch_end c \<le> ch_offset d \<or> ch_end d \<le> ch_offset c"
  using sorted_wrt_nth_less [OF tiles_sorted [OF plan_tiles [of n]]] assms
  by (metis in_set_conv_nth linorder_neqE_nat)

lemma plan_slice_length:
  assumes "c \<in> set (plan (length xs))"
  shows "length (slice (ch_offset c) (ch_end c) xs) = ch_size c"
  using plan_bounds [OF assms] by (auto simp: length_slice ch_end_def min_def)

lemma write_chunk_length:
  assumes "c \<in> set (plan (length xs))" and "length buf = length xs"
  shows "length (write_chunk xs c buf) = length xs"
  using assms plan_bounds [OF assms(1)] plan_slice_length [OF assms(1)]
  by (simp add: write_chunk_def length_pwrite ch_end_def)

lemma write_chunk_nth:
  assumes "c \<in> set (plan (length xs))" and "length buf = length xs" and "i < length xs"
  shows "write_chunk xs c buf ! i =
    (if ch_offset c \<le> i \<and> i < ch_end c then xs ! i else buf ! i)"
proof -
  have "length (slice (ch_offset c) (ch_end c) xs) = ch_size c"
    by (rule plan_slice_length [OF assms(1)])
  then show ?thesis
    using assms plan_bounds [OF assms(1)] nth_drop [of "ch_offset c" xs "i - ch_offset c"]
    by (auto simp: write_chunk_def nth_pwrite ch_end_def slice_def)
qed

text \<open>Chunks may land in any order and more than once; once all have landed, the file is whole.\<close>

lemma writes_any_order:
  assumes "set (plan (length xs)) = set cs" and "length buf = length xs"
  shows "foldl (\<lambda>b c. write_chunk xs c b) buf cs = xs"
proof -
  have "length (foldl (\<lambda>b c. write_chunk xs c b) buf ds) = length xs \<and>
      (\<forall>i < length xs. (\<exists>c \<in> set ds. ch_offset c \<le> i \<and> i < ch_end c) \<longrightarrow>
        foldl (\<lambda>b c. write_chunk xs c b) buf ds ! i = xs ! i)"
    if "set ds \<subseteq> set (plan (length xs))" for ds
    using that
  proof (induction ds rule: rev_induct)
    case (snoc d ds)
    then show ?case by (auto simp: write_chunk_length write_chunk_nth)
  qed (use assms(2) in simp)
  from this [of cs] assms tiles_point [OF plan_tiles [of "length xs"]] show ?thesis
    by (auto simp: list_eq_iff_nth_eq)
qed

end

lemma iter_tail_tiles: "off \<le> n \<Longrightarrow> tiles off n (iter_tail n off i)"
proof (induction n off i rule: iter_tail.induct)
  case (1 n off i)
  show ?case
    by (subst iter_tail.simps) (use 1 in \<open>auto simp: Let_def ch_end_def MAX_CHUNK_SIZE_def\<close>)
qed

lemma iter_tail_index: "map ch_index (iter_tail n off i) = [i..<i + length (iter_tail n off i)]"
proof (induction n off i rule: iter_tail.induct)
  case (1 n off i)
  show ?case
    by (subst (1 2) iter_tail.simps) (use 1 in \<open>auto simp: Let_def upt_conv_Cons simp del: upt_Suc\<close>)
qed

lemma iter_tail_aligned:
  "16 dvd off \<Longrightarrow> c \<in> set (iter_tail n off i) \<Longrightarrow> 16 dvd ch_offset c"
proof (induction n off i rule: iter_tail.induct)
  case (1 n off i)
  have "16 dvd MAX_CHUNK_SIZE" by (simp add: MAX_CHUNK_SIZE_def)
  then have m: "16 dvd off + MAX_CHUNK_SIZE" using "1.prems"(1) by (rule dvd_add [rotated])
  show ?case
  proof (cases "n - off \<le> MAX_CHUNK_SIZE")
    case True
    have "iter_tail n n j = []" for j by (simp add: iter_tail.simps)
    with True 1 m show ?thesis
      by (subst (asm) (2) iter_tail.simps) (auto simp: Let_def min_def split: if_splits)
  next
    case False
    with 1 m show ?thesis
      by (subst (asm) (2) iter_tail.simps) (auto simp: Let_def min_def split: if_splits)
  qed
qed

lemma iter_ramp_tiles:
  "\<forall>kb \<in> set kbs. 0 < kb \<Longrightarrow> off \<le> n \<Longrightarrow> tiles off n (iter_ramp kbs n off i)"
  by (induction kbs n off i rule: iter_ramp.induct) (auto simp: iter_tail_tiles Let_def ch_end_def)

lemma iter_ramp_index: "map ch_index (iter_ramp kbs n off i) = [i..<i + length (iter_ramp kbs n off i)]"
  by (induction kbs n off i rule: iter_ramp.induct)
    (auto simp: iter_tail_index Let_def upt_conv_Cons simp del: upt_Suc)

lemma iter_ramp_full: "iter_ramp kbs n n i = []"
  by (cases kbs) (simp_all add: iter_tail.simps)

lemma iter_ramp_aligned:
  "16 dvd off \<Longrightarrow> c \<in> set (iter_ramp kbs n off i) \<Longrightarrow> 16 dvd ch_offset c"
proof (induction kbs n off i rule: iter_ramp.induct)
  case (2 kb rest n off i)
  have k: "16 dvd kb * 1024" by simp
  show ?case
  proof (cases "kb * 1024 \<le> n - off")
    case True
    with 2 show ?thesis by (auto simp: Let_def min_def intro: dvd_add [OF _ k] split: if_splits)
  next
    case False
    with 2 show ?thesis by (auto simp: Let_def min_def iter_ramp_full split: if_splits)
  qed
qed (use iter_tail_aligned in auto)

interpretation plan: chunk_plan iter_chunks
proof unfold_locales
  show "tiles 0 n (iter_chunks n)" for n
    unfolding iter_chunks_def by (rule iter_ramp_tiles) (auto simp: CHUNK_SIZES_KB_def)
  show "map ch_index (iter_chunks n) = [0..<length (iter_chunks n)]" for n
    using iter_ramp_index [of CHUNK_SIZES_KB n 0 0] by (simp add: iter_chunks_def)
  show "16 dvd ch_offset c" if "c \<in> set (iter_chunks n)" for c n
    using that iter_ramp_aligned [of 0] by (auto simp: iter_chunks_def)
qed

lemma iter_tail_size: "list_all (\<lambda>c. ch_size c \<le> MAX_CHUNK_SIZE) (iter_tail n off i)"
proof (induction n off i rule: iter_tail.induct)
  case (1 n off i)
  show ?case by (subst iter_tail.simps) (use 1 in \<open>auto simp: Let_def\<close>)
qed

lemma iter_ramp_size:
  "\<forall>kb \<in> set kbs. kb \<le> 1024 \<Longrightarrow> list_all (\<lambda>c. ch_size c \<le> MAX_CHUNK_SIZE) (iter_ramp kbs n off i)"
proof (induction kbs n off i rule: iter_ramp.induct)
  case (2 kb rest n off i)
  have "kb * 1024 \<le> MAX_CHUNK_SIZE" using "2.prems" by (simp add: MAX_CHUNK_SIZE_def)
  with 2 show ?case by (auto simp: Let_def)
qed (simp add: iter_tail_size)

text \<open>
  The plan tiles the file. Chunks follow one another from byte 0 to the size with no gap
  and no overlap, are numbered from 0, start at multiples of the AES block, and none exceeds
  1 MiB.
\<close>

theorem iter_chunks_tiling:
  "tiles 0 n (iter_chunks n) \<and> map ch_index (iter_chunks n) = [0..<length (iter_chunks n)]
   \<and> list_all (\<lambda>c. 16 dvd ch_offset c \<and> 0 < ch_size c \<and> ch_size c \<le> MAX_CHUNK_SIZE) (iter_chunks n)"
proof -
  have "list_all (\<lambda>c. ch_size c \<le> MAX_CHUNK_SIZE) (iter_chunks n)"
    unfolding iter_chunks_def by (rule iter_ramp_size) (auto simp: CHUNK_SIZES_KB_def)
  then show ?thesis
    using plan.plan_aligned plan.plan_bounds plan.plan_index plan.plan_tiles
    by (auto simp: list_all_iff)
qed

text \<open>
  The order in which parallel workers write their chunks does not matter. Any sequence of
  chunk writes that includes every chunk of the plan, with repetitions or not, turns any
  file of the right size into the source bytes.
\<close>

theorem chunk_writes_rebuild:
  assumes "set cs = set (iter_chunks (length xs))" and "length buf = length xs"
  shows "foldl (\<lambda>b c. write_chunk xs c b) buf cs = xs"
  using plan.writes_any_order [OF assms(1) [symmetric] assms(2)] .

lemma chunk_writes_rebuild_witness: "foldl (\<lambda>b c. write_chunk [7, 8, 9] c b) (zeros 3)
    (iter_chunks (length [7 :: byte, 8, 9]) @ iter_chunks (length [7 :: byte, 8, 9])) = [7, 8, 9]"
  by (rule chunk_writes_rebuild) simp_all

section \<open>Counting chunks\<close>

lemma length_iter_tail:
  "length (iter_tail n off i) = (n - off + MAX_CHUNK_SIZE - 1) div MAX_CHUNK_SIZE"
proof (induction n off i rule: iter_tail.induct)
  case (1 n off i)
  let ?M = MAX_CHUNK_SIZE
  have M: "0 < ?M" by (simp add: MAX_CHUNK_SIZE_def)
  show ?case
  proof (cases "off < n")
    case False
    then show ?thesis using M by (simp add: iter_tail.simps)
  next
    case True
    then have "length (iter_tail n off i) =
        Suc ((n - (off + min ?M (n - off)) + ?M - 1) div ?M)"
      using 1 by (subst iter_tail.simps) (simp add: Let_def)
    also have "\<dots> = (n - (off + min ?M (n - off)) + ?M - 1 + ?M) div ?M"
      using M by (subst div_add_self2) simp_all
    also have "\<dots> = (n - off + ?M - 1) div ?M"
    proof (cases "?M \<le> n - off")
      case False
      with True have "n - (off + min ?M (n - off)) + ?M - 1 + ?M = (?M - 1) + 1 * ?M"
        and "n - off + ?M - 1 = (n - off - 1) + 1 * ?M" and "n - off - 1 < ?M"
        by simp_all
      then show ?thesis using M by (simp only: div_mult_self1 div_less) simp
    next
      case le: True
      then have "n - (off + min ?M (n - off)) + ?M = n - off" using True by simp
      then show ?thesis using M le by simp
    qed
    finally show ?thesis .
  qed
qed

lemma count_ramp_length: "off \<le> n \<Longrightarrow> count_ramp kbs n off c = c + length (iter_ramp kbs n off i)"
  by (induction kbs n off c arbitrary: i rule: count_ramp.induct) (auto simp: length_iter_tail Let_def)

lemma count_ramp_bound:
  "off \<le> n \<Longrightarrow> n \<le> off + sum_list (map (\<lambda>kb. kb * 1024) kbs) \<Longrightarrow> count_ramp kbs n off c \<le> c + length kbs"
proof (induction kbs n off c rule: count_ramp.induct)
  case (1 n off c)
  then show ?case by (simp add: MAX_CHUNK_SIZE_def)
next
  case (2 kb rest n off c)
  show ?case
  proof (cases "n \<le> off")
    case False
    then have "count_ramp rest n (off + min (kb * 1024) (n - off)) (c + 1) \<le> c + 1 + length rest"
      using 2 by (intro "2.IH") auto
    with False show ?thesis by simp
  qed simp
qed

lemma count_ramp_beyond:
  "off + sum_list (map (\<lambda>kb. kb * 1024) kbs) < n \<Longrightarrow>
   count_ramp kbs n off c = c + length kbs +
     (n - (off + sum_list (map (\<lambda>kb. kb * 1024) kbs)) + MAX_CHUNK_SIZE - 1) div MAX_CHUNK_SIZE"
proof (induction kbs n off c rule: count_ramp.induct)
  case (2 kb rest n off c)
  then have "min (kb * 1024) (n - off) = kb * 1024" and "\<not> n \<le> off" by auto
  with 2 show ?case by (simp add: add.assoc)
qed simp

lemma chunk_count_facts:
  "chunk_count n = length (iter_chunks n) \<and> (chunk_count n \<le> MAX_CHUNKS \<longleftrightarrow> n \<le> MAX_FILE_SIZE)"
proof
  show "chunk_count n = length (iter_chunks n)"
  proof (cases "n = 0")
    case True
    then show ?thesis by (simp add: chunk_count_def iter_chunks_def iter_ramp_full)
  qed (simp add: chunk_count_def iter_chunks_def count_ramp_length [of 0 n _ 0 0])
  let ?S = "sum_list (map (\<lambda>kb. kb * 1024) CHUNK_SIZES_KB)"
  have S: "?S = 4718592" "length CHUNK_SIZES_KB = 8" by (simp_all add: CHUNK_SIZES_KB_def)
  show "chunk_count n \<le> MAX_CHUNKS \<longleftrightarrow> n \<le> MAX_FILE_SIZE"
  proof (cases "n \<le> ?S")
    case True
    then have "chunk_count n \<le> 8"
      using count_ramp_bound [of 0 n CHUNK_SIZES_KB 0] S by (auto simp: chunk_count_def)
    with True show ?thesis by (simp add: MAX_CHUNKS_def MAX_FILE_SIZE_def)
  next
    case False
    then have "chunk_count n = 8 + (n - ?S + MAX_CHUNK_SIZE - 1) div MAX_CHUNK_SIZE"
      using count_ramp_beyond [of 0 CHUNK_SIZES_KB n 0] S by (simp add: chunk_count_def)
    moreover have "(n - 4718592 + 1048576 - 1) div 1048576 \<le> 199992 \<longleftrightarrow> n \<le> 4718592 + 199992 * 1048576"
      by linarith
    ultimately show ?thesis
      by (auto simp: S MAX_CHUNKS_def MAX_FILE_SIZE_def MAX_CHUNK_SIZE_def)
  qed
qed

lemmas chunk_count_length = conjunct1 [OF chunk_count_facts]

lemmas chunk_count_limit = conjunct2 [OF chunk_count_facts]

text \<open>
  The guard's closed form is the plan's length, so the limit can be applied to a declared
  size before any chunk is built; and the two limits are the same limit: a size is within
  \<open>MAX_FILE_SIZE\<close> exactly when its plan has at most \<open>MAX_CHUNKS\<close> chunks.
\<close>

theorem chunk_count_exact:
  "chunk_count n = length (iter_chunks n) \<and> (chunk_count n \<le> MAX_CHUNKS \<longleftrightarrow> n \<le> MAX_FILE_SIZE)"
  by (rule chunk_count_facts)

section \<open>Chunk and file MACs\<close>

definition chunk_mac :: "aes \<Rightarrow> bytes \<Rightarrow> bytes \<Rightarrow> bytes \<Rightarrow> bytes py" where
  "chunk_mac C plaintext aes_key nonce =
    (if plaintext = [] then Inr (zeros 16)
     else let iv = nonce @ nonce;
              pad = (16 - length plaintext mod 16) mod 16;
              padded = (if pad \<noteq> 0 then plaintext @ zeros pad else plaintext)
          in bindR (cbc_encrypt C aes_key iv padded)
               (\<lambda>encrypted. Inr (drop (length encrypted - 16) encrypted)))"

definition combine_chunk_macs :: "aes \<Rightarrow> bytes list \<Rightarrow> bytes \<Rightarrow> bytes py" where
  "combine_chunk_macs C chunk_macs aes_key =
     foldR (\<lambda>mac state.
              if length state \<noteq> length mac then raise ValueError
              else cbc_encrypt C aes_key (zeros 16) (xor_bytes state mac))
       chunk_macs (zeros 16)"

definition condense_mac :: "bytes \<Rightarrow> a32 py" where
  "condense_mac file_mac =
    (let m = bytes_to_a32 file_mac
     in if length m < 4 then raise IndexError else Inr [m ! 0 XOR m ! 1, m ! 2 XOR m ! 3])"

lemma enc_inj:
  assumes "aes_ok C" and "aes_key_size k" and "length a = 16" and "length b = 16"
    and "enc_block C k a = enc_block C k b"
  shows "a = b"
  by (metis assms(5) aes_okD(3) [OF assms(1,2,3)] aes_okD(3) [OF assms(1,2,4)])

lemma xor_bytes_inj:
  assumes "length a = length b" and "length a \<le> length s" and "xor_bytes a s = xor_bytes b s"
  shows "a = b"
  by (metis assms xor_bytes_cancel)

lemma xor_bytes_commute: "xor_bytes a b = xor_bytes b a"
proof (induction a arbitrary: b)
  case (Cons x a)
  then show ?case by (cases b) (simp_all add: xor.commute)
qed simp

lemma cbc_encrypt_block:
  "aes_key_size k \<Longrightarrow> length iv = 16 \<Longrightarrow> length b = 16 \<Longrightarrow>
   cbc_encrypt C k iv b = Inr (enc_block C k (xor_bytes b iv))"
  by (simp add: cbc_encrypt_def blocks_of_16 Let_def)

text \<open>One step of either MAC chain is injective in the chaining value and in the block.\<close>

lemma mac_step:
  assumes "aes_ok C" and "aes_key_size k"
    and "length s = 16" and "length t = 16" and "length m = 16" and "length m' = 16"
    and "enc_block C k (xor_bytes m s) = enc_block C k (xor_bytes m' t)"
  shows "m = m' \<longleftrightarrow> s = t"
proof -
  have x: "xor_bytes m s = xor_bytes m' t"
    by (rule enc_inj [OF assms(1,2) _ _ assms(7)]) (simp_all add: assms)
  show ?thesis
  proof
    assume "m = m'"
    with x have "xor_bytes s m = xor_bytes t m" by (simp add: xor_bytes_commute)
    then show "s = t" by (intro xor_bytes_inj [of s t m]) (simp_all add: assms)
  next
    assume "s = t"
    with x show "m = m'" by (intro xor_bytes_inj [of m m' s]) (simp_all add: assms)
  qed
qed

text \<open>The chain that both MACs run: fold the blocks into a 16-byte state.\<close>

definition mac_chain :: "aes \<Rightarrow> bytes \<Rightarrow> bytes list \<Rightarrow> bytes \<Rightarrow> bytes" where
  "mac_chain C k bs s = foldl (\<lambda>s b. enc_block C k (xor_bytes b s)) s bs"

lemma mac_chain_simps [simp]:
  "mac_chain C k [] s = s"
  "mac_chain C k (b # bs) s = mac_chain C k bs (enc_block C k (xor_bytes b s))"
  "mac_chain C k (as @ bs) s = mac_chain C k bs (mac_chain C k as s)"
  by (simp_all add: mac_chain_def)

lemma mac_chain_length:
  assumes "aes_ok C" and "aes_key_size k"
  shows "\<forall>b \<in> set bs. length b = 16 \<Longrightarrow> length s = 16 \<Longrightarrow> length (mac_chain C k bs s) = 16"
proof (induction bs arbitrary: s)
  case (Cons b bs)
  have "length (enc_block C k (xor_bytes b s)) = 16"
    by (rule aes_okD(1) [OF assms]) (use Cons.prems in simp)
  with Cons show ?case by simp
qed simp

lemma mac_chain_inj:
  assumes "aes_ok C" and "aes_key_size k"
  shows "\<forall>b \<in> set bs. length b = 16 \<Longrightarrow> length s = 16 \<Longrightarrow> length t = 16 \<Longrightarrow>
    mac_chain C k bs s = mac_chain C k bs t \<Longrightarrow> s = t"
proof (induction bs arbitrary: s t)
  case (Cons b bs)
  have l: "length (enc_block C k (xor_bytes b s)) = 16" "length (enc_block C k (xor_bytes b t)) = 16"
    by (rule aes_okD(1) [OF assms], use Cons.prems in simp)+
  have "enc_block C k (xor_bytes b s) = enc_block C k (xor_bytes b t)"
    using Cons.IH [OF _ l] Cons.prems by simp
  from mac_step [OF assms _ _ _ _ this] show ?case using Cons.prems by simp
qed simp

lemma mac_chain_substitution:
  assumes "aes_ok C" and "aes_key_size k" and "\<forall>b \<in> set (as @ x # y # bs). length b = 16"
    and "length s = 16" and "mac_chain C k (as @ x # bs) s = mac_chain C k (as @ y # bs) s"
  shows "x = y"
proof -
  let ?s = "mac_chain C k as s"
  have ls: "length ?s = 16" by (rule mac_chain_length [OF assms(1,2)]) (use assms in auto)
  have l: "length (enc_block C k (xor_bytes x ?s)) = 16" "length (enc_block C k (xor_bytes y ?s)) = 16"
    by (rule aes_okD(1) [OF assms(1,2)], use assms(3) ls in simp)+
  have "enc_block C k (xor_bytes x ?s) = enc_block C k (xor_bytes y ?s)"
    by (rule mac_chain_inj [OF assms(1,2) _ l]) (use assms in auto)
  from mac_step [OF assms(1,2) ls ls _ _ this] assms(3) show ?thesis by simp
qed

lemma combine_chain:
  assumes "aes_ok C" and "aes_key_size k"
  shows "\<forall>m \<in> set macs. length m = 16 \<Longrightarrow> length s = 16 \<Longrightarrow>
    foldR (\<lambda>mac state. if length state \<noteq> length mac then raise ValueError
              else cbc_encrypt C k (zeros 16) (xor_bytes state mac)) macs s
    = Inr (foldl (\<lambda>s m. enc_block C k (xor_bytes m s)) s macs)"
proof (induction macs arbitrary: s)
  case (Cons m macs)
  then have lm: "length m = 16" by simp
  have z: "xor_bytes x (zeros 16) = x" if "length x = 16" for x
    using that by (simp add: xor_bytes_def zeros_def list_eq_iff_nth_eq)
  have "cbc_encrypt C k (zeros 16) (xor_bytes s m) = Inr (enc_block C k (xor_bytes m s))"
    using Cons.prems lm z [of "xor_bytes s m"]
    by (subst cbc_encrypt_block [OF assms(2)]) (simp_all add: xor_bytes_commute [of s m])
  moreover have "length (enc_block C k (xor_bytes m s)) = 16"
    by (rule aes_okD(1) [OF assms]) (use Cons.prems in simp)
  ultimately show ?case using Cons by simp
qed simp

lemma combine_chunk_macs_chain:
  assumes "aes_ok C" and "aes_key_size k" and "\<forall>m \<in> set macs. length m = 16"
  shows "combine_chunk_macs C macs k = Inr (mac_chain C k macs (zeros 16))"
  unfolding combine_chunk_macs_def mac_chain_def by (rule combine_chain [OF assms]) simp

lemma combine_chunk_macs_short:
  assumes "m \<in> set macs" and "length m \<noteq> 16" and "aes_ok C" and "aes_key_size k"
  shows "\<exists>e. combine_chunk_macs C macs k = Inl e"
proof (rule ccontr)
  let ?f = "\<lambda>mac state. if length state \<noteq> length mac then raise ValueError
      else cbc_encrypt C k (zeros 16) (xor_bytes state mac)"
  assume "\<nexists>e. combine_chunk_macs C macs k = Inl e"
  then obtain r where "foldR ?f macs (zeros 16) = Inr r"
    by (cases "combine_chunk_macs C macs k") (auto simp: combine_chunk_macs_def)
  moreover have "m \<in> set ms \<Longrightarrow> length s = 16 \<Longrightarrow> foldR ?f ms s \<noteq> Inr r'" for ms s r'
  proof (induction ms arbitrary: s)
    case (Cons a ms)
    show ?case
    proof (cases "length a = 16")
      case True
      then have "m \<in> set ms" using Cons.prems assms(2) by auto
      moreover have "\<exists>t. ?f a s = Inr t \<and> length t = 16"
        using True Cons.prems(2) assms aes_okD(1) [OF assms(3,4)]
        by (simp add: cbc_encrypt_block)
      ultimately show ?thesis using Cons.IH by auto
    qed (use Cons.prems in simp)
  qed simp
  ultimately show False using assms(1) by simp
qed

text \<open>
  The file MAC binds every chunk. Replacing a single chunk MAC, wherever it stands in the
  file, changes the combined MAC.
\<close>

theorem combine_detects_substitution:
  assumes "aes_ok C" and "aes_key_size k" and "list_all (\<lambda>m. length m = 16) (as @ x # y # bs)"
    and "x \<noteq> y"
  shows "combine_chunk_macs C (as @ x # bs) k \<noteq> combine_chunk_macs C (as @ y # bs) k"
  using assms(3,4) mac_chain_substitution [OF assms(1,2), of as x y bs "zeros 16"]
  by (auto simp: list_all_iff combine_chunk_macs_chain [OF assms(1,2)])

lemma cbc_enc_last:
  "bs \<noteq> [] \<Longrightarrow> last (cbc_enc E iv bs) = foldl (\<lambda>s b. E (xor_bytes b s)) iv bs"
proof (induction bs arbitrary: iv)
  case (Cons b bs)
  then show ?case by (cases bs) (auto simp: Let_def)
qed simp

lemma concat_last_block:
  "\<forall>c \<in> set cs. length c = n \<Longrightarrow> cs \<noteq> [] \<Longrightarrow> drop (length (concat cs) - n) (concat cs) = last cs"
  by (cases cs rule: rev_cases) auto

lemma chunk_mac_chain:
  assumes "aes_ok C" and "aes_key_size k" and "length nonce = 8" and "p \<noteq> []" and "16 dvd length p"
  shows "chunk_mac C p k nonce = Inr (mac_chain C k (blocks_of 16 p) (nonce @ nonce))"
proof -
  let ?bs = "blocks_of 16 p"
  let ?cs = "cbc_enc (enc_block C k) (nonce @ nonce) ?bs"
  have b16: "\<forall>b \<in> set ?bs. length b = 16" using blocks_of_length [OF _ assms(5)] by simp
  have c16: "\<forall>c \<in> set ?cs. length c = 16"
    by (rule cbc_enc_lengths [OF assms(1,2) b16]) (simp add: assms(3))
  have ne: "?bs \<noteq> []" using assms(4) by (simp add: blocks_of_step)
  then have "?cs \<noteq> []" by (metis length_0_conv length_cbc_enc)
  then have "drop (length (concat ?cs) - 16) (concat ?cs) = mac_chain C k ?bs (nonce @ nonce)"
    using concat_last_block [OF c16] cbc_enc_last [OF ne] by (simp add: mac_chain_def)
  with assms show ?thesis
    by (simp add: chunk_mac_def cbc_encrypt_def dvd_eq_mod_eq_0 Let_def)
qed

text \<open>
  A chunk MAC detects every change confined to one cipher block: two chunks that agree
  but for one 16-byte block never share a MAC.
\<close>

theorem chunk_mac_detects_block:
  assumes "aes_ok C" and "aes_key_size k" and "length nonce = 8"
    and "16 dvd length a" and "16 dvd length b" and "length x = 16" and "length y = 16" and "x \<noteq> y"
  shows "chunk_mac C (a @ x @ b) k nonce \<noteq> chunk_mac C (a @ y @ b) k nonce"
proof -
  have blk: "blocks_of 16 (a @ z @ b) = blocks_of 16 a @ z # blocks_of 16 b" if "length z = 16" for z
  proof -
    have b16: "\<forall>u \<in> set (blocks_of 16 a @ z # blocks_of 16 b). length u = 16"
      using blocks_of_length [OF _ assms(4)] blocks_of_length [OF _ assms(5)] that by auto
    show ?thesis using blocks_of_concat [OF b16] by simp
  qed
  have c: "chunk_mac C (a @ z @ b) k nonce =
      Inr (mac_chain C k (blocks_of 16 a @ z # blocks_of 16 b) (nonce @ nonce))" if "length z = 16" for z
    using that assms blk [OF that] by (subst chunk_mac_chain) auto
  show ?thesis
    using mac_chain_substitution [OF assms(1,2), of "blocks_of 16 a" x y "blocks_of 16 b" "nonce @ nonce"]
      blocks_of_length [OF _ assms(4)] blocks_of_length [OF _ assms(5)] assms
    unfolding c [OF assms(6)] c [OF assms(7)] by auto
qed

lemma combine_detects_substitution_witness:
  "combine_chunk_macs demo_aes ([zeros 16] @ replicate 16 1 # [zeros 16]) (replicate 16 4)
     \<noteq> combine_chunk_macs demo_aes ([zeros 16] @ replicate 16 2 # [zeros 16]) (replicate 16 4)"
  by (rule combine_detects_substitution [OF demo_aes_ok]) (simp_all add: aes_key_size_def)

lemma chunk_mac_detects_block_witness:
  "chunk_mac demo_aes (zeros 16 @ replicate 16 1 @ zeros 32) (replicate 16 4) (replicate 8 6)
     \<noteq> chunk_mac demo_aes (zeros 16 @ replicate 16 2 @ zeros 32) (replicate 16 4) (replicate 8 6)"
  by (rule chunk_mac_detects_block [OF demo_aes_ok]) (simp_all add: aes_key_size_def)

end
