(* ===== verification/RangeValidation.thy ===== *)
theory RangeValidation
  imports Chunks
begin

text \<open>
  \<open>core/range_validation.py\<close>: the one validator every consumer of a ranged download calls
  before it decrypts a body at a counter derived from the offset it asked for. Headers are a
  lookup function, as \<open>response.headers.get\<close> is; offsets and sizes are integers.

  The locale \<open>range_gate\<close> is the contract the chunk downloader and the streaming server rely
  on: a response that passes carries exactly the requested window of the resource.
\<close>

type_synonym headers = "string \<Rightarrow> string option"

definition CONTENT_RANGE_RE :: rx where
  "CONTENT_RANGE_RE = rx_seq
     [liti ''bytes'', many1 is_ws, Grp ''1'' (many1 is_digit), Many is_ws, lit ''-'', Many is_ws,
      Grp ''2'' (many1 is_digit), Many is_ws, lit ''/'', Many is_ws,
      Grp ''3'' (Alt (many1 is_digit) (lit ''*'')), Dollar]"

text \<open>\<open>int(text)\<close>; a string CPython will not convert raises \<open>ValueError\<close>.\<close>

definition int_of_text :: "string \<Rightarrow> int py" where
  "int_of_text s = (case py_int s of None \<Rightarrow> raise ValueError | Some n \<Rightarrow> Inr n)"

definition group_text :: "string \<Rightarrow> groups \<Rightarrow> string" where
  "group_text n g = (case group n g of None \<Rightarrow> [] | Some t \<Rightarrow> t)"

definition check_content_length :: "headers \<Rightarrow> int \<Rightarrow> int \<Rightarrow> unit py" where
  "check_content_length headers start stop =
    (case headers ''Content-Length'' of
       None \<Rightarrow> Inr ()
     | Some declared \<Rightarrow>
         (case py_int declared of
            None \<Rightarrow> raise RangeNotHonoredError
          | Some n \<Rightarrow> if n \<noteq> stop - start + 1 then raise RangeNotHonoredError else Inr ()))"

definition validate_range_response :: "int \<Rightarrow> headers \<Rightarrow> int \<Rightarrow> int \<Rightarrow> int \<Rightarrow> unit py" where
  "validate_range_response status headers start stop fsize =
    (let wants_whole_file = (start = 0 \<and> stop = fsize - 1)
     in if status = 200 then (if wants_whole_file then Inr () else raise RangeNotHonoredError)
        else if status \<noteq> 206 then raise RangeNotHonoredError
        else case headers ''Content-Range'' of
            None \<Rightarrow> raise RangeNotHonoredError
          | Some raw \<Rightarrow>
              if raw = [] then raise RangeNotHonoredError
              else case rx_match CONTENT_RANGE_RE (strip raw) of
                  None \<Rightarrow> raise RangeNotHonoredError
                | Some g \<Rightarrow>
                    bindR (int_of_text (group_text ''1'' g)) (\<lambda>got_start.
                    bindR (int_of_text (group_text ''2'' g)) (\<lambda>got_end.
                      if got_start \<noteq> start \<or> got_end \<noteq> stop then raise RangeNotHonoredError
                      else if group_text ''3'' g = ''*'' then raise RangeNotHonoredError
                      else bindR (int_of_text (group_text ''3'' g)) (\<lambda>total.
                             if total \<noteq> fsize then raise RangeNotHonoredError
                             else check_content_length headers start stop))))"

text \<open>The window a \<open>Content-Range\<close> header names: first byte, last byte, size of the resource.\<close>

definition content_window :: "headers \<Rightarrow> (int \<times> int \<times> int) option" where
  "content_window headers =
    (case headers ''Content-Range'' of
       None \<Rightarrow> None
     | Some raw \<Rightarrow> (case rx_match CONTENT_RANGE_RE (strip raw) of
           None \<Rightarrow> None
         | Some g \<Rightarrow> (case (py_int (group_text ''1'' g), py_int (group_text ''2'' g),
                           py_int (group_text ''3'' g)) of
               (Some a, Some b, Some n) \<Rightarrow> Some (a, b, n)
             | _ \<Rightarrow> None)))"

lemma int_of_text_Inr: "int_of_text s = Inr n \<longleftrightarrow> py_int s = Some n"
  by (auto simp: int_of_text_def split: option.splits)

lemma accepted_window:
  assumes "validate_range_response status headers start stop fsize = Inr u"
  shows "status = 200 \<and> start = 0 \<and> stop = fsize - 1
    \<or> status = 206 \<and> content_window headers = Some (start, stop, fsize)
      \<and> (\<forall>l. headers ''Content-Length'' = Some l \<longrightarrow> py_int l = Some (stop - start + 1))"
  using assms
  by (auto simp: validate_range_response_def content_window_def check_content_length_def Let_def
      bindR_Inr_iff int_of_text_Inr split: if_splits option.splits)

text \<open>
  What HTTP says of a body: with 200 it is the resource, with 206 the bytes its
  \<open>Content-Range\<close> names.
\<close>

definition honest_body :: "int \<Rightarrow> headers \<Rightarrow> bytes \<Rightarrow> bytes \<Rightarrow> bool" where
  "honest_body status headers body resource \<longleftrightarrow>
     (status = 200 \<longrightarrow> body = resource)
     \<and> (status = 206 \<longrightarrow> (case content_window headers of
          None \<Rightarrow> True
        | Some (a, b, n) \<Rightarrow> 0 \<le> a \<longrightarrow> body = slice (nat a) (nat (b + 1)) resource))"

locale range_gate =
  fixes accept :: "int \<Rightarrow> headers \<Rightarrow> int \<Rightarrow> int \<Rightarrow> int \<Rightarrow> unit py"
  assumes accept_window: "accept status h start stop fsize = Inr u \<Longrightarrow>
      status = 200 \<and> start = 0 \<and> stop = fsize - 1
      \<or> status = 206 \<and> content_window h = Some (start, stop, fsize)"
begin

lemma accepted_body:
  assumes "accept status h start stop (int (length resource)) = Inr u"
    and "honest_body status h body resource" and "0 \<le> start"
  shows "body = slice (nat start) (nat (stop + 1)) resource"
proof -
  from accept_window [OF assms(1)] consider
    (whole) "status = 200" "start = 0" "stop = int (length resource) - 1"
    | (part) "status = 206" "content_window h = Some (start, stop, int (length resource))"
    by blast
  then show ?thesis
  proof cases
    case whole
    then show ?thesis using assms(2) by (simp add: honest_body_def slice_all)
  next
    case part
    then show ?thesis using assms(2,3) by (simp add: honest_body_def)
  qed
qed

text \<open>What an accepted body decrypts to at the counter of the requested offset.\<close>

lemma accepted_plaintext:
  assumes "accept status h (int a) (int b - 1) (int (length plain)) = Inr u"
    and "honest_body status h body (ctr_crypt C key nonce 0 plain)" and "a \<le> length plain"
  shows "ctr_crypt C key nonce a body = slice a b plain"
proof -
  have "body = slice a b (ctr_crypt C key nonce 0 plain)"
    using accepted_body [of status h "int a" "int b - 1" "ctr_crypt C key nonce 0 plain" u body] assms
    by (simp add: ctr.crypt_length)
  then show ?thesis using ctr.crypt_window [OF assms(3), of C key nonce 0] by simp
qed

end

interpretation range: range_gate validate_range_response
  by unfold_locales (use accepted_window in blast)

text \<open>
  C14: a body the validator lets through is the requested window, so decrypting it at the
  counter of the requested offset gives the plaintext of that window and nothing else, for
  every status, header set and body an HTTP server can send.
\<close>

theorem validated_body_decrypts:
  assumes "validate_range_response status h (int a) (int b - 1) (int (length plain)) = Inr ()"
    and "honest_body status h body (ctr_crypt C key nonce 0 plain)" and "a \<le> length plain"
  shows "ctr_crypt C key nonce a body = slice a b plain"
  by (rule range.accepted_plaintext [OF assms])

section \<open>Canonical headers\<close>

definition canonical_range :: "nat \<Rightarrow> nat \<Rightarrow> nat \<Rightarrow> string" where
  "canonical_range a b n = ''bytes '' @ show_nat a @ ''-'' @ show_nat b @ ''/'' @ show_nat n"

definition just_range :: "string \<Rightarrow> headers" where
  "just_range v = [''Content-Range'' \<mapsto> v]"

lemma show_nat_all: "\<forall>c \<in> set (show_nat n). is_digit c" "\<forall>c \<in> set (show_nat n). \<not> is_ws c"
  using show_nat_digits digit_char_facts(1,3) by blast+

lemma punctuation: "\<not> is_digit (CHR ''-'')" "\<not> is_digit (CHR ''/'')" "\<not> is_ws (CHR ''-'')"
  "\<not> is_ws (CHR ''/'')" "is_ws (CHR '' '')" "\<not> is_ws (CHR ''b'')"
  by (simp_all add: is_digit_def is_ws_def)

lemma canonical_strip: "strip (canonical_range a b n) = canonical_range a b n"
proof (rule strip_ends)
  have "last (canonical_range a b n) = last (show_nat n)"
    using show_nat_nonempty [of n] by (simp add: canonical_range_def)
  then show "\<not> is_ws (last (canonical_range a b n))"
    using show_nat_all(2) [of n] show_nat_nonempty [of n] last_in_set by metis
qed (simp_all add: canonical_range_def punctuation)

lemma digits_field:
  assumes "rest = [] \<or> \<not> is_digit (hd rest)"
  shows "rx_first (Grp k (many1 is_digit)) (show_nat n @ rest) = Some ([(k, show_nat n)], rest)"
  using rx_first_Grp [OF rx_first_many1, OF show_nat_all(1) show_nat_nonempty assms, of k] by simp

lemma no_space: "s = [] \<or> \<not> is_ws (hd s) \<Longrightarrow> rx_first (Many is_ws) s = Some ([], s)"
  using rx_first_Many [of "[]" is_ws s] by simp

lemma canonical_match:
  "rx_match CONTENT_RANGE_RE (canonical_range a b n) =
     Some [(''1'', show_nat a), (''2'', show_nat b), (''3'', show_nat n)]"
proof -
  let ?n = "show_nat n"
  let ?b = "show_nat b @ ''/'' @ ?n"
  let ?a = "show_nat a @ ''-'' @ ?b"
  have hd_ws: "\<not> is_ws (hd (show_nat k @ s))" for k s
    using show_nat_all(2) [of k] show_nat_nonempty [of k] by (cases "show_nat k") auto
  have p1: "rx_first (liti ''bytes'') (canonical_range a b n) = Some ([], '' '' @ ?a)"
    using rx_first_liti [of "''bytes''" "'' '' @ ?a"] by (simp add: canonical_range_def)
  have p2: "rx_first (many1 is_ws) ('' '' @ ?a) = Some ([], ?a)"
    by (rule rx_first_many1) (use hd_ws punctuation in auto)
  have p3: "rx_first (Grp ''1'' (many1 is_digit)) ?a = Some ([(''1'', show_nat a)], ''-'' @ ?b)"
    by (rule digits_field) (simp add: punctuation)
  have p4: "rx_first (Many is_ws) (''-'' @ ?b) = Some ([], ''-'' @ ?b)"
    by (rule no_space) (simp add: punctuation)
  have p5: "rx_first (lit ''-'') (''-'' @ ?b) = Some ([], ?b)" by (rule rx_first_lit)
  have p6: "rx_first (Many is_ws) ?b = Some ([], ?b)" by (rule no_space) (use hd_ws in simp)
  have p7: "rx_first (Grp ''2'' (many1 is_digit)) ?b = Some ([(''2'', show_nat b)], ''/'' @ ?n)"
    by (rule digits_field) (simp add: punctuation)
  have p8: "rx_first (Many is_ws) (''/'' @ ?n) = Some ([], ''/'' @ ?n)"
    by (rule no_space) (simp add: punctuation)
  have p9: "rx_first (lit ''/'') (''/'' @ ?n) = Some ([], ?n)" by (rule rx_first_lit)
  have p10: "rx_first (Many is_ws) ?n = Some ([], ?n)"
    by (rule no_space) (use hd_ws [of n "[]"] in simp)
  have "rx_first (many1 is_digit) (?n @ []) = Some ([], [])"
    by (rule rx_first_many1) (use show_nat_all show_nat_nonempty in auto)
  then have p11: "rx_first (Grp ''3'' (Alt (many1 is_digit) (lit ''*''))) ?n = Some ([(''3'', ?n)], [])"
    using rx_first_Grp [OF rx_first_Alt, of "many1 is_digit" ?n "[]" "[]"] by simp
  note tail = rx_first_Seq [OF p9 rx_first_Seq [OF p10 rx_first_Seq [OF p11
      rx_first_Seq [OF rx_first_Dollar rx_first_Eps]]]]
  note mid = rx_first_Seq [OF p5 rx_first_Seq [OF p6 rx_first_Seq [OF p7 rx_first_Seq [OF p8 tail]]]]
  note all = rx_first_Seq [OF p1 rx_first_Seq [OF p2 rx_first_Seq [OF p3 rx_first_Seq [OF p4 mid]]]]
  show ?thesis
    using all by (simp add: rx_match_first CONTENT_RANGE_RE_def rx_seq_simps)
qed

lemma py_int_show_nat: "length (show_nat n) \<le> max_str_digits \<Longrightarrow> py_int (show_nat n) = Some (int n)"
  using py_int_show_int [of "int n"] by (simp add: show_int_def)

lemma show_nat_no_star: "show_nat n \<noteq> ''*''"
  using show_nat_all(1) [of n] by (auto simp: is_digit_def)

text \<open>
  A well-formed 206 answer is accepted exactly when it names the requested bytes of a
  resource of the known size: an off-by-one at either end, or another total, is refused.
\<close>

theorem canonical_206_exact:
  assumes "length (show_nat a) \<le> max_str_digits" and "length (show_nat b) \<le> max_str_digits"
    and "length (show_nat n) \<le> max_str_digits"
  shows "validate_range_response 206 (just_range (canonical_range a b n)) start stop fsize = Inr ()
    \<longleftrightarrow> int a = start \<and> int b = stop \<and> int n = fsize"
proof -
  have "canonical_range a b n \<noteq> []" by (simp add: canonical_range_def)
  then show ?thesis
    using assms show_nat_no_star [of n]
    by (auto simp: validate_range_response_def just_range_def canonical_strip canonical_match
        group_text_def group_def int_of_text_def py_int_show_nat check_content_length_def)
qed

text \<open>A request that is not for the whole file is never satisfied by a 200.\<close>

lemma partial_200_refused:
  "start \<noteq> 0 \<or> stop \<noteq> fsize - 1 \<Longrightarrow>
   validate_range_response 200 h start stop fsize = raise RangeNotHonoredError"
  by (auto simp: validate_range_response_def)

lemma validated_body_decrypts_witness:
  "ctr_crypt demo_aes (replicate 16 3) (replicate 8 1) 0
      (ctr_crypt demo_aes (replicate 16 3) (replicate 8 1) 0 (replicate 5 9))
   = slice 0 5 (replicate 5 9)"
  by (rule validated_body_decrypts [where status = 200 and h = "\<lambda>_. None"])
    (simp_all add: validate_range_response_def honest_body_def)

lemma canonical_206_exact_witness:
  "validate_range_response 206 (just_range (canonical_range 16 31 100)) 16 31 100 = Inr ()
    \<longleftrightarrow> int 16 = (16::int) \<and> int 31 = (31::int) \<and> int 100 = (100::int)"
  by (rule canonical_206_exact) (simp_all add: show_nat.simps max_str_digits_def)

end
