(* ===== verification/Targets.thy ===== *)
theory Targets
  imports RangeValidation
begin

text \<open>
  \<open>core/_link_http.py\<close>: the checks on destinations that come from untrusted links and state
  files, the bounded body reader and the redirect loop shared by the link services.

  \<open>urllib.parse.urlsplit\<close> is written out for the parts the program reads (scheme, network
  location, user information, host). Three library verdicts are fields of a record: whether
  a host is a literal IP address and globally routable (\<open>ipaddress\<close>), the IDNA encoding of a
  host, and the check newer interpreters make of a bracketed host.
\<close>

record net_lib =
  ip_literal :: "string \<Rightarrow> bool option"
  idna :: "string \<Rightarrow> string option"
  bracket_ok :: "string \<Rightarrow> bool"

section \<open>URLs\<close>

record url_parts =
  u_scheme :: string
  u_netloc :: string
  u_rest :: string

definition is_scheme_char :: "char \<Rightarrow> bool" where
  "is_scheme_char c \<longleftrightarrow> is_alnum c \<or> c \<in> set ''+-.''"

definition c0_or_space :: "char \<Rightarrow> bool" where
  "c0_or_space c \<longleftrightarrow> (of_char c :: nat) \<le> 32"

definition split_scheme :: "string \<Rightarrow> string \<times> string" where
  "split_scheme url = (case partition_at (CHR '':'') url of (s, found, rest) \<Rightarrow>
     if found \<and> s \<noteq> [] \<and> (is_upper (hd s) \<or> is_lower (hd s)) \<and> list_all is_scheme_char s
     then (lower s, rest) else ([], url))"

definition netloc_end :: "char \<Rightarrow> bool" where
  "netloc_end c \<longleftrightarrow> c \<in> set ''/?#''"

definition urlsplit :: "net_lib \<Rightarrow> string \<Rightarrow> url_parts py" where
  "urlsplit N url0 =
    (let url = filter (\<lambda>c. c \<notin> set [CHR 0x09, CHR 0x0A, CHR 0x0D]) (lstrip_by c0_or_space url0)
     in case split_scheme url of (scheme, u) \<Rightarrow>
       if starts_with ''//'' u then
         let netloc = takeWhile (\<lambda>c. \<not> netloc_end c) (drop 2 u);
             rest = dropWhile (\<lambda>c. \<not> netloc_end c) (drop 2 u);
             op = CHR ''['' \<in> set netloc; cl = CHR '']'' \<in> set netloc
         in if op \<noteq> cl then raise ValueError
            else if op \<and> \<not> bracket_ok N netloc then raise ValueError
            else Inr \<lparr>u_scheme = scheme, u_netloc = netloc, u_rest = rest\<rparr>
       else Inr \<lparr>u_scheme = scheme, u_netloc = [], u_rest = u\<rparr>)"

text \<open>\<open>s.rpartition(c)\<close>.\<close>

definition rpartition_at :: "char \<Rightarrow> string \<Rightarrow> string \<times> bool \<times> string" where
  "rpartition_at c s = (case partition_at c (rev s) of (t, f, h) \<Rightarrow>
     if f then (rev h, True, rev t) else ([], False, s))"

definition url_userinfo :: "url_parts \<Rightarrow> string \<times> string" where
  "url_userinfo p = (case rpartition_at (CHR ''@'') (u_netloc p) of (info, found, _) \<Rightarrow>
     if found then (case partition_at (CHR '':'') info of (user, _, pw) \<Rightarrow> (user, pw)) else ([], []))"

text \<open>\<open>parts.hostname or ""\<close>.\<close>

definition url_hostname :: "url_parts \<Rightarrow> string" where
  "url_hostname p = (case rpartition_at (CHR ''@'') (u_netloc p) of (_, _, hostinfo) \<Rightarrow>
     let host = (case partition_at (CHR ''['') hostinfo of (_, br, bracketed) \<Rightarrow>
                   if br then fst (partition_at (CHR '']'') bracketed)
                   else fst (partition_at (CHR '':'') hostinfo))
     in case partition_at (CHR 0x25) host of (h, pct, zone) \<Rightarrow>
          lower h @ (if pct then CHR 0x25 # zone else []))"

section \<open>Safe targets\<close>

definition normalize_host :: "net_lib \<Rightarrow> string \<Rightarrow> string" where
  "normalize_host N host0 =
    (let host = rstrip_by (\<lambda>c. c = CHR ''.'') (lower (strip host0))
     in if host = [] then [] else case idna N host of Some h \<Rightarrow> h | None \<Rightarrow> host)"

definition validate_safe_target :: "net_lib \<Rightarrow> string \<Rightarrow> unit py" where
  "validate_safe_target N url =
    bindR (urlsplit N url) (\<lambda>parts.
      if u_scheme parts \<noteq> ''https'' then raise UnsafeTargetError
      else if fst (url_userinfo parts) \<noteq> [] \<or> snd (url_userinfo parts) \<noteq> [] then raise UnsafeTargetError
      else let raw_host = url_hostname parts
           in if normalize_host N raw_host = [] then raise UnsafeTargetError
              else case ip_literal N raw_host of
                  Some g \<Rightarrow> if \<not> g then raise UnsafeTargetError else Inr ()
                | None \<Rightarrow> Inr ())"

definition safe_url :: "net_lib \<Rightarrow> string \<Rightarrow> bool" where
  "safe_url N url \<longleftrightarrow> (case urlsplit N url of
      Inl _ \<Rightarrow> False
    | Inr p \<Rightarrow> u_scheme p = ''https'' \<and> url_userinfo p = ([], []) \<and> url_hostname p \<noteq> []
        \<and> ip_literal N (url_hostname p) \<noteq> Some False)"

lemma normalize_host_Nil [simp]: "normalize_host N [] = []"
  by (simp add: normalize_host_def strip_def lstrip_by_def rstrip_by_def lower_def)

lemma validate_safe_target_safe: "validate_safe_target N url = Inr u \<Longrightarrow> safe_url N url"
  by (cases "urlsplit N url")
    (auto simp: validate_safe_target_def safe_url_def Let_def prod_eq_iff split: if_splits option.splits)

section \<open>Bounded bodies\<close>

text \<open>\<open>read_bounded_bytes\<close> over the blocks \<open>iter_content\<close> yields.\<close>

fun read_blocks :: "nat \<Rightarrow> nat \<Rightarrow> bytes list \<Rightarrow> bytes py" where
  "read_blocks limit got [] = Inr []"
| "read_blocks limit got (b # bs) =
    (if limit < got + length b then raise PayloadTooLargeError
     else bindR (read_blocks limit (got + length b) bs) (\<lambda>r. Inr (b @ r)))"

definition read_bounded_bytes :: "bytes list \<Rightarrow> nat \<Rightarrow> bytes py" where
  "read_bounded_bytes blocks limit = read_blocks limit 0 blocks"

lemma read_blocks_iff:
  "got \<le> limit \<Longrightarrow> read_blocks limit got bs =
     (if got + length (concat bs) \<le> limit then Inr (concat bs) else raise PayloadTooLargeError)"
  by (induction limit got bs rule: read_blocks.induct) auto

text \<open>
  A body is returned whole or refused, and the decision depends only on its length, never
  on how the transport cut it into blocks.
\<close>

theorem read_bounded_exact:
  "read_bounded_bytes blocks limit =
     (if length (concat blocks) \<le> limit then Inr (concat blocks) else raise PayloadTooLargeError)"
  by (simp add: read_bounded_bytes_def read_blocks_iff)

section \<open>The redirect loop\<close>

text \<open>
  One answer of the network to a POST: a transport failure, or a status with its
  \<open>Location\<close>. \<open>urljoin\<close> is an argument. The state is the log of what was sent where, through
  which proxy, and of the proxies reported as failing.
\<close>

datatype reply = Failed exc | Answer int "string option"

record 'p post_log =
  sent :: "(string \<times> 'p) list"
  blamed :: "'p list"

definition is_redirect :: "int \<Rightarrow> bool" where
  "is_redirect status \<longleftrightarrow> status \<in> set [301, 302, 303, 307, 308]"

fun post_hops ::
  "(string \<Rightarrow> unit py) \<Rightarrow> (nat \<Rightarrow> 'p py) \<Rightarrow> (string \<Rightarrow> 'p \<Rightarrow> reply) \<Rightarrow> (string \<Rightarrow> string \<Rightarrow> string)
   \<Rightarrow> nat \<Rightarrow> string \<Rightarrow> 'p post_log \<Rightarrow> (int \<times> 'p) py \<times> 'p post_log" where
  "post_hops validate select net join 0 current log = (raise ValueError, log)"
| "post_hops validate select net join (Suc n) current log =
    (case validate current of
       Inl e \<Rightarrow> (Inl e, log)
     | Inr _ \<Rightarrow> (case select n of
         Inl e \<Rightarrow> (Inl e, log)
       | Inr picked \<Rightarrow>
           (let log = log\<lparr>sent := sent log @ [(current, picked)]\<rparr>
            in case net current picked of
                 Failed e \<Rightarrow> (Inl e, log\<lparr>blamed := blamed log @ [picked]\<rparr>)
               | Answer status location \<Rightarrow>
                   if is_redirect status then
                     (case location of
                        None \<Rightarrow> (raise ValueError, log)
                      | Some loc \<Rightarrow>
                          if loc = [] then (raise ValueError, log)
                          else post_hops validate select net join n (join current (strip loc)) log)
                   else (Inr (status, picked), log))))"

definition post_validated ::
  "(string \<Rightarrow> unit py) \<Rightarrow> (nat \<Rightarrow> 'p py) \<Rightarrow> (string \<Rightarrow> 'p \<Rightarrow> reply) \<Rightarrow> (string \<Rightarrow> string \<Rightarrow> string)
   \<Rightarrow> nat \<Rightarrow> string \<Rightarrow> (int \<times> 'p) py \<times> 'p post_log" where
  "post_validated validate select net join max_redirects url =
     post_hops validate select net join (max_redirects + 1) url \<lparr>sent = [], blamed = []\<rparr>"

lemma post_hops_sent:
  assumes "post_hops validate select net join n current log = (r, log')"
  shows "\<exists>extra. sent log' = sent log @ extra \<and> length extra \<le> n
    \<and> (\<forall>(u, p) \<in> set extra. validate u = Inr () \<and> (\<exists>k. select k = Inr p))"
  using assms
proof (induction validate select net join n current log arbitrary: r log' rule: post_hops.induct)
  case (2 validate select net join n current log)
  show ?case
  proof (cases "validate current")
    case (Inr v)
    show ?thesis
    proof (cases "select n")
      case (Inr p)
      let ?log = "log\<lparr>sent := sent log @ [(current, p)]\<rparr>"
      have one: "\<exists>extra. sent log @ [(current, p)] = sent log @ extra \<and> length extra \<le> Suc n
          \<and> (\<forall>(u, q) \<in> set extra. validate u = Inr () \<and> (\<exists>k. select k = Inr q))"
        by (rule exI [of _ "[(current, p)]"]) (use \<open>validate current = Inr v\<close> Inr in auto)
      show ?thesis
      proof (cases "net current p")
        case (Failed e)
        with 2 Inr \<open>validate current = Inr v\<close> one show ?thesis by auto
      next
        case (Answer status location)
        show ?thesis
        proof (cases "is_redirect status \<and> (\<exists>l. location = Some l \<and> l \<noteq> [])")
          case False
          then have "sent log' = sent log @ [(current, p)]"
            using "2.prems" Inr Answer \<open>validate current = Inr v\<close>
            by (auto simp: Let_def split: option.splits if_splits)
          with one show ?thesis by simp
        next
          case True
          then obtain l where l: "location = Some l" "l \<noteq> []" "is_redirect status" by blast
          have "post_hops validate select net join n (join current (strip l)) ?log = (r, log')"
            using "2.prems" Inr Answer l \<open>validate current = Inr v\<close> by simp
          from "2.IH" [OF \<open>validate current = Inr v\<close> Inr refl Answer l(3) l(1) l(2) this]
          obtain extra where "sent log' = sent ?log @ extra" "length extra \<le> n"
            "\<forall>(u, q) \<in> set extra. validate u = Inr () \<and> (\<exists>k. select k = Inr q)" by blast
          then show ?thesis using \<open>validate current = Inr v\<close> Inr
            by (intro exI [of _ "(current, p) # extra"]) auto
        qed
      qed
    qed (use "2.prems" \<open>validate current = Inr v\<close> in auto)
  qed (use "2.prems" in auto)
qed auto

text \<open>
  C34: no request leaves for an unchecked destination. Whatever the servers answer and wherever
  they redirect, every URL that was contacted is HTTPS without credentials at a host that is not
  a non-global address, each hop went out through a route the proxy policy chose, and there are
  at most \<open>max_redirects + 1\<close> requests.
\<close>

theorem post_validated_safe:
  "case post_validated (validate_safe_target N) select net join max_redirects url of (r, log) \<Rightarrow>
     list_all (\<lambda>(u, p). safe_url N u \<and> (\<exists>k. select k = Inr p)) (sent log)
     \<and> length (sent log) \<le> max_redirects + 1"
proof -
  obtain r log where h: "post_validated (validate_safe_target N) select net join max_redirects url = (r, log)"
    by fastforce
  from post_hops_sent [OF h [unfolded post_validated_def]] show ?thesis
    unfolding h by (auto simp: list_all_iff dest: validate_safe_target_safe)
qed

end
