(* ===== verification/TransferState.thy ===== *)
theory TransferState
  imports Targets
begin

text \<open>
  \<open>core/state.py\<close>, the data: the resumable-transfer record, its JSON form, the validator every
  \<open>.mbstate\<close> file goes through and the operations that grow a state. Message texts are not
  modelled. Files and locks are in the theory \<open>StateFile\<close>.
\<close>

definition STATE_FORMAT_VERSION :: int where
  "STATE_FORMAT_VERSION = 1"

definition MAC_HEX_LENGTH :: nat where
  "MAC_HEX_LENGTH = 32"

definition MAC_BYTE_LENGTH :: nat where
  "MAC_BYTE_LENGTH = MAC_HEX_LENGTH div 2"

definition VALID_TRANSFER_TYPES :: "string list" where
  "VALID_TRANSFER_TYPES = [''download'', ''upload'']"

definition AES_KEY_HEX_LENGTH :: nat where
  "AES_KEY_HEX_LENGTH = 32"

definition NONCE_HEX_LENGTH :: nat where
  "NONCE_HEX_LENGTH = 16"

definition MAX_TOKEN_HEX_LENGTH :: nat where
  "MAX_TOKEN_HEX_LENGTH = 8192"

definition UPLOAD_HOST_SUFFIXES :: "string list" where
  "UPLOAD_HOST_SUFFIXES = [''mega.nz'', ''mega.co.nz'']"

record transfer_state =
  transfer_type :: string
  source :: string
  destination :: string
  total_size :: int
  format_version :: int
  completed_chunks :: "int list"
  chunk_macs :: "(int \<times> string) list"
  metadata :: "(string \<times> json) list"
  revision :: int

section \<open>Validation\<close>

abbreviation corrupt :: exc where
  "corrupt \<equiv> Exc StateCorruptionError None"

definition req :: "bool \<Rightarrow> unit py" where
  "req c = require c corrupt"

definition need_int :: "json \<Rightarrow> int py" where
  "need_int v = (case v of JInt n \<Rightarrow> Inr n | _ \<Rightarrow> Inl corrupt)"

definition need_str :: "json \<Rightarrow> string py" where
  "need_str v = (case v of JStr s \<Rightarrow> Inr s | _ \<Rightarrow> Inl corrupt)"

definition need_obj :: "json \<Rightarrow> (string \<times> json) list py" where
  "need_obj v = (case v of JObj d \<Rightarrow> Inr d | _ \<Rightarrow> Inl corrupt)"

definition need_arr :: "json \<Rightarrow> json list py" where
  "need_arr v = (case v of JArr l \<Rightarrow> Inr l | _ \<Rightarrow> Inl corrupt)"

definition need_field :: "string \<Rightarrow> (string \<times> json) list \<Rightarrow> json py" where
  "need_field k d = (case jget k d of Some v \<Rightarrow> Inr v | None \<Rightarrow> Inl corrupt)"

definition need_hex :: "string \<Rightarrow> unit py" where
  "need_hex s = req (from_hex s \<noteq> None)"

definition validate_chunk_index :: "json \<Rightarrow> int list \<Rightarrow> int list py" where
  "validate_chunk_index v seen =
    bindR (need_int v) (\<lambda>i.
    bindR (req (0 \<le> i)) (\<lambda>_.
    bindR (req (i \<notin> set seen)) (\<lambda>_. Inr (seen @ [i]))))"

definition validate_hex :: "json \<Rightarrow> nat option \<Rightarrow> nat option \<Rightarrow> unit py" where
  "validate_hex v exact max_length =
    bindR (need_str v) (\<lambda>s.
    bindR (case exact of None \<Rightarrow> Inr () | Some n \<Rightarrow> req (length s = n)) (\<lambda>_.
    bindR (case max_length of None \<Rightarrow> Inr () | Some n \<Rightarrow> req (0 < length s \<and> length s \<le> n)) (\<lambda>_.
      need_hex s)))"

definition mega_storage_host :: "string \<Rightarrow> bool" where
  "mega_storage_host host \<longleftrightarrow>
     list_ex (\<lambda>suffix. host = suffix \<or> ends_with (CHR ''.'' # suffix) host) UPLOAD_HOST_SUFFIXES"

definition upload_host :: "url_parts \<Rightarrow> string" where
  "upload_host p = lower (rstrip_by (\<lambda>c. c = CHR ''.'') (url_hostname p))"

text \<open>
  Only \<open>UnsafeTargetError\<close> is translated; a \<open>ValueError\<close> of \<open>urlparse\<close> itself passes through.
\<close>

definition validate_upload_url :: "net_lib \<Rightarrow> json \<Rightarrow> unit py" where
  "validate_upload_url N v =
    bindR (need_str v) (\<lambda>url.
    bindR (case validate_safe_target N url of
             Inl e \<Rightarrow> if isinstance e UnsafeTargetError then Inl corrupt else Inl e
           | Inr u \<Rightarrow> Inr u) (\<lambda>_.
    bindR (urlsplit N url) (\<lambda>parts. req (mega_storage_host (upload_host parts)))))"

definition if_present :: "string \<Rightarrow> (string \<times> json) list \<Rightarrow> (json \<Rightarrow> unit py) \<Rightarrow> unit py" where
  "if_present k d f = (case jget k d of None \<Rightarrow> Inr () | Some v \<Rightarrow> f v)"

definition validate_metadata :: "net_lib \<Rightarrow> json \<Rightarrow> (string \<times> json) list py" where
  "validate_metadata N v =
    bindR (need_obj v) (\<lambda>d.
    bindR (if_present ''aes_key'' d (\<lambda>x. validate_hex x (Some AES_KEY_HEX_LENGTH) None)) (\<lambda>_.
    bindR (if_present ''nonce'' d (\<lambda>x. validate_hex x (Some NONCE_HEX_LENGTH) None)) (\<lambda>_.
    bindR (if_present ''completion_token'' d
             (\<lambda>x. validate_hex x None (Some MAX_TOKEN_HEX_LENGTH))) (\<lambda>_.
    bindR (if_present ''upload_url'' d (validate_upload_url N)) (\<lambda>_.
    bindR (if_present ''source_identity'' d (\<lambda>x. req (is_JObj x))) (\<lambda>_. Inr d))))))"

definition validate_mac :: "string \<times> json \<Rightarrow> (int \<times> string) list \<Rightarrow> (int \<times> string) list py" where
  "validate_mac kv normalized =
    bindR (case py_int (fst kv) of None \<Rightarrow> Inl corrupt | Some i \<Rightarrow> Inr i) (\<lambda>index.
    bindR (req (0 \<le> index)) (\<lambda>_.
    bindR (need_str (snd kv)) (\<lambda>v.
    bindR (req (length v = MAC_HEX_LENGTH)) (\<lambda>_.
    bindR (need_hex v) (\<lambda>_. Inr (dict_set index v normalized))))))"

definition validate_state_dict :: "net_lib \<Rightarrow> json \<Rightarrow> transfer_state py" where
  "validate_state_dict N data =
    bindR (need_obj data) (\<lambda>d.
    bindR (need_int (jget_default ''format_version'' (JInt STATE_FORMAT_VERSION) d)) (\<lambda>version.
    bindR (bindR (need_field ''transfer_type'' d) need_str) (\<lambda>ttype.
    bindR (bindR (need_field ''source'' d) need_str) (\<lambda>src.
    bindR (bindR (need_field ''destination'' d) need_str) (\<lambda>dst.
    bindR (req (ttype \<in> set VALID_TRANSFER_TYPES)) (\<lambda>_.
    bindR (bindR (need_field ''total_size'' d) need_int) (\<lambda>tsize.
    bindR (req (0 \<le> tsize)) (\<lambda>_.
    bindR (need_arr (jget_default ''completed_chunks'' (JArr []) d)) (\<lambda>chunks.
    bindR (foldR validate_chunk_index chunks []) (\<lambda>seen.
    bindR (need_obj (jget_default ''chunk_macs'' (JObj []) d)) (\<lambda>macs.
    bindR (foldR validate_mac macs []) (\<lambda>normalized.
    bindR (validate_metadata N (jget_default ''metadata'' (JObj []) d)) (\<lambda>meta.
    bindR (need_int (jget_default ''revision'' (JInt 0) d)) (\<lambda>rev.
    bindR (req (0 \<le> rev)) (\<lambda>_.
    bindR (req (list_all (\<lambda>i. i \<in> set seen) (map fst normalized))) (\<lambda>_.
      Inr \<lparr>transfer_type = ttype, source = src, destination = dst, total_size = tsize,
           format_version = version, completed_chunks = seen, chunk_macs = normalized,
           metadata = meta, revision = rev\<rparr>))))))))))))))))"

section \<open>Well-formed states\<close>

definition valid_mac_hex :: "string \<Rightarrow> bool" where
  "valid_mac_hex v \<longleftrightarrow> length v = MAC_HEX_LENGTH \<and> from_hex v \<noteq> None"

definition chunks_ok :: "int list \<Rightarrow> bool" where
  "chunks_ok cs \<longleftrightarrow> distinct cs \<and> list_all (\<lambda>i. 0 \<le> i) cs"

definition macs_ok :: "int list \<Rightarrow> (int \<times> string) list \<Rightarrow> bool" where
  "macs_ok cs ms \<longleftrightarrow> distinct (map fst ms)
     \<and> list_all (\<lambda>(i, v). i \<in> set cs \<and> valid_mac_hex v) ms"

definition state_valid :: "net_lib \<Rightarrow> transfer_state \<Rightarrow> bool" where
  "state_valid N s \<longleftrightarrow>
     transfer_type s \<in> set VALID_TRANSFER_TYPES \<and> 0 \<le> total_size s
     \<and> chunks_ok (completed_chunks s) \<and> macs_ok (completed_chunks s) (chunk_macs s)
     \<and> validate_metadata N (JObj (metadata s)) = Inr (metadata s) \<and> 0 \<le> revision s"

lemma req_Inr [simp]: "req c = Inr u \<longleftrightarrow> c"
  by (simp add: req_def)

lemma need_int_Inr: "need_int v = Inr n \<longleftrightarrow> v = JInt n"
  by (auto simp: need_int_def split: json.splits)

lemma need_str_Inr: "need_str v = Inr s \<longleftrightarrow> v = JStr s"
  by (auto simp: need_str_def split: json.splits)

lemma need_obj_Inr: "need_obj v = Inr d \<longleftrightarrow> v = JObj d"
  by (auto simp: need_obj_def split: json.splits)

lemma need_arr_Inr: "need_arr v = Inr l \<longleftrightarrow> v = JArr l"
  by (auto simp: need_arr_def split: json.splits)

lemma need_field_Inr: "need_field k d = Inr v \<longleftrightarrow> jget k d = Some v"
  by (auto simp: need_field_def split: option.splits)

lemma need_hex_Inr: "need_hex s = Inr u \<longleftrightarrow> from_hex s \<noteq> None"
  by (simp add: need_hex_def)

lemmas need_iffs = bindR_Inr_iff need_int_Inr need_str_Inr need_obj_Inr need_arr_Inr need_field_Inr
  need_hex_Inr

lemma validate_chunk_index_Inr:
  "validate_chunk_index v seen = Inr seen' \<longleftrightarrow>
     (\<exists>i. v = JInt i \<and> 0 \<le> i \<and> i \<notin> set seen \<and> seen' = seen @ [i])"
  by (auto simp: validate_chunk_index_def need_iffs)

lemma validate_mac_Inr:
  "validate_mac kv m = Inr m' \<longleftrightarrow>
     (\<exists>i v. py_int (fst kv) = Some i \<and> 0 \<le> i \<and> snd kv = JStr v \<and> valid_mac_hex v \<and> m' = dict_set i v m)"
  by (auto simp: validate_mac_def need_iffs valid_mac_hex_def split: option.splits)

lemma chunk_fold_ok: "foldR validate_chunk_index vs [] = Inr seen \<Longrightarrow> chunks_ok seen"
  by (erule foldR_invariant [where P = chunks_ok])
    (auto simp: chunks_ok_def validate_chunk_index_Inr)

lemma set_dict_set: "set (dict_set k v d) \<subseteq> insert (k, v) (set d)"
  by (induction k v d rule: dict_set.induct) auto

lemma mac_fold_ok:
  assumes "foldR validate_mac kvs [] = Inr m"
  shows "distinct (map fst m) \<and> (\<forall>(i, v) \<in> set m. valid_mac_hex v)"
  using assms
proof (rule foldR_invariant)
  fix kv d d'
  assume d: "distinct (map fst d) \<and> (\<forall>(i, v) \<in> set d. valid_mac_hex v)" and v: "validate_mac kv d = Inr d'"
  from v obtain i w where "d' = dict_set i w d" "valid_mac_hex w" by (auto simp: validate_mac_Inr)
  then show "distinct (map fst d') \<and> (\<forall>(i, v) \<in> set d'. valid_mac_hex v)"
    using d distinct_dict_set [of d i w] set_dict_set [of i w d] by fastforce
qed simp

lemma validate_state_dict_version:
  "validate_state_dict N data = Inr s \<Longrightarrow> \<exists>d. data = JObj d \<and>
     jget_default ''format_version'' (JInt STATE_FORMAT_VERSION) d = JInt (format_version s)"
  by (auto simp: validate_state_dict_def need_iffs)

lemma validate_metadata_obj: "validate_metadata N v = Inr d \<Longrightarrow> v = JObj d"
  by (auto simp: validate_metadata_def need_iffs)

lemma validate_state_dict_valid:
  assumes "validate_state_dict N data = Inr s"
  shows "state_valid N s"
proof -
  from assms have c: "chunks_ok (completed_chunks s)"
    by (auto simp: validate_state_dict_def need_iffs dest: chunk_fold_ok)
  from assms obtain kvs where "foldR validate_mac kvs [] = Inr (chunk_macs s)"
    by (auto simp: validate_state_dict_def need_iffs)
  note m = mac_fold_ok [OF this]
  from assms have "list_all (\<lambda>i. i \<in> set (completed_chunks s)) (map fst (chunk_macs s))"
    by (auto simp: validate_state_dict_def need_iffs)
  then have o: "\<forall>p \<in> set (chunk_macs s). fst p \<in> set (completed_chunks s)"
    by (simp add: list_all_iff)
  from assms have "validate_metadata N (JObj (metadata s)) = Inr (metadata s)"
    by (auto simp: validate_state_dict_def need_iffs) (metis validate_metadata_obj)
  moreover from assms have "transfer_type s \<in> set VALID_TRANSFER_TYPES \<and> 0 \<le> total_size s \<and> 0 \<le> revision s"
    by (auto simp: validate_state_dict_def need_iffs)
  ultimately show ?thesis
    using c m o by (fastforce simp: state_valid_def macs_ok_def list_all_iff)
qed

text \<open>
  What the validator lets through is a well-formed state: a known transfer type, sizes and
  indices that are not negative, no chunk twice, one 32-digit MAC per recorded chunk and only
  for recorded chunks, and metadata every later decoder accepts.
\<close>

theorem validated_state_is_valid:
  assumes "validate_state_dict N data = Inr s"
  shows "state_valid N s"
  by (rule validate_state_dict_valid [OF assms])

section \<open>The JSON form\<close>

text \<open>\<open>asdict\<close> with the integer keys of \<open>chunk_macs\<close> turned into strings.\<close>

definition state_json :: "transfer_state \<Rightarrow> json" where
  "state_json s = JObj
    [(''transfer_type'', JStr (transfer_type s)), (''source'', JStr (source s)),
     (''destination'', JStr (destination s)), (''total_size'', JInt (total_size s)),
     (''format_version'', JInt (format_version s)),
     (''completed_chunks'', JArr (map JInt (completed_chunks s))),
     (''chunk_macs'', JObj (map (\<lambda>(k, v). (show_int k, JStr v)) (chunk_macs s))),
     (''metadata'', JObj (metadata s)), (''revision'', JInt (revision s))]"

text \<open>\<open>int(str(k))\<close> is \<open>k\<close> up to CPython's limit on the digits it converts.\<close>

definition printable_keys :: "(int \<times> string) list \<Rightarrow> bool" where
  "printable_keys ms \<longleftrightarrow> list_all (\<lambda>k. length (show_int k) \<le> max_str_digits) (map fst ms)"

lemma chunks_read_back:
  "chunks_ok (seen @ cs) \<Longrightarrow> foldR validate_chunk_index (map JInt cs) seen = Inr (seen @ cs)"
proof (induction cs arbitrary: seen)
  case (Cons c cs)
  then have "validate_chunk_index (JInt c) seen = Inr (seen @ [c])"
    by (auto simp: validate_chunk_index_Inr chunks_ok_def)
  moreover have "foldR validate_chunk_index (map JInt cs) (seen @ [c]) = Inr ((seen @ [c]) @ cs)"
    using Cons by simp
  ultimately show ?case by simp
qed simp

lemma dict_set_fresh: "k \<notin> fst ` set d \<Longrightarrow> dict_set k v d = d @ [(k, v)]"
  by (induction k v d rule: dict_set.induct) auto

lemma macs_read_back:
  assumes "\<forall>(i, v) \<in> set ms. 0 \<le> i \<and> valid_mac_hex v" and "printable_keys ms"
    and "distinct (map fst (acc @ ms))"
  shows "foldR validate_mac (map (\<lambda>(k, v). (show_int k, JStr v)) ms) acc = Inr (acc @ ms)"
  using assms
proof (induction ms arbitrary: acc)
  case (Cons m ms)
  obtain k v where m: "m = (k, v)" by fastforce
  have "py_int (show_int k) = Some k"
    using Cons.prems(2) m by (intro py_int_show_int) (simp add: printable_keys_def)
  then have "validate_mac (show_int k, JStr v) acc = Inr (dict_set k v acc)"
    using Cons.prems(1) m by (auto simp: validate_mac_Inr)
  moreover have "dict_set k v acc = acc @ [(k, v)]"
    using Cons.prems(3) m by (intro dict_set_fresh) auto
  moreover have "foldR validate_mac (map (\<lambda>(k, v). (show_int k, JStr v)) ms) (acc @ [(k, v)])
      = Inr ((acc @ [(k, v)]) @ ms)"
    using Cons.prems m by (intro Cons.IH) (auto simp: printable_keys_def)
  ultimately show ?case using m by simp
qed simp

lemma state_read_back:
  assumes "state_valid N s" and "printable_keys (chunk_macs s)"
  shows "validate_state_dict N (state_json s) = Inr s"
proof -
  have c: "foldR validate_chunk_index (map JInt (completed_chunks s)) [] = Inr (completed_chunks s)"
    using chunks_read_back [of "[]" "completed_chunks s"] assms(1) by (simp add: state_valid_def)
  have "\<forall>(i, v) \<in> set (chunk_macs s). 0 \<le> i \<and> valid_mac_hex v"
    using assms(1) by (auto simp: state_valid_def macs_ok_def chunks_ok_def list_all_iff)
  then have m: "foldR validate_mac (map (\<lambda>(k, v). (show_int k, JStr v)) (chunk_macs s)) []
      = Inr (chunk_macs s)"
    using macs_read_back [of "chunk_macs s" "[]"] assms by (simp add: state_valid_def macs_ok_def)
  have o: "list_all (\<lambda>i. i \<in> set (completed_chunks s)) (map fst (chunk_macs s))"
    using assms(1) by (auto simp: state_valid_def macs_ok_def list_all_iff)
  have g: "need_int (JInt n) = Inr n" "need_str (JStr t) = Inr t" "need_arr (JArr l) = Inr l"
    "need_obj (JObj d) = Inr d" for n t l d
    by (simp_all add: need_int_def need_str_def need_arr_def need_obj_def)
  have v: "transfer_type s \<in> set VALID_TRANSFER_TYPES" "0 \<le> total_size s" "0 \<le> revision s"
    "validate_metadata N (JObj (metadata s)) = Inr (metadata s)"
    using assms(1) by (simp_all add: state_valid_def)
  show ?thesis
    unfolding validate_state_dict_def state_json_def
    by (simp add: g c m o v need_field_def jget_def jget_default_def req_def)
qed

section \<open>Growing a state\<close>

definition is_chunk_done :: "transfer_state \<Rightarrow> int \<Rightarrow> bool" where
  "is_chunk_done s i \<longleftrightarrow> i \<in> set (completed_chunks s)"

definition mark_chunk_done :: "int \<Rightarrow> bytes option \<Rightarrow> transfer_state \<Rightarrow> transfer_state py" where
  "mark_chunk_done i mac s =
    (if (case mac of None \<Rightarrow> False | Some m \<Rightarrow> length m \<noteq> MAC_BYTE_LENGTH)
     then raise StateCorruptionError
     else let s1 = (if i \<notin> set (completed_chunks s)
                    then s\<lparr>completed_chunks := completed_chunks s @ [i]\<rparr> else s)
          in Inr (case mac of
                    None \<Rightarrow> s1
                  | Some m \<Rightarrow> s1\<lparr>chunk_macs := dict_set i (to_hex m) (chunk_macs s1)\<rparr>))"

definition get_chunk_mac :: "int \<Rightarrow> transfer_state \<Rightarrow> bytes option py" where
  "get_chunk_mac i s =
    (case map_of (chunk_macs s) i of
       None \<Rightarrow> Inr None
     | Some h \<Rightarrow> if h = [] then Inr None
                 else case from_hex h of None \<Rightarrow> raise ValueError | Some b \<Rightarrow> Inr (Some b))"

text \<open>The live state after the claim, and the snapshot that carries it.\<close>

definition snapshot_state :: "transfer_state \<Rightarrow> transfer_state \<times> transfer_state" where
  "snapshot_state s = (let live = s\<lparr>revision := revision s + 1\<rparr> in (live, live))"

lemma valid_mac_hex_to_hex: "length m = MAC_BYTE_LENGTH \<Longrightarrow> valid_mac_hex (to_hex m)"
  by (simp add: valid_mac_hex_def MAC_BYTE_LENGTH_def MAC_HEX_LENGTH_def from_hex_to_hex)

lemma macs_ok_mono: "macs_ok cs ms \<Longrightarrow> macs_ok (cs @ ds) ms"
  by (auto simp: macs_ok_def list_all_iff)

lemma macs_ok_set:
  assumes "macs_ok cs ms" and "i \<in> set cs" and "valid_mac_hex v"
  shows "macs_ok cs (dict_set i v ms)"
  using assms distinct_dict_set [of ms i v] set_dict_set [of i v ms]
  by (fastforce simp: macs_ok_def list_all_iff)

lemma mark_chunk_done_facts:
  assumes "state_valid N s" and "0 \<le> i"
  shows "case mark_chunk_done i mac s of
      Inl e \<Rightarrow> e = corrupt \<and> (\<exists>m. mac = Some m \<and> length m \<noteq> 16)
    | Inr t \<Rightarrow> state_valid N t \<and> is_chunk_done t i \<and> revision t = revision s
        \<and> set (completed_chunks t) = insert i (set (completed_chunks s))
        \<and> (mac = None \<or> get_chunk_mac i t = Inr mac)
        \<and> (\<forall>j. j = i \<or> get_chunk_mac j t = get_chunk_mac j s)"
proof -
  let ?s1 = "if i \<notin> set (completed_chunks s)
             then s\<lparr>completed_chunks := completed_chunks s @ [i]\<rparr> else s"
  have s1: "state_valid N ?s1" "i \<in> set (completed_chunks ?s1)"
    using assms macs_ok_mono by (auto simp: state_valid_def chunks_ok_def)
  show ?thesis
  proof (cases mac)
    case None
    then show ?thesis
      using s1 by (auto simp: mark_chunk_done_def is_chunk_done_def get_chunk_mac_def Let_def)
  next
    case (Some m)
    show ?thesis
    proof (cases "length m = MAC_BYTE_LENGTH")
      case False
      with Some show ?thesis
        by (simp add: mark_chunk_done_def MAC_BYTE_LENGTH_def MAC_HEX_LENGTH_def)
    next
      case True
      have "macs_ok (completed_chunks ?s1) (dict_set i (to_hex m) (chunk_macs ?s1))"
        using macs_ok_set [OF _ s1(2) valid_mac_hex_to_hex [OF True]] s1(1)
        by (simp add: state_valid_def)
      then have v: "state_valid N (?s1\<lparr>chunk_macs := dict_set i (to_hex m) (chunk_macs ?s1)\<rparr>)"
        using s1(1) by (simp add: state_valid_def)
      have "to_hex m \<noteq> []"
        using True by (cases m) (auto simp: MAC_BYTE_LENGTH_def MAC_HEX_LENGTH_def)
      then show ?thesis
        using Some True v s1(2)
        by (auto simp: mark_chunk_done_def is_chunk_done_def get_chunk_mac_def Let_def
            from_hex_to_hex)
    qed
  qed
qed

text \<open>
  Recording a chunk never produces a state the reader would reject. A valid state stays
  valid, the chunk and its MAC can be read back, earlier chunks and their MACs are untouched,
  and the only value refused is a MAC of the wrong length, at its source.
\<close>

theorem mark_chunk_done_keeps_valid:
  assumes "state_valid N s" and "0 \<le> i"
  shows "case mark_chunk_done i mac s of
      Inl e \<Rightarrow> e = corrupt \<and> (\<exists>m. mac = Some m \<and> length m \<noteq> 16)
    | Inr t \<Rightarrow> state_valid N t \<and> is_chunk_done t i \<and> revision t = revision s
        \<and> set (completed_chunks t) = insert i (set (completed_chunks s))
        \<and> (mac = None \<or> get_chunk_mac i t = Inr mac)
        \<and> (\<forall>j. j = i \<or> get_chunk_mac j t = get_chunk_mac j s)"
  by (rule mark_chunk_done_facts [OF assms])

definition plain_lib :: net_lib where
  "plain_lib = \<lparr>ip_literal = \<lambda>_. None, idna = \<lambda>h. Some h, bracket_ok = \<lambda>_. True\<rparr>"

definition fresh_state :: transfer_state where
  "fresh_state = \<lparr>transfer_type = ''download'', source = [], destination = [], total_size = 0,
     format_version = 1, completed_chunks = [], chunk_macs = [], metadata = [], revision = 0\<rparr>"

lemma fresh_state_valid: "state_valid plain_lib fresh_state"
  by (simp add: state_valid_def fresh_state_def VALID_TRANSFER_TYPES_def chunks_ok_def macs_ok_def
      validate_metadata_def need_obj_def if_present_def jget_def)

lemma validated_state_is_valid_witness: "state_valid plain_lib fresh_state"
proof (rule validated_state_is_valid)
  show "validate_state_dict plain_lib (state_json fresh_state) = Inr fresh_state"
    by (rule state_read_back [OF fresh_state_valid]) (simp add: fresh_state_def printable_keys_def)
qed

lemma mark_chunk_done_keeps_valid_witness:
  "case mark_chunk_done 4 (Some (zeros 16)) fresh_state of
      Inl e \<Rightarrow> e = corrupt \<and> (\<exists>m. Some (zeros 16) = Some m \<and> length m \<noteq> 16)
    | Inr t \<Rightarrow> state_valid plain_lib t \<and> is_chunk_done t 4 \<and> revision t = revision fresh_state
        \<and> set (completed_chunks t) = insert 4 (set (completed_chunks fresh_state))
        \<and> (Some (zeros 16) = None \<or> get_chunk_mac 4 t = Inr (Some (zeros 16)))
        \<and> (\<forall>j. j = 4 \<or> get_chunk_mac j t = get_chunk_mac j fresh_state)"
  by (rule mark_chunk_done_keeps_valid [OF fresh_state_valid]) simp

end
