(* ===== verification/Corruption.thy ===== *)
theory Corruption
  imports TransferState
begin

text \<open>
  \<open>utils/corruption.py\<close>: every distinct corrupt content is preserved under a name that carries
  its digest, and the caller learns of a backup only when one holds exactly those bytes. A
  directory is the list of its files in name order; the digest, the time stamp and the
  success of the file operations are arguments. \<open>chmod\<close> and \<open>fsync\<close> leave no trace in the model.
\<close>

record 'c backup_io =
  bk_digest :: "'c \<Rightarrow> string"
  bk_stamp :: string
  bk_open :: "nat \<Rightarrow> bool"
  bk_write :: "nat \<Rightarrow> bool"

definition backup_name :: "string \<Rightarrow> string \<Rightarrow> nat \<Rightarrow> string \<Rightarrow> string" where
  "backup_name name stamp attempt digest =
     name @ ''.corrupt.'' @ stamp @ (if attempt = 0 then [] else ''.'' @ show_nat attempt)
       @ ''-'' @ digest @ ''.json''"

text \<open>The glob \<open>name.corrupt.*-digest.json\<close>.\<close>

definition is_backup_name :: "string \<Rightarrow> string \<Rightarrow> string \<Rightarrow> bool" where
  "is_backup_name name digest f \<longleftrightarrow>
    (let pre = name @ ''.corrupt.''; post = ''-'' @ digest @ ''.json''
     in starts_with pre f \<and> ends_with post f \<and> length pre + length post \<le> length f)"

definition existing_backup_for :: "(string \<times> 'c) list \<Rightarrow> string \<Rightarrow> string \<Rightarrow> 'c \<Rightarrow> string option" where
  "existing_backup_for dir name digest data =
     map_option fst (find (\<lambda>(f, c). is_backup_name name digest f \<and> c = data) dir)"

fun try_backups ::
  "'c backup_io \<Rightarrow> string \<Rightarrow> string \<Rightarrow> 'c \<Rightarrow> nat list \<Rightarrow> (string \<times> 'c) list
   \<Rightarrow> string option \<times> (string \<times> 'c) list" where
  "try_backups io name digest data [] dir = (None, dir)"
| "try_backups io name digest data (k # ks) dir =
    (let backup = backup_name name (bk_stamp io) k digest
     in case map_of dir backup of
          Some c \<Rightarrow> if c = data then (Some backup, dir)
                    else try_backups io name digest data ks dir
        | None \<Rightarrow> if \<not> bk_open io k then (None, dir)
                  else if \<not> bk_write io k then (None, dir)
                  else (Some backup, dir @ [(backup, data)]))"

definition preserve_corrupt_file ::
  "'c backup_io \<Rightarrow> string \<Rightarrow> 'c \<Rightarrow> (string \<times> 'c) list \<Rightarrow> string option \<times> (string \<times> 'c) list" where
  "preserve_corrupt_file io name data dir =
    (let digest = bk_digest io data
     in case existing_backup_for dir name digest data of
          Some b \<Rightarrow> (Some b, dir)
        | None \<Rightarrow> try_backups io name digest data [0..<100] dir)"

lemma try_backups_facts:
  assumes "try_backups io name digest data ks dir = (r, dir')"
  shows "\<exists>new. dir' = dir @ new \<and> (\<forall>p \<in> set new. snd p = data \<and> fst p \<notin> fst ` set dir) \<and> length new \<le> 1
    \<and> (\<forall>b. r = Some b \<longrightarrow> map_of dir' b = Some data
          \<and> (\<exists>k. b = backup_name name (bk_stamp io) k digest))
    \<and> (r = None \<longrightarrow> new = [])"
  using assms
proof (induction io name digest data ks dir rule: try_backups.induct)
  case (2 io name digest data k ks dir)
  let ?b = "backup_name name (bk_stamp io) k digest"
  show ?case
  proof (cases "map_of dir ?b")
    case None
    then have f: "?b \<notin> fst ` set dir" by (simp add: map_of_eq_None_iff)
    from None 2 show ?thesis
    proof (cases "bk_open io k \<and> bk_write io k")
      case True
      with None "2.prems" have "r = Some ?b" "dir' = dir @ [(?b, data)]" by (auto simp: Let_def)
      then show ?thesis using f None by (auto simp: map_add_def)
    qed (auto simp: Let_def split: if_splits)
  next
    case (Some c)
    with 2 show ?thesis by (auto split: if_splits)
  qed
qed auto

lemma find_backup:
  "existing_backup_for dir name digest data = Some b \<Longrightarrow> (b, data) \<in> set dir \<and> is_backup_name name digest b"
  by (auto simp: existing_backup_for_def find_Some_iff in_set_conv_nth)

lemma is_backup_name_backup: "is_backup_name name digest (backup_name name stamp k digest)"
proof -
  have "backup_name name stamp k digest = (name @ ''.corrupt.'') @
      (stamp @ (if k = 0 then [] else ''.'' @ show_nat k)) @ (''-'' @ digest @ ''.json'')"
    by (simp add: backup_name_def)
  moreover have "is_backup_name name digest ((name @ ''.corrupt.'') @ mid @ (''-'' @ digest @ ''.json''))" for mid
    unfolding is_backup_name_def Let_def ends_with_def
    by (auto simp: starts_with_def)
  ultimately show ?thesis by metis
qed

text \<open>
  Preservation is exact and never destructive. When a backup is reported, a file of that
  name holds exactly the corrupt content; every file that was there is still there with its
  content; at most one file is added; and seeing the same corruption again adds nothing.
\<close>

theorem preserve_corrupt_exact:
  assumes "preserve_corrupt_file io name data dir = (Some b, dir')" and "distinct (map fst dir)"
    and "bk_digest io' data = bk_digest io data"
  shows "(b, data) \<in> set dir' \<and> set dir \<subseteq> set dir' \<and> length dir' \<le> length dir + 1
    \<and> distinct (map fst dir') \<and> snd (preserve_corrupt_file io' name data dir') = dir'"
proof -
  let ?d = "bk_digest io data"
  have found: "snd (preserve_corrupt_file io' name data dir') = dir'"
    if "(b, data) \<in> set dir'" "is_backup_name name ?d b"
  proof -
    have "existing_backup_for dir' name ?d data \<noteq> None"
      using that by (auto simp: existing_backup_for_def find_None_iff)
    then show ?thesis using assms(3) by (auto simp: preserve_corrupt_file_def Let_def)
  qed
  show ?thesis
  proof (cases "existing_backup_for dir name ?d data")
    case (Some f)
    then have "dir' = dir" "b = f" using assms(1) by (auto simp: preserve_corrupt_file_def Let_def)
    then show ?thesis using find_backup [OF Some] found assms(2) by auto
  next
    case None
    then have t: "try_backups io name ?d data [0..<100] dir = (Some b, dir')"
      using assms(1) by (simp add: preserve_corrupt_file_def Let_def)
    from try_backups_facts [OF t] obtain new k where n: "dir' = dir @ new" "length new \<le> 1"
      "\<forall>p \<in> set new. snd p = data \<and> fst p \<notin> fst ` set dir"
      and b: "map_of dir' b = Some data" "b = backup_name name (bk_stamp io) k ?d"
      by blast
    have "(b, data) \<in> set dir'" using b(1) by (rule map_of_SomeD)
    moreover have "distinct (map fst dir')"
      using n assms(2) by (cases new) auto
    moreover have "is_backup_name name ?d b" using b(2) is_backup_name_backup by simp
    ultimately show ?thesis using n found by auto
  qed
qed

definition demo_backup_io :: "bytes backup_io" where
  "demo_backup_io = \<lparr>bk_digest = \<lambda>_. ''d'', bk_stamp = ''20240101-000000'', bk_open = \<lambda>_. True,
                     bk_write = \<lambda>_. True\<rparr>"

lemma preserve_corrupt_exact_witness:
  "(''q.corrupt.20240101-000000-d.json'', [1]) \<in> set [(''q.corrupt.20240101-000000-d.json'', [1 :: byte])]
   \<and> set [] \<subseteq> set [(''q.corrupt.20240101-000000-d.json'', [1 :: byte])]
   \<and> length [(''q.corrupt.20240101-000000-d.json'', [1 :: byte])]
      \<le> length ([] :: (string \<times> bytes) list) + 1
   \<and> distinct (map fst [(''q.corrupt.20240101-000000-d.json'', [1 :: byte])])
   \<and> snd (preserve_corrupt_file demo_backup_io ''q'' [1]
        [(''q.corrupt.20240101-000000-d.json'', [1])]) = [(''q.corrupt.20240101-000000-d.json'', [1])]"
  by (rule preserve_corrupt_exact [where io = demo_backup_io])
    (simp_all add: preserve_corrupt_file_def existing_backup_for_def demo_backup_io_def
      backup_name_def upt_rec Let_def)

end
