(* ===== verification/StateFile.thy ===== *)
theory StateFile
  imports Corruption
begin

text \<open>
  \<open>core/state.py\<close>, the file: loading, quarantining, guarded saving and clearing of a
  \<open>.mbstate\<close> file under its two locks. A file is the JSON document it parses to, or bytes that
  do not parse. What the operating system answers (readable, lockable, replace attempts, the
  flush of the data file) is a record of arguments; an operation run under the file lock is one
  step, so processes interleave as sequences of operations.

  The locale \<open>monotone_store\<close> is the contract of a store that only newer writers may change.
\<close>

datatype content = Raw bytes | Doc json

datatype flush = Flushed | NoDestination | OpenFailed | FsyncFailed

datatype replace_outcome = Replaced | Denied | ReplaceFailed

text \<open>Writing the temporary file: done, never created, or created and then failed half way.\<close>

datatype temp_outcome = TempWritten | TempRefused | TempPartial content

record disk =
  d_file :: "content option"
  d_siblings :: "(string \<times> content) list"
  d_temps :: "content list"

record env =
  io_read :: bool
  io_lock :: bool
  io_unlink :: bool
  io_temp :: temp_outcome
  io_replace :: "nat \<Rightarrow> replace_outcome"
  io_flush :: flush
  io_backup :: "content backup_io"
  io_name :: string

section \<open>Operations\<close>

text \<open>\<open>Path.with_suffix(path.suffix + ".mbstate")\<close> on the last component of a path.\<close>

definition path_suffix :: "string \<Rightarrow> string" where
  "path_suffix name = (case rpartition_at (CHR ''.'') name of (h, f, t) \<Rightarrow>
     if f \<and> h \<noteq> [] \<and> t \<noteq> [] then CHR ''.'' # t else [])"

definition state_path_for :: "string \<Rightarrow> string py" where
  "state_path_for name =
    (if name = [] then raise ValueError
     else let suffix = path_suffix name
          in Inr (take (length name - length suffix) name @ suffix @ ''.mbstate''))"

definition read_json :: "env \<Rightarrow> disk \<Rightarrow> json option" where
  "read_json E d = (if \<not> io_read E then None
                    else case d_file d of Some (Doc j) \<Rightarrow> Some j | _ \<Rightarrow> None)"

definition declared_version :: "json \<Rightarrow> int option" where
  "declared_version j = (case j of
      JObj m \<Rightarrow> (case jget ''format_version'' m of Some (JInt v) \<Rightarrow> Some v | _ \<Rightarrow> None)
    | _ \<Rightarrow> None)"

definition unrecognized_state_version :: "env \<Rightarrow> disk \<Rightarrow> int option" where
  "unrecognized_state_version E d =
    (case read_json E d of
       None \<Rightarrow> None
     | Some j \<Rightarrow> (case declared_version j of
         None \<Rightarrow> None
       | Some v \<Rightarrow> if v \<noteq> STATE_FORMAT_VERSION then Some v else None))"

definition quarantine_state :: "env \<Rightarrow> content \<Rightarrow> disk \<Rightarrow> disk" where
  "quarantine_state E data d =
    (case preserve_corrupt_file (io_backup E) (io_name E) data (d_siblings d) of
       (None, sibs) \<Rightarrow> d\<lparr>d_siblings := sibs\<rparr>
     | (Some _, sibs) \<Rightarrow>
         if io_unlink E then d\<lparr>d_siblings := sibs, d_file := None\<rparr> else d\<lparr>d_siblings := sibs\<rparr>)"

definition load_state :: "net_lib \<Rightarrow> env \<Rightarrow> disk \<Rightarrow> transfer_state option py \<times> disk" where
  "load_state N E d =
    (case d_file d of
       None \<Rightarrow> (Inr None, d)
     | Some c \<Rightarrow>
         if \<not> io_read E then (Inr None, d)
         else case c of
           Raw b \<Rightarrow> (Inr None, quarantine_state E c d)
         | Doc j \<Rightarrow>
             if (case declared_version j of None \<Rightarrow> False | Some v \<Rightarrow> v \<noteq> STATE_FORMAT_VERSION)
             then (Inr None, d)
             else case validate_state_dict N j of
                 Inr s \<Rightarrow> (Inr (Some s), d)
               | Inl e \<Rightarrow> if isinstance e StateCorruptionError
                          then (Inr None, quarantine_state E c d) else (Inl e, d))"

definition disk_guard :: "net_lib \<Rightarrow> env \<Rightarrow> disk \<Rightarrow> (int \<times> int) py" where
  "disk_guard N E d =
    (case read_json E d of
       None \<Rightarrow> Inr (STATE_FORMAT_VERSION, -1)
     | Some j \<Rightarrow> (case j of
         JObj m \<Rightarrow>
           (let version = (case jget ''format_version'' m of Some (JInt v) \<Rightarrow> v | _ \<Rightarrow> STATE_FORMAT_VERSION);
                rev = (case jget ''revision'' m of Some (JInt r) \<Rightarrow> r | _ \<Rightarrow> 0)
            in if STATE_FORMAT_VERSION < version then Inr (version, rev)
               else case validate_state_dict N j of
                   Inr _ \<Rightarrow> Inr (version, rev)
                 | Inl e \<Rightarrow> if isinstance e StateCorruptionError
                            then Inr (STATE_FORMAT_VERSION, -1) else Inl e)
       | _ \<Rightarrow> Inr (STATE_FORMAT_VERSION, -1)))"

definition flush_transferred_data :: "env \<Rightarrow> transfer_state \<Rightarrow> unit py" where
  "flush_transferred_data E s =
    (if transfer_type s \<noteq> ''download'' then Inr ()
     else case io_flush E of
         Flushed \<Rightarrow> Inr ()
       | NoDestination \<Rightarrow> if completed_chunks s \<noteq> [] then raise StateDurabilityError else Inr ()
       | OpenFailed \<Rightarrow> raise StateDurabilityError
       | FsyncFailed \<Rightarrow> raise StateDurabilityError)"

text \<open>The replace loop: five attempts, only a \<open>PermissionError\<close> is retried.\<close>

fun try_replace :: "(nat \<Rightarrow> replace_outcome) \<Rightarrow> nat list \<Rightarrow> unit py" where
  "try_replace f [] = raise PermissionError"
| "try_replace f (k # ks) =
    (case f k of
       Replaced \<Rightarrow> Inr ()
     | ReplaceFailed \<Rightarrow> raise OSError
     | Denied \<Rightarrow> if k = 4 then raise PermissionError else try_replace f ks)"

definition save_state :: "net_lib \<Rightarrow> env \<Rightarrow> transfer_state \<Rightarrow> disk \<Rightarrow> unit py \<times> disk" where
  "save_state N E s d =
    (case flush_transferred_data E s of
       Inl e \<Rightarrow> (Inl e, d)
     | Inr _ \<Rightarrow>
         let payload = Doc (state_json s)
         in if \<not> io_lock E then (Inr (), d)
            else case disk_guard N E d of
                Inl e \<Rightarrow> (Inl e, d)
              | Inr (disk_version, disk_revision) \<Rightarrow>
                  if STATE_FORMAT_VERSION < disk_version then (Inr (), d)
                  else if revision s < disk_revision then (Inr (), d)
                  else (case io_temp E of
                      TempRefused \<Rightarrow> (raise OSError, d)
                    | TempPartial c \<Rightarrow> (raise OSError, d\<lparr>d_temps := d_temps d @ [c]\<rparr>)
                    | TempWritten \<Rightarrow>
                       (case try_replace (io_replace E) [0..<5] of
                          Inr _ \<Rightarrow> (Inr (), d\<lparr>d_file := Some payload\<rparr>)
                        | Inl e \<Rightarrow> (Inl e, if io_unlink E then d
                                          else d\<lparr>d_temps := d_temps d @ [payload]\<rparr>))))"

definition clear_state :: "net_lib \<Rightarrow> env \<Rightarrow> disk \<Rightarrow> unit py \<times> disk" where
  "clear_state N E d =
    (if \<not> io_lock E then (Inr (), d)
     else case disk_guard N E d of
         Inl e \<Rightarrow> (Inl e, d)
       | Inr (v, _) \<Rightarrow>
           if STATE_FORMAT_VERSION < v then (Inr (), d)
           else if d_file d = None then (Inr (), d)
           else if io_unlink E then (Inr (), d\<lparr>d_file := None\<rparr>) else (raise OSError, d))"

section \<open>Guarded writes\<close>

locale monotone_store =
  fixes rank :: "'d \<Rightarrow> int" and weight :: "'x \<Rightarrow> int" and put :: "'x \<Rightarrow> 'd \<Rightarrow> 'd"
  assumes put_rank: "rank (put x d) = rank d \<or> rank (put x d) = weight x"
    and put_stale: "weight x < rank d \<Longrightarrow> put x d = d"
begin

lemma put_mono: "rank d \<le> rank (put x d)"
  using put_rank [of x d] put_stale [of x d] by fastforce

lemma fold_mono: "rank d \<le> rank (fold put xs d)"
proof (induction xs arbitrary: d)
  case (Cons x xs)
  then show ?case using put_mono [of d x] order_trans by fastforce
qed simp

lemma fold_rank_source: "rank (fold put xs d) = rank d \<or> rank (fold put xs d) \<in> weight ` set xs"
proof (induction xs arbitrary: d)
  case (Cons x xs)
  from Cons.IH [of "put x d"] put_rank [of x d] show ?case by auto
qed simp

text \<open>However writers interleave, nothing written by an older one survives over a newer one.\<close>

lemma fold_stale_suffix:
  "\<forall>x \<in> set xs. weight x < rank d \<Longrightarrow> fold put xs d = d"
  by (induction xs) (auto simp: put_stale)

end

text \<open>The revision a later save has to reach, as the guard reads it from a readable file.\<close>

definition reader :: env where
  "reader = \<lparr>io_read = True, io_lock = True, io_unlink = True, io_temp = TempWritten,
             io_replace = \<lambda>_. Replaced, io_flush = Flushed,
             io_backup = \<lparr>bk_digest = \<lambda>_. [], bk_stamp = [], bk_open = \<lambda>_. True, bk_write = \<lambda>_. True\<rparr>,
             io_name = []\<rparr>"

definition committed_revision :: "net_lib \<Rightarrow> disk \<Rightarrow> int" where
  "committed_revision N d = (case disk_guard N reader d of Inl _ \<Rightarrow> -1 | Inr (v, r) \<Rightarrow> r)"

definition storable :: "net_lib \<Rightarrow> transfer_state \<Rightarrow> bool" where
  "storable N s \<longleftrightarrow> state_valid N s \<and> printable_keys (chunk_macs s) \<and> format_version s = STATE_FORMAT_VERSION"

text \<open>A writer of this version that can read the committed file tries to save a snapshot.\<close>

definition save_step :: "net_lib \<Rightarrow> env \<times> transfer_state \<Rightarrow> disk \<Rightarrow> disk" where
  "save_step N x d = (case x of (E, s) \<Rightarrow>
     if io_read E \<and> storable N s then snd (save_state N E s d) else d)"

lemma disk_guard_env: "io_read E \<Longrightarrow> disk_guard N E d = disk_guard N reader d"
  by (simp add: disk_guard_def read_json_def reader_def)

lemma disk_guard_saved:
  assumes "storable N s" and "io_read E" and "d_file d = Some (Doc (state_json s))"
  shows "disk_guard N E d = Inr (STATE_FORMAT_VERSION, revision s)"
proof -
  have "validate_state_dict N (state_json s) = Inr s"
    using assms(1) by (simp add: storable_def state_read_back)
  then have "validate_state_dict N (JObj m) = Inr s" if "state_json s = JObj m" for m
    using that by simp
  then show ?thesis
    using assms by (simp add: disk_guard_def read_json_def state_json_def jget_def Let_def storable_def)
qed

text \<open>What a save can do to the file: nothing, or replace it by the snapshot's document.\<close>

lemma save_state_file:
  "d_file (snd (save_state N E s d)) = d_file d
   \<or> d_file (snd (save_state N E s d)) = Some (Doc (state_json s))"
  by (auto simp: save_state_def Let_def split: sum.splits prod.splits temp_outcome.splits)

lemma save_state_kept:
  assumes "disk_guard N E d = Inr (v, r)" and "STATE_FORMAT_VERSION < v \<or> revision s < r"
  shows "snd (save_state N E s d) = d"
  using assms by (auto simp: save_state_def Let_def split: sum.splits)

lemma committed_file: "d_file d = d_file d' \<Longrightarrow> committed_revision N d = committed_revision N d'"
  by (simp add: committed_revision_def disk_guard_def read_json_def)

interpretation saves: monotone_store "committed_revision N" "\<lambda>x :: env \<times> transfer_state. revision (snd x)" "save_step N" for N
proof unfold_locales
  fix x :: "env \<times> transfer_state" and d
  obtain E s where x: "x = (E, s)" by fastforce
  show "committed_revision N (save_step N x d) = committed_revision N d
      \<or> committed_revision N (save_step N x d) = revision (snd x)"
  proof (cases "io_read E \<and> storable N s")
    case True
    from save_state_file [of N E s d] show ?thesis
    proof
      assume "d_file (snd (save_state N E s d)) = d_file d"
      note committed_file [OF this, of N]
      then show ?thesis using True x by (simp add: save_step_def)
    next
      assume "d_file (snd (save_state N E s d)) = Some (Doc (state_json s))"
      then have "disk_guard N reader (snd (save_state N E s d)) = Inr (STATE_FORMAT_VERSION, revision s)"
        using True by (intro disk_guard_saved) (auto simp: reader_def)
      then show ?thesis using True x by (simp add: save_step_def committed_revision_def)
    qed
  qed (auto simp: x save_step_def)
  assume stale: "revision (snd x) < committed_revision N d"
  show "save_step N x d = d"
  proof (cases "io_read E \<and> storable N s")
    case True
    then have "0 \<le> revision s" by (simp add: storable_def state_valid_def)
    with stale x obtain v r where "disk_guard N reader d = Inr (v, r)" "revision s < r"
      by (auto simp: committed_revision_def split: sum.splits)
    then show ?thesis
      using True x save_state_kept [of N E d v r s] by (simp add: save_step_def disk_guard_env)
  qed (auto simp: x save_step_def)
qed


text \<open>
  A state that is saved is the state that is resumed. When the operating system cooperates
  and nothing newer is committed, loading after saving returns the very state, field for field.
\<close>

theorem save_load_roundtrip:
  assumes "storable N s" and "io_read E" and "io_lock E" and "io_temp E = TempWritten"
    and "io_replace E 0 = Replaced" and "io_flush E = Flushed"
    and "disk_guard N E d = Inr (v, r)" and "v \<le> STATE_FORMAT_VERSION" and "r \<le> revision s"
  shows "load_state N E (snd (save_state N E s d))
    = (Inr (Some s), d\<lparr>d_file := Some (Doc (state_json s))\<rparr>)"
proof -
  have "try_replace (io_replace E) [0..<5] = Inr ()" using assms(5) by (simp add: upt_rec)
  then have sv: "snd (save_state N E s d) = d\<lparr>d_file := Some (Doc (state_json s))\<rparr>"
    using assms by (simp add: save_state_def flush_transferred_data_def Let_def)
  have "declared_version (state_json s) = Some STATE_FORMAT_VERSION"
    using assms(1) by (simp add: declared_version_def state_json_def jget_def storable_def)
  moreover have "validate_state_dict N (state_json s) = Inr s"
    using assms(1) by (simp add: storable_def state_read_back)
  ultimately show ?thesis
    unfolding sv by (simp add: load_state_def assms(2))
qed

lemma load_state_facts:
  "case load_state N E d of (r, d') \<Rightarrow>
     (case r of Inr (Some s) \<Rightarrow> state_valid N s \<and> format_version s = STATE_FORMAT_VERSION \<and> d' = d
        | _ \<Rightarrow> True)
     \<and> (d_file d' = d_file d
        \<or> d_file d' = None \<and> (\<exists>c b. d_file d = Some c \<and> (b, c) \<in> set (d_siblings d')))
     \<and> set (d_siblings d) \<subseteq> set (d_siblings d')"
proof -
  have q: "(d_file (quarantine_state E c d) = d_file d
      \<or> d_file (quarantine_state E c d) = None \<and> (\<exists>b. (b, c) \<in> set (d_siblings (quarantine_state E c d))))
      \<and> set (d_siblings d) \<subseteq> set (d_siblings (quarantine_state E c d))" for c
  proof -
    obtain r sibs where p: "preserve_corrupt_file (io_backup E) (io_name E) c (d_siblings d) = (r, sibs)"
      by fastforce
    have "set (d_siblings d) \<subseteq> set sibs \<and> (\<forall>b. r = Some b \<longrightarrow> (b, c) \<in> set sibs)"
    proof (cases "existing_backup_for (d_siblings d) (io_name E) (bk_digest (io_backup E) c) c")
      case (Some f)
      then show ?thesis using p find_backup [OF Some] by (auto simp: preserve_corrupt_file_def Let_def)
    next
      case None
      then have "try_backups (io_backup E) (io_name E) (bk_digest (io_backup E) c) c [0..<100]
          (d_siblings d) = (r, sibs)" using p by (simp add: preserve_corrupt_file_def Let_def)
      from try_backups_facts [OF this] obtain new where "sibs = d_siblings d @ new"
        "\<forall>b. r = Some b \<longrightarrow> map_of sibs b = Some c" by blast
      then show ?thesis by (auto dest: map_of_SomeD)
    qed
    then show ?thesis using p by (auto simp: quarantine_state_def split: option.splits)
  qed
  have v: "validate_state_dict N j = Inr s \<Longrightarrow> format_version s =
      (case declared_version j of Some v \<Rightarrow> v | None \<Rightarrow> STATE_FORMAT_VERSION)" for j s
    by (drule validate_state_dict_version) (auto simp: declared_version_def jget_default_def split: option.splits)
  show ?thesis
  proof (cases "d_file d")
    case (Some c)
    show ?thesis
    proof (cases "io_read E")
      case True
      show ?thesis
      proof (cases c)
        case (Raw b)
        then show ?thesis using Some True q [of c] by (auto simp: load_state_def)
      next
        case (Doc j)
        show ?thesis
        proof (cases "validate_state_dict N j")
          case (Inl e)
          then show ?thesis using Some True Doc q [of c] by (auto simp: load_state_def)
        next
          case (Inr s)
          note validate_state_dict_valid [OF Inr] v [OF Inr]
          then show ?thesis using Some True Doc Inr by (auto simp: load_state_def split: option.splits)
        qed
      qed
    qed (simp add: load_state_def Some)
  qed (simp add: load_state_def)
qed

text \<open>
  Loading is safe. A state that is handed to a transfer is well formed and of this format
  version; otherwise nothing is lost: the file is still there unchanged, or its content has
  been preserved beside it before it was removed.
\<close>

theorem load_state_safe:
  "case load_state N E d of (r, d') \<Rightarrow>
     (case r of Inr (Some s) \<Rightarrow> state_valid N s \<and> format_version s = STATE_FORMAT_VERSION \<and> d' = d
        | _ \<Rightarrow> True)
     \<and> (d_file d' = d_file d
        \<or> d_file d' = None \<and> (\<exists>c b. d_file d = Some c \<and> (b, c) \<in> set (d_siblings d')))
     \<and> set (d_siblings d) \<subseteq> set (d_siblings d')"
  by (rule load_state_facts)

text \<open>
  A state written by a newer version of the format is never touched: not by loading it, not
  by saving over it, not by clearing it, whatever the operating system answers to a client that
  can read it.
\<close>

theorem newer_format_untouched:
  assumes "d_file d = Some (Doc j)" and "declared_version j = Some v" and "STATE_FORMAT_VERSION < v"
    and "io_read E"
  shows "load_state N E d = (Inr None, d) \<and> snd (save_state N E s d) = d \<and> clear_state N E d = (Inr (), d)
    \<and> unrecognized_state_version E d = Some v"
proof -
  obtain m where m: "j = JObj m" "jget ''format_version'' m = Some (JInt v)"
    using assms(2) by (auto simp: declared_version_def split: json.splits option.splits)
  obtain r where g: "disk_guard N E d = Inr (v, r)"
    using m assms by (simp add: disk_guard_def read_json_def Let_def)
  have "load_state N E d = (Inr None, d)" using assms by (simp add: load_state_def)
  moreover have "snd (save_state N E s d) = d" using save_state_kept [OF g] assms(3) by simp
  moreover have "clear_state N E d = (Inr (), d)" using g assms(3) by (simp add: clear_state_def)
  moreover have "unrecognized_state_version E d = Some v"
    using assms by (simp add: unrecognized_state_version_def read_json_def)
  ultimately show ?thesis by simp
qed

text \<open>
  When writing the temporary file fails half way (a full disk), it stays behind: the clean-up
  only starts once the file has been written and closed.
\<close>

lemma save_state_leaks_temp:
  assumes "io_temp E = TempPartial c" and "io_flush E = Flushed" and "io_lock E" and "d_file d = None"
    and "0 \<le> revision s"
  shows "save_state N E s d = (raise OSError, d\<lparr>d_temps := d_temps d @ [c]\<rparr>)"
  using assms by (simp add: save_state_def flush_transferred_data_def disk_guard_def read_json_def
      STATE_FORMAT_VERSION_def)

text \<open>
  An upload endpoint that \<open>urlparse\<close> itself rejects is not reported as corruption. The
  \<open>ValueError\<close> leaves the loader, the file stays in place and is never quarantined, although
  the loader is documented to let no such error out.
\<close>

theorem load_state_leaks_value_error:
  assumes "io_read E"
    and "d_file d = Some (Doc (JObj [(''transfer_type'', JStr ''upload''), (''source'', JStr []),
      (''destination'', JStr []), (''total_size'', JInt 0),
      (''metadata'', JObj [(''upload_url'', JStr ''https://[mega.nz/'')])]))"
  shows "load_state N E d = (raise ValueError, d)"
proof -
  have "validate_safe_target N ''https://[mega.nz/'' = raise ValueError"
    by (simp add: validate_safe_target_def urlsplit_def split_scheme_def lstrip_by_def c0_or_space_def
        starts_with_def netloc_end_def is_scheme_char_def is_alnum_def is_lower_def is_upper_def Let_def)
  then have "validate_upload_url N (JStr ''https://[mega.nz/'') = raise ValueError"
    by (simp add: validate_upload_url_def need_str_def isinstance_def ancestors_5)
  then have "validate_metadata N (JObj [(''upload_url'', JStr ''https://[mega.nz/'')]) = raise ValueError"
    by (simp add: validate_metadata_def need_obj_def if_present_def jget_def)
  then have "validate_state_dict N (JObj [(''transfer_type'', JStr ''upload''), (''source'', JStr []),
      (''destination'', JStr []), (''total_size'', JInt 0),
      (''metadata'', JObj [(''upload_url'', JStr ''https://[mega.nz/'')])]) = raise ValueError"
    by (simp add: validate_state_dict_def need_obj_def need_int_def need_str_def need_arr_def
        need_field_def jget_def jget_default_def req_def VALID_TRANSFER_TYPES_def STATE_FORMAT_VERSION_def)
  then show ?thesis
    using assms by (simp add: load_state_def declared_version_def jget_def isinstance_def ancestors_5)
qed

section \<open>Examples\<close>

definition demo_state :: transfer_state where
  "demo_state = \<lparr>transfer_type = ''download'', source = ''u'', destination = ''d'', total_size = 5,
     format_version = 1, completed_chunks = [0], chunk_macs = [(0, to_hex (zeros 16))],
     metadata = [], revision = 3\<rparr>"

definition empty_disk :: disk where
  "empty_disk = \<lparr>d_file = None, d_siblings = [], d_temps = []\<rparr>"

lemma demo_state_storable: "storable plain_lib demo_state"
proof -
  have "valid_mac_hex (to_hex (zeros 16))"
    by (rule valid_mac_hex_to_hex) (simp add: MAC_BYTE_LENGTH_def MAC_HEX_LENGTH_def)
  moreover have "length (show_int 0) \<le> max_str_digits"
    by (simp add: show_int_def show_nat.simps max_str_digits_def)
  ultimately show ?thesis
    by (simp add: storable_def state_valid_def demo_state_def VALID_TRANSFER_TYPES_def chunks_ok_def
        macs_ok_def validate_metadata_def need_obj_def if_present_def jget_def printable_keys_def
        STATE_FORMAT_VERSION_def)
qed

lemma save_load_roundtrip_witness:
  "load_state plain_lib reader (snd (save_state plain_lib reader demo_state empty_disk))
   = (Inr (Some demo_state), empty_disk\<lparr>d_file := Some (Doc (state_json demo_state))\<rparr>)"
  by (rule save_load_roundtrip [OF demo_state_storable, where v = 1 and r = "-1"])
    (simp_all add: reader_def disk_guard_def read_json_def empty_disk_def STATE_FORMAT_VERSION_def
      demo_state_def)

lemma newer_format_untouched_witness:
  "load_state plain_lib reader (empty_disk\<lparr>d_file := Some (Doc (JObj [(''format_version'', JInt 2)]))\<rparr>)
     = (Inr None, empty_disk\<lparr>d_file := Some (Doc (JObj [(''format_version'', JInt 2)]))\<rparr>)
   \<and> snd (save_state plain_lib reader demo_state
        (empty_disk\<lparr>d_file := Some (Doc (JObj [(''format_version'', JInt 2)]))\<rparr>))
     = empty_disk\<lparr>d_file := Some (Doc (JObj [(''format_version'', JInt 2)]))\<rparr>
   \<and> clear_state plain_lib reader (empty_disk\<lparr>d_file := Some (Doc (JObj [(''format_version'', JInt 2)]))\<rparr>)
     = (Inr (), empty_disk\<lparr>d_file := Some (Doc (JObj [(''format_version'', JInt 2)]))\<rparr>)
   \<and> unrecognized_state_version reader
        (empty_disk\<lparr>d_file := Some (Doc (JObj [(''format_version'', JInt 2)]))\<rparr>) = Some 2"
proof (rule newer_format_untouched)
  show "declared_version (JObj [(''format_version'', JInt 2)]) = Some 2"
    by (simp add: declared_version_def jget_def)
qed (simp_all add: empty_disk_def STATE_FORMAT_VERSION_def reader_def)

lemma load_state_leaks_value_error_witness:
  "load_state plain_lib reader (empty_disk\<lparr>d_file := Some (Doc (JObj [(''transfer_type'', JStr ''upload''),
      (''source'', JStr []), (''destination'', JStr []), (''total_size'', JInt 0),
      (''metadata'', JObj [(''upload_url'', JStr ''https://[mega.nz/'')])]))\<rparr>)
   = (raise ValueError, empty_disk\<lparr>d_file := Some (Doc (JObj [(''transfer_type'', JStr ''upload''),
      (''source'', JStr []), (''destination'', JStr []), (''total_size'', JInt 0),
      (''metadata'', JObj [(''upload_url'', JStr ''https://[mega.nz/'')])]))\<rparr>)"
  by (rule load_state_leaks_value_error) (simp_all add: reader_def)

end
