(* ===== verification/ProxyPool.thy ===== *)
theory ProxyPool
  imports Errors
begin

text \<open>
  \<open>proxy/smart_proxy.py\<close> and \<open>proxy/selector.py\<close>: the pool of proxies with its health
  counters, and the one authority that decides how each request leaves. Clock readings are
  integers in nanoseconds; the draw of \<open>random.choices\<close> is an argument, any index of the
  weighted list, since every weight is positive (\<open>weights_positive\<close>).

  The locale \<open>route_policy\<close> is the contract every network consumer relies on: under force mode
  no decision is a direct connection, whatever happened to the pool before.
\<close>

section \<open>The pool\<close>

record proxy_entry =
  px_url :: string
  px_successes :: int
  px_failures :: int
  px_cooldown_until :: int
  px_last_used :: int

definition new_entry :: "string \<Rightarrow> proxy_entry" where
  "new_entry url = \<lparr>px_url = url, px_successes = 0, px_failures = 0, px_cooldown_until = 0, px_last_used = 0\<rparr>"

definition is_available :: "int \<Rightarrow> proxy_entry \<Rightarrow> bool" where
  "is_available now e \<longleftrightarrow> px_cooldown_until e \<le> now"

definition COOLDOWN :: int where
  "COOLDOWN = 60 * 1000000000"

definition MAX_FAILURES :: int where
  "MAX_FAILURES = 3"

type_synonym pool = "proxy_entry list"

definition pool_init :: "string list \<Rightarrow> pool" where
  "pool_init urls = map new_entry urls"

definition pool_add :: "string \<Rightarrow> pool \<Rightarrow> pool" where
  "pool_add url p = (if list_ex (\<lambda>e. px_url e = url) p then p else p @ [new_entry url])"

definition pool_remove :: "string \<Rightarrow> pool \<Rightarrow> bool \<times> pool" where
  "pool_remove url p = (let q = filter (\<lambda>e. px_url e \<noteq> url) p in (length q \<noteq> length p, q))"

text \<open>The Laplace-smoothed success ratio, as a numerator and a denominator.\<close>

definition px_weight :: "proxy_entry \<Rightarrow> int \<times> int" where
  "px_weight e = (px_successes e + 1, px_successes e + px_failures e + 2)"

definition available_at :: "int \<Rightarrow> pool \<Rightarrow> nat list" where
  "available_at now p = filter (\<lambda>i. is_available now (p ! i)) [0..<length p]"

definition pool_pick :: "int \<Rightarrow> nat \<Rightarrow> pool \<Rightarrow> proxy_entry option \<times> pool" where
  "pool_pick now draw p =
    (let available = available_at now p
     in if available = [] then (None, p)
        else let i = available ! (draw mod length available);
                 choice = (p ! i)\<lparr>px_last_used := now\<rparr>
             in (Some choice, p[i := choice]))"

text \<open>Feedback goes to the first entry with the URL.\<close>

fun update_first :: "string \<Rightarrow> (proxy_entry \<Rightarrow> proxy_entry) \<Rightarrow> pool \<Rightarrow> pool" where
  "update_first url f [] = []"
| "update_first url f (e # es) = (if px_url e = url then f e # es else e # update_first url f es)"

definition pool_report_success :: "string \<Rightarrow> pool \<Rightarrow> pool" where
  "pool_report_success url =
     update_first url (\<lambda>e. e\<lparr>px_successes := px_successes e + 1, px_failures := max 0 (px_failures e - 1)\<rparr>)"

definition pool_report_failure :: "int \<Rightarrow> string \<Rightarrow> pool \<Rightarrow> pool" where
  "pool_report_failure now url =
     update_first url (\<lambda>e.
       let e = e\<lparr>px_failures := px_failures e + 1\<rparr>
       in if MAX_FAILURES \<le> px_failures e then e\<lparr>px_cooldown_until := now + COOLDOWN\<rparr> else e)"

definition detect_blocked :: "int option \<Rightarrow> exc option \<Rightarrow> bool" where
  "detect_blocked status e \<longleftrightarrow>
     (case e of Some x \<Rightarrow> isinstance x ConnectionError \<or> isinstance x RequestsTimeout | None \<Rightarrow> False)
     \<or> (case status of Some s \<Rightarrow> s \<in> set [403, 451, 503] | None \<Rightarrow> False)"

definition pool_ok :: "pool \<Rightarrow> bool" where
  "pool_ok p \<longleftrightarrow> list_all (\<lambda>e. 0 \<le> px_successes e \<and> 0 \<le> px_failures e) p"

lemma pool_ok_append: "pool_ok (p @ q) \<longleftrightarrow> pool_ok p \<and> pool_ok q"
  by (simp add: pool_ok_def)

lemma pool_ok_new: "pool_ok (map new_entry urls)"
  by (simp add: pool_ok_def list_all_iff new_entry_def)

lemma pool_ok_update:
  "pool_ok p \<Longrightarrow> (\<And>e. 0 \<le> px_successes e \<and> 0 \<le> px_failures e \<Longrightarrow>
     0 \<le> px_successes (f e) \<and> 0 \<le> px_failures (f e)) \<Longrightarrow> pool_ok (update_first url f p)"
  by (induction url f p rule: update_first.induct) (auto simp: pool_ok_def)

lemma weights_positive:
  "pool_ok p \<Longrightarrow> e \<in> set p \<Longrightarrow> 0 < fst (px_weight e) \<and> fst (px_weight e) < snd (px_weight e)"
  by (auto simp: pool_ok_def list_all_iff px_weight_def)

lemma available_at_iff: "i \<in> set (available_at now p) \<longleftrightarrow> i < length p \<and> is_available now (p ! i)"
  by (auto simp: available_at_def)

lemma pool_pick_Some:
  assumes "pool_pick now draw p = (Some e, q)"
  shows "\<exists>i. i < length p \<and> is_available now (p ! i) \<and> e = (p ! i)\<lparr>px_last_used := now\<rparr> \<and> q = p[i := e]"
proof -
  let ?a = "available_at now p"
  from assms have ne: "?a \<noteq> []" by (auto simp: pool_pick_def Let_def split: if_splits)
  then have "?a ! (draw mod length ?a) \<in> set ?a" by (intro nth_mem) simp
  with assms ne show ?thesis
    by (auto simp: pool_pick_def Let_def available_at_iff)
qed

lemma pool_pick_urls: "map px_url (snd (pool_pick now draw p)) = map px_url p"
proof (cases "pool_pick now draw p")
  case (Pair r q)
  show ?thesis
  proof (cases r)
    case None
    then show ?thesis using Pair by (auto simp: pool_pick_def Let_def split: if_splits)
  next
    case (Some e)
    then obtain i where i: "i < length p" "e = (p ! i)\<lparr>px_last_used := now\<rparr>" "q = p[i := e]"
      using Pair pool_pick_Some by blast
    then have "map px_url (p[i := e]) = (map px_url p)[i := map px_url p ! i]"
      by (simp add: map_update)
    also have "\<dots> = map px_url p" by (rule list_update_id)
    finally show ?thesis using Pair i by simp
  qed
qed

lemma update_first_urls: "(\<And>e. px_url (f e) = px_url e) \<Longrightarrow> map px_url (update_first url f p) = map px_url p"
  by (induction url f p rule: update_first.induct) auto

lemma update_first_entry:
  "distinct (map px_url p) \<Longrightarrow> e \<in> set (update_first url f p) \<Longrightarrow> (\<And>e. px_url (f e) = px_url e) \<Longrightarrow>
   px_url e = url \<Longrightarrow> \<exists>e0 \<in> set p. px_url e0 = url \<and> e = f e0"
  by (induction url f p rule: update_first.induct) (auto split: if_splits)

text \<open>
  A proxy that has just reached the failure limit is out of the draw for the whole
  cool-down: until then no pick returns it, whatever the random draw.
\<close>

theorem cooled_down_proxy_not_picked:
  assumes "distinct (map px_url p)" and "e \<in> set p" and "MAX_FAILURES - 1 \<le> px_failures e"
    and "now' < now + COOLDOWN"
    and "pool_pick now' draw (pool_report_failure now (px_url e) p) = (Some r, q)"
  shows "px_url r \<noteq> px_url e"
proof
  let ?f = "\<lambda>e. let e = e\<lparr>px_failures := px_failures e + 1\<rparr>
       in if MAX_FAILURES \<le> px_failures e then e\<lparr>px_cooldown_until := now + COOLDOWN\<rparr> else e"
  let ?p = "pool_report_failure now (px_url e) p"
  assume url: "px_url r = px_url e"
  from pool_pick_Some [OF assms(5)] obtain i where i: "i < length ?p" "is_available now' (?p ! i)"
    "r = (?p ! i)\<lparr>px_last_used := now'\<rparr>" by blast
  then have u: "px_url (?p ! i) = px_url e" "?p ! i \<in> set ?p" using url by simp_all
  have "\<exists>e0 \<in> set p. px_url e0 = px_url e \<and> ?p ! i = ?f e0"
    by (rule update_first_entry [OF assms(1)])
      (use u in \<open>auto simp: pool_report_failure_def Let_def\<close>)
  then obtain e0 where e0: "e0 \<in> set p" "px_url e0 = px_url e" "?p ! i = ?f e0" by blast
  then have "e0 = e" using assms(1,2) by (auto simp: distinct_map dest: inj_onD)
  then have "px_cooldown_until (?p ! i) = now + COOLDOWN"
    using e0 assms(3) by (simp add: Let_def)
  then show False using i(2) assms(4) by (simp add: is_available_def)
qed

lemma cooled_down_proxy_not_picked_witness:
  "px_url ((new_entry ''b'')\<lparr>px_last_used := 7\<rparr>) \<noteq> px_url ((new_entry ''a'')\<lparr>px_failures := 2\<rparr>)"
  by (rule cooled_down_proxy_not_picked
      [where p = "[(new_entry ''a'')\<lparr>px_failures := 2\<rparr>, new_entry ''b'']" and now = 5 and now' = 7
        and draw = 0 and q = "[(new_entry ''a'')\<lparr>px_failures := 3, px_cooldown_until := 60000000005\<rparr>,
          (new_entry ''b'')\<lparr>px_last_used := 7\<rparr>]"])
    (simp_all add: new_entry_def MAX_FAILURES_def COOLDOWN_def pool_report_failure_def pool_pick_def
      available_at_def is_available_def Let_def)

section \<open>The selector\<close>

type_synonym proxies = "(string \<times> string) list"

record selector =
  sel_pool :: "pool option"
  sel_static :: "proxies option"
  sel_force :: bool

text \<open>\<open>ProxySelector.__init__\<close>: an empty static dictionary counts as none.\<close>

definition make_selector :: "pool option \<Rightarrow> proxies option \<Rightarrow> bool \<Rightarrow> selector" where
  "make_selector p static force =
     \<lparr>sel_pool = p, sel_static = (if static = Some [] then None else static), sel_force = force\<rparr>"

definition proxies_for :: "string \<Rightarrow> proxies" where
  "proxies_for url = [(''http'', url), (''https'', url)]"

definition selector_select ::
  "int \<Rightarrow> nat \<Rightarrow> selector \<Rightarrow> (proxies option \<times> string option) py \<times> selector" where
  "selector_select now draw sel =
    (let (entry, sel) = (case sel_pool sel of
           None \<Rightarrow> (None, sel)
         | Some p \<Rightarrow> (case pool_pick now draw p of (r, q) \<Rightarrow> (r, sel\<lparr>sel_pool := Some q\<rparr>)))
     in case entry of
          Some e \<Rightarrow> (Inr (Some (proxies_for (px_url e)), Some (px_url e)), sel)
        | None \<Rightarrow>
            (case sel_static sel of
               Some s \<Rightarrow> if s \<noteq> [] then (Inr (Some s, None), sel)
                         else if sel_force sel then (raise ProxyRequiredError, sel)
                         else (Inr (None, None), sel)
             | None \<Rightarrow> if sel_force sel then (raise ProxyRequiredError, sel) else (Inr (None, None), sel)))"

definition selector_report_success :: "string option \<Rightarrow> selector \<Rightarrow> selector" where
  "selector_report_success picked sel =
    (case (picked, sel_pool sel) of
       (Some u, Some p) \<Rightarrow> if u = [] then sel else sel\<lparr>sel_pool := Some (pool_report_success u p)\<rparr>
     | _ \<Rightarrow> sel)"

definition selector_report_failure :: "int \<Rightarrow> string option \<Rightarrow> selector \<Rightarrow> selector" where
  "selector_report_failure now picked sel =
    (case (picked, sel_pool sel) of
       (Some u, Some p) \<Rightarrow> if u = [] then sel else sel\<lparr>sel_pool := Some (pool_report_failure now u p)\<rparr>
     | _ \<Rightarrow> sel)"

text \<open>
  What can happen to a selector while a command runs: requests, feedback about any URL, and
  changes to the pool.
\<close>

datatype sel_event =
    Request int nat
  | Succeeded "string option"
  | Failed_at int "string option"
  | Added string
  | Removed string

type_synonym decision = "(proxies option \<times> string option) py"

fun sel_step :: "sel_event \<Rightarrow> selector \<Rightarrow> decision list \<times> selector" where
  "sel_step (Request now draw) s = (case selector_select now draw s of (r, s') \<Rightarrow> ([r], s'))"
| "sel_step (Succeeded u) s = ([], selector_report_success u s)"
| "sel_step (Failed_at now u) s = ([], selector_report_failure now u s)"
| "sel_step (Added u) s = ([], s\<lparr>sel_pool := map_option (pool_add u) (sel_pool s)\<rparr>)"
| "sel_step (Removed u) s = ([], s\<lparr>sel_pool := map_option (\<lambda>p. snd (pool_remove u p)) (sel_pool s)\<rparr>)"

definition is_direct :: "decision \<Rightarrow> bool" where
  "is_direct r \<longleftrightarrow> (case r of Inr (None, _) \<Rightarrow> True | _ \<Rightarrow> False)"

locale route_policy =
  fixes step :: "'ev \<Rightarrow> 's \<Rightarrow> decision list \<times> 's" and forced :: "'s \<Rightarrow> bool"
  assumes step_forced: "forced s \<Longrightarrow> forced (snd (step ev s))"
    and step_no_direct: "forced s \<Longrightarrow> list_all (\<lambda>r. \<not> is_direct r) (fst (step ev s))"
begin

primrec run :: "'ev list \<Rightarrow> 's \<Rightarrow> decision list" where
  "run [] s = []"
| "run (ev # evs) s = fst (step ev s) @ run evs (snd (step ev s))"

lemma run_no_direct: "forced s \<Longrightarrow> list_all (\<lambda>r. \<not> is_direct r) (run evs s)"
  by (induction evs arbitrary: s) (auto simp: step_forced step_no_direct)

end

lemma select_force: "sel_force (snd (selector_select now draw s)) = sel_force s"
  by (auto simp: selector_select_def Let_def split: option.splits prod.splits if_splits)

lemma select_not_direct: "sel_force s \<Longrightarrow> \<not> is_direct (fst (selector_select now draw s))"
  by (auto simp: selector_select_def Let_def is_direct_def split: option.splits prod.splits if_splits)

lemma sel_step_force: "sel_force (snd (sel_step ev s)) = sel_force s"
proof (cases ev)
  case (Request now draw)
  then show ?thesis using select_force [of now draw s] by (cases "selector_select now draw s") simp
qed (auto simp: selector_report_success_def selector_report_failure_def split: option.splits)

interpretation policy: route_policy sel_step sel_force
proof unfold_locales
  show "sel_force s \<Longrightarrow> sel_force (snd (sel_step ev s))" for ev s by (simp add: sel_step_force)
  show "list_all (\<lambda>r. \<not> is_direct r) (fst (sel_step ev s))" if "sel_force s" for ev s
    using select_not_direct [OF that] by (cases ev) (auto split: prod.splits, metis fst_conv)
qed

text \<open>The decisions of a whole command.\<close>

primrec sel_run :: "sel_event list \<Rightarrow> selector \<Rightarrow> decision list" where
  "sel_run [] s = []"
| "sel_run (ev # evs) s = fst (sel_step ev s) @ sel_run evs (snd (sel_step ev s))"

lemma sel_run_run: "sel_run evs s = policy.run evs s"
  by (induction evs arbitrary: s) simp_all

text \<open>
  C28: with force mode on, no request of a command ever leaves directly, however the pool
  degrades, recovers, is emptied or refilled in between: each decision is a proxy or the
  refusal \<open>ProxyRequiredError\<close>.
\<close>

theorem forced_never_direct:
  assumes "sel_force s"
  shows "list_all (\<lambda>r. \<not> is_direct r) (sel_run evs s)"
  unfolding sel_run_run by (rule policy.run_no_direct [OF assms])

lemma forced_never_direct_witness:
  "list_all (\<lambda>r. \<not> is_direct r) (sel_run [Request 0 3, Removed ''a'', Request 1 0]
     (make_selector (Some (pool_init [''a''])) None True))"
  by (rule forced_never_direct) (simp add: make_selector_def)

end
