(* ===== verification/DownloadChunk.thy ===== *)
theory DownloadChunk
  imports StateFile ProxyPool
begin

text \<open>
  One chunk over the wire (\<open>core/download_transport.py\<close>) and the checks around it
  (\<open>core/download_verify.py\<close>): the declared size, whether a resume state belongs to this very
  transfer, and the MAC of the file on disk.

  \<open>fetch_chunk\<close> is composed of the three pieces that touch shared state at different moments:
  receiving and checking the body, writing the plaintext at its offset, and recording the chunk
  under the lock. A server answer is an argument of each attempt. The speed limiter and the
  progress meter have no effect on the result and are left out.
\<close>

section \<open>Refusals\<close>

definition validate_declared_size :: "json \<Rightarrow> nat py" where
  "validate_declared_size v =
    (case v of
       JInt n \<Rightarrow>
         if n < 0 then raise DeclaredSizeError
         else if MAX_FILE_SIZE < nat n \<or> MAX_CHUNKS < chunk_count (nat n) then raise DeclaredSizeError
         else Inr (nat n)
     | _ \<Rightarrow> raise DeclaredSizeError)"

text \<open>The components of a POSIX path, as \<open>Path\<close> compares them.\<close>

definition path_key :: "string \<Rightarrow> bool \<times> string list" where
  "path_key s = (starts_with ''/'' s, filter (\<lambda>p. p \<noteq> [] \<and> p \<noteq> ''.'') (split_on (CHR ''/'') s))"

fun all_macs_present :: "transfer_state \<Rightarrow> int list \<Rightarrow> bool py" where
  "all_macs_present s [] = Inr True"
| "all_macs_present s (i # is) =
    bindR (get_chunk_mac i s) (\<lambda>m. if m = None then Inr False else all_macs_present s is)"

definition is_usable_download_state ::
  "bool \<Rightarrow> transfer_state option \<Rightarrow> string \<Rightarrow> bytes option \<Rightarrow> string \<Rightarrow> nat \<Rightarrow> bytes \<Rightarrow> bytes
   \<Rightarrow> chunk list \<Rightarrow> bool py" where
  "is_usable_download_state auto_resume st dest file src file_size aes_key nonce all_chunks =
    (if \<not> auto_resume then Inr False
     else case st of
         None \<Rightarrow> Inr False
       | Some s \<Rightarrow>
           if transfer_type s \<noteq> ''download'' then Inr False
           else if total_size s \<noteq> int file_size then Inr False
           else if source s \<noteq> src then Inr False
           else if path_key (destination s) \<noteq> path_key dest then Inr False
           else if jget ''aes_key'' (metadata s) \<noteq> Some (JStr (to_hex aes_key)) then Inr False
           else if jget ''nonce'' (metadata s) \<noteq> Some (JStr (to_hex nonce)) then Inr False
           else if completed_chunks s = [] then Inr True
           else if (case file of None \<Rightarrow> True | Some b \<Rightarrow> length b \<noteq> file_size) then Inr False
           else if \<not> set (completed_chunks s) \<subseteq> set (map (\<lambda>c. int (ch_index c)) all_chunks) then Inr False
           else all_macs_present s (completed_chunks s))"

text \<open>Reading a chunk back and its MAC; \<open>None\<close> is a short read.\<close>

definition disk_chunk_mac :: "aes \<Rightarrow> bytes \<Rightarrow> bytes \<Rightarrow> bytes \<Rightarrow> chunk \<Rightarrow> bytes option py" where
  "disk_chunk_mac C aes_key nonce file c =
    (let data = slice (ch_offset c) (ch_end c) file
     in if length data \<noteq> ch_size c then Inr None
        else bindR (chunk_mac C data aes_key nonce) (\<lambda>m. Inr (Some m)))"

fun disk_macs :: "aes \<Rightarrow> bytes \<Rightarrow> bytes \<Rightarrow> bytes \<Rightarrow> chunk list \<Rightarrow> bytes list option py" where
  "disk_macs C aes_key nonce file [] = Inr (Some [])"
| "disk_macs C aes_key nonce file (c # cs) =
    bindR (disk_chunk_mac C aes_key nonce file c) (\<lambda>m.
      case m of
        None \<Rightarrow> Inr None
      | Some mac \<Rightarrow> bindR (disk_macs C aes_key nonce file cs) (\<lambda>ms. Inr (map_option ((#) mac) ms)))"

definition index_list :: "'a list \<Rightarrow> nat \<Rightarrow> 'a py" where
  "index_list xs i = (if i < length xs then Inr (xs ! i) else raise IndexError)"

definition verify_file_on_disk ::
  "aes \<Rightarrow> chunk list \<Rightarrow> bytes \<Rightarrow> bytes \<Rightarrow> a32 \<Rightarrow> bytes option \<Rightarrow> bool py" where
  "verify_file_on_disk C all_chunks aes_key nonce mac_iv file =
    (case file of
       None \<Rightarrow> Inr False
     | Some b \<Rightarrow> bindR (disk_macs C aes_key nonce b all_chunks) (\<lambda>ms.
         case ms of
           None \<Rightarrow> Inr False
         | Some macs \<Rightarrow>
             bindR (combine_chunk_macs C macs aes_key) (\<lambda>file_mac.
             bindR (condense_mac file_mac) (\<lambda>condensed.
             bindR (index_list mac_iv 0) (\<lambda>iv0.
               if condensed ! 0 \<noteq> iv0 then Inr False
               else bindR (index_list mac_iv 1) (\<lambda>iv1. Inr (condensed ! 1 = iv1)))))))"

definition verify_file_integrity ::
  "aes \<Rightarrow> transfer_state \<Rightarrow> chunk list \<Rightarrow> bytes \<Rightarrow> a32 \<Rightarrow> bytes option \<Rightarrow> bool py" where
  "verify_file_integrity C s all_chunks aes_key mac_iv file =
    (case jget ''nonce'' (metadata s) of
       Some (JStr h) \<Rightarrow>
         if h = [] then Inr False
         else (case from_hex h of
             None \<Rightarrow> Inr False
           | Some nonce \<Rightarrow> if length nonce \<noteq> 8 then Inr False
                           else verify_file_on_disk C all_chunks aes_key nonce mac_iv file)
     | _ \<Rightarrow> Inr False)"

text \<open>
  C36: the size gate is exact. A declared size is accepted exactly when it is an integer (not a
  boolean) from 0 to the maximum, and what is accepted has at most \<open>MAX_CHUNKS\<close> chunks to plan.
\<close>

theorem declared_size_exact:
  "validate_declared_size v =
    (case v of
       JInt n \<Rightarrow> if 0 \<le> n \<and> n \<le> int MAX_FILE_SIZE then Inr (nat n) else raise DeclaredSizeError
     | _ \<Rightarrow> raise DeclaredSizeError)
   \<and> (case validate_declared_size v of Inl _ \<Rightarrow> True | Inr n \<Rightarrow> length (iter_chunks n) \<le> MAX_CHUNKS)"
proof (cases v)
  case (JInt n)
  have "MAX_CHUNKS < chunk_count (nat n) \<longleftrightarrow> MAX_FILE_SIZE < nat n"
    using chunk_count_limit [of "nat n"] by (simp add: not_le [symmetric])
  moreover have "nat n \<le> MAX_FILE_SIZE \<longleftrightarrow> n \<le> int MAX_FILE_SIZE" by linarith
  moreover have "nat n \<le> MAX_FILE_SIZE \<longleftrightarrow> length (iter_chunks (nat n)) \<le> MAX_CHUNKS"
    using chunk_count_limit [of "nat n"] by (simp only: chunk_count_length)
  ultimately show ?thesis
    using JInt by (auto simp: validate_declared_size_def not_le)
qed (simp_all add: validate_declared_size_def)

section \<open>One attempt\<close>

datatype http_reply =
    NoReply exc
  | Reply int headers "bytes list" "exc option"

text \<open>
  What the surroundings answer to one attempt: the clock and the draw for the proxy choice, the
  server's reply to the URL it is asked, whether the stop event is seen set before a block,
  the resolver's answer, and the file system for the periodic save.
\<close>

record attempt =
  at_now :: int
  at_draw :: nat
  at_reply :: "string \<Rightarrow> http_reply"
  at_stop :: "nat \<Rightarrow> bool"
  at_resolve :: "string py"
  at_env :: env

record dl =
  dl_stop :: bool
  dl_url :: string
  dl_generation :: nat
  dl_resolver :: bool
  dl_selector :: selector
  dl_file :: "bytes option"
  dl_disk :: disk
  dl_state :: transfer_state
  dl_bytes_done :: nat
  dl_chunks_done :: nat

definition URL_EXPIRY_STATUS :: "int list" where
  "URL_EXPIRY_STATUS = [403, 410, 509]"

definition dl_blame :: "attempt \<Rightarrow> string option \<Rightarrow> dl \<Rightarrow> dl" where
  "dl_blame A picked d = d\<lparr>dl_selector := selector_report_failure (at_now A) picked (dl_selector d)\<rparr>"

text \<open>
  \<open>_refresh_url\<close>: only the first worker that saw the current generation asks the resolver.
\<close>

definition refresh_url :: "string py \<Rightarrow> nat \<Rightarrow> dl \<Rightarrow> string py \<times> dl" where
  "refresh_url fresh seen d =
    (if dl_generation d \<noteq> seen then (Inr (dl_url d), d)
     else if \<not> dl_resolver d then (raise TransferError, d)
     else case fresh of
         Inl e \<Rightarrow> (Inl e, d)
       | Inr url \<Rightarrow> (Inr url, d\<lparr>dl_url := url, dl_generation := dl_generation d + 1\<rparr>))"

text \<open>The block loop: stop seen, too much data, or the bytes received.\<close>

datatype body = Stopped | TooLong | Body bytes

fun read_body :: "(nat \<Rightarrow> bool) \<Rightarrow> nat \<Rightarrow> nat \<Rightarrow> bytes list \<Rightarrow> bytes \<Rightarrow> body" where
  "read_body stop fsize k [] got = Body got"
| "read_body stop fsize k (b # bs) got =
    (if stop k then Stopped
     else if fsize < length got + length b then TooLong
     else read_body stop fsize (k + 1) bs (got @ b))"

definition is_link_fault :: "exc \<Rightarrow> bool" where
  "is_link_fault e \<longleftrightarrow> isinstance e ConnectionError \<or> isinstance e RequestsTimeout"

text \<open>
  Request, status checks, range check and body: the encrypted bytes with the proxy that carried
  them, or \<open>None\<close> when the stop event ended the attempt.
\<close>

definition receive_chunk ::
  "attempt \<Rightarrow> chunk \<Rightarrow> dl \<Rightarrow> (bytes \<times> string option) option py \<times> dl" where
  "receive_chunk A c d =
    (if dl_stop d then (Inr None, d)
     else let url = dl_url d; generation = dl_generation d
     in case selector_select (at_now A) (at_draw A) (dl_selector d) of
       (Inl e, sel) \<Rightarrow> (Inl e, d\<lparr>dl_selector := sel\<rparr>)
     | (Inr (_, picked), sel) \<Rightarrow>
        let d = d\<lparr>dl_selector := sel\<rparr>
        in case at_reply A url of
            NoReply e \<Rightarrow> (Inl e, if is_link_fault e then dl_blame A picked d else d)
          | Reply status headers blocks tail \<Rightarrow>
              if status \<in> set URL_EXPIRY_STATUS then
                (case refresh_url (at_resolve A) generation d of
                   (Inl e, d') \<Rightarrow> (Inl e, if is_link_fault e then dl_blame A picked d' else d')
                 | (Inr _, d') \<Rightarrow> (raise CdnUrlExpired, d'))
              else if status \<noteq> 200 \<and> status \<noteq> 206 then
                (if 500 \<le> status then raise RetryableTransferError else raise NonRetryableTransferError,
                 dl_blame A picked d)
              else case validate_range_response status headers (int (ch_offset c))
                          (int (ch_offset c) + int (ch_size c) - 1) (total_size (dl_state d)) of
                  Inl e \<Rightarrow> if isinstance e RangeNotHonoredError
                           then (raise NonRetryableTransferError, dl_blame A picked d) else (Inl e, d)
                | Inr _ \<Rightarrow>
                    (case read_body (at_stop A) (ch_size c) 0 blocks [] of
                       Stopped \<Rightarrow> (Inr None, d)
                     | TooLong \<Rightarrow> (raise NonRetryableTransferError, dl_blame A picked d)
                     | Body encrypted \<Rightarrow>
                         (case tail of
                            Some e \<Rightarrow> (Inl e, if is_link_fault e then dl_blame A picked d else d)
                          | None \<Rightarrow>
                              if length encrypted \<noteq> ch_size c
                              then (raise NonRetryableTransferError, dl_blame A picked d)
                              else (Inr (Some (encrypted, picked)), d))))"

text \<open>Decryption at the chunk's own counter, and the chunk MAC.\<close>

definition open_chunk :: "aes \<Rightarrow> bytes \<Rightarrow> bytes \<Rightarrow> chunk \<Rightarrow> bytes \<Rightarrow> (bytes \<times> bytes) py" where
  "open_chunk C aes_key nonce c encrypted =
    bindR (ctr_offset_to_counter (ch_offset c)) (\<lambda>n.
    bindR (make_ctr_cipher aes_key nonce n) (\<lambda>cipher.
      let plaintext = fst (ctr_update C cipher encrypted)
      in bindR (chunk_mac C plaintext aes_key nonce) (\<lambda>mac. Inr (plaintext, mac))))"

definition store_chunk :: "chunk \<Rightarrow> bytes \<Rightarrow> dl \<Rightarrow> unit py \<times> dl" where
  "store_chunk c plaintext d =
    (case dl_file d of
       None \<Rightarrow> (raise FileNotFoundError, d)
     | Some b \<Rightarrow> (Inr (), d\<lparr>dl_file := Some (pwrite (ch_offset c) plaintext b)\<rparr>))"

definition commit_chunk ::
  "net_lib \<Rightarrow> attempt \<Rightarrow> chunk \<Rightarrow> bytes \<Rightarrow> string option \<Rightarrow> dl \<Rightarrow> unit py \<times> dl" where
  "commit_chunk N A c mac picked d =
    (case mark_chunk_done (int (ch_index c)) (Some mac) (dl_state d) of
       Inl e \<Rightarrow> (Inl e, d)
     | Inr s \<Rightarrow>
        let d = d\<lparr>dl_state := s, dl_bytes_done := dl_bytes_done d + ch_size c,
                  dl_chunks_done := dl_chunks_done d + 1\<rparr>;
            ok = (\<lambda>d. (Inr (), d\<lparr>dl_selector := selector_report_success picked (dl_selector d)\<rparr>))
        in if dl_chunks_done d mod 16 = 0 then
             (case snapshot_state (dl_state d) of (live, snap) \<Rightarrow>
                case save_state N (at_env A) snap (dl_disk d) of
                  (Inl e, disk) \<Rightarrow> (Inl e, d\<lparr>dl_state := live, dl_disk := disk\<rparr>)
                | (Inr _, disk) \<Rightarrow> ok (d\<lparr>dl_state := live, dl_disk := disk\<rparr>))
           else ok d)"

definition fetch_chunk ::
  "aes \<Rightarrow> net_lib \<Rightarrow> attempt \<Rightarrow> chunk \<Rightarrow> bytes \<Rightarrow> bytes \<Rightarrow> dl \<Rightarrow> unit py \<times> dl" where
  "fetch_chunk C N A c aes_key nonce d =
    (case receive_chunk A c d of
       (Inl e, d) \<Rightarrow> (Inl e, d)
     | (Inr None, d) \<Rightarrow> (Inr (), d)
     | (Inr (Some (encrypted, picked)), d) \<Rightarrow>
        (case open_chunk C aes_key nonce c encrypted of
           Inl e \<Rightarrow> (Inl e, d)
         | Inr (plaintext, mac) \<Rightarrow>
             (case store_chunk c plaintext d of
                (Inl e, d) \<Rightarrow> (Inl e, d)
              | (Inr _, d) \<Rightarrow> commit_chunk N A c mac picked d)))"

definition MAX_ATTEMPTS :: nat where
  "MAX_ATTEMPTS = 8"

text \<open>
  The retry decorator: up to eight attempts, only transient failures are replayed, the last
  error is raised. The list holds what the surroundings answer to each attempt.
\<close>

fun retry_chunk ::
  "aes \<Rightarrow> net_lib \<Rightarrow> chunk \<Rightarrow> bytes \<Rightarrow> bytes \<Rightarrow> attempt list \<Rightarrow> attempt \<Rightarrow> dl \<Rightarrow> unit py \<times> dl" where
  "retry_chunk C N c aes_key nonce [] final d = fetch_chunk C N final c aes_key nonce d"
| "retry_chunk C N c aes_key nonce (A # As) final d =
    (case fetch_chunk C N A c aes_key nonce d of
       (Inr u, d) \<Rightarrow> (Inr u, d)
     | (Inl e, d) \<Rightarrow> if is_transient_chunk_failure e then retry_chunk C N c aes_key nonce As final d
                      else (Inl e, d))"

definition download_chunk ::
  "aes \<Rightarrow> net_lib \<Rightarrow> (nat \<Rightarrow> attempt) \<Rightarrow> chunk \<Rightarrow> bytes \<Rightarrow> bytes \<Rightarrow> dl \<Rightarrow> unit py \<times> dl" where
  "download_chunk C N tries c aes_key nonce d =
     retry_chunk C N c aes_key nonce (map tries [0..<MAX_ATTEMPTS - 1]) (tries (MAX_ATTEMPTS - 1)) d"

section \<open>What the file holds\<close>

text \<open>
  The invariant of a running download of \<open>plain\<close>: the destination has the final size, and the
  bytes of every chunk the state calls done are the bytes of the source.
\<close>

definition chunk_in_place :: "bytes \<Rightarrow> bytes \<Rightarrow> chunk \<Rightarrow> bool" where
  "chunk_in_place plain file c \<longleftrightarrow>
     slice (ch_offset c) (ch_end c) file = slice (ch_offset c) (ch_end c) plain"

definition dl_sound :: "net_lib \<Rightarrow> bytes \<Rightarrow> dl \<Rightarrow> bool" where
  "dl_sound N plain d \<longleftrightarrow>
     state_valid N (dl_state d) \<and> total_size (dl_state d) = int (length plain)
     \<and> (\<exists>b. dl_file d = Some b \<and> length b = length plain
         \<and> list_all (\<lambda>c. is_chunk_done (dl_state d) (int (ch_index c)) \<longrightarrow> chunk_in_place plain b c)
             (iter_chunks (length plain)))"

text \<open>A server that serves the encryption of \<open>plain\<close> and labels what it sends truthfully.\<close>

definition honest_attempt :: "aes \<Rightarrow> bytes \<Rightarrow> bytes \<Rightarrow> bytes \<Rightarrow> attempt \<Rightarrow> bool" where
  "honest_attempt C key nonce plain A \<longleftrightarrow> (\<forall>url status headers blocks.
     at_reply A url = Reply status headers blocks None \<longrightarrow>
     honest_body status headers (concat blocks) (ctr_crypt C key nonce 0 plain))"

lemma read_body_Body: "read_body stop n k bs got = Body r \<Longrightarrow> r = got @ concat bs"
  by (induction stop n k bs got rule: read_body.induct) (auto split: if_splits)

lemma receive_chunk_ok:
  assumes "receive_chunk A c d = (Inr (Some (enc, picked)), d')"
  shows "\<exists>status headers blocks. at_reply A (dl_url d) = Reply status headers blocks None
     \<and> validate_range_response status headers (int (ch_offset c))
         (int (ch_offset c) + int (ch_size c) - 1) (total_size (dl_state d)) = Inr ()
     \<and> enc = concat blocks \<and> length enc = ch_size c"
proof -
  obtain r sel where s: "selector_select (at_now A) (at_draw A) (dl_selector d) = (r, sel)" by fastforce
  from assms s obtain px pk where r: "r = Inr (px, pk)" and st: "\<not> dl_stop d"
    by (cases r) (auto simp: receive_chunk_def split: if_splits)
  show ?thesis
  proof (cases "at_reply A (dl_url d)")
    case (NoReply e)
    then show ?thesis using assms s r st by (simp add: receive_chunk_def Let_def)
  next
    case (Reply status headers blocks tail)
    show ?thesis
      using assms s r st Reply
      by (auto simp: receive_chunk_def Let_def dest: read_body_Body
          split: if_splits prod.splits sum.splits body.splits option.splits)
  qed
qed

text \<open>Receiving leaves the file and the state alone.\<close>

lemma refresh_url_frame:
  "refresh_url fresh g d = (r, d') \<Longrightarrow> dl_file d' = dl_file d \<and> dl_state d' = dl_state d \<and> dl_disk d' = dl_disk d"
  by (auto simp: refresh_url_def split: if_splits sum.splits)

lemma receive_chunk_frame:
  assumes "receive_chunk A c d = (r, d')"
  shows "dl_file d' = dl_file d \<and> dl_state d' = dl_state d \<and> dl_disk d' = dl_disk d"
proof -
  obtain q sel where s: "selector_select (at_now A) (at_draw A) (dl_selector d) = (q, sel)" by fastforce
  note f = refresh_url_frame [of "at_resolve A" "dl_generation d" "d\<lparr>dl_selector := sel\<rparr>"]
  show ?thesis
  proof (cases "at_reply A (dl_url d)")
    case (NoReply e)
    then show ?thesis using assms s
      by (auto simp: receive_chunk_def Let_def dl_blame_def split: if_splits sum.splits prod.splits)
  next
    case (Reply status headers blocks tail)
    show ?thesis
    proof (cases "status \<in> set URL_EXPIRY_STATUS")
      case True
      then show ?thesis using assms s Reply f
        by (auto simp: receive_chunk_def Let_def dl_blame_def split: if_splits sum.splits prod.splits)
    next
      case False
      then show ?thesis using assms s Reply
        by (auto simp: receive_chunk_def Let_def dl_blame_def
            split: if_splits sum.splits prod.splits body.splits option.splits)
    qed
  qed
qed

lemma open_chunk_ok:
  assumes "open_chunk C key nonce c enc = Inr (plaintext, mac)"
  shows "plaintext = ctr_crypt C key nonce (ch_offset c) enc \<and> chunk_mac C plaintext key nonce = Inr mac"
  using assms
  by (auto simp: open_chunk_def bindR_Inr_iff ctr_offset_to_counter_def make_ctr_cipher_def ctr_update_def
      Let_def dvd_eq_mod_eq_0 [symmetric] split: if_splits)

lemma received_plaintext:
  assumes "receive_chunk A c d = (Inr (Some (enc, picked)), d')"
    and "open_chunk C key nonce c enc = Inr (plaintext, mac)"
    and "honest_attempt C key nonce plain A" and "total_size (dl_state d) = int (length plain)"
    and "c \<in> set (iter_chunks (length plain))"
  shows "plaintext = slice (ch_offset c) (ch_end c) plain"
proof -
  from receive_chunk_ok [OF assms(1)] obtain status headers blocks where
    r: "at_reply A (dl_url d) = Reply status headers blocks None"
    and v: "validate_range_response status headers (int (ch_offset c))
         (int (ch_offset c) + int (ch_size c) - 1) (int (length plain)) = Inr ()"
    and e: "enc = concat blocks" using assms(4) by auto
  have h: "honest_body status headers enc (ctr_crypt C key nonce 0 plain)"
    using assms(3) r e by (auto simp: honest_attempt_def)
  have "ch_offset c \<le> length plain" using plan.plan_bounds [OF assms(5)] by (simp add: ch_end_def)
  from range.accepted_plaintext [OF _ h this, where b = "ch_end c" and u = "()"] v
  have "ctr_crypt C key nonce (ch_offset c) enc = slice (ch_offset c) (ch_end c) plain"
    by (simp add: ch_end_def)
  then show ?thesis using open_chunk_ok [OF assms(2)] by simp
qed

text \<open>A correct write keeps every region that was right, and makes its own region right.\<close>

lemma write_in_place:
  assumes "c \<in> set (iter_chunks (length plain))" and "length b = length plain"
  shows "length (write_chunk plain c b) = length plain"
    and "chunk_in_place plain (write_chunk plain c b) c"
    and "chunk_in_place plain b e \<Longrightarrow> e \<in> set (iter_chunks (length plain)) \<Longrightarrow>
      chunk_in_place plain (write_chunk plain c b) e"
proof -
  show l: "length (write_chunk plain c b) = length plain"
    by (rule plan.write_chunk_length [OF assms])
  have n: "write_chunk plain c b ! i = (if ch_offset c \<le> i \<and> i < ch_end c then plain ! i else b ! i)"
    if "i < length plain" for i
    by (rule plan.write_chunk_nth [OF assms that])
  have eq: "chunk_in_place plain f e \<longleftrightarrow> (\<forall>i. ch_offset e \<le> i \<longrightarrow> i < ch_end e \<longrightarrow> f ! i = plain ! i)"
    if "e \<in> set (iter_chunks (length plain))" "length f = length plain" for e f
  proof -
    have "ch_end e \<le> length plain" using plan.plan_bounds [OF that(1)] by simp
    then show ?thesis using that(2)
      by (auto simp: chunk_in_place_def slice_nth)
  qed
  show "chunk_in_place plain (write_chunk plain c b) c"
    using n plan.plan_bounds [OF assms(1)] by (simp add: eq [OF assms(1) l])
  show "chunk_in_place plain (write_chunk plain c b) e"
    if "chunk_in_place plain b e" "e \<in> set (iter_chunks (length plain))"
    using that n plan.plan_bounds [OF that(2)] by (auto simp: eq [OF that(2) l] eq [OF that(2) assms(2)])
qed

lemma store_chunk_sound:
  assumes "dl_sound N plain d" and "c \<in> set (iter_chunks (length plain))"
    and "store_chunk c (slice (ch_offset c) (ch_end c) plain) d = (Inr u, d')"
  shows "dl_sound N plain d'"
    and "\<exists>b. dl_file d' = Some b \<and> chunk_in_place plain b c"
    and "\<And>b e. dl_file d = Some b \<Longrightarrow> chunk_in_place plain b e \<Longrightarrow> e \<in> set (iter_chunks (length plain)) \<Longrightarrow>
      \<exists>b'. dl_file d' = Some b' \<and> chunk_in_place plain b' e"
proof -
  obtain b where b: "dl_file d = Some b" "length b = length plain" using assms(1) by (auto simp: dl_sound_def)
  have d': "d' = d\<lparr>dl_file := Some (write_chunk plain c b)\<rparr>"
    using assms(3) b(1) by (simp add: store_chunk_def write_chunk_def)
  note w = write_in_place [OF assms(2) b(2)]
  show "dl_sound N plain d'"
    using assms(1) w b d' by (auto simp: dl_sound_def list_all_iff)
  show "\<exists>b. dl_file d' = Some b \<and> chunk_in_place plain b c" using w d' by simp
  show "\<And>b e. dl_file d = Some b \<Longrightarrow> chunk_in_place plain b e \<Longrightarrow> e \<in> set (iter_chunks (length plain)) \<Longrightarrow>
      \<exists>b'. dl_file d' = Some b' \<and> chunk_in_place plain b' e"
    using w d' b by simp
qed

lemma commit_chunk_state:
  assumes "commit_chunk N A c mac picked d = (r, d')" and "state_valid N (dl_state d)"
  shows "dl_file d' = dl_file d \<and> state_valid N (dl_state d') \<and> total_size (dl_state d') = total_size (dl_state d)
    \<and> (\<forall>j. is_chunk_done (dl_state d') j \<longrightarrow> is_chunk_done (dl_state d) j \<or> j = int (ch_index c))
    \<and> (\<forall>j. is_chunk_done (dl_state d) j \<longrightarrow> is_chunk_done (dl_state d') j)
    \<and> (r = Inr () \<longrightarrow> is_chunk_done (dl_state d') (int (ch_index c)))"
proof (cases "mark_chunk_done (int (ch_index c)) (Some mac) (dl_state d)")
  case (Inl e)
  then show ?thesis using assms by (auto simp: commit_chunk_def)
next
  case (Inr s)
  have f: "state_valid N s" "is_chunk_done s (int (ch_index c))"
    "set (completed_chunks s) = insert (int (ch_index c)) (set (completed_chunks (dl_state d)))"
    using mark_chunk_done_facts [OF assms(2), of "int (ch_index c)" "Some mac"] Inr by simp_all
  have t: "total_size s = total_size (dl_state d)"
    using Inr by (auto simp: mark_chunk_done_def Let_def split: if_splits)
  have v: "state_valid N (s\<lparr>revision := revision s + 1\<rparr>)"
    using f(1) by (simp add: state_valid_def)
  have g: "dl_file d' = dl_file d \<and> (dl_state d' = s \<or> dl_state d' = s\<lparr>revision := revision s + 1\<rparr>)"
  proof -
    obtain x disk where sv: "save_state N (at_env A) (s\<lparr>revision := revision s + 1\<rparr>) (dl_disk d) = (x, disk)"
      by fastforce
    show ?thesis
      using assms(1) Inr sv
      by (cases x; cases "Suc (dl_chunks_done d) mod 16 = 0")
        (auto simp: commit_chunk_def snapshot_state_def Let_def)
  qed
  have "completed_chunks (dl_state d') = completed_chunks s" "state_valid N (dl_state d')"
    "total_size (dl_state d') = total_size s" "dl_file d' = dl_file d"
    using g f(1) v by auto
  then show ?thesis using f t by (auto simp: is_chunk_done_def)
qed

lemma commit_chunk_sound:
  assumes "dl_sound N plain d" and "c \<in> set (iter_chunks (length plain))"
    and "dl_file d = Some b" and "chunk_in_place plain b c"
    and "commit_chunk N A c mac picked d = (r, d')"
  shows "dl_sound N plain d'"
proof -
  have v: "state_valid N (dl_state d)" using assms(1) by (simp add: dl_sound_def)
  note k = commit_chunk_state [OF assms(5) v]
  have "chunk_in_place plain b e"
    if "e \<in> set (iter_chunks (length plain))" "is_chunk_done (dl_state d') (int (ch_index e))" for e
  proof (cases "ch_index e = ch_index c")
    case True
    then have "e = c" using plan.plan_index_unique that(1) assms(2) by blast
    then show ?thesis using assms(4) by simp
  next
    case False
    then have "is_chunk_done (dl_state d) (int (ch_index e))" using k that(2) by auto
    then show ?thesis using assms(1,3) that(1) by (auto simp: dl_sound_def list_all_iff)
  qed
  then show ?thesis
    using assms(1,3) k by (auto simp: dl_sound_def list_all_iff)
qed

text \<open>
  Workers as a step relation. Between two steps of one worker any other may run; the file write
  and the record of the chunk are separate steps, as they are in the code, where only the record
  is taken under the lock. The stop event can be set at any moment.
\<close>

datatype wphase =
    Idle
  | Received chunk bytes bytes "string option"
  | Stored chunk bytes "string option"

type_synonym workers = "nat \<Rightarrow> wphase"

inductive wstep ::
  "aes \<Rightarrow> net_lib \<Rightarrow> bytes \<Rightarrow> bytes \<Rightarrow> bytes \<Rightarrow> dl \<times> workers \<Rightarrow> dl \<times> workers \<Rightarrow> bool"
  for C N key nonce plain where
  ws_receive: "\<lbrakk>w i = Idle; c \<in> set (iter_chunks (length plain)); honest_attempt C key nonce plain A;
      receive_chunk A c d = (Inr (Some (enc, picked)), d');
      open_chunk C key nonce c enc = Inr (plaintext, mac)\<rbrakk>
    \<Longrightarrow> wstep C N key nonce plain (d, w) (d', w(i := Received c plaintext mac picked))"
| ws_give_up: "\<lbrakk>w i = Idle; receive_chunk A c d = (r, d')\<rbrakk>
    \<Longrightarrow> wstep C N key nonce plain (d, w) (d', w)"
| ws_store: "\<lbrakk>w i = Received c plaintext mac picked; store_chunk c plaintext d = (Inr u, d')\<rbrakk>
    \<Longrightarrow> wstep C N key nonce plain (d, w) (d', w(i := Stored c mac picked))"
| ws_commit: "\<lbrakk>w i = Stored c mac picked; commit_chunk N A c mac picked d = (r, d')\<rbrakk>
    \<Longrightarrow> wstep C N key nonce plain (d, w) (d', w(i := Idle))"
| ws_stop: "wstep C N key nonce plain (d, w) (d\<lparr>dl_stop := True\<rparr>, w)"

inductive_cases wstepE: "wstep C N key nonce plain (d, w) (d', w')"

fun phase_sound :: "bytes \<Rightarrow> bytes option \<Rightarrow> wphase \<Rightarrow> bool" where
  "phase_sound plain file Idle = True"
| "phase_sound plain file (Received c p m k) \<longleftrightarrow>
     c \<in> set (iter_chunks (length plain)) \<and> p = slice (ch_offset c) (ch_end c) plain"
| "phase_sound plain file (Stored c m k) \<longleftrightarrow>
     c \<in> set (iter_chunks (length plain)) \<and> (\<exists>b. file = Some b \<and> chunk_in_place plain b c)"

definition workers_sound :: "bytes \<Rightarrow> dl \<Rightarrow> workers \<Rightarrow> bool" where
  "workers_sound plain d w \<longleftrightarrow> (\<forall>i. phase_sound plain (dl_file d) (w i))"

lemma workers_sound_frame:
  "workers_sound plain d w \<Longrightarrow> dl_file d' = dl_file d \<Longrightarrow> workers_sound plain d' w"
  by (simp add: workers_sound_def)

lemma workers_sound_upd:
  "workers_sound plain d w \<Longrightarrow> phase_sound plain (dl_file d) p \<Longrightarrow> workers_sound plain d (w(i := p))"
  by (simp add: workers_sound_def)

lemma dl_sound_frame:
  "dl_sound N plain d \<Longrightarrow> dl_file d' = dl_file d \<Longrightarrow> dl_state d' = dl_state d \<Longrightarrow> dl_sound N plain d'"
  by (simp add: dl_sound_def)

lemma wstep_sound:
  assumes "wstep C N key nonce plain (d, w) (d', w')"
    and "dl_sound N plain d" and "workers_sound plain d w"
  shows "dl_sound N plain d' \<and> workers_sound plain d' w'"
  using assms(1)
proof (rule wstepE)
  fix i c A enc picked plaintext mac
  assume a: "w' = w(i := Received c plaintext mac picked)" "c \<in> set (iter_chunks (length plain))"
    "honest_attempt C key nonce plain A" "receive_chunk A c d = (Inr (Some (enc, picked)), d')"
    "open_chunk C key nonce c enc = Inr (plaintext, mac)"
  have "plaintext = slice (ch_offset c) (ch_end c) plain"
    by (rule received_plaintext [OF a(4,5,3) _ a(2)]) (use assms(2) in \<open>simp add: dl_sound_def\<close>)
  then have p: "phase_sound plain (dl_file d') (Received c plaintext mac picked)" using a(2) by simp
  have f: "dl_file d' = dl_file d" "dl_state d' = dl_state d" using receive_chunk_frame [OF a(4)] by simp_all
  show ?thesis
    unfolding a(1) using workers_sound_upd [OF workers_sound_frame [OF assms(3) f(1)] p]
      dl_sound_frame [OF assms(2) f] by simp
next
  fix i A c r
  assume a: "w' = w" "receive_chunk A c d = (r, d')"
  then show ?thesis
    using receive_chunk_frame [OF a(2)] dl_sound_frame [OF assms(2)] workers_sound_frame [OF assms(3)]
    by simp
next
  fix i c plaintext mac picked u
  assume a: "w' = w(i := Stored c mac picked)" "w i = Received c plaintext mac picked"
    "store_chunk c plaintext d = (Inr u, d')"
  have c: "c \<in> set (iter_chunks (length plain))" "plaintext = slice (ch_offset c) (ch_end c) plain"
    using assms(3) a(2) unfolding workers_sound_def by (metis phase_sound.simps(2))+
  note s = store_chunk_sound [OF assms(2) c(1) a(3) [unfolded c(2)]]
  have "phase_sound plain (dl_file d') (w j)" for j
  proof (cases "w j")
    case (Stored e m k)
    then have "phase_sound plain (dl_file d) (Stored e m k)" using assms(3) by (metis workers_sound_def)
    then show ?thesis using s(3) Stored by auto
  next
    case (Received e q m k)
    then have "phase_sound plain (dl_file d) (Received e q m k)" using assms(3) by (metis workers_sound_def)
    then show ?thesis using Received by simp
  qed simp
  then have "workers_sound plain d' w" by (simp add: workers_sound_def)
  then show ?thesis unfolding a(1) using s(1,2) c(1) by (simp add: workers_sound_upd)
next
  fix i c mac picked A r
  assume a: "w' = w(i := Idle)" "w i = Stored c mac picked" "commit_chunk N A c mac picked d = (r, d')"
  obtain b where c: "c \<in> set (iter_chunks (length plain))" "dl_file d = Some b" "chunk_in_place plain b c"
    using assms(3) a(2) unfolding workers_sound_def by (metis phase_sound.simps(3))
  have "state_valid N (dl_state d)" using assms(2) by (simp add: dl_sound_def)
  from commit_chunk_state [OF a(3) this] have "dl_file d' = dl_file d" by simp
  then show ?thesis
    unfolding a(1) using commit_chunk_sound [OF assms(2) c a(3)] workers_sound_frame [OF assms(3)]
    by (simp add: workers_sound_upd)
next
  assume "w' = w" "d' = d\<lparr>dl_stop := True\<rparr>"
  then show ?thesis
    using dl_sound_frame [OF assms(2), of d'] workers_sound_frame [OF assms(3), of d'] by simp
qed

lemma all_in_place:
  assumes "length b = length plain"
    and "list_all (chunk_in_place plain b) (iter_chunks (length plain))"
  shows "b = plain"
proof (rule nth_equalityI [OF assms(1)])
  fix i
  assume i: "i < length b"
  obtain c where c: "c \<in> set (iter_chunks (length plain))" "ch_offset c \<le> i" "i < ch_end c"
    using tiles_point [OF plan.plan_tiles [of "length plain"], of i] i assms(1) by auto
  then have "ch_end c \<le> length plain" using plan.plan_bounds by blast
  then have "map ((!) b) [ch_offset c..<ch_end c] = map ((!) plain) [ch_offset c..<ch_end c]"
    using assms c(1) by (auto simp: list_all_iff chunk_in_place_def slice_nth)
  then show "b ! i = plain ! i" using c by simp
qed

lemma run_sound:
  assumes "(wstep C N key nonce plain)\<^sup>*\<^sup>* s t" and "dl_sound N plain (fst s)" and "workers_sound plain (fst s) (snd s)"
  shows "dl_sound N plain (fst t) \<and> workers_sound plain (fst t) (snd t)"
  using assms
proof (induction rule: rtranclp_induct)
  case (step x y)
  then show ?case by (cases x; cases y) (auto dest: wstep_sound)
qed simp

text \<open>
  C3: parallel workers produce the file. However the steps of any number of workers interleave,
  with retries, failures, refreshed URLs and a stop at any moment, once the state calls every
  chunk done, the destination is byte for byte the plaintext that the server encrypted.
\<close>

theorem interleaved_download_correct:
  assumes "(wstep C N key nonce plain)\<^sup>*\<^sup>* (d, \<lambda>_. Idle) (d', w')" and "dl_sound N plain d"
    and "list_all (\<lambda>c. is_chunk_done (dl_state d') (int (ch_index c))) (iter_chunks (length plain))"
  shows "dl_file d' = Some plain"
proof -
  from run_sound [OF assms(1)] assms(2) obtain b where b: "dl_file d' = Some b" "length b = length plain"
    "list_all (\<lambda>c. is_chunk_done (dl_state d') (int (ch_index c)) \<longrightarrow> chunk_in_place plain b c)
       (iter_chunks (length plain))" by (auto simp: dl_sound_def workers_sound_def)
  then have "b = plain" using assms(3) by (intro all_in_place) (auto simp: list_all_iff)
  with b(1) show ?thesis by simp
qed

text \<open>
  One whole attempt, taken alone, is a run of the step relation: what the relation guarantees
  holds for \<open>fetch_chunk\<close> and for any sequence of attempts.
\<close>

lemma fetch_chunk_run:
  assumes "fetch_chunk C N A c key nonce d = (r, d')"
    and "honest_attempt C key nonce plain A" and "c \<in> set (iter_chunks (length plain))"
  shows "\<exists>w'. (wstep C N key nonce plain)\<^sup>*\<^sup>* (d, \<lambda>_. Idle) (d', w')"
proof -
  let ?step = "wstep C N key nonce plain"
  obtain x d1 where r: "receive_chunk A c d = (x, d1)" by fastforce
  have give_up: "?step (d, \<lambda>_. Idle) (d1, \<lambda>_. Idle)" by (rule ws_give_up [where i = 0]) (simp, rule r)
  show ?thesis
  proof (cases "\<exists>enc picked p m. x = Inr (Some (enc, picked)) \<and> open_chunk C key nonce c enc = Inr (p, m)")
    case False
    then have "d' = d1" using assms(1) r
      by (auto simp: fetch_chunk_def split: sum.splits option.splits prod.splits)
    then show ?thesis using give_up by blast
  next
    case True
    then obtain enc picked p m where x: "x = Inr (Some (enc, picked))" "open_chunk C key nonce c enc = Inr (p, m)"
      by blast
    let ?w1 = "(\<lambda>_. Idle)(0 := Received c p m picked)"
    have s1: "?step (d, \<lambda>_. Idle) (d1, ?w1)"
      by (rule ws_receive [where A = A and enc = enc]) (use assms(2,3) r x in auto)
    obtain y d2 where st: "store_chunk c p d1 = (y, d2)" by fastforce
    show ?thesis
    proof (cases y)
      case (Inl e)
      then have "d' = d1" using assms(1) r x st
        by (auto simp: fetch_chunk_def store_chunk_def split: option.splits)
      then show ?thesis using s1 by blast
    next
      case (Inr u)
      let ?w2 = "?w1(0 := Stored c m picked)"
      have s2: "?step (d1, ?w1) (d2, ?w2)" by (rule ws_store [where u = u]) (use st Inr in auto)
      have "commit_chunk N A c m picked d2 = (r, d')" using assms(1) r x st Inr by (simp add: fetch_chunk_def)
      then have s3: "?step (d2, ?w2) (d', ?w2(0 := Idle))" by (intro ws_commit) auto
      have "?step\<^sup>*\<^sup>* (d, \<lambda>_. Idle) (d1, ?w1)" using s1 by blast
      also have "?step\<^sup>*\<^sup>* (d1, ?w1) (d2, ?w2)" using s2 by blast
      also have "?step\<^sup>*\<^sup>* (d2, ?w2) (d', ?w2(0 := Idle))" using s3 by blast
      finally show ?thesis by blast
    qed
  qed
qed

lemma fetch_chunk_sound:
  assumes "fetch_chunk C N A c key nonce d = (r, d')" and "dl_sound N plain d"
    and "honest_attempt C key nonce plain A" and "c \<in> set (iter_chunks (length plain))"
  shows "dl_sound N plain d'"
proof -
  obtain w' where "(wstep C N key nonce plain)\<^sup>*\<^sup>* (d, \<lambda>_. Idle) (d', w')"
    using fetch_chunk_run [OF assms(1,3,4)] by blast
  from run_sound [OF this] assms(2) show ?thesis by (simp add: workers_sound_def)
qed

section \<open>Progress\<close>

lemma chunk_mac_total:
  assumes "aes_ok C" and "aes_key_size key" and "length nonce = 8"
  shows "\<exists>m. chunk_mac C p key nonce = Inr m \<and> length m = 16"
proof (cases "p = []")
  case False
  define pad where "pad = (16 - length p mod 16) mod 16"
  define q where "q = (if pad \<noteq> 0 then p @ zeros pad else p)"
  have "length q = length p + pad" by (simp add: q_def)
  then have "length q mod 16 = 0" by (simp only: pad_def pad16)
  then have d: "16 dvd length q" by (rule dvd_eq_mod_eq_0 [THEN iffD2])
  obtain c where c: "cbc_encrypt C key (nonce @ nonce) q = Inr c" "length c = length q"
    using cbc_encrypt_ok [OF assms(1,2) _ d, of "nonce @ nonce"] assms(3) by auto
  have "0 < length q" using False by (simp add: q_def)
  then have "16 \<le> length q" by (rule dvd_imp_le [OF d])
  then have "length (drop (length c - 16) c) = 16" using c(2) by simp
  moreover have "chunk_mac C p key nonce = Inr (drop (length c - 16) c)"
    using False c(1) unfolding chunk_mac_def Let_def pad_def [symmetric] q_def [symmetric] by simp
  ultimately show ?thesis by blast
qed (simp add: chunk_mac_def)

lemma read_body_all:
  "(\<And>k. \<not> stop k) \<Longrightarrow> length got + length (concat bs) \<le> n \<Longrightarrow> read_body stop n k bs got = Body (got @ concat bs)"
  by (induction stop n k bs got rule: read_body.induct) auto

lemma good_answer:
  assumes "aes_ok C" and "length key = 16" and "length nonce = 8"
    and "c \<in> set (iter_chunks (length plain))" and "state_valid N (dl_state d)"
    and "\<not> dl_stop d" and "\<And>k. \<not> at_stop A k" and "dl_file d \<noteq> None"
    and "selector_select (at_now A) (at_draw A) (dl_selector d) = (Inr route, sel)"
    and "at_reply A (dl_url d) = Reply status headers blocks None" and "status = 200 \<or> status = 206"
    and "validate_range_response status headers (int (ch_offset c))
         (int (ch_offset c) + int (ch_size c) - 1) (total_size (dl_state d)) = Inr ()"
    and "length (concat blocks) = ch_size c"
  shows "case fetch_chunk C N A c key nonce d of (r, d') \<Rightarrow>
      r = Inr () \<and> is_chunk_done (dl_state d') (int (ch_index c))
      \<or> (\<exists>e snap. r = Inl e \<and> fst (save_state N (at_env A) snap (dl_disk d)) = Inl e)"
proof -
  obtain px picked where route: "route = (px, picked)" by fastforce
  have "status \<notin> set URL_EXPIRY_STATUS" using assms(11) by (auto simp: URL_EXPIRY_STATUS_def)
  then have rc: "receive_chunk A c d = (Inr (Some (concat blocks, picked)), d\<lparr>dl_selector := sel\<rparr>)"
    using assms(6,9,10,11,12,13) route read_body_all [of "at_stop A" "[]" blocks "ch_size c" 0] assms(7)
    by (auto simp: receive_chunk_def Let_def)
  let ?p = "ctr_crypt C key nonce (ch_offset c) (concat blocks)"
  obtain m where m: "chunk_mac C ?p key nonce = Inr m" "length m = 16"
    using chunk_mac_total [OF assms(1) _ assms(3)] assms(2) by (auto simp: aes_key_size_def)
  have al: "ch_offset c mod 16 = 0" using plan.plan_aligned [OF assms(4)] by simp
  then have op: "open_chunk C key nonce c (concat blocks) = Inr (?p, m)"
    using assms(2,3) m by (auto simp: open_chunk_def ctr_offset_to_counter_def make_ctr_cipher_def
        ctr_update_def Let_def)
  obtain b where b: "dl_file d = Some b" using assms(8) by blast
  let ?d2 = "d\<lparr>dl_selector := sel, dl_file := Some (pwrite (ch_offset c) ?p b)\<rparr>"
  have fc: "fetch_chunk C N A c key nonce d = commit_chunk N A c m picked ?d2"
    using rc op b by (simp add: fetch_chunk_def store_chunk_def)
  obtain s where s: "mark_chunk_done (int (ch_index c)) (Some m) (dl_state d) = Inr s"
    using m(2) by (auto simp: mark_chunk_done_def MAC_BYTE_LENGTH_def MAC_HEX_LENGTH_def Let_def)
  have dn: "is_chunk_done s (int (ch_index c))"
    using mark_chunk_done_facts [OF assms(5), of "int (ch_index c)" "Some m"] s by simp
  obtain x disk where sv: "save_state N (at_env A) (s\<lparr>revision := revision s + 1\<rparr>) (dl_disk d) = (x, disk)"
    by fastforce
  show ?thesis
  proof (cases "Suc (dl_chunks_done d) mod 16 = 0 \<and> (\<exists>e. x = Inl e)")
    case True
    then obtain e where "x = Inl e" by blast
    then have "fst (save_state N (at_env A) (s\<lparr>revision := revision s + 1\<rparr>) (dl_disk d)) = Inl e"
      using sv by simp
    moreover have "fst (commit_chunk N A c m picked ?d2) = Inl e"
      using True s sv \<open>x = Inl e\<close> by (simp add: commit_chunk_def snapshot_state_def Let_def)
    ultimately show ?thesis unfolding fc by (auto split: prod.splits)
  next
    case False
    then have "commit_chunk N A c m picked ?d2 = (Inr (), snd (commit_chunk N A c m picked ?d2))
        \<and> is_chunk_done (dl_state (snd (commit_chunk N A c m picked ?d2))) (int (ch_index c))"
      using s sv dn
      by (cases x) (auto simp: commit_chunk_def snapshot_state_def Let_def is_chunk_done_def)
    then show ?thesis unfolding fc by (auto split: prod.splits)
  qed
qed

text \<open>
  C37: a good answer is enough. If the route exists, the server sends the chunk's bytes with
  headers that pass the range check, the destination exists and the stop event stays clear, one
  attempt records the chunk, unless the periodic save of the resume state itself fails.
\<close>

theorem good_answer_commits:
  assumes "aes_ok C" and "length key = 16" and "length nonce = 8"
    and "c \<in> set (iter_chunks (length plain))" and "state_valid N (dl_state d)"
    and "\<not> dl_stop d" and "\<And>k. \<not> at_stop A k" and "dl_file d \<noteq> None"
    and "selector_select (at_now A) (at_draw A) (dl_selector d) = (Inr route, sel)"
    and "at_reply A (dl_url d) = Reply status headers blocks None" and "status = 200 \<or> status = 206"
    and "validate_range_response status headers (int (ch_offset c))
         (int (ch_offset c) + int (ch_size c) - 1) (total_size (dl_state d)) = Inr ()"
    and "length (concat blocks) = ch_size c"
  shows "case fetch_chunk C N A c key nonce d of (r, d') \<Rightarrow>
      r = Inr () \<and> is_chunk_done (dl_state d') (int (ch_index c))
      \<or> (\<exists>e snap. r = Inl e \<and> fst (save_state N (at_env A) snap (dl_disk d)) = Inl e)"
  by (rule good_answer [OF assms])

section \<open>Examples\<close>

definition demo_plain :: bytes where
  "demo_plain = [1, 2, 3]"

definition demo_key :: bytes where
  "demo_key = replicate 16 5"

definition demo_nonce :: bytes where
  "demo_nonce = replicate 8 6"

definition demo_attempt :: attempt where
  "demo_attempt = \<lparr>at_now = 0, at_draw = 0,
     at_reply = \<lambda>_. Reply 200 (\<lambda>_. None) [ctr_crypt demo_aes demo_key demo_nonce 0 demo_plain] None,
     at_stop = \<lambda>_. False, at_resolve = Inr [], at_env = reader\<rparr>"

definition demo_dl :: dl where
  "demo_dl = \<lparr>dl_stop = False, dl_url = ''u'', dl_generation = 0, dl_resolver = False,
     dl_selector = make_selector None None False, dl_file = Some (zeros 3), dl_disk = empty_disk,
     dl_state = fresh_state\<lparr>total_size := 3\<rparr>, dl_bytes_done = 0, dl_chunks_done = 0\<rparr>"

definition demo_chunk :: chunk where
  "demo_chunk = \<lparr>ch_index = 0, ch_offset = 0, ch_size = 3\<rparr>"

lemma demo_plan: "iter_chunks (length demo_plain) = [demo_chunk]"
  by (simp add: demo_plain_def demo_chunk_def iter_chunks_def CHUNK_SIZES_KB_def Let_def)

lemma demo_mem: "demo_chunk \<in> set (iter_chunks (length demo_plain))"
  by (simp add: demo_plan)

lemma demo_sound: "dl_sound plain_lib demo_plain demo_dl"
  using fresh_state_valid
  by (simp add: dl_sound_def demo_dl_def demo_plan state_valid_def is_chunk_done_def fresh_state_def)
    (simp add: demo_plain_def)

lemma demo_honest: "honest_attempt demo_aes demo_key demo_nonce demo_plain demo_attempt"
  by (simp add: honest_attempt_def demo_attempt_def honest_body_def)

lemma demo_valid: "state_valid plain_lib (dl_state demo_dl)"
  using demo_sound by (simp add: dl_sound_def)

lemma demo_select:
  "selector_select (at_now demo_attempt) (at_draw demo_attempt) (dl_selector demo_dl)
     = (Inr (None, None), dl_selector demo_dl)"
  by (simp add: selector_select_def make_selector_def demo_dl_def Let_def)

lemma demo_range:
  "validate_range_response 200 (\<lambda>_. None) (int (ch_offset demo_chunk))
     (int (ch_offset demo_chunk) + int (ch_size demo_chunk) - 1) (total_size (dl_state demo_dl)) = Inr ()"
  by (simp add: validate_range_response_def demo_chunk_def demo_dl_def)

lemma good_answer_commits_witness:
  "case fetch_chunk demo_aes plain_lib demo_attempt demo_chunk demo_key demo_nonce demo_dl of (r, d') \<Rightarrow>
      r = Inr () \<and> is_chunk_done (dl_state d') (int (ch_index demo_chunk))
      \<or> (\<exists>e snap. r = Inl e \<and> fst (save_state plain_lib (at_env demo_attempt) snap (dl_disk demo_dl)) = Inl e)"
  by (rule good_answer_commits [OF demo_aes_ok _ _ demo_mem demo_valid _ _ _ demo_select _ _ demo_range,
        where blocks = "[ctr_crypt demo_aes demo_key demo_nonce 0 demo_plain]"])
    (simp_all add: demo_key_def demo_nonce_def demo_plan demo_attempt_def demo_dl_def demo_chunk_def
      demo_plain_def ctr_crypt_length)

lemma demo_fetch:
  "is_chunk_done (dl_state (snd (fetch_chunk demo_aes plain_lib demo_attempt demo_chunk demo_key demo_nonce demo_dl))) 0"
proof -
  have save: "fst (save_state plain_lib (at_env demo_attempt) snap (dl_disk demo_dl)) \<noteq> Inl e" for snap e
    by (simp add: save_state_def flush_transferred_data_def disk_guard_def read_json_def demo_attempt_def
        reader_def demo_dl_def empty_disk_def Let_def upt_rec)
  have "case fetch_chunk demo_aes plain_lib demo_attempt demo_chunk demo_key demo_nonce demo_dl of (r, d') \<Rightarrow>
      r = Inr () \<and> is_chunk_done (dl_state d') (int (ch_index demo_chunk))
      \<or> (\<exists>e snap. r = Inl e \<and> fst (save_state plain_lib (at_env demo_attempt) snap (dl_disk demo_dl)) = Inl e)"
    by (rule good_answer [OF demo_aes_ok _ _ demo_mem demo_valid _ _ _ demo_select _ _ demo_range,
          where blocks = "[ctr_crypt demo_aes demo_key demo_nonce 0 demo_plain]"])
      (simp_all add: demo_key_def demo_nonce_def demo_plan demo_attempt_def demo_dl_def demo_chunk_def
        demo_plain_def ctr_crypt_length)
  then show ?thesis using save by (auto simp: demo_chunk_def split: prod.splits)
qed

lemma interleaved_download_correct_witness:
  "dl_file (snd (fetch_chunk demo_aes plain_lib demo_attempt demo_chunk demo_key demo_nonce demo_dl))
     = Some demo_plain"
proof -
  obtain w' where "(wstep demo_aes plain_lib demo_key demo_nonce demo_plain)\<^sup>*\<^sup>* (demo_dl, \<lambda>_. Idle)
      (snd (fetch_chunk demo_aes plain_lib demo_attempt demo_chunk demo_key demo_nonce demo_dl), w')"
    using fetch_chunk_run [OF surjective_pairing demo_honest demo_mem] by blast
  from interleaved_download_correct [OF this demo_sound] show ?thesis
    using demo_fetch by (simp add: demo_plan) (simp add: demo_chunk_def)
qed

end
