(* ===== verification/Downloader.thy ===== *)
theory Downloader
  imports DownloadChunk
begin

text \<open>
  \<open>core/downloader.py\<close>: resume or start afresh, preallocate, run the workers, and the gate that
  lets a download end in success. The thread pool is a schedule: the order in which the submitted
  chunks run, with the moments at which the stop event is set; how the steps of workers interleave
  inside is the step relation of \<open>DownloadChunk\<close>. Progress reporting and logging have no part in
  the result. The quota loop is modelled with the answers of the call, the pool and the route as
  functions of the attempt.
\<close>

section \<open>Quota waits\<close>

record quota_env =
  qe_stop :: "nat \<Rightarrow> bool"
  qe_pool :: "nat \<Rightarrow> bool"
  qe_route :: "nat \<Rightarrow> nat \<Rightarrow> string option"
  qe_tick_stop :: "nat \<Rightarrow> nat \<Rightarrow> bool"
  qe_stop_after :: "nat \<Rightarrow> bool"

text \<open>
  \<open>_wait_out_quota\<close>: two-second ticks; the number of seconds slept. The route read before the
  first tick is the baseline, tick \<open>k\<close> reads \<open>qe_route i (k + 1)\<close>.
\<close>

function wait_ticks :: "quota_env \<Rightarrow> nat \<Rightarrow> nat \<Rightarrow> nat \<Rightarrow> nat \<Rightarrow> nat" where
  "wait_ticks Q i wait slept k =
    (if slept < wait \<and> \<not> qe_tick_stop Q i k then
       (let nap = min 2 (wait - slept); now = qe_route Q i (k + 1)
        in if qe_route Q i 0 \<noteq> None \<and> now \<noteq> None \<and> now \<noteq> qe_route Q i 0 then nap
           else nap + wait_ticks Q i wait (slept + 2) (k + 1))
     else 0)"
  by pat_completeness auto
termination
  by (relation "measure (\<lambda>(Q, i, wait, slept, k). wait - slept)") auto

declare wait_ticks.simps [simp del]

definition wait_out_quota :: "quota_env \<Rightarrow> nat \<Rightarrow> nat \<Rightarrow> nat" where
  "wait_out_quota Q i wait = wait_ticks Q i wait 0 0"

text \<open>
  \<open>_get_with_quota_wait\<close>: the result, the calls made and the seconds slept. \<open>left\<close> is the number
  of attempts after this one.
\<close>

fun quota_loop :: "quota_env \<Rightarrow> (nat \<Rightarrow> 'a py) \<Rightarrow> nat \<Rightarrow> nat \<Rightarrow> nat \<Rightarrow> bool \<Rightarrow> 'a py \<times> nat \<times> nat" where
  "quota_loop Q fn wait left i escalated =
    (case fn i of
       Inr x \<Rightarrow> (Inr x, 1, 0)
     | Inl e \<Rightarrow>
         if \<not> isinstance e QuotaError then (Inl e, 1, 0)
         else if wait = 0 \<or> left = 0 \<or> qe_stop Q i then (Inl e, 1, 0)
         else if \<not> escalated \<and> qe_pool Q i then
           (case left of 0 \<Rightarrow> (Inl e, 1, 0)
            | Suc l \<Rightarrow> (case quota_loop Q fn wait l (i + 1) True of (r, c, t) \<Rightarrow> (r, c + 1, t)))
         else
           (let slept = wait_out_quota Q i wait
            in if qe_stop_after Q i then (Inl e, 1, slept)
               else case left of 0 \<Rightarrow> (Inl e, 1, slept)
                 | Suc l \<Rightarrow> (case quota_loop Q fn wait l (i + 1) escalated of
                     (r, c, t) \<Rightarrow> (r, c + 1, slept + t))))"

definition get_with_quota_wait ::
  "quota_env \<Rightarrow> (nat \<Rightarrow> 'a py) \<Rightarrow> nat \<Rightarrow> nat \<Rightarrow> 'a py \<times> nat \<times> nat" where
  "get_with_quota_wait Q fn wait_seconds max_loops =
     quota_loop Q fn wait_seconds (max 1 max_loops - 1) 0 False"

lemma wait_ticks_bound: "wait_ticks Q i wait slept k \<le> wait - slept"
proof (induction Q i wait slept k rule: wait_ticks.induct)
  case (1 Q i wait slept k)
  show ?case
  proof (cases "slept < wait \<and> \<not> qe_tick_stop Q i k \<and> \<not> (qe_route Q i 0 \<noteq> None
      \<and> qe_route Q i (k + 1) \<noteq> None \<and> qe_route Q i (k + 1) \<noteq> qe_route Q i 0)")
    case True
    then have "wait_ticks Q i wait (slept + 2) (k + 1) \<le> wait - (slept + 2)"
      using "1.IH" [OF _ refl refl] by blast
    with True show ?thesis by (subst wait_ticks.simps) (auto simp: Let_def)
  next
    case False
    then show ?thesis by (subst wait_ticks.simps) (auto simp: Let_def)
  qed
qed

declare quota_loop.simps [simp del]

lemma quota_loop_bound:
  "quota_loop Q fn wait left i esc = (r, c, t) \<Longrightarrow> 1 \<le> c \<and> c \<le> left + 1 \<and> t \<le> left * wait"
proof (induction left arbitrary: i esc r c t)
  case 0
  then show ?case by (subst (asm) quota_loop.simps) (auto split: sum.splits if_splits)
next
  case (Suc l)
  have w: "wait_out_quota Q i wait \<le> wait" using wait_ticks_bound [of Q i wait 0 0] by (simp add: wait_out_quota_def)
  obtain r1 c1 t1 where q1: "quota_loop Q fn wait l (i + 1) True = (r1, c1, t1)" by (metis prod_cases3)
  obtain r2 c2 t2 where q2: "quota_loop Q fn wait l (i + 1) esc = (r2, c2, t2)" by (metis prod_cases3)
  note i1 = Suc.IH [OF q1] and i2 = Suc.IH [OF q2]
  show ?case
    using Suc.prems q1 q2 i1 i2 w
    by (subst (asm) quota_loop.simps) (auto simp: Let_def split: sum.splits if_splits)
qed

text \<open>
  C38: waiting out a quota is bounded. The call is made at least once and at most
  \<open>max(1, quota_max_wait_loops)\<close> times, and the time slept is at most one wait between two calls,
  whatever the pool, the route and the user do in the meantime.
\<close>

theorem quota_wait_bounded:
  "case get_with_quota_wait Q fn wait_seconds max_loops of (r, calls, slept) \<Rightarrow>
     1 \<le> calls \<and> calls \<le> max 1 max_loops \<and> slept \<le> (max 1 max_loops - 1) * wait_seconds"
proof -
  obtain r c t where q: "get_with_quota_wait Q fn wait_seconds max_loops = (r, c, t)" by (metis prod_cases3)
  from quota_loop_bound [OF q [unfolded get_with_quota_wait_def]] show ?thesis by (auto simp: q)
qed

section \<open>A claimed download\<close>

record job =
  jb_aes :: aes
  jb_lib :: net_lib
  jb_key :: bytes
  jb_nonce :: bytes
  jb_mac_iv :: a32
  jb_size :: nat
  jb_dest :: string
  jb_source :: string
  jb_auto_resume :: bool
  jb_verify :: bool
  jb_keep_state :: bool
  jb_free :: int
  jb_env :: env

definition jb_chunks :: "job \<Rightarrow> chunk list" where
  "jb_chunks J = iter_chunks (jb_size J)"

record download_result =
  dr_path :: string
  dr_size :: nat
  dr_integrity_ok :: bool

definition fresh_download :: "job \<Rightarrow> transfer_state" where
  "fresh_download J =
     \<lparr>transfer_type = ''download'', source = jb_source J, destination = jb_dest J,
      total_size = int (jb_size J), format_version = STATE_FORMAT_VERSION, completed_chunks = [],
      chunk_macs = [], metadata = [(''aes_key'', JStr (to_hex (jb_key J))), (''nonce'', JStr (to_hex (jb_nonce J)))],
      revision = 0\<rparr>"

text \<open>Resume or fresh: the state to continue with.\<close>

definition choose_state :: "job \<Rightarrow> bytes option \<Rightarrow> disk \<Rightarrow> transfer_state py \<times> disk" where
  "choose_state J file disk =
    (case (if jb_auto_resume J then load_state (jb_lib J) (jb_env J) disk else (Inr None, disk)) of
       (Inl e, disk) \<Rightarrow> (Inl e, disk)
     | (Inr loaded, disk) \<Rightarrow>
        (case is_usable_download_state (jb_auto_resume J) loaded (jb_dest J) file (jb_source J) (jb_size J)
                (jb_key J) (jb_nonce J) (jb_chunks J) of
           Inl e \<Rightarrow> (Inl e, disk)
         | Inr usable \<Rightarrow>
             (case (loaded, usable) of
                (Some s, True) \<Rightarrow> (Inr s, disk)
              | _ \<Rightarrow>
                  if unrecognized_state_version (jb_env J) disk \<noteq> None then (raise TransferError, disk)
                  else (case clear_state (jb_lib J) (jb_env J) disk of
                      (Inl e, disk) \<Rightarrow> (Inl e, disk)
                    | (Inr _, disk) \<Rightarrow> (Inr (fresh_download J), disk)))))"

definition preallocate :: "job \<Rightarrow> bytes option \<Rightarrow> bytes option py" where
  "preallocate J file =
    (if (case file of None \<Rightarrow> True | Some b \<Rightarrow> length b \<noteq> jb_size J) then
       let already = (case file of None \<Rightarrow> 0 | Some b \<Rightarrow> int (length b));
           needed = max 0 (int (jb_size J) - already)
       in if jb_free J < needed then raise InsufficientDiskSpaceError else Inr (Some (zeros (jb_size J)))
     else Inr file)"

datatype sched_event = Work nat "nat \<Rightarrow> attempt" | StopEvent

text \<open>
  The pool: every submitted chunk runs once, in the order of the schedule, and its result is kept
  under its position. A second mention of a position is ignored.
\<close>

fun run_pool ::
  "job \<Rightarrow> chunk list \<Rightarrow> sched_event list \<Rightarrow> (nat \<times> unit py) list \<Rightarrow> dl \<Rightarrow> (nat \<times> unit py) list \<times> dl" where
  "run_pool J cs [] done d = (done, d)"
| "run_pool J cs (StopEvent # evs) done d = run_pool J cs evs done (d\<lparr>dl_stop := True\<rparr>)"
| "run_pool J cs (Work i tries # evs) done d =
    (if i < length cs \<and> map_of done i = None then
       (case download_chunk (jb_aes J) (jb_lib J) tries (cs ! i) (jb_key J) (jb_nonce J) d of
          (r, d) \<Rightarrow> run_pool J cs evs ((i, r) # done) d)
     else run_pool J cs evs done d)"

text \<open>The first failed future in the order of submission; a position that never ran counts as failed.\<close>

definition first_failure :: "nat \<Rightarrow> (nat \<times> unit py) list \<Rightarrow> nat option" where
  "first_failure n results = find (\<lambda>i. map_of results i \<noteq> Some (Inr ())) [0..<n]"

definition missing_chunks :: "job \<Rightarrow> transfer_state \<Rightarrow> nat list" where
  "missing_chunks J s =
     map ch_index (filter (\<lambda>c. \<not> is_chunk_done s (int (ch_index c))) (jb_chunks J))"

definition keep_or_clear :: "job \<Rightarrow> transfer_state \<Rightarrow> disk \<Rightarrow> unit py \<times> disk" where
  "keep_or_clear J s disk =
    (if jb_keep_state J then save_state (jb_lib J) (jb_env J) s disk
     else clear_state (jb_lib J) (jb_env J) disk)"

text \<open>What follows the pool: save, prove coverage, verify the file on disk, clear the state.\<close>

definition finish_download :: "job \<Rightarrow> dl \<Rightarrow> download_result py \<times> dl" where
  "finish_download J d =
    (case snapshot_state (dl_state d) of (live, committed) \<Rightarrow>
      let d = d\<lparr>dl_state := live\<rparr>
      in case save_state (jb_lib J) (jb_env J) committed (dl_disk d) of
        (Inl e, disk) \<Rightarrow> (Inl e, d\<lparr>dl_disk := disk\<rparr>)
      | (Inr _, disk) \<Rightarrow>
          (let d = d\<lparr>dl_disk := disk\<rparr>
           in if missing_chunks J committed \<noteq> [] then
             (case keep_or_clear J committed (dl_disk d) of
                (Inl e, disk) \<Rightarrow> (Inl e, d\<lparr>dl_disk := disk\<rparr>)
              | (Inr _, disk) \<Rightarrow>
                  (if dl_stop d then raise TransferCancelled else raise TransferError, d\<lparr>dl_disk := disk\<rparr>))
           else
             (case (if jb_verify J
                    then verify_file_on_disk (jb_aes J) (jb_chunks J) (jb_key J) (jb_nonce J) (jb_mac_iv J) (dl_file d)
                    else Inr True) of
                Inl e \<Rightarrow> (Inl e, d)
              | Inr False \<Rightarrow>
                  (case (if jb_keep_state J then (Inr (), dl_disk d)
                         else clear_state (jb_lib J) (jb_env J) (dl_disk d)) of
                     (Inl e, disk) \<Rightarrow> (Inl e, d\<lparr>dl_disk := disk\<rparr>)
                   | (Inr _, disk) \<Rightarrow> (raise IntegrityError, d\<lparr>dl_disk := disk\<rparr>))
              | Inr True \<Rightarrow>
                  (case clear_state (jb_lib J) (jb_env J) (dl_disk d) of
                     (Inl e, disk) \<Rightarrow> (Inl e, d\<lparr>dl_disk := disk\<rparr>)
                   | (Inr _, disk) \<Rightarrow>
                       (Inr \<lparr>dr_path = jb_dest J, dr_size = jb_size J, dr_integrity_ok = True\<rparr>,
                        d\<lparr>dl_disk := disk\<rparr>)))))"

text \<open>
  The submission loop: the counters start from what is already done, the stop event is cleared
  and \<open>cancel_at\<close> is the position at which the loop sees it set again, if it does.
\<close>

definition start_pool :: "job \<Rightarrow> nat option \<Rightarrow> transfer_state \<Rightarrow> bytes option \<Rightarrow> dl \<Rightarrow> chunk list \<times> dl" where
  "start_pool J cancel_at s file d =
    (let pending = filter (\<lambda>c. \<not> is_chunk_done s (int (ch_index c))) (jb_chunks J);
         finished = filter (\<lambda>c. is_chunk_done s (int (ch_index c))) (jb_chunks J);
         submitted = (case cancel_at of None \<Rightarrow> pending | Some k \<Rightarrow> take k pending)
     in (submitted,
         d\<lparr>dl_state := s, dl_file := file, dl_bytes_done := sum_list (map ch_size finished),
           dl_chunks_done := length (jb_chunks J) - length pending, dl_stop := (cancel_at \<noteq> None)\<rparr>))"

text \<open>The first failed chunk stops the others, keeps or clears the state, and is the error raised.\<close>

definition conclude_download :: "job \<Rightarrow> nat \<Rightarrow> (nat \<times> unit py) list \<Rightarrow> dl \<Rightarrow> download_result py \<times> dl" where
  "conclude_download J n results d =
    (case first_failure n results of
       None \<Rightarrow> finish_download J d
     | Some i \<Rightarrow>
        (case snapshot_state (dl_state d) of (live, snap) \<Rightarrow>
           let d = d\<lparr>dl_stop := True, dl_state := (if jb_keep_state J then live else dl_state d)\<rparr>
           in case keep_or_clear J snap (dl_disk d) of
                (Inl e, disk) \<Rightarrow> (Inl e, d\<lparr>dl_disk := disk\<rparr>)
              | (Inr _, disk) \<Rightarrow> (raise TransferError, d\<lparr>dl_disk := disk\<rparr>)))"

definition run_claimed_download ::
  "job \<Rightarrow> nat option \<Rightarrow> sched_event list \<Rightarrow> dl \<Rightarrow> download_result py \<times> dl" where
  "run_claimed_download J cancel_at sched d =
    (case choose_state J (dl_file d) (dl_disk d) of
       (Inl e, disk) \<Rightarrow> (Inl e, d\<lparr>dl_disk := disk\<rparr>)
     | (Inr s, disk) \<Rightarrow>
        (case preallocate J (dl_file d) of
           Inl e \<Rightarrow> (Inl e, d\<lparr>dl_disk := disk\<rparr>)
         | Inr file \<Rightarrow>
            (case start_pool J cancel_at s file (d\<lparr>dl_disk := disk\<rparr>) of (submitted, d) \<Rightarrow>
             case run_pool J submitted sched [] d of (results, d) \<Rightarrow>
               conclude_download J (length submitted) results d)))"

section \<open>The completion gate\<close>

lemma finish_download_ok:
  assumes "finish_download J d = (Inr r, d')"
  shows "missing_chunks J (dl_state d) = [] \<and> dl_file d' = dl_file d
    \<and> (jb_verify J \<longrightarrow> verify_file_on_disk (jb_aes J) (jb_chunks J) (jb_key J) (jb_nonce J) (jb_mac_iv J) (dl_file d)
         = Inr True)
    \<and> r = \<lparr>dr_path = jb_dest J, dr_size = jb_size J, dr_integrity_ok = True\<rparr>
    \<and> (\<exists>disk. clear_state (jb_lib J) (jb_env J) disk = (Inr (), dl_disk d'))"
proof -
  have m: "missing_chunks J (s\<lparr>revision := k\<rparr>) = missing_chunks J s" for s k
    by (simp add: missing_chunks_def is_chunk_done_def)
  show ?thesis
    using assms
    by (auto simp: finish_download_def snapshot_state_def Let_def m split: prod.splits sum.splits if_splits bool.splits)
qed

text \<open>Every attempt of a schedule is answered by a server that serves \<open>plain\<close> truthfully.\<close>

definition honest_sched :: "aes \<Rightarrow> bytes \<Rightarrow> bytes \<Rightarrow> bytes \<Rightarrow> sched_event list \<Rightarrow> bool" where
  "honest_sched C key nonce plain evs \<longleftrightarrow>
     list_all (\<lambda>ev. case ev of
         StopEvent \<Rightarrow> True
       | Work i tries \<Rightarrow> list_all (\<lambda>k. honest_attempt C key nonce plain (tries k)) [0..<MAX_ATTEMPTS]) evs"

lemma retry_chunk_sound:
  assumes "retry_chunk C N c key nonce As final d = (r, d')" and "dl_sound N plain d"
    and "list_all (honest_attempt C key nonce plain) (final # As)" and "c \<in> set (iter_chunks (length plain))"
  shows "dl_sound N plain d'"
  using assms
proof (induction As arbitrary: d)
  case Nil
  then show ?case using fetch_chunk_sound [of C N final c key nonce d r d' plain] by simp
next
  case (Cons A As)
  obtain x d1 where f: "fetch_chunk C N A c key nonce d = (x, d1)" by fastforce
  have s: "dl_sound N plain d1" using fetch_chunk_sound [OF f Cons.prems(2)] Cons.prems(3,4) by simp
  show ?case
  proof (cases "\<exists>e. x = Inl e \<and> is_transient_chunk_failure e")
    case True
    then have "retry_chunk C N c key nonce As final d1 = (r, d')" using Cons.prems(1) f by auto
    from Cons.IH [OF this s] Cons.prems(3,4) show ?thesis by simp
  next
    case False
    then have "d' = d1" using Cons.prems(1) f by (auto split: sum.splits)
    then show ?thesis using s by simp
  qed
qed

lemma dl_sound_stop: "dl_sound N plain (d\<lparr>dl_stop := b\<rparr>) = dl_sound N plain d"
  by (simp add: dl_sound_def)

lemma run_pool_sound:
  assumes "run_pool J cs evs done0 d = (results, d')" and "dl_sound (jb_lib J) plain d"
    and "honest_sched (jb_aes J) (jb_key J) (jb_nonce J) plain evs"
    and "set cs \<subseteq> set (iter_chunks (length plain))"
  shows "dl_sound (jb_lib J) plain d'"
  using assms
proof (induction evs arbitrary: done0 d)
  case (Cons ev evs)
  show ?case
  proof (cases ev)
    case StopEvent
    then show ?thesis using Cons by (simp add: dl_sound_stop honest_sched_def)
  next
    case (Work i tries)
    show ?thesis
    proof (cases "i < length cs \<and> map_of done0 i = None")
      case True
      obtain r d1 where f: "download_chunk (jb_aes J) (jb_lib J) tries (cs ! i) (jb_key J) (jb_nonce J) d = (r, d1)"
        by fastforce
      have h: "list_all (honest_attempt (jb_aes J) (jb_key J) (jb_nonce J) plain)
          (tries (MAX_ATTEMPTS - 1) # map tries [0..<MAX_ATTEMPTS - 1])"
        using Cons.prems(3) Work by (simp add: honest_sched_def list_all_iff MAX_ATTEMPTS_def)
      have "cs ! i \<in> set (iter_chunks (length plain))" using True Cons.prems(4) by auto
      from retry_chunk_sound [OF f [unfolded download_chunk_def] Cons.prems(2) h this]
      have "dl_sound (jb_lib J) plain d1" .
      then show ?thesis using Cons True Work f by (auto simp: honest_sched_def)
    next
      case False
      then show ?thesis using Cons Work by (auto simp: honest_sched_def)
    qed
  qed
qed simp

lemma fresh_download_valid:
  assumes "length (jb_key J) = 16" and "length (jb_nonce J) = 8"
  shows "state_valid (jb_lib J) (fresh_download J)"
  using assms
  by (simp add: state_valid_def fresh_download_def VALID_TRANSFER_TYPES_def chunks_ok_def macs_ok_def
      validate_metadata_def need_obj_def if_present_def jget_def validate_hex_def need_str_def need_hex_def
      req_def from_hex_to_hex AES_KEY_HEX_LENGTH_def NONCE_HEX_LENGTH_def)

text \<open>
  What is trusted of an earlier run: the chunks its state records are in the file. The code
  cannot check it before the final MAC.
\<close>

definition resume_trusted :: "job \<Rightarrow> bytes \<Rightarrow> dl \<Rightarrow> bool" where
  "resume_trusted J plain d \<longleftrightarrow>
     (case load_state (jb_lib J) (jb_env J) (dl_disk d) of
        (Inr (Some s), _) \<Rightarrow>
          list_all (\<lambda>c. is_chunk_done s (int (ch_index c)) \<longrightarrow>
             (case dl_file d of None \<Rightarrow> False | Some b \<Rightarrow> chunk_in_place plain b c)) (jb_chunks J)
      | _ \<Rightarrow> True)"

lemma usable_facts:
  assumes "is_usable_download_state ar (Some s) dest file src n key nonce cs = Inr True"
  shows "total_size s = int n \<and> (completed_chunks s = [] \<or> (\<exists>b. file = Some b \<and> length b = n))"
  using assms by (auto simp: is_usable_download_state_def split: if_splits option.splits)

lemma choose_state_cases:
  assumes "choose_state J file disk = (Inr s, disk')"
  shows "s = fresh_download J \<or> (\<exists>disk1. load_state (jb_lib J) (jb_env J) disk = (Inr (Some s), disk1)
    \<and> total_size s = int (jb_size J)
    \<and> (completed_chunks s = [] \<or> (\<exists>b. file = Some b \<and> length b = jb_size J)))"
proof -
  let ?ld = "if jb_auto_resume J then load_state (jb_lib J) (jb_env J) disk else (Inr None, disk)"
  obtain x disk1 where l: "?ld = (x, disk1)" by fastforce
  then obtain ld where x: "x = Inr ld" using assms by (cases x) (auto simp: choose_state_def)
  obtain u where u: "is_usable_download_state (jb_auto_resume J) ld (jb_dest J) file (jb_source J) (jb_size J)
      (jb_key J) (jb_nonce J) (jb_chunks J) = Inr u"
    using assms l x by (auto simp: choose_state_def split: sum.splits)
  show ?thesis
  proof (cases "\<exists>t. ld = Some t \<and> u")
    case True
    then obtain t where t: "ld = Some t" "u" by blast
    then have "s = t" using assms l x u by (simp add: choose_state_def)
    moreover have "load_state (jb_lib J) (jb_env J) disk = (Inr (Some t), disk1)"
      using l x t(1) by (auto split: if_splits)
    ultimately show ?thesis
      using u t usable_facts [where s = t] by auto
  next
    case False
    then have "s = fresh_download J"
      using assms l x u by (auto simp: choose_state_def split: option.splits bool.splits sum.splits prod.splits if_splits)
    then show ?thesis by simp
  qed
qed

lemma preallocate_cases:
  assumes "preallocate J file = Inr file'"
  shows "(\<exists>b. file = Some b \<and> length b = jb_size J \<and> file' = file)
    \<or> ((\<forall>b. file = Some b \<longrightarrow> length b \<noteq> jb_size J) \<and> file' = Some (zeros (jb_size J)))"
  using assms by (auto simp: preallocate_def Let_def split: if_splits option.splits)

lemma start_sound:
  assumes "choose_state J (dl_file d) (dl_disk d) = (Inr s, disk)" and "preallocate J (dl_file d) = Inr file"
    and "length (jb_key J) = 16" and "length (jb_nonce J) = 8" and "jb_size J = length plain"
    and "resume_trusted J plain d" and "dl_file e = file" and "dl_state e = s"
  shows "dl_sound (jb_lib J) plain e"
  using choose_state_cases [OF assms(1)]
proof
  assume s: "s = fresh_download J"
  obtain b where "file = Some b" "length b = jb_size J" using preallocate_cases [OF assms(2)] by auto
  then show ?thesis
    using fresh_download_valid [OF assms(3,4)] assms(5,7,8) s
    by (simp add: dl_sound_def fresh_download_def is_chunk_done_def list_all_iff)
next
  assume "\<exists>disk1. load_state (jb_lib J) (jb_env J) (dl_disk d) = (Inr (Some s), disk1)
    \<and> total_size s = int (jb_size J) \<and> (completed_chunks s = [] \<or> (\<exists>b. dl_file d = Some b \<and> length b = jb_size J))"
  then obtain disk1 where l: "load_state (jb_lib J) (jb_env J) (dl_disk d) = (Inr (Some s), disk1)"
    and t: "total_size s = int (jb_size J)"
    and c: "completed_chunks s = [] \<or> (\<exists>b. dl_file d = Some b \<and> length b = jb_size J)" by blast
  have v: "state_valid (jb_lib J) s" using load_state_facts [where N = "jb_lib J" and E = "jb_env J" and d = "dl_disk d"] l by simp
  obtain b where b: "file = Some b" "length b = jb_size J" "dl_file d = Some b \<or> completed_chunks s = []"
    using preallocate_cases [OF assms(2)] c by auto
  have "list_all (\<lambda>c. is_chunk_done s (int (ch_index c)) \<longrightarrow> chunk_in_place plain b c) (jb_chunks J)"
    using assms(6) l b(3) by (auto simp: resume_trusted_def list_all_iff is_chunk_done_def)
  then show ?thesis using v t b assms(5,7,8) by (simp add: dl_sound_def jb_chunks_def)
qed

text \<open>
  C1: a download succeeds only when it is complete, and then the file is right. If
  \<open>_run_claimed_download\<close> returns, the final file passed the MAC check whenever verification is
  on; and if the servers answered truthfully and the chunks of an earlier run are in place, the
  file is the source, byte for byte, whatever the schedule, the retries, the saves and the
  interruptions were.
\<close>

theorem download_success_exact:
  assumes "run_claimed_download J cancel_at sched d = (Inr r, d')"
    and "length (jb_key J) = 16" and "length (jb_nonce J) = 8" and "jb_size J = length plain"
    and "resume_trusted J plain d"
    and "honest_sched (jb_aes J) (jb_key J) (jb_nonce J) plain sched"
  shows "dl_file d' = Some plain \<and> dr_size r = length plain \<and> dr_path r = jb_dest J
    \<and> (if jb_verify J then verify_file_on_disk (jb_aes J) (jb_chunks J) (jb_key J) (jb_nonce J) (jb_mac_iv J)
         (Some plain) = Inr True else True)"
proof -
  obtain s disk where cs: "choose_state J (dl_file d) (dl_disk d) = (Inr s, disk)"
    using assms(1) by (cases "choose_state J (dl_file d) (dl_disk d)"; cases "fst (choose_state J (dl_file d) (dl_disk d))")
      (auto simp: run_claimed_download_def)
  obtain fl where pa: "preallocate J (dl_file d) = Inr fl"
    using assms(1) cs by (cases "preallocate J (dl_file d)") (auto simp: run_claimed_download_def Let_def)
  obtain submitted e where sp: "start_pool J cancel_at s fl (d\<lparr>dl_disk := disk\<rparr>) = (submitted, e)" by fastforce
  obtain results d1 where rp: "run_pool J submitted sched [] e = (results, d1)" by fastforce
  have cd: "conclude_download J (length submitted) results d1 = (Inr r, d')"
    using assms(1) by (simp add: run_claimed_download_def cs pa sp rp)
  have fin: "finish_download J d1 = (Inr r, d')"
    using cd by (auto simp: conclude_download_def Let_def split: option.splits prod.splits sum.splits)
  have e: "dl_file e = fl" "dl_state e = s" using sp by (auto simp: start_pool_def Let_def)
  have sub: "set submitted \<subseteq> set (iter_chunks (length plain))"
    using sp assms(4) by (auto simp: start_pool_def Let_def jb_chunks_def split: option.splits dest: in_set_takeD)
  have s0: "dl_sound (jb_lib J) plain e" by (rule start_sound [OF cs pa assms(2-5) e])
  have s1: "dl_sound (jb_lib J) plain d1" by (rule run_pool_sound [OF rp s0 assms(6) sub])
  note f = finish_download_ok [OF fin]
  obtain b where b: "dl_file d1 = Some b" "length b = length plain"
    "list_all (\<lambda>c. is_chunk_done (dl_state d1) (int (ch_index c)) \<longrightarrow> chunk_in_place plain b c)
       (iter_chunks (length plain))" using s1 by (auto simp: dl_sound_def)
  have "list_all (\<lambda>c. is_chunk_done (dl_state d1) (int (ch_index c))) (iter_chunks (length plain))"
    using f assms(4) by (auto simp: missing_chunks_def jb_chunks_def list_all_iff filter_empty_conv)
  then have "b = plain" using b by (intro all_in_place) (auto simp: list_all_iff)
  then show ?thesis using f b(1) assms(4) by simp
qed

section \<open>An example run\<close>

definition demo_job :: job where
  "demo_job = \<lparr>jb_aes = demo_aes, jb_lib = plain_lib, jb_key = demo_key, jb_nonce = demo_nonce,
     jb_mac_iv = [0, 0], jb_size = 3, jb_dest = ''d'', jb_source = ''u'', jb_auto_resume = True,
     jb_verify = False, jb_keep_state = True, jb_free = 0, jb_env = reader\<rparr>"

definition demo_run :: "download_result py \<times> dl" where
  "demo_run = run_claimed_download demo_job None [Work 0 (\<lambda>_. demo_attempt)] demo_dl"

lemma demo_chunks: "jb_chunks demo_job = [demo_chunk]"
proof -
  have "jb_size demo_job = length demo_plain" by (simp add: demo_job_def demo_plain_def)
  then show ?thesis by (simp only: jb_chunks_def demo_plan)
qed

lemma demo_choose: "choose_state demo_job (dl_file demo_dl) empty_disk = (Inr (fresh_download demo_job), empty_disk)"
  by (simp add: choose_state_def demo_job_def load_state_def empty_disk_def is_usable_download_state_def
      unrecognized_state_version_def read_json_def reader_def clear_state_def disk_guard_def)

lemma demo_mac: "\<exists>m. open_chunk demo_aes demo_key demo_nonce demo_chunk
    (ctr_crypt demo_aes demo_key demo_nonce 0 demo_plain) = Inr (demo_plain, m) \<and> length m = 16"
proof -
  obtain m where "chunk_mac demo_aes demo_plain demo_key demo_nonce = Inr m" "length m = 16"
    using chunk_mac_total [OF demo_aes_ok, of demo_key demo_nonce demo_plain]
    by (auto simp: demo_key_def demo_nonce_def aes_key_size_def)
  then show ?thesis
    by (simp add: open_chunk_def demo_chunk_def ctr_offset_to_counter_def make_ctr_cipher_def ctr_update_def
        ctr.crypt_crypt demo_key_def demo_nonce_def Let_def)
qed

definition demo_done :: "bytes \<Rightarrow> transfer_state" where
  "demo_done m = (fresh_download demo_job)\<lparr>completed_chunks := [0], chunk_macs := [(0, to_hex m)]\<rparr>"

definition demo_end :: "bytes \<Rightarrow> dl" where
  "demo_end m = demo_dl\<lparr>dl_state := demo_done m, dl_file := Some (pwrite 0 demo_plain (zeros 3)),
     dl_bytes_done := 3, dl_chunks_done := 1\<rparr>"

lemma demo_start:
  "start_pool demo_job None (fresh_download demo_job) (Some (zeros 3)) demo_dl
     = ([demo_chunk], demo_dl\<lparr>dl_state := fresh_download demo_job\<rparr>)"
  by (simp add: start_pool_def demo_chunks fresh_download_def is_chunk_done_def demo_dl_def)

lemma demo_fetched:
  assumes "open_chunk demo_aes demo_key demo_nonce demo_chunk
      (ctr_crypt demo_aes demo_key demo_nonce 0 demo_plain) = Inr (demo_plain, m)" and "length m = 16"
  shows "fetch_chunk demo_aes plain_lib demo_attempt demo_chunk demo_key demo_nonce
      (demo_dl\<lparr>dl_state := fresh_download demo_job\<rparr>) = (Inr (), demo_end m)"
proof -
  let ?e = "ctr_crypt demo_aes demo_key demo_nonce 0 demo_plain"
  have l: "length ?e = 3" by (simp add: ctr_crypt_length demo_plain_def)
  have "receive_chunk demo_attempt demo_chunk (demo_dl\<lparr>dl_state := fresh_download demo_job\<rparr>)
      = (Inr (Some (?e, None)), demo_dl\<lparr>dl_state := fresh_download demo_job\<rparr>)"
    using l by (simp add: receive_chunk_def demo_dl_def demo_attempt_def selector_select_def make_selector_def
        validate_range_response_def demo_chunk_def fresh_download_def demo_job_def URL_EXPIRY_STATUS_def Let_def)
  then show ?thesis
    using assms by (simp add: fetch_chunk_def store_chunk_def commit_chunk_def demo_dl_def demo_chunk_def
        mark_chunk_done_def MAC_BYTE_LENGTH_def MAC_HEX_LENGTH_def demo_end_def demo_done_def
        fresh_download_def selector_report_success_def Let_def)
qed

lemma demo_done_storable:
  assumes "length m = 16"
  shows "storable plain_lib ((demo_done m)\<lparr>revision := 1\<rparr>)"
proof -
  have "state_valid plain_lib (fresh_download demo_job)"
    using fresh_download_valid [of demo_job] by (simp add: demo_job_def demo_key_def demo_nonce_def)
  moreover have "valid_mac_hex (to_hex m)"
    by (rule valid_mac_hex_to_hex) (simp add: assms MAC_BYTE_LENGTH_def MAC_HEX_LENGTH_def)
  moreover have "length (show_int 0) \<le> max_str_digits"
    by (simp add: show_int_def show_nat.simps max_str_digits_def)
  ultimately show ?thesis
    by (simp add: storable_def state_valid_def demo_done_def chunks_ok_def macs_ok_def printable_keys_def
        fresh_download_def)
qed

lemma demo_finish:
  assumes "length m = 16"
  shows "\<exists>d'. finish_download demo_job (demo_end m)
    = (Inr \<lparr>dr_path = ''d'', dr_size = 3, dr_integrity_ok = True\<rparr>, d')"
proof -
  let ?s = "(demo_done m)\<lparr>revision := 1\<rparr>"
  let ?disk = "empty_disk\<lparr>d_file := Some (Doc (state_json ?s))\<rparr>"
  have r: "revision (demo_done m) = 0" by (simp add: demo_done_def fresh_download_def)
  have sv: "save_state plain_lib reader ?s empty_disk = (Inr (), ?disk)"
    by (simp add: save_state_def flush_transferred_data_def reader_def disk_guard_def read_json_def
        empty_disk_def STATE_FORMAT_VERSION_def upt_rec Let_def)
  have "disk_guard plain_lib reader ?disk = Inr (STATE_FORMAT_VERSION, 1)"
    using disk_guard_saved [OF demo_done_storable [OF assms], of reader ?disk] by (simp add: reader_def)
  then have cl: "clear_state plain_lib reader ?disk = (Inr (), ?disk\<lparr>d_file := None\<rparr>)"
    by (simp add: clear_state_def reader_def)
  have mi: "missing_chunks demo_job ?s = []"
    by (simp add: missing_chunks_def demo_chunks is_chunk_done_def demo_done_def demo_chunk_def)
  have f: "jb_lib demo_job = plain_lib" "jb_env demo_job = reader" "jb_verify demo_job = False"
    "jb_dest demo_job = ''d''" "jb_size demo_job = 3" by (simp_all add: demo_job_def)
  have e: "dl_state (demo_end m) = demo_done m" "dl_disk (demo_end m) = empty_disk"
    by (simp_all add: demo_end_def demo_dl_def)
  show ?thesis
    by (simp add: finish_download_def snapshot_state_def e r f sv mi cl Let_def)
qed

lemma demo_run_ok: "\<exists>d'. demo_run = (Inr \<lparr>dr_path = ''d'', dr_size = 3, dr_integrity_ok = True\<rparr>, d')"
proof -
  obtain m where m: "open_chunk demo_aes demo_key demo_nonce demo_chunk
      (ctr_crypt demo_aes demo_key demo_nonce 0 demo_plain) = Inr (demo_plain, m)" "length m = 16"
    using demo_mac by blast
  have pa: "preallocate demo_job (dl_file demo_dl) = Inr (Some (zeros 3))"
    by (simp add: preallocate_def demo_dl_def demo_job_def)
  have dd: "dl_disk demo_dl = empty_disk" "demo_dl\<lparr>dl_disk := empty_disk\<rparr> = demo_dl"
    by (simp_all add: demo_dl_def)
  have f: "jb_aes demo_job = demo_aes" "jb_lib demo_job = plain_lib" "jb_key demo_job = demo_key"
    "jb_nonce demo_job = demo_nonce" by (simp_all add: demo_job_def)
  have "download_chunk demo_aes plain_lib (\<lambda>_. demo_attempt) demo_chunk demo_key demo_nonce
      (demo_dl\<lparr>dl_state := fresh_download demo_job\<rparr>) = (Inr (), demo_end m)"
    by (simp add: download_chunk_def MAX_ATTEMPTS_def upt_rec demo_fetched [OF m])
  then have "demo_run = finish_download demo_job (demo_end m)"
    by (simp add: demo_run_def run_claimed_download_def dd demo_choose pa demo_start f
        conclude_download_def first_failure_def)
  then show ?thesis using demo_finish [OF m(2)] by simp
qed

lemma download_success_exact_witness:
  "dl_file (snd demo_run) = Some demo_plain \<and> dr_size \<lparr>dr_path = ''d'', dr_size = 3, dr_integrity_ok = True\<rparr> = length demo_plain
   \<and> dr_path \<lparr>dr_path = ''d'', dr_size = 3, dr_integrity_ok = True\<rparr> = jb_dest demo_job
   \<and> (if jb_verify demo_job then verify_file_on_disk (jb_aes demo_job) (jb_chunks demo_job) (jb_key demo_job)
        (jb_nonce demo_job) (jb_mac_iv demo_job) (Some demo_plain) = Inr True else True)"
proof (rule download_success_exact)
  show "run_claimed_download demo_job None [Work 0 (\<lambda>_. demo_attempt)] demo_dl
      = (Inr \<lparr>dr_path = ''d'', dr_size = 3, dr_integrity_ok = True\<rparr>, snd demo_run)"
    using demo_run_ok unfolding demo_run_def by auto
  show "resume_trusted demo_job demo_plain demo_dl"
    by (simp add: resume_trusted_def demo_dl_def empty_disk_def load_state_def)
  show "honest_sched (jb_aes demo_job) (jb_key demo_job) (jb_nonce demo_job) demo_plain
      [Work 0 (\<lambda>_. demo_attempt)]"
    using demo_honest by (simp add: honest_sched_def demo_job_def list_all_iff)
qed (simp_all add: demo_job_def demo_key_def demo_nonce_def demo_plain_def)

end
