(* ===== verification/Aead.thy ===== *)
theory Aead
  imports Errors Encoding
begin

text \<open>
  What the queue's secret box, the session store, the credential vault and the file crypter
  share: the AES-256-GCM interface of the \<open>cryptography\<close> package, strict base64 and the
  decoding half of UTF-8. The cipher is a parameter; \<open>aead_ok\<close> is its documented behaviour
  (opening what was sealed under the same key, nonce and associated data gives it join, and
  the sealed text is 16 bytes longer).
\<close>

section \<open>AES-GCM\<close>

record aead =
  gcm_seal :: "bytes \<Rightarrow> bytes \<Rightarrow> bytes \<Rightarrow> bytes \<Rightarrow> bytes"
  gcm_open :: "bytes \<Rightarrow> bytes \<Rightarrow> bytes \<Rightarrow> bytes \<Rightarrow> bytes option"

definition aead_ok :: "aead \<Rightarrow> bool" where
  "aead_ok A \<longleftrightarrow>
    (\<forall>k n p a. gcm_open A k n (gcm_seal A k n p a) a = Some p)
    \<and> (\<forall>k n p a. length (gcm_seal A k n p a) = length p + 16)"

lemma gcm_open_seal: "aead_ok A \<Longrightarrow> gcm_open A k n (gcm_seal A k n p a) a = Some p"
  by (simp add: aead_ok_def)

lemma length_gcm_seal: "aead_ok A \<Longrightarrow> length (gcm_seal A k n p a) = length p + 16"
  by (simp add: aead_ok_def)

text \<open>
  An instance for examples: the plaintext followed by a tag made of the key, the nonce and the
  associated data.
\<close>

definition demo_tag :: "bytes \<Rightarrow> bytes \<Rightarrow> bytes \<Rightarrow> bytes" where
  "demo_tag k n a = take 16 (take 4 k @ take 4 n @ take 4 a @ zeros 16)"

definition demo_aead :: aead where
  "demo_aead =
    \<lparr>gcm_seal = \<lambda>k n p a. p @ demo_tag k n a,
     gcm_open = \<lambda>k n c a. let m = length c - 16 in
       if 16 \<le> length c \<and> drop m c = demo_tag k n a then Some (take m c) else None\<rparr>"

lemma demo_aead_ok: "aead_ok demo_aead"
  by (auto simp: aead_ok_def demo_aead_def demo_tag_def Let_def)

section \<open>Strict base64\<close>

text \<open>
  \<open>base64.b64decode(s, validate=True)\<close> as Python 3.10, the oldest supported version, reads it:
  a \<open>fullmatch\<close> of the alphabet with at most two pads, then the lenient decoder.
\<close>

definition b64_strict_form :: "string \<Rightarrow> bool" where
  "b64_strict_form s \<longleftrightarrow>
     (let body = takeWhile (\<lambda>c. c \<noteq> CHR ''='') s; pads = drop (length body) s
      in is_std_b64 body \<and> list_all (\<lambda>c. c = CHR ''='') pads \<and> length pads \<le> 2)"

definition b64decode_strict :: "string \<Rightarrow> bytes py" where
  "b64decode_strict s = (if b64_strict_form s then b64decode s else raise BinasciiError)"

text \<open>\<open>base64.b64decode\<close> of a text: what is not ASCII is refused.\<close>

definition b64decode_text :: "string \<Rightarrow> bytes py" where
  "b64decode_text s = (if list_ex (\<lambda>c. 128 \<le> (of_char c :: nat)) s then raise ValueError else b64decode s)"

lemma b64_word_chars:
  assumes "c \<in> set (map b64_char (b64raw bs))"
  shows "(of_char c :: nat) < 128"
proof -
  obtain v where "c = b64_char v" "v < 64" using assms b64raw_bound by auto
  then show ?thesis by (auto simp: of_char_b64)
qed

lemma b64decode_encode [simp]: "b64decode (b64encode bs) = Inr bs"
  by (simp add: b64decode_def b64encode_raw a2b_raw)

lemma b64decode_text_encode [simp]: "b64decode_text (b64encode bs) = Inr bs"
proof -
  have "of_char c < (128 :: nat)" if "c \<in> set (b64encode bs)" for c
    using that b64_word_chars [of c bs] by (auto simp: b64encode_raw b64_pad_def)
  then have "\<not> list_ex (\<lambda>c. 128 \<le> (of_char c :: nat)) (b64encode bs)"
    unfolding list_ex_iff by (meson linorder_not_less)
  then show ?thesis by (simp add: b64decode_text_def)
qed

lemma b64_pad_short: "length (b64_pad (length (b64raw bs))) \<le> 2"
  by (induction bs rule: b64raw.induct) (simp_all add: Let_def)

lemma b64encode_strict_form: "b64_strict_form (b64encode bs)"
proof -
  let ?b = "map b64_char (b64raw bs)" and ?p = "b64_pad (length (b64raw bs))"
  have nb: "\<forall>c \<in> set ?b. c \<noteq> CHR ''=''"
    using b64_char_facts(2) [OF b64raw_bound] by fastforce
  have pad: "list_all (\<lambda>c. c = CHR ''='') ?p \<and> length ?p \<le> 2"
    using b64_pad_short [of bs] by (auto simp: b64_pad_def list_all_iff)
  have "takeWhile (\<lambda>c. c \<noteq> CHR ''='') ?p = []"
    using pad by (cases ?p) auto
  then have tw: "takeWhile (\<lambda>c. c \<noteq> CHR ''='') (?b @ ?p) = ?b"
    using nb by (subst takeWhile_append) auto
  have "is_std_b64 ?b"
    using b64raw_bound b64_char_facts(6) by (auto simp: is_std_b64_def list_all_iff)
  with tw pad show ?thesis
    unfolding b64_strict_form_def b64encode_raw Let_def by simp
qed

lemma b64decode_strict_encode [simp]: "b64decode_strict (b64encode bs) = Inr bs"
  by (simp add: b64decode_strict_def b64encode_strict_form)

lemma b64encode_Nil_iff [simp]: "b64encode bs = [] \<longleftrightarrow> bs = []"
  by (induction bs rule: b64encode.induct) (simp_all add: Let_def)

section \<open>UTF-8 decoding\<close>

text \<open>
  \<open>bytes.decode("utf-8")\<close> into Latin-1 text. Well-formed sequences of code points above 255
  are outside the model's character type and read as \<open>None\<close>, as malformed ones do.
\<close>

fun utf8_decode :: "bytes \<Rightarrow> string option" where
  "utf8_decode [] = Some []"
| "utf8_decode (a # bs) =
    (let n = unat a in
     if n < 128 then map_option ((#) (char_of n)) (utf8_decode bs)
     else case bs of
         [] \<Rightarrow> None
       | b # cs \<Rightarrow>
           (let m = unat b in
            if (n = 194 \<or> n = 195) \<and> 128 \<le> m \<and> m < 192
            then map_option ((#) (char_of ((n - 192) * 64 + (m - 128)))) (utf8_decode cs)
            else None))"

lemma utf8_decode_two:
  assumes "unat a = 192 + n" and "unat b = 128 + m" and "n = 2 \<or> n = 3" and "m < 64"
  shows "utf8_decode (a # b # cs) = map_option ((#) (char_of (n * 64 + m))) (utf8_decode cs)"
  using assms by (auto simp: Let_def)

lemma utf8_decode_char: "utf8_decode (utf8_char c @ bs) = map_option ((#) c) (utf8_decode bs)"
proof -
  let ?n = "of_char c :: nat"
  have n: "?n < 256" by (metis of_char_mod_256 mod_less_divisor zero_less_numeral)
  show ?thesis
  proof (cases "?n < 128")
    case True
    then show ?thesis by (simp add: utf8_char_def Let_def unat_byte_of_nat)
  next
    case False
    have "?n div 64 < 4" by (rule less_mult_imp_div_less) (use n in simp)
    moreover have "128 div 64 \<le> ?n div 64" by (rule div_le_mono) (use False in simp)
    ultimately have d: "?n div 64 < 4" "2 \<le> ?n div 64" by simp_all
    have u: "unat (of_nat (192 + ?n div 64) :: byte) = 192 + ?n div 64"
      "unat (of_nat (128 + ?n mod 64) :: byte) = 128 + ?n mod 64"
      by (rule unat_byte_of_nat, use d in simp)+
    have join: "char_of (?n div 64 * 64 + ?n mod 64) = c"
      by (simp only: div_mult_mod_eq char_of_char)
    have cs: "?n div 64 = 2 \<or> ?n div 64 = 3" using d by linarith
    have enc: "utf8_char c = [of_nat (192 + ?n div 64), of_nat (128 + ?n mod 64)]"
      using False by (simp add: utf8_char_def Let_def)
    have "utf8_decode (of_nat (192 + ?n div 64) # of_nat (128 + ?n mod 64) # bs)
        = map_option ((#) (char_of (?n div 64 * 64 + ?n mod 64))) (utf8_decode bs)"
      by (rule utf8_decode_two [OF u cs]) simp
    then show ?thesis unfolding enc join by simp
  qed
qed

lemma utf8_decode_utf8 [simp]: "utf8_decode (utf8 s) = Some s"
  by (induction s) (simp_all add: utf8_def utf8_decode_char)

definition decode_text :: "bytes \<Rightarrow> string py" where
  "decode_text bs = (case utf8_decode bs of None \<Rightarrow> raise UnicodeError | Some s \<Rightarrow> Inr s)"

lemma decode_text_utf8 [simp]: "decode_text (utf8 s) = Inr s"
  by (simp add: decode_text_def)

lemma utf8_Nil_iff [simp]: "utf8 s = [] \<longleftrightarrow> s = []"
  by (cases s) (auto simp: utf8_def utf8_char_def Let_def)

end
