(* ===== verification/SecretBox.thy ===== *)
theory SecretBox
  imports Aead
begin

text \<open>
  \<open>queue/secretbox.py\<close>: link passwords sealed at rest under a local key file. The box is the
  content of the key file and the key cached in memory; whether the file can be read and
  written, the random key and what a lost race for the file's creation finds are arguments.
\<close>

definition QUEUE_KEY_LEN :: nat where
  "QUEUE_KEY_LEN = 32"

definition QUEUE_SECRET_VERSION :: byte where
  "QUEUE_SECRET_VERSION = 1"

definition QUEUE_SECRET_AAD :: bytes where
  "QUEUE_SECRET_AAD = utf8 ''megabasterd-cli/queue-secret''"

record key_box =
  kb_file :: "bytes option"
  kb_cached :: "bytes option"

record key_io =
  ki_read :: bool
  ki_write :: bool
  ki_fresh :: bytes
  ki_raced :: "bytes option"

definition load_key :: "key_io \<Rightarrow> bool \<Rightarrow> key_box \<Rightarrow> bytes option py \<times> key_box" where
  "load_key io create B =
    (case kb_cached B of
       Some k \<Rightarrow> (Inr (Some k), B)
     | None \<Rightarrow>
        (case kb_file B of
           Some data \<Rightarrow>
             (if \<not> ki_read io then (raise OSError, B)
              else if length data = QUEUE_KEY_LEN then (Inr (Some data), B\<lparr>kb_cached := Some data\<rparr>)
              else if data \<noteq> [] then (raise QueueKeyError, B)
              else if \<not> create then (Inr None, B)
              else if \<not> ki_write io then (raise OSError, B)
              else (Inr (Some (ki_fresh io)),
                    B\<lparr>kb_file := Some (ki_fresh io), kb_cached := Some (ki_fresh io)\<rparr>))
         | None \<Rightarrow>
             (if \<not> create then (Inr None, B)
              else case ki_raced io of
                  None \<Rightarrow>
                    (if \<not> ki_write io then (raise OSError, B)
                     else (Inr (Some (ki_fresh io)),
                           B\<lparr>kb_file := Some (ki_fresh io), kb_cached := Some (ki_fresh io)\<rparr>))
                | Some existing \<Rightarrow>
                    (if length existing = QUEUE_KEY_LEN
                     then (Inr (Some existing),
                           B\<lparr>kb_file := Some existing, kb_cached := Some existing\<rparr>)
                     else (raise QueueKeyError, B\<lparr>kb_file := Some existing\<rparr>)))))"

definition secret_blob :: "aead \<Rightarrow> bytes \<Rightarrow> bytes \<Rightarrow> string \<Rightarrow> bytes" where
  "secret_blob A key nonce plaintext =
     [QUEUE_SECRET_VERSION] @ nonce @ gcm_seal A key nonce (utf8 plaintext) QUEUE_SECRET_AAD"

definition secret_encrypt ::
  "aead \<Rightarrow> key_io \<Rightarrow> bytes \<Rightarrow> string \<Rightarrow> bool \<Rightarrow> key_box \<Rightarrow> string py \<times> key_box" where
  "secret_encrypt A io nonce plaintext allow_create B =
    (case load_key io allow_create B of
       (Inl e, B') \<Rightarrow> (Inl e, B')
     | (Inr None, B') \<Rightarrow> (raise QueueKeyError, B')
     | (Inr (Some key), B') \<Rightarrow> (Inr (b64encode (secret_blob A key nonce plaintext)), B'))"

definition split_secret :: "bytes \<Rightarrow> (bytes \<times> bytes) py" where
  "split_secret raw =
    (if raw \<noteq> [] \<and> raw ! 0 = QUEUE_SECRET_VERSION \<and> 1 + 12 + 16 \<le> length raw
     then Inr (slice 1 13 raw, drop 13 raw)
     else if 12 + 16 \<le> length raw then Inr (take 12 raw, drop 12 raw)
     else raise ValueError)"

definition secret_decrypt :: "aead \<Rightarrow> key_io \<Rightarrow> string \<Rightarrow> key_box \<Rightarrow> string py \<times> key_box" where
  "secret_decrypt A io token B =
    (case load_key io False B of
       (Inl e, B') \<Rightarrow> (Inl e, B')
     | (Inr None, B') \<Rightarrow> (raise QueueKeyError, B')
     | (Inr (Some key), B') \<Rightarrow>
         (bindR (b64decode token) (\<lambda>raw.
          bindR (split_secret raw) (\<lambda>(nonce, ct).
            case gcm_open A key nonce ct QUEUE_SECRET_AAD of
              None \<Rightarrow> raise InvalidTag
            | Some p \<Rightarrow> decode_text p)), B'))"

section \<open>The key file\<close>

text \<open>What any use of the key leaves behind: a key that was there stays, and stays the one used.\<close>

definition box_ok :: "key_box \<Rightarrow> bool" where
  "box_ok B \<longleftrightarrow> (case kb_cached B of None \<Rightarrow> True
     | Some k \<Rightarrow> kb_file B = Some k \<and> length k = QUEUE_KEY_LEN)"

definition io_ok :: "key_io \<Rightarrow> bool" where
  "io_ok io \<longleftrightarrow> length (ki_fresh io) = QUEUE_KEY_LEN"

lemma load_key_facts:
  assumes "load_key io create B = (r, B')" and "box_ok B" and "io_ok io"
  shows "box_ok B'
    \<and> (\<forall>k. r = Inr (Some k) \<longrightarrow> kb_cached B' = Some k \<and> kb_file B' = Some k \<and> length k = QUEUE_KEY_LEN)
    \<and> (\<not> create \<longrightarrow> kb_file B' = kb_file B)
    \<and> (\<forall>data. kb_file B = Some data \<and> data \<noteq> [] \<longrightarrow> kb_file B' = Some data)"
  using assms
  by (auto simp: load_key_def box_ok_def io_ok_def QUEUE_KEY_LEN_def split: option.splits if_splits)

lemma load_key_cached [simp]: "kb_cached B = Some k \<Longrightarrow> load_key io create B = (Inr (Some k), B)"
  by (simp add: load_key_def)

lemma split_secret_blob:
  assumes "length nonce = 12" and "aead_ok A"
  shows "split_secret (secret_blob A key nonce p)
    = Inr (nonce, gcm_seal A key nonce (utf8 p) QUEUE_SECRET_AAD)"
proof -
  have "take 12 (drop 1 (secret_blob A key nonce p)) = nonce"
    "drop 13 (secret_blob A key nonce p) = gcm_seal A key nonce (utf8 p) QUEUE_SECRET_AAD"
    using assms(1) by (simp_all add: secret_blob_def)
  then show ?thesis
    using assms by (simp add: split_secret_def slice_def secret_blob_def length_gcm_seal)
qed

text \<open>
  A token of the earlier unversioned form whose random nonce starts with byte 1 is taken apart
  at the wrong offsets.
\<close>

lemma legacy_secret_misread:
  assumes "length nonce = 12" and "hd nonce = QUEUE_SECRET_VERSION" and "17 \<le> length ct"
  shows "split_secret (nonce @ ct) = Inr (tl nonce @ [hd ct], tl ct)"
proof -
  obtain n ns where n: "nonce = n # ns" "length ns = 11" using assms(1) by (cases nonce) auto
  obtain c cs where c: "ct = c # cs" using assms(3) by (cases ct) auto
  show ?thesis using assms n c by (simp add: split_secret_def slice_def)
qed

lemma secret_opens:
  assumes "secret_encrypt A io nonce p allow B = (Inr token, B')"
    and "aead_ok A" and "length nonce = 12" and "box_ok B" and "io_ok io"
  shows "box_ok B' \<and> b64_strict_form token \<and> token \<noteq> [] \<and> kb_cached B' \<noteq> None
    \<and> secret_decrypt A io' token B' = (Inr p, B')"
proof -
  obtain r B1 where l: "load_key io allow B = (r, B1)" by fastforce
  with assms(1) obtain key where r: "r = Inr (Some key)"
    and t: "token = b64encode (secret_blob A key nonce p)" "B' = B1"
    by (auto simp: secret_encrypt_def split: sum.splits option.splits)
  from load_key_facts [OF l assms(4,5)] r t
  have f: "box_ok B'" "kb_cached B' = Some key" by auto
  have "token \<noteq> []" using t by (simp add: secret_blob_def)
  moreover have "secret_decrypt A io' token B' = (Inr p, B')"
    using f(2) t assms(2,3) by (simp add: secret_decrypt_def split_secret_blob gcm_open_seal)
  ultimately show ?thesis using f t b64encode_strict_form by simp
qed

text \<open>
  A stored link password comes back. Whatever key is used, found or created, the token that
  was written is strict base64, opens to the password in the same run, and opens to it in any
  later run that starts from the key file left behind, without that file changing.
\<close>

theorem queue_secret_roundtrip:
  assumes "secret_encrypt A io nonce p allow B = (Inr token, B')"
    and "aead_ok A" and "length nonce = 12" and "box_ok B" and "io_ok io" and "ki_read io'"
  shows "b64_strict_form token \<and> secret_decrypt A io' token B' = (Inr p, B')
    \<and> fst (secret_decrypt A io' token \<lparr>kb_file = kb_file B', kb_cached = None\<rparr>) = Inr p
    \<and> kb_file (snd (secret_decrypt A io' token \<lparr>kb_file = kb_file B', kb_cached = None\<rparr>)) = kb_file B'"
proof -
  from secret_opens [OF assms(1-5)] have o: "box_ok B'" "b64_strict_form token"
    "secret_decrypt A io' token B' = (Inr p, B')" and c: "kb_cached B' \<noteq> None" by auto
  from c o(1) obtain key where k: "kb_cached B' = Some key" "kb_file B' = Some key"
    "length key = QUEUE_KEY_LEN" by (auto simp: box_ok_def split: option.splits)
  then have "load_key io' False \<lparr>kb_file = kb_file B', kb_cached = None\<rparr> = (Inr (Some key), B')"
    using assms(6) by (simp add: load_key_def)
  moreover have "load_key io' False B' = (Inr (Some key), B')" using k by simp
  ultimately have "secret_decrypt A io' token \<lparr>kb_file = kb_file B', kb_cached = None\<rparr>
      = secret_decrypt A io' token B'"
    by (simp add: secret_decrypt_def)
  with o show ?thesis by simp
qed

definition demo_key_io :: key_io where
  "demo_key_io = \<lparr>ki_read = True, ki_write = True, ki_fresh = replicate 32 7, ki_raced = None\<rparr>"

definition no_box :: key_box where
  "no_box = \<lparr>kb_file = None, kb_cached = None\<rparr>"

definition demo_token :: string where
  "demo_token = b64encode (secret_blob demo_aead (replicate 32 7) (replicate 12 1) ''pw'')"

lemma demo_token_made:
  "secret_encrypt demo_aead demo_key_io (replicate 12 1) ''pw'' True no_box
   = (Inr demo_token, \<lparr>kb_file = Some (replicate 32 7), kb_cached = Some (replicate 32 7)\<rparr>)"
  by (simp add: secret_encrypt_def load_key_def no_box_def demo_key_io_def demo_token_def)

lemma queue_secret_roundtrip_witness:
  "b64_strict_form demo_token
   \<and> secret_decrypt demo_aead demo_key_io demo_token
       \<lparr>kb_file = Some (replicate 32 7), kb_cached = Some (replicate 32 7)\<rparr>
     = (Inr ''pw'', \<lparr>kb_file = Some (replicate 32 7), kb_cached = Some (replicate 32 7)\<rparr>)"
  using queue_secret_roundtrip [OF demo_token_made demo_aead_ok, of demo_key_io]
  by (simp add: box_ok_def no_box_def io_ok_def demo_key_io_def QUEUE_KEY_LEN_def)

end
