(* ===== verification/QueueSchema.thy ===== *)
theory QueueSchema
  imports SecretBox Corruption
begin

text \<open>
  \<open>queue/models.py\<close> and \<open>queue/schema.py\<close>: the job record, its enumerations, the validation of
  a raw queue entry and of the whole list, and the conversion between an entry and a job.
  Timestamps are text; what \<open>datetime.fromisoformat\<close> makes of a text (the instant in
  microseconds and whether it carries a zone) and what \<open>isoformat\<close> prints are parameters.
\<close>

section \<open>Jobs\<close>

datatype job_status = PENDING | ACTIVE | DONE | FAILED | CANCELED | INTERRUPTED

datatype job_type = DOWNLOAD | UPLOAD

fun status_text :: "job_status \<Rightarrow> string" where
  "status_text PENDING = ''pending''"
| "status_text ACTIVE = ''active''"
| "status_text DONE = ''done''"
| "status_text FAILED = ''failed''"
| "status_text CANCELED = ''canceled''"
| "status_text INTERRUPTED = ''interrupted''"

fun type_text :: "job_type \<Rightarrow> string" where
  "type_text DOWNLOAD = ''download''"
| "type_text UPLOAD = ''upload''"

definition status_of :: "string \<Rightarrow> job_status option" where
  "status_of s = find (\<lambda>x. status_text x = s) [PENDING, ACTIVE, DONE, FAILED, CANCELED, INTERRUPTED]"

definition type_of :: "string \<Rightarrow> job_type option" where
  "type_of s = find (\<lambda>x. type_text x = s) [DOWNLOAD, UPLOAD]"

lemma status_of_text [simp]: "status_of (status_text x) = Some x"
  by (cases x) (simp_all add: status_of_def)

lemma type_of_text [simp]: "type_of (type_text x) = Some x"
  by (cases x) (simp_all add: type_of_def)

lemma status_text_inj [simp]: "status_text x = status_text y \<longleftrightarrow> x = y"
  by (metis option.inject status_of_text)

definition TERMINAL_STATUSES :: "job_status list" where
  "TERMINAL_STATUSES = [DONE, FAILED, CANCELED]"

definition LEASE_SECONDS :: int where
  "LEASE_SECONDS = 300"

text \<open>\<open>QueueItem\<close>, with the two attributes \<open>__post_init__\<close> adds.\<close>

record queue_item =
  q_id :: string
  q_type :: job_type
  q_source :: string
  q_destination :: string
  q_size :: int
  q_status :: job_status
  q_error :: "string option"
  q_account :: "string option"
  q_password :: "string option"
  q_created :: "string option"
  q_finished :: "string option"
  q_run :: "string option"
  q_beat :: "string option"
  q_epoch :: int
  q_extra :: "(string \<times> json) list"
  q_enc :: "string option"

section \<open>Timestamps\<close>

record iso_lib =
  iso_parse :: "string \<Rightarrow> (int \<times> bool) option"
  iso_print :: "int \<Rightarrow> string"

text \<open>What the program relies on: a UTC instant that is printed reads back as itself, aware.\<close>

definition iso_ok :: "iso_lib \<Rightarrow> bool" where
  "iso_ok L \<longleftrightarrow> (\<forall>t. iso_parse L (iso_print L t) = Some (t, True) \<and> iso_print L t \<noteq> []
      \<and> last (iso_print L t) \<notin> set ''Zz'')"

definition normalize_zulu :: "string \<Rightarrow> string" where
  "normalize_zulu v = (if ends_with ''Z'' v \<or> ends_with ''z'' v then butlast v @ ''+00:00'' else v)"

section \<open>Validation of one entry\<close>

abbreviation q_corrupt :: exc where
  "q_corrupt \<equiv> Exc QueueCorruptionError None"

definition qreq :: "bool \<Rightarrow> unit py" where
  "qreq c = require c q_corrupt"

definition validate_iso_timestamp :: "iso_lib \<Rightarrow> json \<Rightarrow> unit py" where
  "validate_iso_timestamp L v =
    (case v of
       JNull \<Rightarrow> Inr ()
     | JStr s \<Rightarrow>
         (if s = [] then Inr ()
          else case iso_parse L (normalize_zulu s) of
              None \<Rightarrow> Inl q_corrupt
            | Some (t, aware) \<Rightarrow> qreq aware)
     | _ \<Rightarrow> Inl q_corrupt)"

definition REQUIRED_ITEM_FIELDS :: "string list" where
  "REQUIRED_ITEM_FIELDS = [''id'', ''type'', ''source'', ''destination'']"

definition OPTIONAL_STR_ITEM_FIELDS :: "string list" where
  "OPTIONAL_STR_ITEM_FIELDS = [''error'', ''account'', ''password'', ''enc_password'',
     ''finished_iso'', ''run_id'', ''heartbeat_iso'']"

definition str_member :: "string \<Rightarrow> (string \<times> json) list \<Rightarrow> string" where
  "str_member k d = (case jget k d of Some (JStr s) \<Rightarrow> s | _ \<Rightarrow> [])"

definition is_count :: "json \<Rightarrow> bool" where
  "is_count v = (case v of JInt n \<Rightarrow> 0 \<le> n | _ \<Rightarrow> False)"

definition str_or_null :: "json \<Rightarrow> bool" where
  "str_or_null v = (case v of JNull \<Rightarrow> True | JStr _ \<Rightarrow> True | _ \<Rightarrow> False)"

definition required_ok :: "(string \<times> json) list \<Rightarrow> string \<Rightarrow> bool" where
  "required_ok d k = (case jget k d of Some (JStr _) \<Rightarrow> True | _ \<Rightarrow> False)"

definition status_member :: "(string \<times> json) list \<Rightarrow> job_status py" where
  "status_member d =
    (case jget_default ''status'' (JStr (status_text PENDING)) d of
       JStr s \<Rightarrow> (case status_of s of Some x \<Rightarrow> Inr x | None \<Rightarrow> Inl q_corrupt)
     | _ \<Rightarrow> Inl q_corrupt)"

definition enc_member_ok :: "json \<Rightarrow> unit py" where
  "enc_member_ok v =
    (case v of
       JNull \<Rightarrow> Inr ()
     | JStr s \<Rightarrow> (case b64decode_strict s of Inl e \<Rightarrow> Inl q_corrupt | Inr _ \<Rightarrow> Inr ())
     | _ \<Rightarrow> raise TypeError)"

definition validate_raw_item :: "iso_lib \<Rightarrow> json \<Rightarrow> (string \<times> json) list py" where
  "validate_raw_item L entry =
    (case entry of
       JObj members \<Rightarrow>
         (let d = obj_of members in
         bindR (qreq (list_all (required_ok d) REQUIRED_ITEM_FIELDS)) (\<lambda>_.
         bindR (qreq (strip (str_member ''id'' d) \<noteq> [])) (\<lambda>_.
         bindR (qreq (type_of (str_member ''type'' d) \<noteq> None)) (\<lambda>_.
         bindR (status_member d) (\<lambda>status.
         bindR (qreq (is_count (jget_default ''size'' (JInt 0) d))) (\<lambda>_.
         bindR (qreq (is_count (jget_default ''lease_epoch'' (JInt 0) d))) (\<lambda>_.
         bindR (qreq (list_all (\<lambda>k. str_or_null (jget_none k d)) OPTIONAL_STR_ITEM_FIELDS)) (\<lambda>_.
         bindR (qreq (strip (str_member ''source'' d) \<noteq> [])) (\<lambda>_.
         bindR (validate_iso_timestamp L (jget_none ''created_iso'' d)) (\<lambda>_.
         bindR (validate_iso_timestamp L (jget_none ''finished_iso'' d)) (\<lambda>_.
         bindR (validate_iso_timestamp L (jget_none ''heartbeat_iso'' d)) (\<lambda>_.
         bindR (qreq (status = ACTIVE
                 \<or> jget_none ''run_id'' d = JNull \<and> jget_none ''heartbeat_iso'' d = JNull)) (\<lambda>_.
         bindR (qreq (status \<in> set TERMINAL_STATUSES \<or> jget_none ''finished_iso'' d = JNull)) (\<lambda>_.
         bindR (enc_member_ok (jget_none ''enc_password'' d)) (\<lambda>_. Inr d)))))))))))))))
     | _ \<Rightarrow> Inl q_corrupt)"

fun unique_ids_from :: "string list \<Rightarrow> (string \<times> json) list list \<Rightarrow> unit py" where
  "unique_ids_from seen [] = Inr ()"
| "unique_ids_from seen (e # es) =
    (let item_id = str_member ''id'' e
     in if item_id \<in> set seen then Inl q_corrupt else unique_ids_from (item_id # seen) es)"

definition validate_unique_ids :: "(string \<times> json) list list \<Rightarrow> unit py" where
  "validate_unique_ids entries = unique_ids_from [] entries"

section \<open>Entries and jobs\<close>

text \<open>\<open>QueueItem(**known fields)\<close>: the members of a validated entry, with the dataclass defaults.\<close>

definition opt_member :: "string \<Rightarrow> (string \<times> json) list \<Rightarrow> string option" where
  "opt_member k d = (case jget k d of Some (JStr s) \<Rightarrow> Some s | _ \<Rightarrow> None)"

definition int_member :: "string \<Rightarrow> (string \<times> json) list \<Rightarrow> int" where
  "int_member k d = (case jget k d of Some (JInt n) \<Rightarrow> n | _ \<Rightarrow> 0)"

definition FIELD_NAMES :: "string list" where
  "FIELD_NAMES = [''id'', ''type'', ''source'', ''destination'', ''size'', ''status'', ''error'',
     ''account'', ''password'', ''created_iso'', ''finished_iso'', ''run_id'', ''heartbeat_iso'',
     ''lease_epoch'']"

definition created_member :: "(string \<times> json) list \<Rightarrow> string option" where
  "created_member d = (case jget ''created_iso'' d of
      None \<Rightarrow> Some [] | Some (JStr s) \<Rightarrow> Some s | Some _ \<Rightarrow> None)"

text \<open>The job of an entry before its password is unlocked.\<close>

definition locked_item :: "(string \<times> json) list \<Rightarrow> queue_item" where
  "locked_item d =
    \<lparr>q_id = str_member ''id'' d,
     q_type = (case type_of (str_member ''type'' d) of Some t \<Rightarrow> t | None \<Rightarrow> DOWNLOAD),
     q_source = str_member ''source'' d, q_destination = str_member ''destination'' d,
     q_size = int_member ''size'' d,
     q_status = (case status_member d of Inr s \<Rightarrow> s | Inl _ \<Rightarrow> PENDING),
     q_error = opt_member ''error'' d, q_account = opt_member ''account'' d,
     q_password = None, q_created = created_member d, q_finished = opt_member ''finished_iso'' d,
     q_run = opt_member ''run_id'' d, q_beat = opt_member ''heartbeat_iso'' d,
     q_epoch = int_member ''lease_epoch'' d,
     q_extra = filter (\<lambda>p. fst p \<notin> set (''enc_password'' # FIELD_NAMES)) d,
     q_enc = opt_member ''enc_password'' d\<rparr>"

definition deserialize ::
  "aead \<Rightarrow> key_io \<Rightarrow> (string \<times> json) list \<Rightarrow> key_box \<Rightarrow> (queue_item \<times> bool) \<times> key_box" where
  "deserialize A io d B =
    (let item = locked_item d; enc = opt_member ''enc_password'' d;
         legacy_plaintext = opt_member ''password'' d
     in if enc \<noteq> None \<and> enc \<noteq> Some []
        then (case secret_decrypt A io (the enc) B of
            (Inr p, B') \<Rightarrow> ((item\<lparr>q_password := Some p, q_enc := None\<rparr>, False), B')
          | (Inl e, B') \<Rightarrow> ((item, False), B'))
        else if legacy_plaintext \<noteq> None \<and> legacy_plaintext \<noteq> Some []
        then ((item\<lparr>q_password := legacy_plaintext\<rparr>, True), B)
        else ((item, False), B))"

definition opt_json :: "string option \<Rightarrow> json" where
  "opt_json v = (case v of None \<Rightarrow> JNull | Some s \<Rightarrow> JStr s)"

text \<open>\<open>data.setdefault\<close> for each unknown field.\<close>

fun set_defaults :: "(string \<times> json) list \<Rightarrow> (string \<times> json) list \<Rightarrow> (string \<times> json) list" where
  "set_defaults d [] = d"
| "set_defaults d ((k, v) # r) = set_defaults (if jget k d = None then d @ [(k, v)] else d) r"

definition item_fields :: "queue_item \<Rightarrow> json \<Rightarrow> (string \<times> json) list" where
  "item_fields i enc =
    [(''id'', JStr (q_id i)), (''type'', JStr (type_text (q_type i))),
     (''source'', JStr (q_source i)), (''destination'', JStr (q_destination i)),
     (''size'', JInt (q_size i)), (''status'', JStr (status_text (q_status i))),
     (''error'', opt_json (q_error i)), (''account'', opt_json (q_account i)),
     (''created_iso'', opt_json (q_created i)), (''finished_iso'', opt_json (q_finished i)),
     (''run_id'', opt_json (q_run i)), (''heartbeat_iso'', opt_json (q_beat i)),
     (''lease_epoch'', JInt (q_epoch i)), (''enc_password'', enc)]"

definition serialize ::
  "aead \<Rightarrow> key_io \<Rightarrow> bytes \<Rightarrow> bool \<Rightarrow> queue_item \<Rightarrow> key_box \<Rightarrow> json py \<times> key_box" where
  "serialize A io nonce had_encrypted i B =
    (if q_password i \<noteq> None \<and> q_password i \<noteq> Some []
     then (case secret_encrypt A io nonce (the (q_password i)) (\<not> had_encrypted) B of
         (Inl e, B') \<Rightarrow> (Inl e, B')
       | (Inr token, B') \<Rightarrow> (Inr (JObj (set_defaults (item_fields i (JStr token)) (q_extra i))), B'))
     else (Inr (JObj (set_defaults (item_fields i (opt_json (q_enc i))) (q_extra i))), B))"

section \<open>What survives validation\<close>

definition iso_field_ok :: "iso_lib \<Rightarrow> string option \<Rightarrow> bool" where
  "iso_field_ok L v \<longleftrightarrow> validate_iso_timestamp L (opt_json v) = Inr ()"

definition enc_ok :: "string option \<Rightarrow> bool" where
  "enc_ok v \<longleftrightarrow> enc_member_ok (opt_json v) = Inr ()"

definition extra_ok :: "(string \<times> json) list \<Rightarrow> bool" where
  "extra_ok ex \<longleftrightarrow> distinct (map fst ex)
     \<and> list_all (\<lambda>k. k \<notin> set (''enc_password'' # FIELD_NAMES)) (map fst ex)"

text \<open>A job the file format can hold.\<close>

definition item_valid :: "iso_lib \<Rightarrow> queue_item \<Rightarrow> bool" where
  "item_valid L i \<longleftrightarrow>
     strip (q_id i) \<noteq> [] \<and> strip (q_source i) \<noteq> [] \<and> 0 \<le> q_size i \<and> 0 \<le> q_epoch i
     \<and> iso_field_ok L (q_created i) \<and> iso_field_ok L (q_finished i) \<and> iso_field_ok L (q_beat i)
     \<and> (q_status i = ACTIVE \<or> q_run i = None \<and> q_beat i = None)
     \<and> (q_status i \<in> set TERMINAL_STATUSES \<or> q_finished i = None)
     \<and> enc_ok (q_enc i) \<and> extra_ok (q_extra i)"

lemma iso_field_ok_None [simp]: "iso_field_ok L None"
  by (simp add: iso_field_ok_def validate_iso_timestamp_def opt_json_def)

lemma normalize_zulu_id: "s \<noteq> [] \<Longrightarrow> last s \<notin> set ''Zz'' \<Longrightarrow> normalize_zulu s = s"
  by (cases s rule: rev_cases) (auto simp: normalize_zulu_def ends_with_def starts_with_def)

lemma iso_field_ok_print [simp]: "iso_ok L \<Longrightarrow> iso_field_ok L (Some (iso_print L t))"
  by (simp add: iso_field_ok_def validate_iso_timestamp_def opt_json_def iso_ok_def qreq_def
      normalize_zulu_id)

lemma enc_ok_None [simp]: "enc_ok None"
  by (simp add: enc_ok_def enc_member_ok_def opt_json_def)

lemma enc_ok_token: "enc_ok (Some (b64encode b))"
  by (simp add: enc_ok_def enc_member_ok_def opt_json_def)

lemma distinct_obj_of: "distinct (map fst (obj_of ms))"
proof -
  have "distinct (map fst d) \<Longrightarrow> distinct (map fst (foldl (\<lambda>d (k, v). dict_set k v d) d ms))" for d
    by (induction ms arbitrary: d) (auto simp: distinct_dict_set)
  then show ?thesis by (simp add: obj_of_def)
qed

lemma obj_of_id: "distinct (map fst d) \<Longrightarrow> obj_of d = d"
proof -
  have "distinct (map fst (a @ d)) \<Longrightarrow> foldl (\<lambda>d (k, v). dict_set k v d) a d = a @ d" for a
  proof (induction d arbitrary: a)
    case (Cons p d)
    obtain k v where p: "p = (k, v)" by fastforce
    have "dict_set k v a = a @ [(k, v)]"
      using Cons.prems p by (intro dict_set_fresh) auto
    then show ?case using Cons.IH [of "a @ [(k, v)]"] Cons.prems p by simp
  qed simp
  from this [of "[]"] show "distinct (map fst d) \<Longrightarrow> obj_of d = d" by (simp add: obj_of_def)
qed

lemma set_defaults_fresh:
  "distinct (map fst ex) \<Longrightarrow> fst ` set d \<inter> fst ` set ex = {} \<Longrightarrow> set_defaults d ex = d @ ex"
proof (induction ex arbitrary: d)
  case (Cons p ex)
  obtain k v where p: "p = (k, v)" by fastforce
  have "jget k d = None" using Cons.prems(2) p by (auto simp: jget_def map_of_eq_None_iff)
  moreover have "set_defaults (d @ [(k, v)]) ex = (d @ [(k, v)]) @ ex"
    using Cons.prems p by (intro Cons.IH) auto
  ultimately show ?case using p by simp
qed simp

definition entry_of :: "queue_item \<Rightarrow> string option \<Rightarrow> (string \<times> json) list" where
  "entry_of i enc = item_fields i (opt_json enc) @ q_extra i"

lemma item_fields_keys:
  "map fst (item_fields i e) = [''id'', ''type'', ''source'', ''destination'', ''size'', ''status'',
     ''error'', ''account'', ''created_iso'', ''finished_iso'', ''run_id'', ''heartbeat_iso'',
     ''lease_epoch'', ''enc_password'']"
  by (simp add: item_fields_def)

lemma extra_disjoint:
  assumes "extra_ok ex"
  shows "fst ` set (item_fields i e) \<inter> fst ` set ex = {}" and "jget ''password'' ex = None"
    and "k \<in> set (map fst (item_fields i e)) \<Longrightarrow> jget k (item_fields i e @ ex) = jget k (item_fields i e)"
proof -
  have n: "p \<in> set ex \<Longrightarrow> fst p \<notin> set (''enc_password'' # FIELD_NAMES)" for p
    using assms by (auto simp: extra_ok_def list_all_iff)
  have sub: "set (map fst (item_fields i e)) \<subseteq> set (''enc_password'' # FIELD_NAMES)"
    unfolding item_fields_keys FIELD_NAMES_def by simp
  then show "fst ` set (item_fields i e) \<inter> fst ` set ex = {}" using n by fastforce
  show "jget ''password'' ex = None"
    using n by (fastforce simp: jget_def map_of_eq_None_iff FIELD_NAMES_def)
  show "k \<in> set (map fst (item_fields i e)) \<Longrightarrow> jget k (item_fields i e @ ex) = jget k (item_fields i e)"
  proof -
    assume "k \<in> set (map fst (item_fields i e))"
    then have "k \<notin> fst ` set ex" using sub n by fastforce
    then have "map_of ex k = None" by (simp add: map_of_eq_None_iff)
    then show ?thesis by (simp add: jget_def map_add_def split: option.splits)
  qed
qed

lemma entry_of_distinct: "extra_ok (q_extra i) \<Longrightarrow> distinct (map fst (entry_of i enc))"
  using extra_disjoint(1) [of "q_extra i" i "opt_json enc"]
  by (simp add: entry_of_def extra_ok_def item_fields_keys) (auto simp: item_fields_def)

lemma entry_members:
  assumes "extra_ok (q_extra i)"
  shows "jget ''id'' (entry_of i enc) = Some (JStr (q_id i))"
    "jget ''type'' (entry_of i enc) = Some (JStr (type_text (q_type i)))"
    "jget ''source'' (entry_of i enc) = Some (JStr (q_source i))"
    "jget ''destination'' (entry_of i enc) = Some (JStr (q_destination i))"
    "jget ''size'' (entry_of i enc) = Some (JInt (q_size i))"
    "jget ''status'' (entry_of i enc) = Some (JStr (status_text (q_status i)))"
    "jget ''error'' (entry_of i enc) = Some (opt_json (q_error i))"
    "jget ''account'' (entry_of i enc) = Some (opt_json (q_account i))"
    "jget ''created_iso'' (entry_of i enc) = Some (opt_json (q_created i))"
    "jget ''finished_iso'' (entry_of i enc) = Some (opt_json (q_finished i))"
    "jget ''run_id'' (entry_of i enc) = Some (opt_json (q_run i))"
    "jget ''heartbeat_iso'' (entry_of i enc) = Some (opt_json (q_beat i))"
    "jget ''lease_epoch'' (entry_of i enc) = Some (JInt (q_epoch i))"
    "jget ''enc_password'' (entry_of i enc) = Some (opt_json enc)"
    "jget ''password'' (entry_of i enc) = None"
  unfolding entry_of_def
  using extra_disjoint(2) [OF assms]
  by (simp_all add: extra_disjoint(3) [OF assms] item_fields_keys,
      simp_all add: jget_def item_fields_def map_add_def)

lemma entry_str_members:
  assumes "extra_ok (q_extra i)"
  shows "str_member ''id'' (entry_of i enc) = q_id i" "str_member ''source'' (entry_of i enc) = q_source i"
    "str_member ''type'' (entry_of i enc) = type_text (q_type i)"
    "str_member ''destination'' (entry_of i enc) = q_destination i"
    "status_member (entry_of i enc) = Inr (q_status i)"
  by (simp_all add: str_member_def status_member_def jget_default_def entry_members [OF assms])

lemma opt_json_facts [simp]:
  "str_or_null (opt_json v)" "opt_json v = JNull \<longleftrightarrow> v = None"
  "opt_json None = JNull" "opt_json (Some t) = JStr t"
  by (auto simp: str_or_null_def opt_json_def split: option.splits)

lemma qreq_simps [simp]: "qreq True = Inr ()" "qreq c = Inr u \<longleftrightarrow> c"
  by (simp_all add: qreq_def)

definition shape_ok :: "queue_item \<Rightarrow> bool" where
  "shape_ok i \<longleftrightarrow> enc_ok (q_enc i) \<and> extra_ok (q_extra i)"

lemma item_valid_shape: "item_valid L i \<Longrightarrow> shape_ok i"
  by (simp add: item_valid_def shape_ok_def)

text \<open>What is written for a job passes validation exactly when the job is valid.\<close>

lemma entry_validates:
  assumes "shape_ok i" and "enc_ok enc"
  shows "validate_raw_item L (JObj (entry_of i enc)) =
    (if item_valid L i then Inr (entry_of i enc) else Inl q_corrupt)"
proof -
  have x: "extra_ok (q_extra i)" "enc_ok (q_enc i)" using assms(1) by (simp_all add: shape_ok_def)
  note mem = entry_members [OF x(1), of enc] and str = entry_str_members [OF x(1), of enc]
  have r: "list_all (required_ok (entry_of i enc)) REQUIRED_ITEM_FIELDS"
    by (simp add: REQUIRED_ITEM_FIELDS_def required_ok_def mem)
  have o: "list_all (\<lambda>k. str_or_null (jget_none k (entry_of i enc))) OPTIONAL_STR_ITEM_FIELDS"
    by (simp add: OPTIONAL_STR_ITEM_FIELDS_def jget_default_def mem, simp add: str_or_null_def)
  have q: "qreq c = (if c then Inr () else Inl q_corrupt)" for c by (simp add: qreq_def)
  have i: "validate_iso_timestamp L (opt_json v) = (if iso_field_ok L v then Inr () else Inl q_corrupt)" for v
    by (auto simp: iso_field_ok_def validate_iso_timestamp_def q split: json.splits option.splits)
  have e: "enc_member_ok (opt_json enc) = Inr ()" using assms(2) by (simp add: enc_ok_def)
  show ?thesis
    unfolding validate_raw_item_def json.case Let_def obj_of_id [OF entry_of_distinct [OF x(1)]]
    using r o by (simp add: str mem jget_default_def i e q is_count_def item_valid_def x)
qed

lemma entry_reads_back:
  assumes "shape_ok i"
  shows "locked_item (entry_of i enc) = i\<lparr>q_password := None, q_enc := enc\<rparr>"
proof -
  have x: "extra_ok (q_extra i)" using assms(1) by (simp add: shape_ok_def)
  note mem = entry_members [OF x, of enc] and str = entry_str_members [OF x, of enc]
  have f: "filter (\<lambda>p. fst p \<notin> set (''enc_password'' # FIELD_NAMES)) (entry_of i enc) = q_extra i"
  proof -
    have "filter (\<lambda>p. fst p \<notin> set (''enc_password'' # FIELD_NAMES)) (q_extra i) = q_extra i"
      using x by (auto simp: extra_ok_def list_all_iff intro!: filter_True)
    moreover have "filter (\<lambda>p. fst p \<notin> set (''enc_password'' # FIELD_NAMES)) (item_fields i e) = []" for e
      by (simp add: item_fields_def FIELD_NAMES_def)
    ultimately show ?thesis by (simp only: entry_of_def filter_append append.simps)
  qed
  have t: "created_member (entry_of i enc) = q_created i"
    by (cases "q_created i") (simp_all add: created_member_def mem)
  have o: "opt_member k (entry_of i enc) = v" if "jget k (entry_of i enc) = Some (opt_json v)" for k v
    using that by (cases v) (simp_all add: opt_member_def)
  show ?thesis
    unfolding locked_item_def str type_of_text f t
    by (simp add: int_member_def mem o [OF mem(7)] o [OF mem(8)] o [OF mem(10)] o [OF mem(11)]
        o [OF mem(12)] o [OF mem(14)])
qed

lemma validated_distinct: "validate_raw_item L j = Inr d \<Longrightarrow> distinct (map fst d)"
  by (auto simp: validate_raw_item_def bindR_Inr_iff Let_def distinct_obj_of split: json.splits)

lemma count_member: "is_count (jget_default k (JInt 0) d) \<Longrightarrow> 0 \<le> int_member k d"
  by (auto simp: is_count_def jget_default_def int_member_def split: option.splits json.splits)

lemma opt_member_json:
  "str_or_null (jget_none k d) \<Longrightarrow> opt_json (opt_member k d) = jget_none k d"
  by (auto simp: str_or_null_def jget_default_def opt_member_def opt_json_def split: option.splits json.splits)

text \<open>What passes validation is a valid job.\<close>

lemma validated_item_valid:
  assumes "validate_raw_item L j = Inr d"
  shows "item_valid L (locked_item d)"
proof -
  from assms obtain ms where j: "j = JObj ms" and d: "d = obj_of ms"
    by (auto simp: validate_raw_item_def bindR_Inr_iff Let_def split: json.splits)
  from assms [unfolded j validate_raw_item_def json.case Let_def, folded d]
  obtain status where c: "list_all (required_ok d) REQUIRED_ITEM_FIELDS" "strip (str_member ''id'' d) \<noteq> []"
    "status_member d = Inr status" "is_count (jget_default ''size'' (JInt 0) d)"
    "is_count (jget_default ''lease_epoch'' (JInt 0) d)"
    "list_all (\<lambda>k. str_or_null (jget_none k d)) OPTIONAL_STR_ITEM_FIELDS"
    "strip (str_member ''source'' d) \<noteq> []"
    "validate_iso_timestamp L (jget_none ''created_iso'' d) = Inr ()"
    "validate_iso_timestamp L (jget_none ''finished_iso'' d) = Inr ()"
    "validate_iso_timestamp L (jget_none ''heartbeat_iso'' d) = Inr ()"
    "status = ACTIVE \<or> jget_none ''run_id'' d = JNull \<and> jget_none ''heartbeat_iso'' d = JNull"
    "status \<in> set TERMINAL_STATUSES \<or> jget_none ''finished_iso'' d = JNull"
    "enc_member_ok (jget_none ''enc_password'' d) = Inr ()"
    by (auto simp: bindR_Inr_iff)
  have o: "opt_json (opt_member k d) = jget_none k d"
    if "k \<in> set [''finished_iso'', ''run_id'', ''heartbeat_iso'', ''enc_password'']" for k
    by (rule opt_member_json) (use c(6) that in \<open>auto simp: OPTIONAL_STR_ITEM_FIELDS_def\<close>)
  have n: "opt_member k d = None \<longleftrightarrow> jget_none k d = JNull"
    if "k \<in> set [''finished_iso'', ''run_id'', ''heartbeat_iso'', ''enc_password'']" for k
    using o [OF that] by (metis opt_json_facts(2))
  have "iso_field_ok L (created_member d)"
    using c(8) by (auto simp: iso_field_ok_def created_member_def jget_default_def
        validate_iso_timestamp_def opt_json_def split: option.splits json.splits)
  moreover have "extra_ok (filter (\<lambda>p. fst p \<notin> set (''enc_password'' # FIELD_NAMES)) d)"
    using validated_distinct [OF assms] distinct_map_filter
    by (auto simp: extra_ok_def list_all_iff)
  ultimately show ?thesis
    using c by (simp add: item_valid_def locked_item_def iso_field_ok_def enc_ok_def o n count_member)
qed

end
