(* ===== verification/Queue.thy ===== *)
theory Queue
  imports QueueSchema StateFile
begin

text \<open>
  \<open>queue/manager.py\<close> and \<open>queue/storage.py\<close>: the persistent transfer queue. The state of an
  operation is the manager's attributes and the disk (the queue file, its siblings and the key
  file). Every operation takes the file lock, reloads, changes the jobs and saves, so one
  operation is one step and processes interleave as sequences of operations; the clock, the
  random values and the answers of the operating system come with the operation. Log messages,
  modes and the best-effort directory flush leave no trace.
\<close>

record manager =
  m_items :: "queue_item list"
  m_corrupt :: bool
  m_backup :: "string option"
  m_had_encrypted :: bool
  m_needs_migration :: bool
  m_cached_key :: "bytes option"

record queue_disk =
  qd_file :: "content option"
  qd_siblings :: "(string \<times> content) list"
  qd_key :: "bytes option"
  qd_temps :: "content list"

record queue_env =
  qe_lock :: bool
  qe_read :: bool
  qe_mkdir :: bool
  qe_temp :: temp_outcome
  qe_unlink :: bool
  qe_replace :: "nat \<Rightarrow> replace_outcome"
  qe_backup :: "content backup_io"
  qe_name :: string
  qe_now :: int
  qe_uuid :: string
  qe_iso :: iso_lib
  qe_aead :: aead
  qe_key :: key_io
  qe_nonce :: "nat \<Rightarrow> bytes"

type_synonym queue_state = "manager \<times> queue_disk"
type_synonym 'a queue_op = "queue_state \<Rightarrow> 'a py \<times> queue_state"

abbreviation stamp_now :: "queue_env \<Rightarrow> string" where
  "stamp_now E \<equiv> iso_print (qe_iso E) (qe_now E)"

section \<open>Reading and writing the file\<close>

definition box_of :: "queue_state \<Rightarrow> key_box" where
  "box_of s = \<lparr>kb_file = qd_key (snd s), kb_cached = m_cached_key (fst s)\<rparr>"

definition put_box :: "key_box \<Rightarrow> queue_state \<Rightarrow> queue_state" where
  "put_box B s = ((fst s)\<lparr>m_cached_key := kb_cached B\<rparr>, (snd s)\<lparr>qd_key := kb_file B\<rparr>)"

definition atomic_write_text :: "queue_env \<Rightarrow> content \<Rightarrow> queue_disk \<Rightarrow> unit py \<times> queue_disk" where
  "atomic_write_text E payload d =
    (case qe_temp E of
       TempRefused \<Rightarrow> (raise OSError, d)
     | TempPartial c \<Rightarrow> (raise OSError, d\<lparr>qd_temps := qd_temps d @ [c]\<rparr>)
     | TempWritten \<Rightarrow>
        (case try_replace (qe_replace E) [0..<5] of
           Inr _ \<Rightarrow> (Inr (), d\<lparr>qd_file := Some payload\<rparr>)
         | Inl e \<Rightarrow> (Inl e, if qe_unlink E then d else d\<lparr>qd_temps := qd_temps d @ [payload]\<rparr>)))"

fun serialize_all ::
  "queue_env \<Rightarrow> bool \<Rightarrow> nat \<Rightarrow> queue_item list \<Rightarrow> key_box \<Rightarrow> json list py \<times> key_box" where
  "serialize_all E had n [] B = (Inr [], B)"
| "serialize_all E had n (i # rest) B =
    (case serialize (qe_aead E) (qe_key E) (qe_nonce E n) had i B of
       (Inl e, B1) \<Rightarrow> (Inl e, B1)
     | (Inr j, B1) \<Rightarrow>
        (case serialize_all E had (Suc n) rest B1 of
           (Inl e, B2) \<Rightarrow> (Inl e, B2)
         | (Inr js, B2) \<Rightarrow> (Inr (j # js), B2)))"

text \<open>The body of \<open>save\<close>, run while the lock is held.\<close>

definition save_locked :: "queue_env \<Rightarrow> unit queue_op" where
  "save_locked E s =
    (if m_corrupt (fst s) then (raise QueueCorruptionError, s)
     else if \<not> qe_mkdir E then (raise OSError, s)
     else case serialize_all E (m_had_encrypted (fst s)) 0 (m_items (fst s)) (box_of s) of
         (Inl e, B) \<Rightarrow> (Inl e, put_box B s)
       | (Inr js, B) \<Rightarrow>
           (let s1 = put_box B s
            in case atomic_write_text E (Doc (JArr js)) (snd s1) of (r, d) \<Rightarrow> (r, (fst s1, d))))"

definition locked :: "queue_env \<Rightarrow> 'a queue_op \<Rightarrow> 'a queue_op" where
  "locked E f s = (if \<not> qe_lock E then (raise QueueLockError, s) else f s)"

definition save :: "queue_env \<Rightarrow> unit queue_op" where
  "save E = locked E (save_locked E)"

definition mark_corrupt :: "queue_env \<Rightarrow> content option \<Rightarrow> queue_state \<Rightarrow> queue_state" where
  "mark_corrupt E data s =
    (let m = (fst s)\<lparr>m_corrupt := True, m_had_encrypted := True, m_items := []\<rparr>
     in case data of
          None \<Rightarrow> (m\<lparr>m_backup := None\<rparr>, snd s)
        | Some c \<Rightarrow>
           (case preserve_corrupt_file (qe_backup E) (qe_name E) c (qd_siblings (snd s)) of
              (b, sibs) \<Rightarrow> (m\<lparr>m_backup := b\<rparr>, (snd s)\<lparr>qd_siblings := sibs\<rparr>)))"

definition validate_queue :: "iso_lib \<Rightarrow> json \<Rightarrow> (string \<times> json) list list py" where
  "validate_queue L j =
    (case j of
       JArr data \<Rightarrow>
         bindR (mapR (validate_raw_item L) data) (\<lambda>validated.
         bindR (validate_unique_ids validated) (\<lambda>_. Inr validated))
     | _ \<Rightarrow> Inl q_corrupt)"

fun deserialize_all ::
  "queue_env \<Rightarrow> (string \<times> json) list list \<Rightarrow> key_box \<Rightarrow> (queue_item list \<times> bool) \<times> key_box" where
  "deserialize_all E [] B = (([], False), B)"
| "deserialize_all E (e # es) B =
    (case deserialize (qe_aead E) (qe_key E) e B of
       ((i, m), B1) \<Rightarrow>
         (case deserialize_all E es B1 of ((rest, ms), B2) \<Rightarrow> ((i # rest, m \<or> ms), B2)))"

definition has_secret :: "(string \<times> json) list \<Rightarrow> bool" where
  "has_secret d \<longleftrightarrow> opt_member ''enc_password'' d \<notin> set [None, Some []]"

definition load_validated :: "queue_env \<Rightarrow> (string \<times> json) list list \<Rightarrow> unit queue_op" where
  "load_validated E validated s =
    (case deserialize_all E validated (box_of s) of
       ((items, migrate), B) \<Rightarrow>
         (let s1 = put_box B s;
              m = (fst s1)\<lparr>m_had_encrypted := list_ex has_secret validated, m_items := items,
                           m_needs_migration := migrate\<rparr>;
              s2 = (m, snd s1)
          in if \<not> migrate then (Inr (), s2)
             else case save_locked E s2 of
                 (Inl e, s3) \<Rightarrow> (if isinstance e QueueKeyError then Inr () else Inl e, s3)
               | (Inr _, s3) \<Rightarrow> (Inr (), s3)))"

definition load :: "queue_env \<Rightarrow> unit queue_op" where
  "load E s =
    (let m = (fst s)\<lparr>m_needs_migration := False, m_corrupt := False, m_backup := None,
                     m_had_encrypted := False\<rparr>;
         s0 = (m, snd s)
     in case qd_file (snd s) of
          None \<Rightarrow> (Inr (), (m\<lparr>m_items := []\<rparr>, snd s))
        | Some c \<Rightarrow>
            (if \<not> qe_read E then (Inr (), mark_corrupt E None s0)
             else case c of
                 Raw b \<Rightarrow> (Inr (), mark_corrupt E (Some c) s0)
               | Doc j \<Rightarrow>
                   (case validate_queue (qe_iso E) j of
                      Inl e \<Rightarrow> if isinstance e QueueCorruptionError
                               then (Inr (), mark_corrupt E (Some c) s0) else (Inl e, s0)
                    | Inr validated \<Rightarrow> load_validated E validated s0)))"

text \<open>\<open>QueueManager(path)\<close>: a fresh manager loads once.\<close>

definition fresh_manager :: manager where
  "fresh_manager = \<lparr>m_items = [], m_corrupt = False, m_backup = None, m_had_encrypted = False,
     m_needs_migration = False, m_cached_key = None\<rparr>"

definition open_queue :: "queue_env \<Rightarrow> queue_disk \<Rightarrow> unit py \<times> queue_state" where
  "open_queue E d = locked E (load E) (fresh_manager, d)"

section \<open>The read-modify-write frame\<close>

text \<open>
  Every mutation has one shape: lock, reload, compute on the fresh list, save. A body returns
  the operation's result and the list to save, or no list when the operation saves nothing.
\<close>

type_synonym 'a queue_body = "queue_item list \<Rightarrow> ('a \<times> queue_item list option) py"

definition update_queue :: "queue_env \<Rightarrow> 'a queue_body \<Rightarrow> 'a queue_op" where
  "update_queue E body = locked E (\<lambda>s.
    (case load E s of
       (Inl e, s1) \<Rightarrow> (Inl e, s1)
     | (Inr _, s1) \<Rightarrow>
        (case body (m_items (fst s1)) of
           Inl e \<Rightarrow> (Inl e, s1)
         | Inr (r, None) \<Rightarrow> (Inr r, s1)
         | Inr (r, Some items) \<Rightarrow>
            (case save_locked E ((fst s1)\<lparr>m_items := items\<rparr>, snd s1) of
               (Inl e, s2) \<Rightarrow> (Inl e, s2)
             | (Inr _, s2) \<Rightarrow> (Inr r, s2)))))"

fun update_match :: "('a \<Rightarrow> bool) \<Rightarrow> ('a \<Rightarrow> 'a) \<Rightarrow> 'a list \<Rightarrow> 'a list" where
  "update_match p f [] = []"
| "update_match p f (x # xs) = (if p x then f x # xs else x # update_match p f xs)"

definition has_id :: "string \<Rightarrow> queue_item \<Rightarrow> bool" where
  "has_id j i \<longleftrightarrow> q_id i = j"

section \<open>Operations\<close>

definition completed_item :: "queue_env \<Rightarrow> queue_item \<Rightarrow> queue_item" where
  "completed_item E i =
    (let i1 = (if q_id i = [] then i\<lparr>q_id := qe_uuid E\<rparr> else i)
     in if q_created i1 = None \<or> q_created i1 = Some [] then i1\<lparr>q_created := Some (stamp_now E)\<rparr> else i1)"

definition add_body :: "queue_env \<Rightarrow> queue_item \<Rightarrow> string queue_body" where
  "add_body E i items =
     (let i1 = completed_item E i in Inr (q_id i1, Some (items @ [i1])))"

definition remove_body :: "string \<Rightarrow> bool queue_body" where
  "remove_body j items =
    (let kept = filter (\<lambda>i. \<not> has_id j i) items
     in if length kept \<noteq> length items then Inr (True, Some kept) else Inr (False, None))"

definition owns :: "queue_item \<Rightarrow> string \<Rightarrow> int option \<Rightarrow> bool" where
  "owns i run epoch \<longleftrightarrow> q_run i = Some run \<and> (epoch = None \<or> epoch = Some (q_epoch i))"

definition check_owner :: "queue_item \<Rightarrow> string option \<Rightarrow> int option \<Rightarrow> unit py" where
  "check_owner i run epoch =
    (case run of None \<Rightarrow> Inr ()
     | Some r \<Rightarrow> if owns i r epoch then Inr () else raise QueueOwnershipError)"

text \<open>\<open>now - beat\<close> in microseconds; an unreadable heartbeat has none.\<close>

definition beat_age :: "queue_env \<Rightarrow> string \<Rightarrow> int option py" where
  "beat_age E s =
    (case iso_parse (qe_iso E) s of
       None \<Rightarrow> Inr None
     | Some (t, aware) \<Rightarrow> if aware then Inr (Some (qe_now E - t)) else raise TypeError)"

definition is_lease_live :: "queue_env \<Rightarrow> int \<Rightarrow> queue_item \<Rightarrow> bool py" where
  "is_lease_live E secs i =
    (if q_status i \<noteq> ACTIVE then Inr False
     else case q_beat i of
         None \<Rightarrow> Inr False
       | Some s \<Rightarrow>
          (if s = [] then Inr False
           else bindR (beat_age E s) (\<lambda>age. Inr (case age of None \<Rightarrow> False | Some a \<Rightarrow> a \<le> secs * 1000000))))"

definition set_status :: "queue_env \<Rightarrow> job_status \<Rightarrow> string option \<Rightarrow> queue_item \<Rightarrow> queue_item" where
  "set_status E status error i =
    (let i1 = i\<lparr>q_status := status\<rparr>;
         i2 = (if error \<noteq> None \<and> error \<noteq> Some [] then i1\<lparr>q_error := error\<rparr> else i1);
         i3 = (if status \<in> set [DONE, FAILED, CANCELED] then i2\<lparr>q_finished := Some (stamp_now E)\<rparr> else i2)
     in if status \<in> set [DONE, FAILED, CANCELED, INTERRUPTED, PENDING]
        then i3\<lparr>q_run := None, q_beat := None\<rparr> else i3)"

definition update_status_body ::
  "queue_env \<Rightarrow> string \<Rightarrow> job_status \<Rightarrow> string option \<Rightarrow> string option \<Rightarrow> int option \<Rightarrow> unit queue_body" where
  "update_status_body E j status error run epoch items =
    (case find (has_id j) items of
       None \<Rightarrow> Inr ((), Some items)
     | Some i \<Rightarrow> bindR (check_owner i run epoch) (\<lambda>_.
         Inr ((), Some (update_match (has_id j) (set_status E status error) items))))"

text \<open>The lease a claim or a forced activation writes.\<close>

definition leased :: "queue_env \<Rightarrow> string \<Rightarrow> queue_item \<Rightarrow> queue_item" where
  "leased E run i =
     i\<lparr>q_status := ACTIVE, q_run := Some run, q_beat := Some (stamp_now E), q_epoch := q_epoch i + 1\<rparr>"

definition mark_active_body :: "queue_env \<Rightarrow> string \<Rightarrow> string \<Rightarrow> int \<Rightarrow> int option queue_body" where
  "mark_active_body E j run secs items =
    (case find (has_id j) items of
       None \<Rightarrow> Inr (None, Some items)
     | Some i \<Rightarrow>
         bindR (if q_run i \<noteq> Some run then is_lease_live E secs i else Inr False) (\<lambda>live.
           if live then raise QueueOwnershipError
           else Inr (Some (q_epoch i + 1), Some (update_match (has_id j) (leased E run) items))))"

definition touch_body :: "queue_env \<Rightarrow> string \<Rightarrow> string \<Rightarrow> int option \<Rightarrow> bool queue_body" where
  "touch_body E j run epoch items =
    (case find (has_id j) items of
       None \<Rightarrow> Inr (False, None)
     | Some i \<Rightarrow>
        if \<not> owns i run epoch then Inr (False, None)
        else if q_status i \<noteq> ACTIVE then Inr (False, None)
        else Inr (True, Some (update_match (has_id j) (\<lambda>i. i\<lparr>q_beat := Some (stamp_now E)\<rparr>) items)))"

definition lease_stale :: "queue_env \<Rightarrow> int \<Rightarrow> queue_item \<Rightarrow> bool py" where
  "lease_stale E secs i =
    (case q_beat i of
       None \<Rightarrow> Inr True
     | Some s \<Rightarrow>
        (if s = [] then Inr True
         else bindR (beat_age E s) (\<lambda>age. Inr (case age of None \<Rightarrow> True | Some a \<Rightarrow> secs * 1000000 < a))))"

definition recover_item :: "queue_env \<Rightarrow> int \<Rightarrow> queue_item \<Rightarrow> (queue_item \<times> bool) py" where
  "recover_item E secs i =
    (if q_status i \<noteq> ACTIVE then Inr (i, False)
     else bindR (lease_stale E secs i) (\<lambda>stale.
       Inr (if stale then (i\<lparr>q_status := INTERRUPTED, q_run := None, q_beat := None\<rparr>, True)
            else (i, False))))"

definition recover_interrupted_locked ::
  "queue_env \<Rightarrow> int \<Rightarrow> queue_item list \<Rightarrow> (queue_item list \<times> queue_item list) py" where
  "recover_interrupted_locked E secs items =
    bindR (mapR (recover_item E secs) items) (\<lambda>rs.
      Inr (map fst rs, map fst (filter snd rs)))"

definition recover_body :: "queue_env \<Rightarrow> int \<Rightarrow> queue_item list queue_body" where
  "recover_body E secs items =
    bindR (recover_interrupted_locked E secs items) (\<lambda>(items1, recovered).
      Inr (recovered, if recovered \<noteq> [] then Some items1 else None))"

definition is_runnable :: "queue_item \<Rightarrow> bool" where
  "is_runnable i \<longleftrightarrow> q_status i \<in> set [PENDING, INTERRUPTED]"

definition claim_body :: "queue_env \<Rightarrow> string \<Rightarrow> int \<Rightarrow> queue_item option queue_body" where
  "claim_body E run secs items =
    bindR (recover_interrupted_locked E secs items) (\<lambda>(items1, recovered).
      case find is_runnable items1 of
        None \<Rightarrow> Inr (None, if recovered \<noteq> [] then Some items1 else None)
      | Some i \<Rightarrow> Inr (Some (leased E run i), Some (update_match is_runnable (leased E run) items1)))"

definition retryable :: "string \<Rightarrow> queue_item \<Rightarrow> bool" where
  "retryable j i \<longleftrightarrow> q_id i = j \<and> q_status i \<in> set [FAILED, INTERRUPTED, CANCELED]"

definition retried :: "queue_item \<Rightarrow> queue_item" where
  "retried i = i\<lparr>q_status := PENDING, q_error := None, q_finished := None, q_run := None, q_beat := None\<rparr>"

definition retry_body :: "string \<Rightarrow> bool queue_body" where
  "retry_body j items =
    (case find (retryable j) items of
       None \<Rightarrow> Inr (False, None)
     | Some i \<Rightarrow> Inr (True, Some (update_match (retryable j) retried items)))"

definition clear_done_body :: "nat queue_body" where
  "clear_done_body items =
    (let kept = filter (\<lambda>i. q_status i \<notin> set [DONE, CANCELED]) items
     in Inr (length items - length kept, if length kept \<noteq> length items then Some kept else None))"

definition queue_add :: "queue_env \<Rightarrow> queue_item \<Rightarrow> string queue_op" where
  "queue_add E i = update_queue E (add_body E i)"

definition queue_remove :: "queue_env \<Rightarrow> string \<Rightarrow> bool queue_op" where
  "queue_remove E j = update_queue E (remove_body j)"

definition update_status ::
  "queue_env \<Rightarrow> string \<Rightarrow> job_status \<Rightarrow> string option \<Rightarrow> string option \<Rightarrow> int option \<Rightarrow> unit queue_op" where
  "update_status E j status error run epoch = update_queue E (update_status_body E j status error run epoch)"

definition mark_active :: "queue_env \<Rightarrow> string \<Rightarrow> string \<Rightarrow> int \<Rightarrow> int option queue_op" where
  "mark_active E j run secs = update_queue E (mark_active_body E j run secs)"

definition touch :: "queue_env \<Rightarrow> string \<Rightarrow> string \<Rightarrow> int option \<Rightarrow> bool queue_op" where
  "touch E j run epoch = update_queue E (touch_body E j run epoch)"

definition recover_interrupted :: "queue_env \<Rightarrow> int \<Rightarrow> queue_item list queue_op" where
  "recover_interrupted E secs = update_queue E (recover_body E secs)"

definition claim_next :: "queue_env \<Rightarrow> string \<Rightarrow> int \<Rightarrow> queue_item option queue_op" where
  "claim_next E run secs = update_queue E (claim_body E run secs)"

definition retry :: "queue_env \<Rightarrow> string \<Rightarrow> bool queue_op" where
  "retry E j = update_queue E (retry_body j)"

definition clear_done :: "queue_env \<Rightarrow> nat queue_op" where
  "clear_done E = update_queue E clear_done_body"

definition queue_reset :: "queue_env \<Rightarrow> unit queue_op" where
  "queue_reset E = locked E (\<lambda>s.
     save_locked E ((fst s)\<lparr>m_corrupt := False, m_had_encrypted := False, m_items := []\<rparr>, snd s))"

definition pending :: "manager \<Rightarrow> queue_item list" where
  "pending m = filter (\<lambda>i. q_status i = PENDING) (m_items m)"

definition runnable :: "manager \<Rightarrow> queue_item list" where
  "runnable m = filter is_runnable (m_items m)"

section \<open>The committed queue\<close>

text \<open>
  What every reader of the file agrees on: the jobs it holds, without their passwords; \<open>None\<close>
  for a file the loader calls corrupt.
\<close>

definition core :: "queue_item \<Rightarrow> queue_item" where
  "core i = i\<lparr>q_password := None, q_enc := None\<rparr>"

definition committed :: "iso_lib \<Rightarrow> content option \<Rightarrow> queue_item list option" where
  "committed L f =
    (case f of
       None \<Rightarrow> Some []
     | Some (Raw _) \<Rightarrow> None
     | Some (Doc j) \<Rightarrow> (case validate_queue L j of
         Inl _ \<Rightarrow> None | Inr es \<Rightarrow> Some (map (\<lambda>e. core (locked_item e)) es)))"

definition items_ok :: "iso_lib \<Rightarrow> queue_item list \<Rightarrow> bool" where
  "items_ok L items \<longleftrightarrow> list_all (item_valid L) items \<and> distinct (map q_id items)"

lemma core_simps [simp]:
  "q_id (core i) = q_id i" "q_status (core i) = q_status i" "q_run (core i) = q_run i"
  "q_beat (core i) = q_beat i" "q_epoch (core i) = q_epoch i" "q_finished (core i) = q_finished i"
  "core (core i) = core i" "core (i\<lparr>q_password := p\<rparr>) = core i" "core (i\<lparr>q_enc := e\<rparr>) = core i"
  by (simp_all add: core_def)

lemma items_ok_shape: "items_ok L items \<Longrightarrow> list_all shape_ok items"
  by (auto simp: items_ok_def list_all_iff item_valid_shape)

lemma core_ids: "map q_id (map core items) = map q_id items"
  by simp

lemma unique_ids_iff:
  "unique_ids_from seen es = Inr () \<longleftrightarrow>
     distinct (map (str_member ''id'') es) \<and> set seen \<inter> set (map (str_member ''id'') es) = {}"
  by (induction seen es rule: unique_ids_from.induct) (auto simp: Let_def)

lemma validate_queue_Inr:
  "validate_queue L j = Inr es \<longleftrightarrow> (\<exists>js. j = JArr js \<and> mapR (validate_raw_item L) js = Inr es
     \<and> distinct (map (str_member ''id'') es))"
  by (cases j) (auto simp: validate_queue_def bindR_Inr_iff validate_unique_ids_def unique_ids_iff)

lemma locked_item_id [simp]: "q_id (locked_item d) = str_member ''id'' d"
  by (simp add: locked_item_def)

lemma validated_items_ok:
  assumes "validate_queue L j = Inr es"
  shows "items_ok L (map locked_item es)"
proof -
  obtain js where m: "mapR (validate_raw_item L) js = Inr es" "distinct (map (str_member ''id'') es)"
    using assms by (auto simp: validate_queue_Inr)
  have "item_valid L (locked_item e)" if "e \<in> set es" for e
    using mapR_all [OF m(1)] that validated_item_valid
    by (auto simp: list_all2_conv_all_nth in_set_conv_nth)
  then show ?thesis using m(2) by (simp add: items_ok_def list_all_iff comp_def)
qed

lemma serialize_entry:
  assumes "serialize A io nonce had i B = (Inr j, B')" and "shape_ok i"
  shows "\<exists>enc. enc_ok enc \<and> j = JObj (entry_of i enc)"
proof -
  have x: "extra_ok (q_extra i)" and e: "enc_ok (q_enc i)" using assms(2) by (simp_all add: shape_ok_def)
  have d: "set_defaults (item_fields i k) (q_extra i) = item_fields i k @ q_extra i" for k
    using x extra_disjoint(1) [OF x] by (intro set_defaults_fresh) (auto simp: extra_ok_def)
  show ?thesis
  proof (cases "q_password i \<noteq> None \<and> q_password i \<noteq> Some []")
    case True
    then obtain token where t: "fst (secret_encrypt A io nonce (the (q_password i)) (\<not> had) B) = Inr token"
      and j: "j = JObj (item_fields i (JStr token) @ q_extra i)"
      using assms(1) by (auto simp: serialize_def d split: sum.splits prod.splits)
    from t obtain blob where "token = b64encode blob"
      by (auto simp: secret_encrypt_def split: sum.splits option.splits prod.splits)
    then have "enc_ok (Some token)" by (simp add: enc_ok_token)
    then show ?thesis using j by (intro exI [of _ "Some token"]) (simp add: entry_of_def)
  next
    case False
    then have "j = JObj (entry_of i (q_enc i))"
      using assms(1) by (auto simp: serialize_def d entry_of_def)
    then show ?thesis using e by blast
  qed
qed

lemma serialize_all_entries:
  assumes "serialize_all E had n items B = (Inr js, B')" and "list_all shape_ok items"
  shows "list_all2 (\<lambda>i j. \<exists>enc. enc_ok enc \<and> j = JObj (entry_of i enc)) items js"
  using assms
proof (induction E had n items B arbitrary: js B' rule: serialize_all.induct)
  case (2 E had n i rest B)
  from "2.prems"(1) obtain j B1 js' B2 where
    j: "serialize (qe_aead E) (qe_key E) (qe_nonce E n) had i B = (Inr j, B1)"
    and js: "serialize_all E had (Suc n) rest B1 = (Inr js', B2)" "js = j # js'"
    by (auto split: prod.splits sum.splits)
  from "2.IH" [OF j [symmetric] refl js(1)] "2.prems"(2) js(2)
  show ?case using serialize_entry [OF j] by auto
qed simp

lemma mapR_Inl: "x \<in> set xs \<Longrightarrow> f x = Inl e \<Longrightarrow> \<exists>e'. mapR f xs = Inl e'"
proof (induction xs)
  case (Cons y ys)
  then show ?case by (cases "f y") auto
qed simp

lemma committed_written:
  assumes "list_all shape_ok items"
    and "list_all2 (\<lambda>i j. \<exists>enc. enc_ok enc \<and> j = JObj (entry_of i enc)) items js"
  shows "committed L (Some (Doc (JArr js))) = (if items_ok L items then Some (map core items) else None)"
proof (cases "list_all (item_valid L) items")
  case True
  have "\<exists>es. mapR (validate_raw_item L) js = Inr es \<and> map (\<lambda>e. core (locked_item e)) es = map core items
      \<and> map (str_member ''id'') es = map q_id items"
    using assms(2) True
  proof (induction rule: list_all2_induct)
    case (Cons i rest j js)
    then obtain enc es where e: "enc_ok enc" "j = JObj (entry_of i enc)" "item_valid L i"
      and es: "mapR (validate_raw_item L) js = Inr es"
        "map (\<lambda>e. core (locked_item e)) es = map core rest" "map (str_member ''id'') es = map q_id rest"
      by auto
    note sh = item_valid_shape [OF e(3)]
    have v: "validate_raw_item L j = Inr (entry_of i enc)"
      using entry_validates [OF sh e(1)] e by simp
    have c: "core (locked_item (entry_of i enc)) = core i"
      using entry_reads_back [OF sh] by (simp add: core_def)
    have d: "str_member ''id'' (entry_of i enc) = q_id i"
      using sh by (simp add: entry_str_members shape_ok_def)
    show ?case by (rule exI [of _ "entry_of i enc # es"]) (simp add: v es c d)
  qed simp
  then obtain es where es: "mapR (validate_raw_item L) js = Inr es"
    "map (\<lambda>e. core (locked_item e)) es = map core items" "map (str_member ''id'') es = map q_id items"
    by blast
  show ?thesis
  proof (cases "distinct (map q_id items)")
    case d: True
    then have "validate_queue L (JArr js) = Inr es" using es by (simp add: validate_queue_Inr)
    then show ?thesis using es(2) True d by (simp add: committed_def items_ok_def)
  next
    case False
    then have "validate_queue L (JArr js) \<noteq> Inr x" for x
      using es by (auto simp: validate_queue_Inr)
    then show ?thesis using False by (auto simp: committed_def items_ok_def split: sum.splits)
  qed
next
  case False
  then obtain k where k: "k < length items" "\<not> item_valid L (items ! k)"
    by (auto simp: list_all_length)
  then obtain enc where e: "enc_ok enc" "js ! k = JObj (entry_of (items ! k) enc)" "k < length js"
    using assms(2) by (auto simp: list_all2_conv_all_nth)
  have "validate_raw_item L (js ! k) = Inl q_corrupt"
    using entry_validates [OF _ e(1)] e(2) k assms(1) by (auto simp: list_all_length)
  then obtain e' where "mapR (validate_raw_item L) js = Inl e'"
    using mapR_Inl [of "js ! k" js] e(3) by fastforce
  then show ?thesis using False by (simp add: committed_def validate_queue_def items_ok_def)
qed

section \<open>Saving and loading\<close>

lemma put_box_simps [simp]:
  "m_items (fst (put_box B s)) = m_items (fst s)" "m_corrupt (fst (put_box B s)) = m_corrupt (fst s)"
  "m_had_encrypted (fst (put_box B s)) = m_had_encrypted (fst s)"
  "qd_file (snd (put_box B s)) = qd_file (snd s)" "qd_siblings (snd (put_box B s)) = qd_siblings (snd s)"
  "qd_key (snd (put_box B s)) = kb_file B" "m_cached_key (fst (put_box B s)) = kb_cached B"
  by (simp_all add: put_box_def)

lemma save_locked_file:
  assumes "save_locked E s = (r, s')"
  shows "case r of
      Inl e \<Rightarrow> qd_file (snd s') = qd_file (snd s)
    | Inr _ \<Rightarrow> \<not> m_corrupt (fst s)
        \<and> (list_all shape_ok (m_items (fst s)) \<longrightarrow> committed L (qd_file (snd s')) =
             (if items_ok L (m_items (fst s)) then Some (map core (m_items (fst s))) else None))"
proof -
  obtain q B where q: "serialize_all E (m_had_encrypted (fst s)) 0 (m_items (fst s)) (box_of s) = (q, B)"
    by fastforce
  show ?thesis
  proof (cases q)
    case (Inl e)
    then show ?thesis using assms q by (auto simp: save_locked_def split: if_splits)
  next
    case (Inr js)
    have "committed L (Some (Doc (JArr js))) =
        (if items_ok L (m_items (fst s)) then Some (map core (m_items (fst s))) else None)"
      if "list_all shape_ok (m_items (fst s))"
      using that serialize_all_entries [OF q [unfolded Inr]] by (intro committed_written)
    then show ?thesis
      using assms q Inr by (auto simp: save_locked_def atomic_write_text_def Let_def
          split: if_splits temp_outcome.splits sum.splits)
  qed
qed

lemma save_locked_keeps:
  assumes "save_locked E s = (r, s')"
  shows "m_items (fst s') = m_items (fst s)" "m_corrupt (fst s') = m_corrupt (fst s)"
    "qd_siblings (snd s') = qd_siblings (snd s)"
  using assms by (auto simp: save_locked_def atomic_write_text_def Let_def
      split: if_splits temp_outcome.splits sum.splits prod.splits)

lemma deserialize_core:
  assumes "deserialize A io e B = ((i, m), B')"
  shows "core i = core (locked_item e)" and "item_valid L (locked_item e) \<Longrightarrow> item_valid L i"
  using assms by (auto simp: deserialize_def Let_def item_valid_def split: if_splits prod.splits sum.splits)

lemma deserialize_all_core:
  assumes "deserialize_all E es B = ((items, m), B')"
  shows "map core items = map (\<lambda>e. core (locked_item e)) es
    \<and> (list_all (\<lambda>e. item_valid L (locked_item e)) es \<longrightarrow> list_all (item_valid L) items)"
  using assms
proof (induction E es B arbitrary: items m B' rule: deserialize_all.induct)
  case (2 E e es B)
  obtain i mi B1 where i: "deserialize (qe_aead E) (qe_key E) e B = ((i, mi), B1)" by (metis surj_pair)
  obtain rest ms B2 where r: "deserialize_all E es B1 = ((rest, ms), B2)" by (metis surj_pair)
  from "2.prems" i r have "items = i # rest" by simp
  then show ?case
    using "2.IH" [OF i [symmetric] refl r] deserialize_core [OF i] by auto
qed simp

lemma load_validated_facts:
  assumes "load_validated E es s = (r, s')" and "validate_queue (qe_iso E) j = Inr es"
    and "qd_file (snd s) = Some (Doc j)" and "\<not> m_corrupt (fst s)"
  shows "\<not> m_corrupt (fst s') \<and> items_ok (qe_iso E) (m_items (fst s'))
    \<and> map core (m_items (fst s')) = map (\<lambda>e. core (locked_item e)) es
    \<and> committed (qe_iso E) (qd_file (snd s')) = Some (map core (m_items (fst s')))
    \<and> qd_siblings (snd s') = qd_siblings (snd s)"
proof -
  let ?L = "qe_iso E"
  obtain items mig B where d: "deserialize_all E es (box_of s) = ((items, mig), B)" by (metis surj_pair)
  let ?s2 = "((fst (put_box B s))\<lparr>m_had_encrypted := list_ex has_secret es, m_items := items,
      m_needs_migration := mig\<rparr>, snd (put_box B s))"
  have es: "items_ok ?L (map locked_item es)" by (rule validated_items_ok [OF assms(2)])
  from deserialize_all_core [OF d, of ?L] es have c: "map core items = map (\<lambda>e. core (locked_item e)) es"
    and v: "list_all (item_valid ?L) items"
    by (simp_all add: items_ok_def list_all_iff)
  have "map q_id items = map q_id (map locked_item es)"
    using arg_cong [OF c, of "map q_id"] by (simp add: comp_def)
  with v es have ok: "items_ok ?L items" by (simp add: items_ok_def)
  have f: "committed ?L (Some (Doc j)) = Some (map core items)"
    using assms(2) c by (simp add: committed_def)
  show ?thesis
  proof (cases mig)
    case False
    then have "s' = ?s2" using assms(1) d by (simp add: load_validated_def Let_def)
    then show ?thesis using ok c f assms(3,4) by simp
  next
    case True
    obtain q s3 where q: "save_locked E ?s2 = (q, s3)" by (metis surj_pair)
    have "s' = s3"
      using assms(1) d q True by (auto simp: load_validated_def Let_def split: sum.splits if_splits)
    then show ?thesis
      using save_locked_file [OF q, of ?L] save_locked_keeps [OF q] ok items_ok_shape [OF ok] c f assms(3,4)
      by (cases q) auto
  qed
qed

lemma mark_corrupt_facts:
  "qd_file (snd (mark_corrupt E c s)) = qd_file (snd s)" "m_corrupt (fst (mark_corrupt E c s))"
  "m_items (fst (mark_corrupt E c s)) = []" "qd_key (snd (mark_corrupt E c s)) = qd_key (snd s)"
  "m_cached_key (fst (mark_corrupt E c s)) = m_cached_key (fst s)"
  "qd_temps (snd (mark_corrupt E c s)) = qd_temps (snd s)"
  by (simp_all add: mark_corrupt_def Let_def split: option.splits prod.splits)

lemma qcorrupt_isinstance: "isinstance (Exc QueueCorruptionError None) QueueCorruptionError"
  by simp

lemma validate_raw_item_error: "validate_raw_item L j = Inl e \<Longrightarrow> e = q_corrupt"
proof -
  have o: "str_or_null v \<Longrightarrow> enc_member_ok v = Inl e \<Longrightarrow> e = q_corrupt" for v
    by (auto simp: str_or_null_def enc_member_ok_def split: json.splits sum.splits)
  have i: "validate_iso_timestamp L v = Inl e \<Longrightarrow> e = q_corrupt" for v
    by (auto simp: validate_iso_timestamp_def qreq_def split: json.splits if_splits option.splits)
  have s: "status_member d = Inl e \<Longrightarrow> e = q_corrupt" for d
    by (auto simp: status_member_def split: json.splits option.splits)
  have q: "qreq c = Inl e \<Longrightarrow> e = q_corrupt" for c by (simp add: qreq_def)
  assume "validate_raw_item L j = Inl e"
  then show ?thesis
    using o i s q
    by (auto simp: validate_raw_item_def bindR_Inl_iff Let_def OPTIONAL_STR_ITEM_FIELDS_def
        split: json.splits)
qed

lemma mapR_error: "mapR f xs = Inl e \<Longrightarrow> \<exists>x \<in> set xs. f x = Inl e"
  by (induction xs) (auto simp: bindR_Inl_iff)

lemma unique_ids_error: "unique_ids_from seen es = Inl e \<Longrightarrow> e = q_corrupt"
  by (induction seen es rule: unique_ids_from.induct) (auto simp: Let_def split: if_splits)

lemma validate_queue_error: "validate_queue L j = Inl e \<Longrightarrow> e = q_corrupt"
  by (auto simp: validate_queue_def bindR_Inl_iff validate_unique_ids_def split: json.splits
      dest!: mapR_error validate_raw_item_error unique_ids_error)

text \<open>
  Loading never changes what is committed. Either the file could not be understood, then the
  manager is marked corrupt and holds nothing, or it holds exactly the committed jobs.
\<close>

lemma load_facts:
  assumes "load E s = (r, s')"
  shows "committed (qe_iso E) (qd_file (snd s')) = committed (qe_iso E) (qd_file (snd s))
    \<and> (if m_corrupt (fst s')
       then m_items (fst s') = [] \<and> r = Inr () \<and> qd_file (snd s') = qd_file (snd s)
          \<and> qd_file (snd s) \<noteq> None \<and> (\<not> qe_read E \<or> committed (qe_iso E) (qd_file (snd s)) = None)
       else items_ok (qe_iso E) (m_items (fst s'))
          \<and> committed (qe_iso E) (qd_file (snd s)) = Some (map core (m_items (fst s'))))"
proof -
  let ?m = "(fst s)\<lparr>m_needs_migration := False, m_corrupt := False, m_backup := None,
      m_had_encrypted := False\<rparr>"
  show ?thesis
  proof (cases "qd_file (snd s)")
    case None
    then show ?thesis using assms by (auto simp: load_def Let_def items_ok_def committed_def)
  next
    case (Some c)
    show ?thesis
    proof (cases "\<exists>j es. qe_read E \<and> c = Doc j \<and> validate_queue (qe_iso E) j = Inr es")
      case True
      then obtain j es where j: "c = Doc j" "validate_queue (qe_iso E) j = Inr es" by blast
      then have "load_validated E es (?m, snd s) = (r, s')"
        using assms Some True by (simp add: load_def Let_def)
      from load_validated_facts [OF this j(2)] Some j show ?thesis
        by (simp add: committed_def)
    next
      case False
      then obtain x where s': "s' = mark_corrupt E x (?m, snd s)" and r: "r = Inr ()"
        using assms Some validate_queue_error
        by (fastforce simp: load_def Let_def split: if_splits content.splits sum.splits)
      have "\<not> qe_read E \<or> committed (qe_iso E) (Some c) = None"
        using False by (auto simp: committed_def split: content.splits sum.splits)
      then show ?thesis using s' r Some by (simp add: mark_corrupt_facts)
    qed
  qed
qed

definition committed_as :: "iso_lib \<Rightarrow> queue_item list \<Rightarrow> queue_disk \<Rightarrow> bool" where
  "committed_as L items d \<longleftrightarrow>
     committed L (qd_file d) = (if items_ok L items then Some (map core items) else None)"

text \<open>
  What an operation can do to the committed queue: nothing, or replace it by what its body made
  of exactly the committed jobs, when those are jobs the format can hold.
\<close>

lemma update_queue_facts:
  assumes "update_queue E body s = (r, s')"
  shows "committed (qe_iso E) (qd_file (snd s')) = committed (qe_iso E) (qd_file (snd s))
      \<and> (\<forall>x. r = Inr x \<longrightarrow> (\<exists>items. body items = Inr (x, None)
            \<and> (items = [] \<or> committed (qe_iso E) (qd_file (snd s)) = Some (map core items)
               \<and> items_ok (qe_iso E) items)))
    \<or> (\<exists>items items' x. committed (qe_iso E) (qd_file (snd s)) = Some (map core items)
        \<and> items_ok (qe_iso E) items \<and> body items = Inr (x, Some items') \<and> r = Inr x
        \<and> (list_all shape_ok items' \<longrightarrow> committed_as (qe_iso E) items' (snd s')))"
  (is "?same \<or> ?changed")
proof -
  let ?L = "qe_iso E"
  have err: "committed ?L (qd_file (snd s')) = committed ?L (qd_file (snd s)) \<Longrightarrow> r = Inl e \<Longrightarrow> ?same" for e
    by simp
  show ?thesis
  proof (cases "qe_lock E")
    case False
    then show ?thesis using assms by (auto simp: update_queue_def locked_def)
  next
    case True
    obtain q s1 where l: "load E s = (q, s1)" by (metis surj_pair)
    note lf = load_facts [OF l]
    show ?thesis
    proof (cases q)
      case (Inl e)
      then show ?thesis using assms True l lf by (auto simp: update_queue_def locked_def)
    next
      case (Inr u)
      let ?items = "m_items (fst s1)"
      show ?thesis
      proof (cases "body ?items")
        case (Inl e)
        then show ?thesis using assms True l Inr lf by (auto simp: update_queue_def locked_def)
      next
        case body: (Inr p)
        obtain x res where p: "p = (x, res)" by fastforce
        show ?thesis
        proof (cases res)
          case None
          then have "r = Inr x" "s' = s1" using assms True l Inr body p
            by (auto simp: update_queue_def locked_def)
          then show ?thesis using lf body p None by (intro disjI1) (auto split: if_splits)
        next
          case (Some items')
          let ?s2 = "((fst s1)\<lparr>m_items := items'\<rparr>, snd s1)"
          obtain t s2 where t: "save_locked E ?s2 = (t, s2)" by (metis surj_pair)
          note sf = save_locked_file [OF t, of ?L]
          show ?thesis
          proof (cases t)
            case (Inl e)
            then have "r = Inl e" "s' = s2" using assms True l Inr body p Some t
              by (auto simp: update_queue_def locked_def)
            then show ?thesis using sf Inl lf by (intro disjI1) simp
          next
            case ok: (Inr v)
            then have "r = Inr x" "s' = s2" using assms True l Inr body p Some t
              by (auto simp: update_queue_def locked_def)
            moreover have "list_all shape_ok items' \<longrightarrow> committed_as ?L items' (snd s2)"
              using sf ok by (simp add: committed_as_def)
            moreover have "committed ?L (qd_file (snd s)) = Some (map core ?items) \<and> items_ok ?L ?items"
              using sf ok lf by simp
            ultimately show ?thesis using body p Some by blast
          qed
        qed
      qed
    qed
  qed
qed

end
