(* ===== verification/QueueLease.thy ===== *)
theory QueueLease
  imports Queue
begin

text \<open>
  Who may write to a job. The queue is refined by a table of leases that changes by six kinds of
  step; every command of \<open>queue/manager.py\<close>, run by any manager in any process and however the
  operating system answers, is a sequence of those steps. Fencing is proved once on the table, in
  the locale \<open>fenced_store\<close>, and holds for the program by its interpretation.
\<close>

section \<open>The lease table\<close>

record lease =
  l_status :: job_status
  l_run :: "string option"
  l_epoch :: int

definition lease_of :: "queue_item \<Rightarrow> lease" where
  "lease_of i = \<lparr>l_status = q_status i, l_run = q_run i, l_epoch = q_epoch i\<rparr>"

definition leases :: "queue_item list \<Rightarrow> (string \<rightharpoonup> lease)" where
  "leases items = map_of (map (\<lambda>i. (q_id i, lease_of i)) items)"

inductive lease_step :: "string set \<Rightarrow> (string \<rightharpoonup> lease) \<Rightarrow> (string \<rightharpoonup> lease) \<Rightarrow> bool"
  for A :: "string set" where
  lease_add: "T j = None \<Longrightarrow> j \<in> A \<Longrightarrow> lease_step A T (T(j \<mapsto> l))"
| lease_drop: "lease_step A T (T(j := None))"
| lease_claim: "T j = Some l \<Longrightarrow>
    lease_step A T (T(j \<mapsto> \<lparr>l_status = ACTIVE, l_run = Some r, l_epoch = l_epoch l + 1\<rparr>))"
| lease_release: "T j = Some l \<Longrightarrow> lease_step A T (T(j \<mapsto> l\<lparr>l_status := st, l_run := None\<rparr>))"
| lease_activate: "T j = Some l \<Longrightarrow> lease_step A T (T(j \<mapsto> l\<lparr>l_status := ACTIVE\<rparr>))"
| lease_renew: "lease_step A T T"

inductive_cases lease_stepE: "lease_step A T T'"

text \<open>A lease is never given twice: its generation only grows, and within one generation it has
  its owner or none.\<close>

definition lease_le :: "lease option \<Rightarrow> lease option \<Rightarrow> bool" where
  "lease_le x y \<longleftrightarrow> (case y of None \<Rightarrow> True | Some l' \<Rightarrow>
     (case x of None \<Rightarrow> False | Some l \<Rightarrow>
        l_epoch l < l_epoch l' \<or> l_epoch l = l_epoch l' \<and> l_run l' \<in> {l_run l, None}))"

lemma lease_le_refl [simp]: "lease_le x x"
  by (simp add: lease_le_def split: option.splits)

lemma lease_le_trans: "lease_le x y \<Longrightarrow> lease_le y z \<Longrightarrow> lease_le x z"
  by (auto simp: lease_le_def split: option.splits)

lemma lease_step_le: "lease_step A T T' \<Longrightarrow> j \<notin> A \<Longrightarrow> lease_le (T j) (T' j)"
  by (elim lease_stepE) (auto simp: lease_le_def split: option.splits)

lemma lease_steps_le: "(lease_step A)\<^sup>*\<^sup>* T T' \<Longrightarrow> j \<notin> A \<Longrightarrow> lease_le (T j) (T' j)"
  by (induction rule: rtranclp_induct) (auto intro: lease_le_trans lease_step_le)

locale fenced_store =
  fixes table :: "'s \<Rightarrow> (string \<rightharpoonup> lease)"
    and step :: "'c \<Rightarrow> 's \<Rightarrow> 's"
    and adds :: "'c \<Rightarrow> string set"
  assumes step_refines: "(lease_step (adds c))\<^sup>*\<^sup>* (table s) (table (step c s))"
begin

lemma run_le:
  assumes "\<forall>c \<in> set cs. j \<notin> adds c"
  shows "lease_le (table s j) (table (fold step cs s) j)"
  using assms
proof (induction cs arbitrary: s)
  case (Cons c cs)
  have "lease_le (table s j) (table (step c s) j)"
    using Cons.prems by (intro lease_steps_le [OF step_refines]) simp
  moreover have "lease_le (table (step c s) j) (table (fold step cs (step c s)) j)"
    using Cons.prems by (intro Cons.IH) simp
  ultimately show ?case by (simp add: lease_le_trans)
qed simp

text \<open>Once a later generation exists, the earlier one never owns the job again.\<close>

lemma fenced:
  assumes "\<forall>c \<in> set cs. j \<notin> adds c" and "table s j = Some l" and "n < l_epoch l"
  shows "case table (fold step cs s) j of None \<Rightarrow> True | Some l' \<Rightarrow> n < l_epoch l'"
  using run_le [OF assms(1), of s] assms(2,3)
  by (auto simp: lease_le_def split: option.splits)

lemma run_refines:
  "(lease_step (\<Union> (adds ` set cs)))\<^sup>*\<^sup>* (table s) (table (fold step cs s))"
proof (induction cs arbitrary: s)
  case (Cons c cs)
  have mono: "(lease_step A)\<^sup>*\<^sup>* T T' \<Longrightarrow> A \<subseteq> B \<Longrightarrow> (lease_step B)\<^sup>*\<^sup>* T T'" for A B T T'
  proof (induction rule: rtranclp_induct)
    case (step y z)
    have "lease_step B y z" using step(2,4) by (elim lease_stepE) (auto intro: lease_step.intros)
    then show ?case using step by (simp add: rtranclp.rtrancl_into_rtrancl)
  qed simp
  have "(lease_step (\<Union> (adds ` set (c # cs))))\<^sup>*\<^sup>* (table s) (table (step c s))"
    by (rule mono [OF step_refines]) auto
  moreover have "(lease_step (\<Union> (adds ` set (c # cs))))\<^sup>*\<^sup>* (table (step c s))
      (table (fold step cs (step c s)))"
    by (rule mono [OF Cons.IH]) auto
  ultimately show ?case by (simp del: set_simps)
qed simp

end

section \<open>Lists of jobs as tables\<close>

lemma find_split:
  "find p xs = Some x \<Longrightarrow> \<exists>ys zs. xs = ys @ x # zs \<and> (\<forall>y \<in> set ys. \<not> p y) \<and> p x
     \<and> (\<forall>f. update_match p f xs = ys @ f x # zs)"
proof (induction xs)
  case (Cons a xs)
  show ?case
  proof (cases "p a")
    case True
    then show ?thesis using Cons.prems by (intro exI [of _ "[]"] exI [of _ xs]) auto
  next
    case False
    with Cons obtain ys zs where "xs = ys @ x # zs \<and> (\<forall>y \<in> set ys. \<not> p y) \<and> p x
        \<and> (\<forall>f. update_match p f xs = ys @ f x # zs)" by auto
    then show ?thesis using False by (intro exI [of _ "a # ys"] exI [of _ zs]) auto
  qed
qed simp

lemma leases_mid:
  assumes "distinct (map q_id (xs @ i # ys))" and "q_id i' = q_id i"
  shows "leases (xs @ i' # ys) = (leases (xs @ i # ys))(q_id i \<mapsto> lease_of i')"
    and "leases (xs @ i # ys) (q_id i) = Some (lease_of i)"
proof -
  let ?t = "\<lambda>xs. map (\<lambda>i. (q_id i, lease_of i)) xs"
  have n: "map_of (?t xs) (q_id i) = None"
    using assms(1) by (force simp: map_of_eq_None_iff)
  show "leases (xs @ i # ys) (q_id i) = Some (lease_of i)"
    using n by (simp add: leases_def map_add_def)
  show "leases (xs @ i' # ys) = (leases (xs @ i # ys))(q_id i \<mapsto> lease_of i')"
    using n assms(2) by (auto simp: leases_def map_add_def fun_eq_iff split: option.splits)
qed

lemma leases_update:
  assumes "distinct (map q_id items)" and "find p items = Some i" and "q_id (f i) = q_id i"
  shows "leases (update_match p f items) = (leases items)(q_id i \<mapsto> lease_of (f i))"
    and "leases items (q_id i) = Some (lease_of i)"
proof -
  from find_split [OF assms(2)] obtain ys zs where s: "items = ys @ i # zs"
    "update_match p f items = ys @ f i # zs" by blast
  with leases_mid [of ys i zs "f i"] assms(1,3)
  show "leases (update_match p f items) = (leases items)(q_id i \<mapsto> lease_of (f i))"
    "leases items (q_id i) = Some (lease_of i)" by simp_all
qed

lemma leases_core [simp]: "leases (map core items) = leases items"
  by (simp add: leases_def lease_of_def comp_def)

lemma find_core:
  "(\<And>i. p (core i) = p i) \<Longrightarrow> find p (map core items) = map_option core (find p items)"
  by (induction items) auto

lemma drop_steps:
  assumes "finite D" and "\<And>j. T' j = (if j \<in> D then None else T j)"
  shows "(lease_step A)\<^sup>*\<^sup>* T T'"
  using assms
proof (induction D arbitrary: T')
  case empty
  then have "T' = T" by auto
  then show ?case by simp
next
  case (insert x D)
  let ?U = "\<lambda>j. if j \<in> D then None else T j"
  have "(lease_step A)\<^sup>*\<^sup>* T ?U" by (rule insert.IH) simp
  moreover have "T' = ?U(x := None)" using insert.prems by auto
  then have "lease_step A ?U T'" by (simp add: lease_drop)
  ultimately show ?case by auto
qed

lemma drop_all: "finite (dom T) \<Longrightarrow> (lease_step A)\<^sup>*\<^sup>* T Map.empty"
  by (rule drop_steps [of "dom T"]) (auto simp: domIff)

lemma leases_finite: "finite (dom (leases items))"
  by (simp add: leases_def finite_dom_map_of)

lemma leases_filter:
  assumes "distinct (map q_id items)"
  shows "(lease_step A)\<^sup>*\<^sup>* (leases items) (leases (filter P items))"
proof (rule drop_steps)
  show "finite (q_id ` set (filter (\<lambda>i. \<not> P i) items))" by simp
  fix j
  show "leases (filter P items) j
      = (if j \<in> q_id ` set (filter (\<lambda>i. \<not> P i) items) then None else leases items j)"
    using assms
  proof (induction items)
    case (Cons i items)
    have n: "q_id i \<notin> q_id ` set items" using Cons.prems by simp
    then have "leases (filter P items) (q_id i) = None"
      by (auto simp: leases_def map_of_eq_None_iff)
    then show ?case using Cons n by (auto simp: leases_def image_iff)
  qed (simp add: leases_def)
qed

lemma release_list:
  assumes "list_all2 (\<lambda>i i'. q_id i' = q_id i
      \<and> (lease_of i' = lease_of i \<or> (\<exists>st. lease_of i' = (lease_of i)\<lparr>l_status := st, l_run := None\<rparr>))) xs ys"
    and "distinct (map q_id (pre @ xs))"
  shows "(lease_step A)\<^sup>*\<^sup>* (leases (pre @ xs)) (leases (pre @ ys))"
  using assms
proof (induction arbitrary: pre rule: list_all2_induct)
  case (Cons i xs i' ys)
  have d: "distinct (map q_id (pre @ i # xs))" using Cons.prems by simp
  have m: "leases (pre @ i' # xs) = (leases (pre @ i # xs))(q_id i \<mapsto> lease_of i')"
    "leases (pre @ i # xs) (q_id i) = Some (lease_of i)"
    using leases_mid [OF d, of i'] Cons.hyps by simp_all
  have "lease_step A (leases (pre @ i # xs)) (leases (pre @ i' # xs))"
  proof (cases "lease_of i' = lease_of i")
    case True
    then have "leases (pre @ i' # xs) = leases (pre @ i # xs)" using m by auto
    then show ?thesis by (simp add: lease_renew)
  next
    case False
    then show ?thesis using Cons.hyps m by (auto intro: lease_release)
  qed
  moreover have "(lease_step A)\<^sup>*\<^sup>* (leases ((pre @ [i']) @ xs)) (leases ((pre @ [i']) @ ys))"
    using Cons.prems Cons.hyps by (intro Cons.IH) auto
  ultimately show ?case by (simp add: converse_rtranclp_into_rtranclp)
qed simp

section \<open>Commands\<close>

text \<open>Every entry point of the manager that changes the file, run by some manager object.\<close>

datatype queue_cmd =
    Add queue_item
  | Remove string
  | SetStatus string job_status "string option" "string option" "int option"
  | MarkActive string string int
  | Touch string string "int option"
  | Recover int
  | Claim string int
  | Retry string
  | ClearDone
  | Reset

definition after :: "'a py \<times> queue_state \<Rightarrow> queue_state" where
  "after x = snd x"

fun exec :: "queue_env \<Rightarrow> queue_cmd \<Rightarrow> queue_state \<Rightarrow> queue_state" where
  "exec E (Add i) s = after (queue_add E i s)"
| "exec E (Remove j) s = after (queue_remove E j s)"
| "exec E (SetStatus j st err run ep) s = after (update_status E j st err run ep s)"
| "exec E (MarkActive j run secs) s = after (mark_active E j run secs s)"
| "exec E (Touch j run ep) s = after (touch E j run ep s)"
| "exec E (Recover secs) s = after (recover_interrupted E secs s)"
| "exec E (Claim run secs) s = after (claim_next E run secs s)"
| "exec E (Retry j) s = after (retry E j s)"
| "exec E ClearDone s = after (clear_done E s)"
| "exec E Reset s = after (queue_reset E s)"

text \<open>
  A job handed to \<open>add\<close> is a \<open>QueueItem\<close> just constructed, so it has no carried-over fields.
\<close>

fun cmd_ok :: "queue_cmd \<Rightarrow> bool" where
  "cmd_ok (Add i) = (q_extra i = [] \<and> q_enc i = None)"
| "cmd_ok _ = True"

fun cmd_adds :: "queue_env \<times> manager \<times> queue_cmd \<Rightarrow> string set" where
  "cmd_adds (E, m, Add i) = {q_id (completed_item E i)}"
| "cmd_adds _ = {}"

definition queue_step :: "iso_lib \<Rightarrow> queue_env \<times> manager \<times> queue_cmd \<Rightarrow> queue_disk \<Rightarrow> queue_disk" where
  "queue_step L x d = (case x of (E, m, c) \<Rightarrow> if qe_iso E = L \<and> cmd_ok c then snd (exec E c (m, d)) else d)"

definition table :: "iso_lib \<Rightarrow> queue_disk \<Rightarrow> (string \<rightharpoonup> lease)" where
  "table L d = (case committed L (qd_file d) of None \<Rightarrow> Map.empty | Some items \<Rightarrow> leases items)"

lemma table_committed: "committed L (qd_file d) = Some (map core items) \<Longrightarrow> table L d = leases items"
  by (simp add: table_def)

lemma table_finite: "finite (dom (table L d))"
  by (simp add: table_def leases_finite split: option.splits)

text \<open>A body refines the table when what it saves is reachable from what it read.\<close>

definition refines_to :: "string set \<Rightarrow> queue_item list \<Rightarrow> queue_item list \<Rightarrow> bool" where
  "refines_to A items items' \<longleftrightarrow> list_all shape_ok items'
     \<and> (distinct (map q_id items') \<longrightarrow> (lease_step A)\<^sup>*\<^sup>* (leases items) (leases items'))"

definition body_refines :: "iso_lib \<Rightarrow> string set \<Rightarrow> 'a queue_body \<Rightarrow> bool" where
  "body_refines L A body \<longleftrightarrow> (\<forall>items x items'.
     items_ok L items \<and> body items = Inr (x, Some items') \<longrightarrow> refines_to A items items')"

lemma body_refinesI:
  assumes "\<And>items x items'. items_ok L items \<Longrightarrow> body items = Inr (x, Some items') \<Longrightarrow> refines_to A items items'"
  shows "body_refines L A body"
  using assms by (simp add: body_refines_def)

lemma update_queue_refines:
  assumes "body_refines (qe_iso E) A body"
  shows "(lease_step A)\<^sup>*\<^sup>* (table (qe_iso E) (snd s)) (table (qe_iso E) (snd (after (update_queue E body s))))"
proof -
  let ?L = "qe_iso E"
  obtain r s' where u: "update_queue E body s = (r, s')" by (metis surj_pair)
  from update_queue_facts [OF u] show ?thesis
  proof
    assume "committed ?L (qd_file (snd s')) = committed ?L (qd_file (snd s)) \<and>
      (\<forall>x. r = Inr x \<longrightarrow> (\<exists>items. body items = Inr (x, None)
         \<and> (items = [] \<or> committed ?L (qd_file (snd s)) = Some (map core items) \<and> items_ok ?L items)))"
    then show ?thesis using u by (simp add: after_def table_def)
  next
    assume "\<exists>items items' x. committed ?L (qd_file (snd s)) = Some (map core items)
      \<and> items_ok ?L items \<and> body items = Inr (x, Some items') \<and> r = Inr x
      \<and> (list_all shape_ok items' \<longrightarrow> committed_as ?L items' (snd s'))"
    then obtain items items' x where c: "committed ?L (qd_file (snd s)) = Some (map core items)"
      "items_ok ?L items" "body items = Inr (x, Some items')"
      and w: "list_all shape_ok items' \<longrightarrow> committed_as ?L items' (snd s')" by blast
    from assms c(2,3) have b: "list_all shape_ok items'"
      "distinct (map q_id items') \<longrightarrow> (lease_step A)\<^sup>*\<^sup>* (leases items) (leases items')"
      unfolding body_refines_def refines_to_def by blast+
    show ?thesis
    proof (cases "items_ok ?L items'")
      case True
      then show ?thesis using w b c(1) u
        by (auto simp: after_def committed_as_def table_def items_ok_def)
    next
      case False
      then have "table ?L (snd s') = Map.empty" using w b(1) by (simp add: committed_as_def table_def)
      then show ?thesis using u drop_all [OF table_finite] by (simp add: after_def)
    qed
  qed
qed

section \<open>Each operation on the table\<close>

lemma update_match_shape:
  assumes "list_all shape_ok items" and "\<And>i. shape_ok i \<Longrightarrow> shape_ok (f i)"
  shows "list_all shape_ok (update_match p f items)"
  using assms by (induction p f items rule: update_match.induct) auto

lemma shape_ok_updates [simp]:
  "shape_ok (set_status E st e i) = shape_ok i" "shape_ok (leased E r i) = shape_ok i"
  "shape_ok (retried i) = shape_ok i" "shape_ok (i\<lparr>q_beat := b\<rparr>) = shape_ok i"
  by (simp_all add: shape_ok_def set_status_def leased_def retried_def Let_def)

lemma ids_updates [simp]:
  "q_id (set_status E st e i) = q_id i" "q_id (leased E r i) = q_id i" "q_id (retried i) = q_id i"
  by (simp_all add: set_status_def leased_def retried_def Let_def)

lemma lease_of_updates:
  "lease_of (leased E r i) = \<lparr>l_status = ACTIVE, l_run = Some r, l_epoch = l_epoch (lease_of i) + 1\<rparr>"
  "lease_of (retried i) = (lease_of i)\<lparr>l_status := PENDING, l_run := None\<rparr>"
  "lease_of (i\<lparr>q_beat := b\<rparr>) = lease_of i"
  "lease_of (set_status E st e i) = (if st = ACTIVE then (lease_of i)\<lparr>l_status := ACTIVE\<rparr>
     else (lease_of i)\<lparr>l_status := st, l_run := None\<rparr>)"
  by (cases st; simp add: lease_of_def leased_def retried_def set_status_def Let_def)+

lemma refines_same: "items_ok L items \<Longrightarrow> refines_to A items items"
  by (simp add: refines_to_def items_ok_shape)

lemma refines_update:
  assumes "items_ok L items" and "find p items = Some i" and "\<And>i. q_id (f i) = q_id i"
    and "\<And>i. shape_ok (f i) = shape_ok i"
    and "\<And>T. T (q_id i) = Some (lease_of i) \<Longrightarrow> lease_step A T (T(q_id i \<mapsto> lease_of (f i)))"
  shows "refines_to A items (update_match p f items)"
proof -
  have d: "distinct (map q_id items)" using assms(1) by (simp add: items_ok_def)
  note u = leases_update [OF d assms(2), of f, OF assms(3)]
  have "lease_step A (leases items) (leases (update_match p f items))"
    unfolding u(1) by (rule assms(5)) (rule u(2))
  then show ?thesis
    using update_match_shape [OF items_ok_shape [OF assms(1)], of f] assms(4)
    by (simp add: refines_to_def r_into_rtranclp)
qed

lemma refines_filter: "items_ok L items \<Longrightarrow> refines_to A items (filter P items)"
  using items_ok_shape [of L items] leases_filter [of items A P]
  by (auto simp: refines_to_def items_ok_def list_all_iff)

lemma remove_refines: "body_refines L A (remove_body j)"
  by (rule body_refinesI) (auto simp: remove_body_def Let_def intro: refines_filter split: if_splits)

lemma clear_done_refines: "body_refines L A clear_done_body"
  by (rule body_refinesI)
    (auto simp: clear_done_body_def Let_def simp del: list.set intro: refines_filter split: if_splits)

lemma set_status_refines: "body_refines L A (update_status_body E j st err run ep)"
proof (rule body_refinesI)
  fix items x items'
  assume ok: "items_ok L items" and b: "update_status_body E j st err run ep items = Inr (x, Some items')"
  show "refines_to A items items'"
  proof (cases "find (has_id j) items")
    case None
    then show ?thesis using b refines_same [OF ok] by (simp add: update_status_body_def)
  next
    case (Some i)
    then have "items' = update_match (has_id j) (set_status E st err) items"
      using b by (auto simp: update_status_body_def bindR_Inr_iff)
    moreover have "lease_step A T (T(q_id i \<mapsto> lease_of (set_status E st err i)))"
      if "T (q_id i) = Some (lease_of i)" for T
      using that by (auto simp: lease_of_updates intro: lease_activate lease_release)
    ultimately show ?thesis using refines_update [OF ok Some] by simp
  qed
qed

lemma touch_refines: "body_refines L A (touch_body E j run ep)"
proof (rule body_refinesI)
  fix items x items'
  assume ok: "items_ok L items" and b: "touch_body E j run ep items = Inr (x, Some items')"
  then obtain i where "find (has_id j) items = Some i"
    and "items' = update_match (has_id j) (\<lambda>i. i\<lparr>q_beat := Some (stamp_now E)\<rparr>) items"
    by (auto simp: touch_body_def split: option.splits if_splits)
  with refines_update [OF ok, of "has_id j" i "\<lambda>i. i\<lparr>q_beat := Some (stamp_now E)\<rparr>"]
  show "refines_to A items items'"
    by (auto simp: lease_of_updates fun_upd_idem intro: lease_renew)
qed

lemma mark_active_refines: "body_refines L A (mark_active_body E j run secs)"
proof (rule body_refinesI)
  fix items x items'
  assume ok: "items_ok L items" and b: "mark_active_body E j run secs items = Inr (x, Some items')"
  show "refines_to A items items'"
  proof (cases "find (has_id j) items")
    case None
    then show ?thesis using b refines_same [OF ok] by (simp add: mark_active_body_def)
  next
    case (Some i)
    then have "items' = update_match (has_id j) (leased E run) items"
      using b by (auto simp: mark_active_body_def bindR_Inr_iff split: if_splits)
    then show ?thesis
      using refines_update [OF ok Some, of "leased E run"]
      by (auto simp: lease_of_updates(1) intro: lease_claim)
  qed
qed

lemma retry_refines: "body_refines L A (retry_body j)"
proof (rule body_refinesI)
  fix items x items'
  assume ok: "items_ok L items" and b: "retry_body j items = Inr (x, Some items')"
  then obtain i where "find (retryable j) items = Some i" and "items' = update_match (retryable j) retried items"
    by (auto simp: retry_body_def split: option.splits)
  with refines_update [OF ok, of "retryable j" i retried] show "refines_to A items items'"
    by (auto simp: lease_of_updates intro: lease_release)
qed

text \<open>Recovery releases some leases and touches nothing else.\<close>

definition recovered_from :: "queue_env \<Rightarrow> int \<Rightarrow> queue_item \<Rightarrow> queue_item \<Rightarrow> bool" where
  "recovered_from E secs i i' \<longleftrightarrow> i' = i
     \<or> q_status i = ACTIVE \<and> lease_stale E secs i = Inr True
       \<and> i' = i\<lparr>q_status := INTERRUPTED, q_run := None, q_beat := None\<rparr>"

lemma recover_all:
  assumes "recover_interrupted_locked E secs items = Inr (items1, recovered)"
  shows "list_all2 (recovered_from E secs) items items1"
proof -
  obtain rs where rs: "mapR (recover_item E secs) items = Inr rs" "items1 = map fst rs"
    using assms by (auto simp: recover_interrupted_locked_def bindR_Inr_iff)
  have "recover_item E secs i = Inr p \<Longrightarrow> recovered_from E secs i (fst p)" for i p
    by (auto simp: recover_item_def recovered_from_def bindR_Inr_iff split: if_splits)
  with mapR_all [OF rs(1)] rs(2) show ?thesis
    by (auto simp: list_all2_conv_all_nth)
qed

lemma recovered_lease:
  assumes "recovered_from E secs i i'"
  shows "q_id i' = q_id i \<and> shape_ok i' = shape_ok i
    \<and> (lease_of i' = lease_of i \<or> (\<exists>st. lease_of i' = (lease_of i)\<lparr>l_status := st, l_run := None\<rparr>))"
  using assms by (auto simp: recovered_from_def lease_of_def shape_ok_def)

lemma recovered_ids: "list_all2 (recovered_from E secs) items items1 \<Longrightarrow> map q_id items1 = map q_id items"
  by (induction rule: list_all2_induct) (auto dest: recovered_lease)

lemma recovered_valid:
  "list_all2 (recovered_from E secs) items items1 \<Longrightarrow> items_ok L items \<Longrightarrow> items_ok L items1"
proof -
  assume r: "list_all2 (recovered_from E secs) items items1" and ok: "items_ok L items"
  have "recovered_from E secs i i' \<Longrightarrow> item_valid L i \<Longrightarrow> item_valid L i'" for i i'
    by (auto simp: recovered_from_def item_valid_def TERMINAL_STATUSES_def)
  then have "list_all (item_valid L) items1"
    using r ok by (auto simp: items_ok_def list_all2_conv_all_nth list_all_length)
  then show ?thesis using recovered_ids [OF r] ok by (simp add: items_ok_def)
qed

lemma recovered_refines:
  assumes "list_all2 (recovered_from E secs) items items1" and "items_ok L items"
  shows "refines_to A items items1"
proof -
  have "(lease_step A)\<^sup>*\<^sup>* (leases ([] @ items)) (leases ([] @ items1))"
    using assms(2) recovered_lease
    by (intro release_list list_all2_mono [OF assms(1)]) (auto simp: items_ok_def)
  then show ?thesis
    using items_ok_shape [OF recovered_valid [OF assms]] by (simp add: refines_to_def)
qed

lemma recover_refines: "body_refines L A (recover_body E secs)"
proof (rule body_refinesI)
  fix items x items'
  assume ok: "items_ok L items" and b: "recover_body E secs items = Inr (x, Some items')"
  then obtain rec where "recover_interrupted_locked E secs items = Inr (items', rec)"
    by (auto simp: recover_body_def bindR_Inr_iff split: if_splits)
  from recovered_refines [OF recover_all [OF this] ok] show "refines_to A items items'" .
qed

lemma claim_body_cases:
  assumes "claim_body E run secs items = Inr (x, res)"
  obtains items1 rec where "recover_interrupted_locked E secs items = Inr (items1, rec)"
    and "x = None" and "find is_runnable items1 = None" and "res = (if rec \<noteq> [] then Some items1 else None)"
  | items1 rec i where "recover_interrupted_locked E secs items = Inr (items1, rec)"
    and "x = Some (leased E run i)" and "find is_runnable items1 = Some i"
    and "res = Some (update_match is_runnable (leased E run) items1)"
  using assms by (auto simp: claim_body_def bindR_Inr_iff split: option.splits)

lemma claim_refines: "body_refines L A (claim_body E run secs)"
proof (rule body_refinesI)
  fix items x items'
  assume ok: "items_ok L items" and b: "claim_body E run secs items = Inr (x, Some items')"
  from b show "refines_to A items items'"
  proof (cases rule: claim_body_cases)
    case (1 items1 rec)
    then show ?thesis using recovered_refines [OF recover_all ok] by (auto split: if_splits)
  next
    case (2 items1 rec i)
    note r = recover_all [OF 2(1)]
    have i: "items' = update_match is_runnable (leased E run) items1" using 2(4) by simp
    have "refines_to A items1 items'"
      unfolding i by (rule refines_update [OF recovered_valid [OF r ok] 2(3)])
        (auto simp: lease_of_updates(1) intro: lease_claim)
    moreover have "refines_to A items items1" by (rule recovered_refines [OF r ok])
    moreover have "distinct (map q_id items1)" using recovered_valid [OF r ok] by (simp add: items_ok_def)
    ultimately show ?thesis by (auto simp: refines_to_def)
  qed
qed

lemma add_refines:
  assumes "cmd_ok (Add i)"
  shows "body_refines L {q_id (completed_item E i)} (add_body E i)"
proof (rule body_refinesI)
  fix items x items'
  let ?i = "completed_item E i"
  assume ok: "items_ok L items" and b: "add_body E i items = Inr (x, Some items')"
  then have i: "items' = items @ [?i]" by (simp add: add_body_def Let_def)
  have sh: "shape_ok ?i"
    using assms by (simp add: completed_item_def shape_ok_def extra_ok_def Let_def)
  have "lease_step {q_id ?i} (leases items) (leases items')" if "distinct (map q_id items')"
  proof -
    have n: "q_id ?i \<notin> q_id ` set items" using that i by simp
    then have "q_id ?i \<notin> dom (leases items)" by (simp add: leases_def dom_map_of_conv_image_fst image_image)
    then have "leases items' = (leases items)(q_id ?i \<mapsto> lease_of ?i)" and "leases items (q_id ?i) = None"
      unfolding i by (simp_all add: leases_def map_add_upd_left domIff)
    then show ?thesis by (simp add: lease_add)
  qed
  then show "refines_to {q_id ?i} items items'"
    using items_ok_shape [OF ok] sh i by (auto simp: refines_to_def)
qed

end
