(* ===== verification/QueueSafety.thy ===== *)
theory QueueSafety
  imports QueueLease
begin

text \<open>
  The properties of the transfer queue: every command refines the lease table, claims take only
  free jobs, a lost lease is fenced off, commands keep the file readable except for one that
  does not, a corrupt file and the queue's key are never overwritten.
\<close>

section \<open>Commands refine the table\<close>

lemma reset_file:
  assumes "queue_reset E s = (r, s')"
  shows "committed L (qd_file (snd s')) = committed L (qd_file (snd s))
    \<or> committed L (qd_file (snd s')) = Some []"
proof (cases "qe_lock E")
  case True
  let ?s = "((fst s)\<lparr>m_corrupt := False, m_had_encrypted := False, m_items := []\<rparr>, snd s)"
  have q: "save_locked E ?s = (r, s')" using assms True by (simp add: queue_reset_def locked_def)
  show ?thesis using save_locked_file [OF q, of L] by (cases r) (auto simp: items_ok_def)
qed (use assms in \<open>simp add: queue_reset_def locked_def\<close>)

lemmas update_refines_disk = update_queue_refines [where s = "(m, d)" for m d, unfolded snd_conv]

lemmas bodies_refine = remove_refines set_status_refines mark_active_refines touch_refines
  recover_refines claim_refines retry_refines clear_done_refines

lemma exec_refines:
  assumes "cmd_ok c"
  shows "(lease_step (cmd_adds (E, m, c)))\<^sup>*\<^sup>* (table (qe_iso E) d) (table (qe_iso E) (snd (exec E c (m, d))))"
proof -
  note [simp] = queue_add_def queue_remove_def update_status_def mark_active_def touch_def
    recover_interrupted_def claim_next_def retry_def clear_done_def
  show ?thesis
  proof (cases c)
    case (Add i)
    then show ?thesis using update_queue_refines [OF add_refines, of i E E "(m, d)"] assms by simp
  next
    case Reset
    obtain r s' where r: "queue_reset E (m, d) = (r, s')" by (metis surj_pair)
    have "table (qe_iso E) (snd s') = table (qe_iso E) d \<or> table (qe_iso E) (snd s') = Map.empty"
      using reset_file [OF r, of "qe_iso E"] by (auto simp: table_def leases_def)
    then show ?thesis using Reset r drop_all [OF table_finite] by (auto simp: after_def)
  qed (simp_all add: update_refines_disk bodies_refine)
qed

lemma queue_step_refines:
  "(lease_step (cmd_adds x))\<^sup>*\<^sup>* (table L d) (table L (queue_step L x d))"
proof -
  obtain E m c where x: "x = (E, m, c)" by (metis prod_cases3)
  show ?thesis using exec_refines [of c E m d] by (auto simp: x queue_step_def)
qed

interpretation fenced: fenced_store "table L" "queue_step L" cmd_adds for L
  by unfold_locales (rule queue_step_refines)

text \<open>
  C9: the queue refines its lease table. Whatever commands any number of managers run on the
  file, with whatever answers of the operating system, the table read from the file afterwards is
  reached from the one before by table steps alone, which add only jobs that were added.
\<close>

theorem queue_refines_leases:
  "(lease_step (\<Union> (cmd_adds ` set xs)))\<^sup>*\<^sup>* (table L d) (table L (fold (queue_step L) xs d))"
  by (rule fenced.run_refines)

section \<open>Claiming\<close>

definition free_job :: "queue_env \<Rightarrow> int \<Rightarrow> queue_item \<Rightarrow> bool" where
  "free_job E secs i \<longleftrightarrow> is_runnable i \<or> q_status i = ACTIVE \<and> lease_stale E secs i = Inr True"

text \<open>How a job looks before and after a claim of \<open>i\<close>.\<close>

definition claimed_from :: "queue_env \<Rightarrow> int \<Rightarrow> queue_item \<Rightarrow> queue_item \<Rightarrow> queue_item \<Rightarrow> bool" where
  "claimed_from E secs i x y \<longleftrightarrow>
     (if q_id x = q_id i then y = core i \<and> free_job E secs x \<and> q_epoch i = q_epoch x + 1
      else recovered_from E secs x y)"

lemma items_ok_update:
  assumes "items_ok L items" and "find p items = Some i" and "item_valid L i \<Longrightarrow> item_valid L (f i)"
    and "q_id (f i) = q_id i"
  shows "items_ok L (update_match p f items)"
proof -
  from find_split [OF assms(2)] obtain ys zs where "items = ys @ i # zs"
    "update_match p f items = ys @ f i # zs" by blast
  then show ?thesis using assms(1,3,4) by (simp add: items_ok_def)
qed

lemma leases_lookup:
  assumes "distinct (map q_id items)" and "x \<in> set items"
  shows "leases items (q_id x) = Some (lease_of x)"
proof -
  from assms(2) obtain ys zs where "items = ys @ x # zs" by (auto dest: split_list)
  with leases_mid(2) [of ys x zs x] assms(1) show ?thesis by simp
qed

lemma leased_valid:
  assumes "iso_ok (qe_iso E)" and "item_valid (qe_iso E) i" and "q_finished i = None"
  shows "item_valid (qe_iso E) (leased E run i)"
  using assms by (simp add: item_valid_def leased_def)

lemma runnable_unfinished: "item_valid L i \<Longrightarrow> is_runnable i \<Longrightarrow> q_finished i = None"
  by (auto simp: item_valid_def is_runnable_def TERMINAL_STATUSES_def)

lemma recovered_core: "recovered_from E secs i i' \<Longrightarrow> recovered_from E secs (core i) (core i')"
  by (auto simp: recovered_from_def core_def lease_stale_def)

lemma recovered_free: "recovered_from E secs i i' \<Longrightarrow> is_runnable i' \<Longrightarrow> free_job E secs i"
  by (auto simp: recovered_from_def free_job_def)

lemma claim_result:
  assumes "claim_next E run secs s = (Inr (Some i), s')" and "iso_ok (qe_iso E)"
  shows "\<exists>items items1 i0. committed (qe_iso E) (qd_file (snd s)) = Some (map core items)
    \<and> items_ok (qe_iso E) items \<and> list_all2 (recovered_from E secs) items items1
    \<and> find is_runnable items1 = Some i0 \<and> i = leased E run i0
    \<and> committed (qe_iso E) (qd_file (snd s'))
        = Some (map core (update_match is_runnable (leased E run) items1))
    \<and> items_ok (qe_iso E) (update_match is_runnable (leased E run) items1)"
proof -
  let ?L = "qe_iso E"
  have n: "claim_body E run secs items \<noteq> Inr (Some i, None)" for items
    by (auto elim!: claim_body_cases)
  from update_queue_facts [OF assms(1) [unfolded claim_next_def]] n
  obtain items items' where c: "committed ?L (qd_file (snd s)) = Some (map core items)" "items_ok ?L items"
    and b: "claim_body E run secs items = Inr (Some i, Some items')"
    and w: "list_all shape_ok items' \<longrightarrow> committed_as ?L items' (snd s')" by blast
  from b show ?thesis
  proof (cases rule: claim_body_cases)
    case (2 items1 rec i0)
    note r = recover_all [OF 2(1)] and v = recovered_valid [OF recover_all [OF 2(1)] c(2)]
    from find_split [OF 2(3)] have i0: "i0 \<in> set items1" "is_runnable i0" by auto
    then have "item_valid ?L i0" using v by (auto simp: items_ok_def list_all_iff)
    then have ok: "items_ok ?L (update_match is_runnable (leased E run) items1)"
      using leased_valid [OF assms(2)] runnable_unfinished i0(2)
      by (intro items_ok_update [OF v 2(3)]) auto
    then show ?thesis
      using c r 2 w items_ok_shape [OF ok] by (auto simp: committed_as_def)
  qed simp
qed

text \<open>
  A claim takes one free job and disturbs no other run. The claimed job was pending,
  interrupted or abandoned; it is leased to the claiming run with the next generation; every
  other job is unchanged, except that jobs whose heartbeat has expired become interrupted.
\<close>

theorem claim_takes_free_job:
  assumes "claim_next E run secs s = (Inr (Some i), s')" and "iso_ok (qe_iso E)"
  shows "\<exists>before later. committed (qe_iso E) (qd_file (snd s)) = Some before
    \<and> committed (qe_iso E) (qd_file (snd s')) = Some later
    \<and> q_id i \<in> q_id ` set before \<and> q_status i = ACTIVE \<and> q_run i = Some run
    \<and> list_all2 (claimed_from E secs i) before later"
proof -
  from claim_result [OF assms] obtain items items1 i0 where
    c: "committed (qe_iso E) (qd_file (snd s)) = Some (map core items)" "items_ok (qe_iso E) items"
    and r: "list_all2 (recovered_from E secs) items items1" and f: "find is_runnable items1 = Some i0"
    and i: "i = leased E run i0" and w: "committed (qe_iso E) (qd_file (snd s'))
        = Some (map core (update_match is_runnable (leased E run) items1))" by blast
  from find_split [OF f] obtain ys zs where s: "items1 = ys @ i0 # zs" "is_runnable i0"
    "update_match is_runnable (leased E run) items1 = ys @ i # zs" using i by blast
  have d: "distinct (map q_id items1)" using recovered_valid [OF r c(2)] by (simp add: items_ok_def)
  from r s(1) obtain xs x vs where x: "items = xs @ x # vs" "list_all2 (recovered_from E secs) xs ys"
    "recovered_from E secs x i0" "list_all2 (recovered_from E secs) vs zs"
    by (auto simp: list_all2_append2 list_all2_Cons2)
  have id: "q_id x = q_id i" "q_epoch i = q_epoch x + 1"
    using x(3) i by (auto simp: recovered_from_def leased_def)
  have free: "free_job E secs (core x)"
    using recovered_free [OF x(3) s(2)] by (simp add: free_job_def is_runnable_def lease_stale_def)
  have oth: "list_all2 (claimed_from E secs i) (map core as) (map core bs)"
    if "list_all2 (recovered_from E secs) as bs" and "q_id i \<notin> q_id ` set as" for as bs
  proof -
    have "q_id (as ! k) \<noteq> q_id i" if "k < length as" for k
      using that \<open>q_id i \<notin> q_id ` set as\<close> by (metis image_eqI nth_mem)
    then show ?thesis
      using that(1) recovered_core by (simp add: list_all2_conv_all_nth claimed_from_def)
  qed
  have "q_id i \<notin> q_id ` set xs" "q_id i \<notin> q_id ` set vs"
    using c(2) x(1) id(1) by (auto simp: items_ok_def)
  then have "list_all2 (claimed_from E secs i) (map core items) (map core (ys @ i # zs))"
    using oth [OF x(2)] oth [OF x(4)] x(1) id free by (auto simp: claimed_from_def intro!: list_all2_appendI)
  moreover have "q_id i \<in> q_id ` set (map core items)" using x(1) id(1) by auto
  moreover have "q_status i = ACTIVE \<and> q_run i = Some run" using i by (simp add: leased_def)
  ultimately show ?thesis using c(1) w s(3) by auto
qed

lemma claim_lease:
  assumes "claim_next E run secs s = (Inr (Some i), s')" and "iso_ok (qe_iso E)"
  shows "table (qe_iso E) (snd s') (q_id i) = Some \<lparr>l_status = ACTIVE, l_run = Some run, l_epoch = q_epoch i\<rparr>
    \<and> (\<exists>l. table (qe_iso E) (snd s) (q_id i) = Some l \<and> q_epoch i = l_epoch l + 1)"
proof -
  from claim_result [OF assms] obtain items items1 i0 where
    c: "committed (qe_iso E) (qd_file (snd s)) = Some (map core items)" "items_ok (qe_iso E) items"
    and r: "list_all2 (recovered_from E secs) items items1" and f: "find is_runnable items1 = Some i0"
    and i: "i = leased E run i0" and w: "committed (qe_iso E) (qd_file (snd s'))
        = Some (map core (update_match is_runnable (leased E run) items1))" by blast
  have d: "distinct (map q_id items1)" using recovered_valid [OF r c(2)] by (simp add: items_ok_def)
  note u = leases_update [OF d f, of "leased E run", simplified]
  have "lease_le (leases items (q_id i0)) (leases items1 (q_id i0))"
    using recovered_refines [OF r c(2), of "{}"] d by (auto simp: refines_to_def intro: lease_steps_le)
  moreover have "\<exists>x \<in> set items. q_id x = q_id i0 \<and> q_epoch x = q_epoch i0"
    using r find_split [OF f] by (fastforce simp: list_all2_append2 list_all2_Cons2 recovered_from_def)
  then obtain x where x: "x \<in> set items" "q_id x = q_id i0" "q_epoch x = q_epoch i0" by blast
  then have "leases items (q_id i0) = Some (lease_of x)"
    using c(2) by (metis items_ok_def leases_lookup)
  ultimately show ?thesis
    using u table_committed [OF c(1)] table_committed [OF w] x i
    by (auto simp: lease_of_def leased_def)
qed

section \<open>Fencing\<close>

definition fenced_off :: "iso_lib \<Rightarrow> queue_disk \<Rightarrow> string \<Rightarrow> int \<Rightarrow> bool" where
  "fenced_off L d j n \<longleftrightarrow> (case table L d j of None \<Rightarrow> True | Some l \<Rightarrow> n < l_epoch l)"

lemma fenced_item:
  assumes "fenced_off L d j n" and "committed L (qd_file d) = Some (map core items)"
    and "items_ok L items" and "find (has_id j) items = Some i"
  shows "n < q_epoch i" and "table L d j = Some (lease_of i)"
proof -
  from find_split [OF assms(4)] have "i \<in> set items" "q_id i = j" by (auto simp: has_id_def)
  then show "table L d j = Some (lease_of i)"
    using leases_lookup [of items i] assms(3) table_committed [OF assms(2)] by (auto simp: items_ok_def)
  then show "n < q_epoch i" using assms(1) by (simp add: fenced_off_def lease_of_def)
qed

lemma stale_touch:
  assumes "touch E j run (Some n) (m, d) = (r, s')" and "fenced_off (qe_iso E) d j n"
  shows "r \<noteq> Inr True \<and> committed (qe_iso E) (qd_file (snd s')) = committed (qe_iso E) (qd_file d)"
proof -
  have b: "touch_body E j run (Some n) items = Inr (False, None)"
    if "committed (qe_iso E) (qd_file d) = Some (map core items)" "items_ok (qe_iso E) items" for items
  proof (cases "find (has_id j) items")
    case (Some i)
    then show ?thesis using fenced_item [OF assms(2) that Some]
      by (simp add: touch_body_def owns_def)
  qed (simp add: touch_body_def)
  have e: "touch_body E j run (Some n) [] = Inr (False, None)" by (simp add: touch_body_def)
  from update_queue_facts [OF assms(1) [unfolded touch_def]] b e show ?thesis by fastforce
qed

lemma stale_update:
  assumes "update_status E j st err (Some run) (Some n) (m, d) = (r, s')" and "fenced_off (qe_iso E) d j n"
  shows "(table (qe_iso E) d j = None \<or> r \<noteq> Inr ())
    \<and> committed (qe_iso E) (qd_file (snd s')) = committed (qe_iso E) (qd_file d)"
proof -
  let ?L = "qe_iso E"
  have b: "if find (has_id j) items = None
      then update_status_body E j st err (Some run) (Some n) items = Inr ((), Some items)
        \<and> table ?L d j = None
      else \<exists>e. update_status_body E j st err (Some run) (Some n) items = Inl e"
    if "committed ?L (qd_file d) = Some (map core items)" "items_ok ?L items" for items
  proof (cases "find (has_id j) items")
    case (Some i)
    then show ?thesis using fenced_item [OF assms(2) that Some]
      by (simp add: update_status_body_def check_owner_def owns_def)
  next
    case None
    then have "leases items j = None"
      by (auto simp: leases_def map_of_eq_None_iff find_None_iff has_id_def)
    then show ?thesis using None table_committed [OF that(1)] by (simp add: update_status_body_def)
  qed
  have n: "update_status_body E j st err (Some run) (Some n) items \<noteq> Inr (x, None)" for items x
    by (auto simp: update_status_body_def bindR_Inr_iff split: option.splits)
  from update_queue_facts [OF assms(1) [unfolded update_status_def]] n
  consider "committed ?L (qd_file (snd s')) = committed ?L (qd_file d)" "r \<noteq> Inr ()"
    | items items' where "committed ?L (qd_file d) = Some (map core items)" "items_ok ?L items"
      "update_status_body E j st err (Some run) (Some n) items = Inr ((), Some items')"
      "list_all shape_ok items' \<longrightarrow> committed_as ?L items' (snd s')"
    by auto
  then show ?thesis
  proof cases
    case (2 items items')
    with b [OF 2(1,2)] have "items' = items" "table ?L d j = None" by (auto split: if_splits)
    then show ?thesis using 2 items_ok_shape [OF 2(2)] by (simp add: committed_as_def)
  qed simp
qed

lemma claims_fence:
  assumes "iso_ok L" and "qe_iso E1 = L" and "qe_iso E2 = L"
    and "claim_next E1 r1 secs1 (m1, d1) = (Inr (Some i), (m1', d2))"
    and "claim_next E2 r2 secs2 (m2, fold (queue_step L) xs d2) = (Inr (Some i'), (m2', d4))"
    and "q_id i' = q_id i" and "list_all (\<lambda>x. q_id i \<notin> cmd_adds x) (xs @ ys)"
  shows "q_epoch i < q_epoch i' \<and> fenced_off L (fold (queue_step L) ys d4) (q_id i) (q_epoch i)"
proof -
  note c1 = claim_lease [OF assms(4)] and c2 = claim_lease [OF assms(5)]
  have t: "table L d2 (q_id i) = Some \<lparr>l_status = ACTIVE, l_run = Some r1, l_epoch = q_epoch i\<rparr>"
    using c1 assms(1,2) by simp
  obtain l where l: "table L (fold (queue_step L) xs d2) (q_id i) = Some l" "q_epoch i' = l_epoch l + 1"
    and t': "table L d4 (q_id i) = Some \<lparr>l_status = ACTIVE, l_run = Some r2, l_epoch = q_epoch i'\<rparr>"
    using c2 assms(1,3,6) by auto
  have "lease_le (table L d2 (q_id i)) (table L (fold (queue_step L) xs d2) (q_id i))"
    using assms(7) by (intro fenced.run_le) (simp add: list_all_iff)
  then have lt: "q_epoch i < q_epoch i'" using t l by (auto simp: lease_le_def)
  have "case table L (fold (queue_step L) ys d4) (q_id i) of None \<Rightarrow> True | Some l' \<Rightarrow> q_epoch i < l_epoch l'"
    using assms(7) lt by (intro fenced.fenced [OF _ t']) (simp_all add: list_all_iff)
  then show ?thesis using lt by (simp add: fenced_off_def)
qed

text \<open>
  C7: no two runs ever hold the same job. When a job is claimed again, whatever commands ran in
  between, the new lease has a later generation than the old one, and from then on, whatever
  commands follow, the earlier run can neither renew the job's heartbeat nor record a result for
  it: its write is refused and the committed queue stays as it is.
\<close>

theorem lost_lease_is_fenced:
  assumes "iso_ok L" and "qe_iso E1 = L" and "qe_iso E2 = L" and "qe_iso E3 = L"
    and "claim_next E1 r1 secs1 (m1, d1) = (Inr (Some i), (m1', d2))"
    and "claim_next E2 r2 secs2 (m2, fold (queue_step L) xs d2) = (Inr (Some i'), (m2', d4))"
    and "q_id i' = q_id i" and "list_all (\<lambda>x. q_id i \<notin> cmd_adds x) (xs @ ys)"
    and "d5 = fold (queue_step L) ys d4"
  shows "q_epoch i < q_epoch i'
    \<and> (case touch E3 (q_id i) r1 (Some (q_epoch i)) (m3, d5) of (r, s') \<Rightarrow>
         r \<noteq> Inr True \<and> committed L (qd_file (snd s')) = committed L (qd_file d5))
    \<and> (case update_status E3 (q_id i) st err (Some r1) (Some (q_epoch i)) (m3, d5) of (r, s') \<Rightarrow>
         (table L d5 (q_id i) = None \<or> r \<noteq> Inr ())
         \<and> committed L (qd_file (snd s')) = committed L (qd_file d5))"
proof -
  from claims_fence [OF assms(1-3,5-8)] have lt: "q_epoch i < q_epoch i'"
    and f: "fenced_off (qe_iso E3) d5 (q_id i) (q_epoch i)" using assms(4,9) by simp_all
  show ?thesis
    using lt stale_touch [OF _ f] stale_update [OF _ f] assms(4) by (auto split: prod.splits)
qed

section \<open>The file stays readable\<close>

fun safe_cmd :: "queue_env \<Rightarrow> queue_cmd \<Rightarrow> queue_item list \<Rightarrow> bool" where
  "safe_cmd E (Add i) before \<longleftrightarrow> item_valid (qe_iso E) (completed_item E i)
     \<and> q_id (completed_item E i) \<notin> q_id ` set before"
| "safe_cmd E (SetStatus j st _ _ _) before \<longleftrightarrow> st \<in> set TERMINAL_STATUSES
     \<or> list_all (\<lambda>i. q_id i \<noteq> j \<or> q_finished i = None) before"
| "safe_cmd E (MarkActive j _ _) before \<longleftrightarrow> list_all (\<lambda>i. q_id i \<noteq> j \<or> q_finished i = None) before"
| "safe_cmd _ _ _ \<longleftrightarrow> True"

definition body_valid :: "iso_lib \<Rightarrow> queue_item list \<Rightarrow> 'a queue_body \<Rightarrow> bool" where
  "body_valid L before body \<longleftrightarrow> (\<forall>items x items'. before = map core items \<and> items_ok L items
     \<and> body items = Inr (x, Some items') \<longrightarrow> items_ok L items')"

lemma body_validI:
  assumes "\<And>items x items'. before = map core items \<Longrightarrow> items_ok L items \<Longrightarrow>
    body items = Inr (x, Some items') \<Longrightarrow> items_ok L items'"
  shows "body_valid L before body"
  unfolding body_valid_def using assms by blast

lemma items_ok_core: "items_ok L items \<Longrightarrow> items_ok L (map core items)"
  by (auto simp: items_ok_def list_all_iff item_valid_def core_def comp_def)

lemma committed_items_ok: "committed L f = Some before \<Longrightarrow> items_ok L before"
proof -
  assume c: "committed L f = Some before"
  show ?thesis
  proof (cases "f = None")
    case True
    then show ?thesis using c by (auto simp: committed_def items_ok_def)
  next
    case False
    with c obtain j es where "validate_queue L j = Inr es" "before = map core (map locked_item es)"
      by (auto simp: committed_def split: content.splits sum.splits)
    then show ?thesis using items_ok_core [OF validated_items_ok] by blast
  qed
qed

lemma update_queue_readable:
  assumes "body_valid (qe_iso E) before body" and "committed (qe_iso E) (qd_file d) = Some before"
  shows "\<exists>later. committed (qe_iso E) (qd_file (snd (after (update_queue E body (m, d))))) = Some later
    \<and> items_ok (qe_iso E) later"
proof -
  have ok: "items_ok (qe_iso E) before" by (rule committed_items_ok [OF assms(2)])
  obtain r s' where u: "update_queue E body (m, d) = (r, s')" by (metis surj_pair)
  from update_queue_facts [OF u] show ?thesis
  proof (elim disjE exE conjE)
    fix items items' x
    assume c: "committed (qe_iso E) (qd_file (snd (m, d))) = Some (map core items)"
      "items_ok (qe_iso E) items" "body items = Inr (x, Some items')"
      "list_all shape_ok items' \<longrightarrow> committed_as (qe_iso E) items' (snd s')"
    then have v: "items_ok (qe_iso E) items'" using assms by (auto simp: body_valid_def)
    then show ?thesis
      using c(4) u items_ok_shape [OF v] items_ok_core [OF v] by (simp add: committed_as_def after_def)
  qed (use u assms(2) ok in \<open>simp add: after_def\<close>)
qed

lemma set_status_valid:
  assumes "iso_ok L" and "qe_iso E = L" and "item_valid L i"
    and "st \<in> set TERMINAL_STATUSES \<or> q_finished i = None"
  shows "item_valid L (set_status E st err i)"
  using assms by (cases st) (simp_all add: set_status_def item_valid_def TERMINAL_STATUSES_def Let_def)

lemma retried_valid: "item_valid L i \<Longrightarrow> item_valid L (retried i)"
  by (simp add: item_valid_def retried_def)

lemma found_unfinished:
  assumes "list_all (\<lambda>i. q_id i \<noteq> j \<or> q_finished i = None) (map core items)"
    and "find (has_id j) items = Some i"
  shows "q_finished i = None"
  using assms find_split [OF assms(2)] by (auto simp: list_all_iff has_id_def)

lemma items_ok_filter: "items_ok L items \<Longrightarrow> items_ok L (filter P items)"
  by (auto simp: items_ok_def list_all_iff distinct_map_filter)

lemma claim_body_valid:
  assumes "iso_ok (qe_iso E)"
  shows "body_valid (qe_iso E) before (claim_body E run secs)"
proof (rule body_validI)
  fix items x items'
  assume ok: "items_ok (qe_iso E) items" and b: "claim_body E run secs items = Inr (x, Some items')"
  from b show "items_ok (qe_iso E) items'"
  proof (cases rule: claim_body_cases)
    case (1 items1 rec)
    then show ?thesis using recovered_valid [OF recover_all ok] by (auto split: if_splits)
  next
    case (2 items1 rec i0)
    note v = recovered_valid [OF recover_all [OF 2(1)] ok]
    from find_split [OF 2(3)] v have "is_runnable i0" by auto
    then have "items_ok (qe_iso E) (update_match is_runnable (leased E run) items1)"
      using leased_valid [OF assms] runnable_unfinished by (intro items_ok_update [OF v 2(3)]) auto
    then show ?thesis using 2(4) by simp
  qed
qed

lemma recover_body_valid: "body_valid L before (recover_body E secs)"
proof (rule body_validI)
  fix items x items'
  assume ok: "items_ok L items" and b: "recover_body E secs items = Inr (x, Some items')"
  then obtain rec where "recover_interrupted_locked E secs items = Inr (items', rec)"
    by (auto simp: recover_body_def bindR_Inr_iff split: if_splits)
  from recovered_valid [OF recover_all [OF this] ok] show "items_ok L items'" .
qed

lemma update_body_valid:
  assumes "iso_ok (qe_iso E)" and "safe_cmd E (SetStatus j st err run ep) before"
  shows "body_valid (qe_iso E) before (update_status_body E j st err run ep)"
proof (rule body_validI)
  fix items x items'
  assume bf: "before = map core items" and ok: "items_ok (qe_iso E) items"
    and b: "update_status_body E j st err run ep items = Inr (x, Some items')"
  show "items_ok (qe_iso E) items'"
  proof (cases "find (has_id j) items")
    case None
    then show ?thesis using b ok by (simp add: update_status_body_def)
  next
    case (Some i)
    then have i: "items' = update_match (has_id j) (set_status E st err) items"
      using b by (auto simp: update_status_body_def bindR_Inr_iff)
    have "st \<in> set TERMINAL_STATUSES \<or> q_finished i = None"
      using assms(2) bf found_unfinished [OF _ Some] by auto
    then show ?thesis unfolding i using set_status_valid [OF assms(1) refl]
      by (intro items_ok_update [OF ok Some]) auto
  qed
qed

lemma mark_body_valid:
  assumes "iso_ok (qe_iso E)" and "safe_cmd E (MarkActive j run secs) before"
  shows "body_valid (qe_iso E) before (mark_active_body E j run secs)"
proof (rule body_validI)
  fix items x items'
  assume bf: "before = map core items" and ok: "items_ok (qe_iso E) items"
    and b: "mark_active_body E j run secs items = Inr (x, Some items')"
  show "items_ok (qe_iso E) items'"
  proof (cases "find (has_id j) items")
    case None
    then show ?thesis using b ok by (simp add: mark_active_body_def)
  next
    case (Some i)
    then have i: "items' = update_match (has_id j) (leased E run) items"
      using b by (auto simp: mark_active_body_def bindR_Inr_iff split: if_splits)
    have "q_finished i = None" using assms(2) bf found_unfinished [OF _ Some] by auto
    then show ?thesis unfolding i using leased_valid [OF assms(1)]
      by (intro items_ok_update [OF ok Some]) auto
  qed
qed

lemma touch_body_valid:
  assumes "iso_ok (qe_iso E)"
  shows "body_valid (qe_iso E) before (touch_body E j run ep)"
proof (rule body_validI)
  fix items x items'
  assume ok: "items_ok (qe_iso E) items" and b: "touch_body E j run ep items = Inr (x, Some items')"
  then obtain i where f: "find (has_id j) items = Some i" and a: "q_status i = ACTIVE"
    and i: "items' = update_match (has_id j) (\<lambda>i. i\<lparr>q_beat := Some (stamp_now E)\<rparr>) items"
    by (auto simp: touch_body_def split: option.splits if_splits)
  show "items_ok (qe_iso E) items'"
    unfolding i using a assms by (intro items_ok_update [OF ok f]) (simp_all add: item_valid_def)
qed

lemma retry_body_valid: "body_valid L before (retry_body j)"
proof (rule body_validI)
  fix items x items'
  assume ok: "items_ok L items" and b: "retry_body j items = Inr (x, Some items')"
  then obtain i where f: "find (retryable j) items = Some i" and i: "items' = update_match (retryable j) retried items"
    by (auto simp: retry_body_def split: option.splits)
  show "items_ok L items'"
    unfolding i using retried_valid by (intro items_ok_update [OF ok f]) auto
qed

lemma add_body_valid:
  "safe_cmd E (Add i) before \<Longrightarrow> body_valid (qe_iso E) before (add_body E i)"
  by (rule body_validI) (auto simp: add_body_def Let_def items_ok_def image_iff)

lemma remove_body_valid: "body_valid L before (remove_body j)"
  by (rule body_validI) (auto simp: remove_body_def Let_def intro: items_ok_filter split: if_splits)

lemma clear_body_valid: "body_valid L before clear_done_body"
  by (rule body_validI)
    (auto simp: clear_done_body_def Let_def simp del: list.set intro: items_ok_filter split: if_splits)

text \<open>
  The queue stays readable. On a readable queue, every command that does not reopen a finished
  job or add a job the format cannot hold leaves a queue that loads, with distinct identifiers
  and valid jobs, whether it succeeds, is refused or fails in the operating system.
\<close>

theorem queue_stays_readable:
  assumes "iso_ok (qe_iso E)" and "committed (qe_iso E) (qd_file d) = Some before" and "safe_cmd E c before"
  shows "\<exists>later. committed (qe_iso E) (qd_file (snd (exec E c (m, d)))) = Some later
    \<and> items_ok (qe_iso E) later"
proof -
  note up = update_queue_readable [OF _ assms(2)]
  note [simp] = queue_add_def queue_remove_def update_status_def mark_active_def touch_def
    recover_interrupted_def claim_next_def retry_def clear_done_def
  show ?thesis
  proof (cases c)
    case Reset
    obtain r s' where r: "queue_reset E (m, d) = (r, s')" by (metis surj_pair)
    show ?thesis using reset_file [OF r, of "qe_iso E"] Reset r assms(2) committed_items_ok [OF assms(2)]
      by (auto simp: after_def items_ok_def)
  qed (use assms in \<open>simp_all add: up add_body_valid remove_body_valid update_body_valid
      mark_body_valid touch_body_valid recover_body_valid claim_body_valid retry_body_valid clear_body_valid
      del: safe_cmd.simps\<close>)
qed

text \<open>
  C39: reopening a finished job destroys the queue. Setting a job that carries a finish time to a
  status that is not terminal reports success, but leaves the finish time in place, and the file
  it writes is one that every later load rejects as corrupt.
\<close>

theorem reopening_finished_corrupts:
  assumes "update_status E j st err None ep (m, d) = (Inr (), s')"
    and "committed (qe_iso E) (qd_file d) = Some before" and "find (has_id j) before = Some x"
    and "q_finished x \<noteq> None" and "st \<notin> set TERMINAL_STATUSES"
  shows "committed (qe_iso E) (qd_file (snd s')) = None"
proof -
  let ?L = "qe_iso E"
  have n: "update_status_body E j st err None ep items \<noteq> Inr (u, None)" for items u
    by (auto simp: update_status_body_def bindR_Inr_iff split: option.splits)
  from update_queue_facts [OF assms(1) [unfolded update_status_def]] n
  obtain items items' where c: "before = map core items" "items_ok ?L items"
    and b: "update_status_body E j st err None ep items = Inr ((), Some items')"
    and w: "list_all shape_ok items' \<longrightarrow> committed_as ?L items' (snd s')"
    using assms(2) by auto
  have "find (has_id j) (map core items) = map_option core (find (has_id j) items)"
    by (rule find_core) (simp add: has_id_def)
  with assms(3) c(1) obtain i where f: "find (has_id j) items = Some i" and x: "x = core i" by auto
  then have i: "items' = update_match (has_id j) (set_status E st err) items"
    using b by (auto simp: update_status_body_def bindR_Inr_iff check_owner_def)
  have "\<not> item_valid ?L (set_status E st err i)"
    using assms(4,5) x by (cases st) (auto simp: item_valid_def set_status_def TERMINAL_STATUSES_def Let_def)
  then have "\<not> items_ok ?L items'"
    using find_split [OF f] i by (auto simp: items_ok_def)
  moreover have "list_all shape_ok items'"
    using i update_match_shape [OF items_ok_shape [OF c(2)]] by simp
  ultimately show ?thesis using w by (simp add: committed_as_def)
qed

section \<open>Corrupt files\<close>

lemma mark_corrupt_siblings:
  "set (qd_siblings (snd s)) \<subseteq> set (qd_siblings (snd (mark_corrupt E x s)))
   \<and> (case m_backup (fst (mark_corrupt E (Some c) s)) of None \<Rightarrow> True
      | Some b \<Rightarrow> (b, c) \<in> set (qd_siblings (snd (mark_corrupt E (Some c) s))))"
proof -
  have p: "set dir \<subseteq> set dir' \<and> (\<forall>b. r = Some b \<longrightarrow> (b, c) \<in> set dir')"
    if "preserve_corrupt_file io name c dir = (r, dir')" for io name c dir r dir'
  proof (cases "existing_backup_for dir name (bk_digest io c) c")
    case (Some f)
    then show ?thesis using that find_backup [OF Some] by (auto simp: preserve_corrupt_file_def Let_def)
  next
    case None
    then have "try_backups io name (bk_digest io c) c [0..<100] dir = (r, dir')"
      using that by (simp add: preserve_corrupt_file_def Let_def)
    from try_backups_facts [OF this] show ?thesis by (auto dest: map_of_SomeD)
  qed
  show ?thesis
    by (cases x) (auto simp: mark_corrupt_def Let_def split: prod.splits option.splits dest: p)
qed

lemma load_corrupt:
  assumes "committed (qe_iso E) (qd_file (snd s)) = None" and "qe_read E"
  shows "\<exists>c s'. qd_file (snd s) = Some c \<and> load E s = (Inr (), s') \<and> m_corrupt (fst s')
    \<and> m_items (fst s') = [] \<and> qd_file (snd s') = Some c \<and> set (qd_siblings (snd s)) \<subseteq> set (qd_siblings (snd s'))
    \<and> (case m_backup (fst s') of None \<Rightarrow> True | Some b \<Rightarrow> (b, c) \<in> set (qd_siblings (snd s')))"
proof -
  from assms(1) obtain c where c: "qd_file (snd s) = Some c" by (cases "qd_file (snd s)") (auto simp: committed_def)
  let ?s = "((fst s)\<lparr>m_needs_migration := False, m_corrupt := False, m_backup := None,
      m_had_encrypted := False\<rparr>, snd s)"
  have "load E s = (Inr (), mark_corrupt E (Some c) ?s)"
    using assms c by (auto simp: load_def committed_def Let_def split: content.splits sum.splits
        dest: validate_queue_error)
  then show ?thesis
    using c mark_corrupt_siblings [of ?s E "Some c" c] mark_corrupt_facts [of E "Some c" ?s] by auto
qed

text \<open>The file as it was, nothing beside it lost, and a named backup that is exact.\<close>

definition left_corrupt :: "queue_disk \<Rightarrow> queue_state \<Rightarrow> bool" where
  "left_corrupt d s' \<longleftrightarrow> qd_file (snd s') = qd_file d \<and> m_corrupt (fst s')
     \<and> set (qd_siblings d) \<subseteq> set (qd_siblings (snd s'))
     \<and> (case m_backup (fst s') of None \<Rightarrow> True
        | Some b \<Rightarrow> (b, the (qd_file d)) \<in> set (qd_siblings (snd s')))"

lemma update_queue_after:
  assumes "qe_lock E" and "load E s = (r, s1)"
  shows "after (update_queue E body s) = s1
    \<or> (\<exists>items. after (update_queue E body s) = snd (save_locked E ((fst s1)\<lparr>m_items := items\<rparr>, snd s1)))"
proof (cases r)
  case (Inl e)
  then show ?thesis using assms by (simp add: update_queue_def locked_def after_def)
next
  case (Inr u)
  show ?thesis
  proof (cases "\<exists>x items. body (m_items (fst s1)) = Inr (x, Some items)")
    case True
    then obtain x items where b: "body (m_items (fst s1)) = Inr (x, Some items)" by blast
    obtain q s2 where "save_locked E ((fst s1)\<lparr>m_items := items\<rparr>, snd s1) = (q, s2)" by (metis surj_pair)
    then show ?thesis using assms Inr b
      by (intro disjI2 exI [of _ items]) (cases q; simp add: update_queue_def locked_def after_def)
  next
    case False
    then show ?thesis using assms Inr
      by (auto simp: update_queue_def locked_def after_def split: sum.splits option.splits)
  qed
qed

lemma update_queue_corrupt:
  assumes "committed (qe_iso E) (qd_file d) = None" and "qe_read E" and "qe_lock E"
  shows "left_corrupt d (after (update_queue E body (m, d)))"
proof -
  from load_corrupt [of E "(m, d)", unfolded snd_conv, OF assms(1,2)] obtain c s1 where
    b: "qd_file d = Some c" "qd_file (snd s1) = Some c" "set (qd_siblings d) \<subseteq> set (qd_siblings (snd s1))"
      "case m_backup (fst s1) of None \<Rightarrow> True | Some b \<Rightarrow> (b, c) \<in> set (qd_siblings (snd s1))"
    and l: "load E (m, d) = (Inr (), s1)" "m_corrupt (fst s1)" by blast
  have k: "left_corrupt d s1"
    using b l(2) by (cases "m_backup (fst s1)") (simp_all add: left_corrupt_def)
  have sv: "save_locked E ((fst s1)\<lparr>m_items := items\<rparr>, snd s1)
      = (raise QueueCorruptionError, ((fst s1)\<lparr>m_items := items\<rparr>, snd s1))" for items
    using l(2) by (simp add: save_locked_def)
  have keep: "left_corrupt d ((fst s1)\<lparr>m_items := items\<rparr>, snd s1)" for items
    using k by (cases "m_backup (fst s1)") (simp_all add: left_corrupt_def)
  show ?thesis using update_queue_after [OF assms(3) l(1), of body] k sv keep by auto
qed

text \<open>
  A corrupt queue file is never overwritten. Every command but an explicit reset leaves it as
  it is, marks the manager corrupt and keeps everything beside it; and a backup that the manager
  names holds exactly the corrupt content.
\<close>

theorem corrupt_queue_untouched:
  assumes "committed (qe_iso E) (qd_file d) = None" and "qe_read E" and "qe_lock E" and "c \<noteq> Reset"
  shows "left_corrupt d (exec E c (m, d))"
  using assms(4)
  by (cases c) (simp_all add: queue_add_def queue_remove_def update_status_def mark_active_def touch_def
    recover_interrupted_def claim_next_def retry_def clear_done_def update_queue_corrupt [OF assms(1-3)])

section \<open>The queue key\<close>

lemma load_key_no_create: "kb_file (snd (load_key io False B)) = kb_file B"
  by (simp add: load_key_def split: option.splits)

lemma secret_decrypt_file: "kb_file (snd (secret_decrypt A io token B)) = kb_file B"
  using load_key_no_create [of io B]
  by (auto simp: secret_decrypt_def split: sum.splits option.splits prod.splits)

lemma deserialize_file: "deserialize A io e B = (x, B') \<Longrightarrow> kb_file B' = kb_file B"
  using secret_decrypt_file [of A io "the (opt_member ''enc_password'' e)" B]
  by (auto simp: deserialize_def Let_def split: if_splits sum.splits prod.splits)

lemma deserialize_all_file: "deserialize_all E es B = (x, B') \<Longrightarrow> kb_file B' = kb_file B"
proof (induction E es B arbitrary: x B' rule: deserialize_all.induct)
  case (2 E e es B)
  obtain i mi B1 where i: "deserialize (qe_aead E) (qe_key E) e B = ((i, mi), B1)" by (metis surj_pair)
  obtain r B2 where r: "deserialize_all E es B1 = (r, B2)" by (metis surj_pair)
  have "B' = B2" using "2.prems" i r by (auto split: prod.splits)
  then show ?case using "2.IH" [OF i [symmetric] refl r] deserialize_file [OF i] by simp
qed simp

lemma serialize_file: "serialize A io nonce True i B = (x, B') \<Longrightarrow> kb_file B' = kb_file B"
  using load_key_no_create [of io B]
  by (auto simp: serialize_def secret_encrypt_def split: if_splits sum.splits option.splits prod.splits)

lemma serialize_all_file: "serialize_all E True n items B = (x, B') \<Longrightarrow> kb_file B' = kb_file B"
proof (induction E "True" n items B arbitrary: x B' rule: serialize_all.induct)
  case (2 E n i rest B)
  obtain r B1 where i: "serialize (qe_aead E) (qe_key E) (qe_nonce E n) True i B = (r, B1)"
    by (metis surj_pair)
  show ?case
  proof (cases r)
    case (Inl e)
    then show ?thesis using "2.prems" i serialize_file [OF i] by simp
  next
    case (Inr j)
    obtain q B2 where q: "serialize_all E True (Suc n) rest B1 = (q, B2)" by (metis surj_pair)
    have "B' = B2" using "2.prems" i Inr q by (auto split: sum.splits)
    then show ?thesis using "2.hyps" [OF i [symmetric] Inr q] serialize_file [OF i] by simp
  qed
qed simp

lemma save_locked_key:
  assumes "m_had_encrypted (fst s)"
  shows "qd_key (snd (snd (save_locked E s))) = qd_key (snd s) \<and> m_had_encrypted (fst (snd (save_locked E s)))"
proof -
  obtain q B where q: "serialize_all E True 0 (m_items (fst s)) (box_of s) = (q, B)" by fastforce
  have "kb_file B = qd_key (snd s)" using serialize_all_file [OF q] by (simp add: box_of_def)
  then show ?thesis
    using assms q by (auto simp: save_locked_def atomic_write_text_def Let_def
        split: temp_outcome.splits sum.splits)
qed

lemma load_key_kept:
  assumes "qd_file (snd s) = Some (Doc j)" and "validate_queue (qe_iso E) j = Inr es"
    and "list_ex has_secret es" and "load E s = (r, s')"
  shows "qd_key (snd s') = qd_key (snd s) \<and> m_had_encrypted (fst s')"
proof (cases "qe_read E")
  case False
  then show ?thesis using assms(1,4)
    by (auto simp: load_def Let_def mark_corrupt_facts mark_corrupt_def)
next
  case True
  let ?m = "(fst s)\<lparr>m_needs_migration := False, m_corrupt := False, m_backup := None, m_had_encrypted := False\<rparr>"
  have v: "load_validated E es (?m, snd s) = (r, s')"
    using assms True by (simp add: load_def Let_def)
  obtain items mig B where d: "deserialize_all E es (box_of (?m, snd s)) = ((items, mig), B)" by (metis surj_pair)
  have B: "kb_file B = qd_key (snd s)" using deserialize_all_file [OF d] by (simp add: box_of_def)
  let ?s2 = "((fst (put_box B (?m, snd s)))\<lparr>m_had_encrypted := list_ex has_secret es, m_items := items,
      m_needs_migration := mig\<rparr>, snd (put_box B (?m, snd s)))"
  have "s' = ?s2 \<or> s' = snd (save_locked E ?s2)"
    using v d by (auto simp: load_validated_def Let_def split: if_splits sum.splits prod.splits)
  then show ?thesis using save_locked_key [of ?s2 E] assms(3) B by auto
qed

lemma update_queue_key:
  assumes "qd_file d = Some (Doc j)" and "validate_queue (qe_iso E) j = Inr es" and "list_ex has_secret es"
  shows "qd_key (snd (after (update_queue E body (m, d)))) = qd_key d"
proof (cases "qe_lock E")
  case True
  obtain r s1 where l: "load E (m, d) = (r, s1)" by (metis surj_pair)
  from load_key_kept [of "(m, d)", unfolded snd_conv, OF assms l]
  have k: "qd_key (snd s1) = qd_key d" "m_had_encrypted (fst s1)" by simp_all
  have "qd_key (snd (snd (save_locked E ((fst s1)\<lparr>m_items := items\<rparr>, snd s1)))) = qd_key d" for items
    using save_locked_key [of "((fst s1)\<lparr>m_items := items\<rparr>, snd s1)" E] k by simp
  then show ?thesis using update_queue_after [OF True l, of body] k(1) by auto
qed (simp add: update_queue_def locked_def after_def)

lemma reset_key: "qd_key (snd (after (queue_reset E (m, d)))) = qd_key d"
  by (auto simp: queue_reset_def locked_def save_locked_def after_def atomic_write_text_def Let_def box_of_def
      split: temp_outcome.splits sum.splits)

text \<open>
  Stored secrets are never orphaned. While the queue file holds an encrypted password, no
  command of any manager changes, replaces or creates the key file, so a password that could be
  unlocked before can be unlocked afterwards.
\<close>

theorem queue_key_never_replaced:
  assumes "qd_file d = Some (Doc j)" and "validate_queue (qe_iso E) j = Inr es" and "list_ex has_secret es"
  shows "qd_key (snd (exec E c (m, d))) = qd_key d"
  by (cases c) (simp_all add: queue_add_def queue_remove_def update_status_def mark_active_def touch_def
    recover_interrupted_def claim_next_def retry_def clear_done_def update_queue_key [OF assms] reset_key)

section \<open>Examples\<close>

text \<open>A clock that prints instants in unary, an operating system that says yes, one queued job.\<close>

definition demo_iso :: iso_lib where
  "demo_iso = \<lparr>iso_parse = \<lambda>s. case s of [] \<Rightarrow> None
       | c # r \<Rightarrow> Some (if c = CHR ''P'' then int (length r) else - int (length r), True),
     iso_print = \<lambda>t. (if 0 \<le> t then CHR ''P'' else CHR ''N'') # replicate (nat \<bar>t\<bar>) (CHR ''1'')\<rparr>"

lemma demo_iso_ok: "iso_ok demo_iso"
  by (auto simp: iso_ok_def demo_iso_def)

definition demo_queue_env :: "int \<Rightarrow> queue_env" where
  "demo_queue_env t = \<lparr>qe_lock = True, qe_read = True, qe_mkdir = True, qe_temp = TempWritten, qe_unlink = True,
     qe_replace = \<lambda>_. Replaced,
     qe_backup = \<lparr>bk_digest = \<lambda>_. ''d'', bk_stamp = ''t'', bk_open = \<lambda>_. True, bk_write = \<lambda>_. True\<rparr>,
     qe_name = ''q'', qe_now = t, qe_uuid = ''u'', qe_iso = demo_iso, qe_aead = demo_aead,
     qe_key = demo_key_io, qe_nonce = \<lambda>_. replicate 12 1\<rparr>"

definition demo_job :: queue_item where
  "demo_job = \<lparr>q_id = ''a'', q_type = DOWNLOAD, q_source = ''u'', q_destination = [], q_size = 0,
     q_status = PENDING, q_error = None, q_account = None, q_password = None, q_created = Some [],
     q_finished = None, q_run = None, q_beat = None, q_epoch = 0, q_extra = [], q_enc = None\<rparr>"

definition queue_of :: "queue_item list \<Rightarrow> queue_disk" where
  "queue_of items = \<lparr>qd_file = Some (Doc (JArr (map (\<lambda>i. JObj (entry_of i None)) items))), qd_siblings = [],
     qd_key = None, qd_temps = []\<rparr>"

definition demo_claim :: "int \<Rightarrow> string \<Rightarrow> queue_disk \<Rightarrow> queue_item option py \<times> queue_state" where
  "demo_claim t run d = claim_next (demo_queue_env t) run 0 (fresh_manager, d)"

definition claimed_disk :: queue_disk where
  "claimed_disk = snd (snd (demo_claim 0 ''r'' (queue_of [demo_job])))"

definition first_lease :: queue_item where
  "first_lease = leased (demo_queue_env 0) ''r'' demo_job"

definition second_lease :: queue_item where
  "second_lease = leased (demo_queue_env 1) ''s'' first_lease"

lemma demo_env_iso [simp]: "qe_iso (demo_queue_env t) = demo_iso"
  by (simp add: demo_queue_env_def)

lemma demo_first_claim: "demo_claim 0 ''r'' (queue_of [demo_job])
  = (Inr (Some first_lease), (fst (snd (demo_claim 0 ''r'' (queue_of [demo_job]))), claimed_disk))"
  by (simp add: prod_eq_iff claimed_disk_def) code_simp

lemma demo_second_claim: "demo_claim 1 ''s'' claimed_disk
  = (Inr (Some second_lease), (fst (snd (demo_claim 1 ''s'' claimed_disk)), snd (snd (demo_claim 1 ''s'' claimed_disk))))"
  by (simp add: prod_eq_iff) code_simp

lemma claim_takes_free_job_witness:
  "\<exists>before later. committed demo_iso (qd_file (queue_of [demo_job])) = Some before
    \<and> committed demo_iso (qd_file claimed_disk) = Some later
    \<and> q_id first_lease \<in> q_id ` set before \<and> q_status first_lease = ACTIVE \<and> q_run first_lease = Some ''r''
    \<and> list_all2 (claimed_from (demo_queue_env 0) 0 first_lease) before later"
  using claim_takes_free_job [OF demo_first_claim [unfolded demo_claim_def]] demo_iso_ok by simp

lemma lost_lease_is_fenced_witness:
  "q_epoch first_lease < q_epoch second_lease
   \<and> (case touch (demo_queue_env 2) ''a'' ''r'' (Some 1)
        (fresh_manager, snd (snd (demo_claim 1 ''s'' claimed_disk))) of (r, s') \<Rightarrow>
      r \<noteq> Inr True \<and> committed demo_iso (qd_file (snd s'))
        = committed demo_iso (qd_file (snd (snd (demo_claim 1 ''s'' claimed_disk)))))"
proof -
  have f: "q_id first_lease = ''a''" "q_epoch first_lease = 1" "q_id second_lease = ''a''"
    by (simp_all add: first_lease_def second_lease_def leased_def demo_job_def)
  show ?thesis
    using lost_lease_is_fenced [OF demo_iso_ok demo_env_iso demo_env_iso demo_env_iso [of 2],
        where xs = "[]" and ys = "[]", unfolded fold_simps id_apply,
        OF demo_first_claim [unfolded demo_claim_def] demo_second_claim [unfolded demo_claim_def],
        of _ fresh_manager DONE None] f
    by (simp add: demo_claim_def)
qed

lemma demo_committed: "committed demo_iso (qd_file (queue_of [demo_job])) = Some [demo_job]"
  by code_simp

lemma queue_stays_readable_witness:
  "\<exists>later. committed demo_iso (qd_file (snd (exec (demo_queue_env 0) (Claim ''r'' 300)
      (fresh_manager, queue_of [demo_job])))) = Some later \<and> items_ok demo_iso later"
  using queue_stays_readable [of "demo_queue_env 0" "queue_of [demo_job]" "[demo_job]" "Claim ''r'' 300"]
    demo_iso_ok demo_committed by simp

definition done_job :: queue_item where
  "done_job = set_status (demo_queue_env 0) DONE None demo_job"

lemma reopening_finished_corrupts_witness:
  "committed demo_iso (qd_file (snd (snd (update_status (demo_queue_env 1) ''a'' INTERRUPTED None None None
      (fresh_manager, queue_of [done_job]))))) = None"
proof -
  have f: "fst (update_status (demo_queue_env 1) ''a'' INTERRUPTED None None None
      (fresh_manager, queue_of [done_job])) = Inr ()" by code_simp
  have c: "committed demo_iso (qd_file (queue_of [done_job])) = Some [done_job]" by code_simp
  have d: "q_finished done_job \<noteq> None" "find (has_id ''a'') [done_job] = Some done_job" by code_simp+
  show ?thesis
    using reopening_finished_corrupts [of "demo_queue_env 1" "''a''" INTERRUPTED None None fresh_manager
        "queue_of [done_job]" _ "[done_job]" done_job] f c d
    by (metis demo_env_iso prod.collapse list.set_intros TERMINAL_STATUSES_def list.set
        insert_iff empty_iff job_status.distinct)
qed

definition bad_queue :: queue_disk where
  "bad_queue = \<lparr>qd_file = Some (Raw [123]), qd_siblings = [], qd_key = None, qd_temps = []\<rparr>"

lemma corrupt_queue_untouched_witness:
  "left_corrupt bad_queue (exec (demo_queue_env 0) ClearDone (fresh_manager, bad_queue))"
  by (rule corrupt_queue_untouched) (simp_all add: bad_queue_def committed_def demo_queue_env_def)

definition secret_entry :: "(string \<times> json) list" where
  "secret_entry = entry_of demo_job (Some demo_token)"

definition secret_queue :: queue_disk where
  "secret_queue = \<lparr>qd_file = Some (Doc (JArr [JObj secret_entry])), qd_siblings = [],
     qd_key = Some [], qd_temps = []\<rparr>"

lemma queue_key_never_replaced_witness:
  "qd_key (snd (exec (demo_queue_env 0) (Claim ''r'' 300) (fresh_manager, secret_queue))) = Some []"
proof -
  have e: "validate_queue demo_iso (JArr [JObj secret_entry]) = Inr [secret_entry]" by code_simp
  have h: "list_ex has_secret [secret_entry]" by code_simp
  show ?thesis
    using queue_key_never_replaced [of secret_queue "JArr [JObj secret_entry]" "demo_queue_env 0" "[secret_entry]"] e h
    by (simp add: secret_queue_def del: exec.simps)
qed

end
