(* ===== verification/Helpers.thy ===== *)
theory Helpers
  imports StateFile Aead
begin

text \<open>
  \<open>utils/helpers.py\<close>: the file name a remote name becomes, and the reservation of destinations.
  The reservation is two tables, the locks the operating system holds for processes and the
  names each process has claimed; whether a candidate exists and may be resumed are arguments.
\<close>

section \<open>File names\<close>

definition MAX_FILENAME_BYTES :: nat where
  "MAX_FILENAME_BYTES = 240"

definition invalid_filename_char :: "char \<Rightarrow> bool" where
  "invalid_filename_char c \<longleftrightarrow> c \<in> set ''<>:/|?*'' \<or> of_char c = (34 :: nat) \<or> of_char c = (92 :: nat)
     \<or> of_char c < (32 :: nat)"

text \<open>\<open>bytes.decode("utf-8", "ignore")\<close>, for text of the model's characters.\<close>

fun utf8_ignore :: "bytes \<Rightarrow> string" where
  "utf8_ignore [] = []"
| "utf8_ignore (a # bs) =
    (let n = unat a in
     if n < 128 then char_of n # utf8_ignore bs
     else case bs of
         [] \<Rightarrow> []
       | b # cs \<Rightarrow>
           (let m = unat b in
            if (n = 194 \<or> n = 195) \<and> 128 \<le> m \<and> m < 192
            then char_of ((n - 192) * 64 + (m - 128)) # utf8_ignore cs
            else utf8_ignore bs))"

definition truncate_utf8 :: "string \<Rightarrow> nat \<Rightarrow> string" where
  "truncate_utf8 s limit =
    (if length (utf8 s) \<le> limit then s else utf8_ignore (take limit (utf8 s)))"

definition dot_or_space :: "char \<Rightarrow> bool" where
  "dot_or_space c \<longleftrightarrow> c = CHR '' '' \<or> c = CHR ''.''"

definition reserved_names :: "string list" where
  "reserved_names = [''CON'', ''PRN'', ''AUX'', ''NUL'']
     @ map (\<lambda>i. ''COM'' @ show_nat i) [1..<10] @ map (\<lambda>i. ''LPT'' @ show_nat i) [1..<10]"

text \<open>\<open>cleaned.split(".")[0].upper()\<close>; beyond ASCII no letter maps into a reserved name.\<close>

definition base_upper :: "string \<Rightarrow> string" where
  "base_upper s = ascii_upper (takeWhile (\<lambda>c. c \<noteq> CHR ''.'') s)"

definition clean_name :: "string \<Rightarrow> string \<Rightarrow> string" where
  "clean_name name replacement =
    (let subst = concat (map (\<lambda>c. if invalid_filename_char c then replacement else [c]) name);
         cleaned = rstrip_by dot_or_space (strip subst);
         cleaned = (if cleaned = [] \<or> list_all dot_or_space cleaned then ''unnamed'' else cleaned)
     in if base_upper cleaned \<in> set reserved_names then CHR ''_'' # cleaned else cleaned)"

definition or_unnamed :: "string \<Rightarrow> string" where
  "or_unnamed s = (if s = [] then ''unnamed'' else s)"

definition sanitize_filename :: "string \<Rightarrow> string \<Rightarrow> string" where
  "sanitize_filename name replacement =
    (let cleaned = clean_name name replacement
     in if length (utf8 cleaned) \<le> MAX_FILENAME_BYTES then cleaned
        else let suffix = path_suffix cleaned; suffix_bytes = length (utf8 suffix)
             in if suffix \<noteq> [] \<and> suffix_bytes < 32
                then or_unnamed (rstrip_by dot_or_space
                       (rstrip_by dot_or_space (truncate_utf8 cleaned (MAX_FILENAME_BYTES - suffix_bytes)) @ suffix))
                else or_unnamed (rstrip_by dot_or_space (truncate_utf8 cleaned MAX_FILENAME_BYTES)))"

section \<open>What a sanitized name is\<close>

lemma utf8_append: "utf8 (s @ t) = utf8 s @ utf8 t"
  by (simp add: utf8_def)

lemma utf8_ignore_prefix: "\<exists>t u. s = t @ u \<and> utf8_ignore (take n (utf8 s)) = t \<and> length (utf8 t) \<le> n"
proof (induction s arbitrary: n)
  case (Cons c s)
  let ?n = "of_char c :: nat"
  have n256: "?n < 256" by (metis of_char_mod_256 mod_less_divisor zero_less_numeral)
  show ?case
  proof (cases "?n < 128")
    case True
    then have u: "utf8 (c # s) = of_nat ?n # utf8 s" "unat (of_nat ?n :: byte) = ?n"
      by (simp_all add: utf8_def utf8_char_def Let_def unat_byte_of_nat)
    show ?thesis
    proof (cases n)
      case 0
      then have "c # s = [] @ (c # s) \<and> utf8_ignore (take n (utf8 (c # s))) = [] \<and> length (utf8 []) \<le> n"
        by (simp add: utf8_def)
      then show ?thesis by blast
    next
      case (Suc k)
      from Cons.IH [of k] obtain t v where t: "s = t @ v" "utf8_ignore (take k (utf8 s)) = t"
        "length (utf8 t) \<le> k" by blast
      have "utf8_ignore (take n (utf8 (c # s))) = c # t"
        using Suc True t(2) by (simp add: u)
      moreover have "length (utf8 (c # t)) \<le> n"
        using t(3) Suc True by (simp add: utf8_def utf8_char_def Let_def)
      ultimately show ?thesis using t(1) by (intro exI [of _ "c # t"] exI [of _ v]) simp
    qed
  next
    case False
    have "?n div 64 < 4" by (rule less_mult_imp_div_less) (use n256 in simp)
    moreover have "128 div 64 \<le> ?n div 64" by (rule div_le_mono) (use False in simp)
    ultimately have d: "?n div 64 = 2 \<or> ?n div 64 = 3" and d4: "?n div 64 < 4" by auto
    have m64: "?n mod 64 < 64" by simp
    let ?a = "of_nat (192 + ?n div 64) :: byte" and ?b = "of_nat (128 + ?n mod 64) :: byte"
    have u: "unat ?a = 192 + ?n div 64" "unat ?b = 128 + ?n mod 64"
      by (rule unat_byte_of_nat, use d4 m64 in linarith)+
    have e: "utf8 (c # s) = ?a # ?b # utf8 s" using False by (simp add: utf8_def utf8_char_def Let_def)
    have j: "char_of (?n div 64 * 64 + ?n mod 64) = c" by (simp only: div_mult_mod_eq char_of_char)
    have two: "utf8_ignore (?a # ?b # r) = c # utf8_ignore r" for r
      using d j u by (auto simp: Let_def)
    have one: "utf8_ignore [?a] = []" using u d by (simp add: Let_def)
    show ?thesis
    proof (cases "n \<le> 1")
      case True
      then have "take n (utf8 (c # s)) = [] \<or> take n (utf8 (c # s)) = [?a]"
        unfolding e by (cases n) auto
      then have "utf8_ignore (take n (utf8 (c # s))) = []"
        by (metis one utf8_ignore.simps(1))
      then have "c # s = [] @ (c # s) \<and> utf8_ignore (take n (utf8 (c # s))) = [] \<and> length (utf8 []) \<le> n"
        by (simp add: utf8_def)
      then show ?thesis by blast
    next
      case False
      then obtain k where k: "n = Suc (Suc k)" by (metis One_nat_def not_le not0_implies_Suc le_Suc_eq le0 not_less_eq_eq)
      from Cons.IH [of k] obtain t v where t: "s = t @ v" "utf8_ignore (take k (utf8 s)) = t"
        "length (utf8 t) \<le> k" by blast
      have "utf8_ignore (take n (utf8 (c # s))) = c # t"
        unfolding e k take_Suc_Cons two t(2) ..
      moreover have "length (utf8 (c # t)) \<le> n"
        using t(3) k \<open>\<not> ?n < 128\<close> by (simp add: utf8_def utf8_char_def Let_def)
      ultimately show ?thesis using t(1) by (intro exI [of _ "c # t"] exI [of _ v]) simp
    qed
  qed
qed (simp add: utf8_def)

lemma truncate_utf8_facts:
  "length (utf8 (truncate_utf8 s n)) \<le> n \<and> set (truncate_utf8 s n) \<subseteq> set s"
proof (cases "length (utf8 s) \<le> n")
  case False
  obtain t u where "s = t @ u" "utf8_ignore (take n (utf8 s)) = t" "length (utf8 t) \<le> n"
    using utf8_ignore_prefix [of s n] by blast
  then show ?thesis using False by (auto simp: truncate_utf8_def)
qed (simp add: truncate_utf8_def)

lemma rstrip_utf8: "length (utf8 (rstrip_by p s)) \<le> length (utf8 s)"
proof -
  have "\<exists>t. s = rstrip_by p s @ t"
    unfolding rstrip_by_def by (metis rev_append rev_rev_ident takeWhile_dropWhile_id)
  then obtain t where "s = rstrip_by p s @ t" ..
  then have "utf8 s = utf8 (rstrip_by p s) @ utf8 t" by (metis utf8_append)
  then show ?thesis by simp
qed

text \<open>A character that may appear in one component of a path on every supported system.\<close>

definition component_char :: "char \<Rightarrow> bool" where
  "component_char c \<longleftrightarrow> 32 \<le> (of_char c :: nat) \<and> c \<notin> {CHR ''/'', CHR 0x5C, CHR '':'', CHR ''*'', CHR ''?'', CHR 0x22, CHR ''<'', CHR ''>'', CHR ''|''}"

lemma component_char_iff: "component_char c \<longleftrightarrow> \<not> invalid_filename_char c"
proof -
  have "c = CHR 0x22 \<longleftrightarrow> of_char c = (34 :: nat)" and "c = CHR 0x5C \<longleftrightarrow> of_char c = (92 :: nat)"
    using of_char_eq_iff [of c "CHR 0x22", where ?'a = nat] of_char_eq_iff [of c "CHR 0x5C", where ?'a = nat] by simp_all
  then show ?thesis by (auto simp: component_char_def invalid_filename_char_def)
qed

lemma unnamed_facts:
  "list_all component_char ''unnamed''" "last ''unnamed'' = CHR ''d''" "length (utf8 ''unnamed'') = 7"
  by code_simp+

lemma underscore_char: "component_char (CHR ''_'')"
  by code_simp

lemma or_unnamed_facts:
  assumes "list_all component_char s" and "length (utf8 s) \<le> MAX_FILENAME_BYTES"
  shows "let r = or_unnamed (rstrip_by dot_or_space s)
    in r \<noteq> [] \<and> list_all component_char r \<and> \<not> dot_or_space (last r) \<and> length (utf8 r) \<le> MAX_FILENAME_BYTES"
proof (cases "rstrip_by dot_or_space s = []")
  case True
  then show ?thesis
    using unnamed_facts by (simp add: or_unnamed_def Let_def dot_or_space_def MAX_FILENAME_BYTES_def)
next
  case False
  have "set (rstrip_by dot_or_space s) \<subseteq> set s" by (rule rstrip_by_subset)
  moreover have "length (utf8 (rstrip_by dot_or_space s)) \<le> MAX_FILENAME_BYTES"
    using rstrip_utf8 [of dot_or_space s] assms(2) by linarith
  ultimately show ?thesis
    using False rstrip_by_not_last [OF False] assms(1) by (auto simp: or_unnamed_def Let_def list_all_iff)
qed

lemma strip_subset: "set (strip s) \<subseteq> set s"
proof -
  have "set (dropWhile is_ws s) \<subseteq> set s" by (meson set_dropWhileD subsetI)
  then show ?thesis
    using rstrip_by_subset [of is_ws "dropWhile is_ws s"] by (auto simp: strip_def lstrip_by_def)
qed

text \<open>The name before the guard for reserved names.\<close>

definition bare_name :: "string \<Rightarrow> string \<Rightarrow> string" where
  "bare_name name replacement =
    (let subst = concat (map (\<lambda>c. if invalid_filename_char c then replacement else [c]) name);
         cleaned = rstrip_by dot_or_space (strip subst)
     in if cleaned = [] \<or> list_all dot_or_space cleaned then ''unnamed'' else cleaned)"

lemma clean_name_bare:
  "clean_name name replacement =
    (if base_upper (bare_name name replacement) \<in> set reserved_names
     then CHR ''_'' # bare_name name replacement else bare_name name replacement)"
  unfolding clean_name_def bare_name_def Let_def by (rule refl)

lemma bare_name_facts:
  assumes "list_all component_char replacement"
  shows "list_all component_char (bare_name name replacement)"
    and "bare_name name replacement \<noteq> []" and "\<not> dot_or_space (last (bare_name name replacement))"
proof -
  define s where "s = concat (map (\<lambda>c. if invalid_filename_char c then replacement else [c]) name)"
  define c where "c = rstrip_by dot_or_space (strip s)"
  have b: "bare_name name replacement = (if c = [] \<or> list_all dot_or_space c then ''unnamed'' else c)"
    by (simp add: bare_name_def Let_def s_def c_def)
  have "list_all component_char s"
    using assms by (auto simp: s_def list_all_iff component_char_iff)
  moreover have "set c \<subseteq> set s"
    unfolding c_def using rstrip_by_subset strip_subset by (rule subset_trans)
  ultimately have "list_all component_char c" by (auto simp: list_all_iff)
  then show "list_all component_char (bare_name name replacement)"
    unfolding b using unnamed_facts(1) by presburger
  show "bare_name name replacement \<noteq> []" unfolding b by simp
  have "\<not> dot_or_space (last c)" if "c \<noteq> []"
    using that rstrip_by_not_last unfolding c_def by blast
  moreover have "\<not> dot_or_space (last ''unnamed'')"
    unfolding unnamed_facts(2) by (simp add: dot_or_space_def)
  ultimately show "\<not> dot_or_space (last (bare_name name replacement))"
    unfolding b by presburger
qed

lemma clean_name_facts:
  assumes "list_all component_char replacement"
  shows "list_all component_char (clean_name name replacement)"
    and "clean_name name replacement \<noteq> []" and "\<not> dot_or_space (last (clean_name name replacement))"
  using bare_name_facts [OF assms, of name] underscore_char by (simp_all add: clean_name_bare)

lemma rpartition_at_subset:
  assumes "rpartition_at c s = (h, f, t)" and "f"
  shows "set t \<subseteq> set s"
proof -
  obtain a b d where p: "partition_at c (rev s) = (a, b, d)" by (metis prod_cases3)
  have b: "b" and t: "t = rev a" using assms p by (simp_all add: rpartition_at_def split: if_splits)
  have "set (rev s) = insert c (set a \<union> set d)"
    using partition_at_split [OF p] b by simp
  then have "set s = insert c (set a \<union> set d)" by simp
  then show ?thesis using t by auto
qed

lemma path_suffix_subset: "set (path_suffix s) \<subseteq> insert (CHR ''.'') (set s)"
proof -
  obtain h f t where p: "rpartition_at (CHR ''.'') s = (h, f, t)" by (metis prod_cases3)
  show ?thesis
    using rpartition_at_subset [OF p] by (cases f) (auto simp: path_suffix_def p)
qed

lemma sanitize_filename_facts:
  assumes "list_all component_char replacement"
  shows "let r = sanitize_filename name replacement
    in r \<noteq> [] \<and> list_all component_char r \<and> \<not> dot_or_space (last r) \<and> length (utf8 r) \<le> MAX_FILENAME_BYTES"
proof -
  define c where "c = clean_name name replacement"
  note c = clean_name_facts [OF assms, of name, folded c_def]
  show ?thesis
  proof (cases "length (utf8 c) \<le> MAX_FILENAME_BYTES")
    case True
    then show ?thesis using c by (simp add: sanitize_filename_def Let_def flip: c_def)
  next
    case long: False
    define suffix where "suffix = path_suffix c"
    have e: "sanitize_filename name replacement =
        (if suffix \<noteq> [] \<and> length (utf8 suffix) < 32
         then or_unnamed (rstrip_by dot_or_space
                (rstrip_by dot_or_space (truncate_utf8 c (MAX_FILENAME_BYTES - length (utf8 suffix))) @ suffix))
         else or_unnamed (rstrip_by dot_or_space (truncate_utf8 c MAX_FILENAME_BYTES)))"
      using long unfolding sanitize_filename_def Let_def c_def [symmetric] suffix_def [symmetric]
      by (simp only: if_False)
    show ?thesis
    proof (cases "suffix \<noteq> [] \<and> length (utf8 suffix) < 32")
      case True
      let ?k = "MAX_FILENAME_BYTES - length (utf8 suffix)"
      let ?stem = "rstrip_by dot_or_space (truncate_utf8 c ?k)"
      have "list_all component_char (?stem @ suffix)"
      proof -
        have "set ?stem \<subseteq> set c"
          by (rule subset_trans [OF rstrip_by_subset conjunct2 [OF truncate_utf8_facts]])
        moreover have "set suffix \<subseteq> insert (CHR ''.'') (set c)"
          unfolding suffix_def by (rule path_suffix_subset)
        moreover have "component_char (CHR ''.'')" by code_simp
        ultimately show ?thesis using c(1) by (auto simp: list_all_iff)
      qed
      moreover have "length (utf8 (?stem @ suffix)) \<le> MAX_FILENAME_BYTES"
      proof -
        have "length (utf8 ?stem) \<le> ?k"
          by (rule order_trans [OF rstrip_utf8 conjunct1 [OF truncate_utf8_facts]])
        then show ?thesis using True unfolding MAX_FILENAME_BYTES_def utf8_append length_append by linarith
      qed
      moreover have "sanitize_filename name replacement = or_unnamed (rstrip_by dot_or_space (?stem @ suffix))"
        unfolding e by (rule if_P [OF True])
      ultimately show ?thesis using or_unnamed_facts [of "?stem @ suffix"] by (simp only:)
    next
      case False
      have "list_all component_char (truncate_utf8 c MAX_FILENAME_BYTES)"
        using truncate_utf8_facts [of c] c(1) by (auto simp: list_all_iff)
      moreover have "length (utf8 (truncate_utf8 c MAX_FILENAME_BYTES)) \<le> MAX_FILENAME_BYTES"
        by (rule conjunct1 [OF truncate_utf8_facts])
      moreover have "sanitize_filename name replacement =
          or_unnamed (rstrip_by dot_or_space (truncate_utf8 c MAX_FILENAME_BYTES))"
        unfolding e by (rule if_not_P [OF False])
      ultimately show ?thesis
        using or_unnamed_facts [of "truncate_utf8 c MAX_FILENAME_BYTES"] by (simp only:)
    qed
  qed
qed

text \<open>
  Whatever a remote node is called, the name used on disk is one path component: it is not
  empty, has no separator, drive mark or control character, does not end in a dot or a space (so it
  is neither \<open>.\<close> nor \<open>..\<close>), and fits the byte limit.
\<close>

theorem sanitize_safe:
  assumes "list_all component_char replacement"
  shows "let r = sanitize_filename name replacement
    in r \<noteq> [] \<and> r \<noteq> ''.'' \<and> r \<noteq> ''..'' \<and> list_all component_char r \<and> \<not> dot_or_space (last r)
       \<and> length (utf8 r) \<le> MAX_FILENAME_BYTES"
  using sanitize_filename_facts [OF assms, of name] by (auto simp: Let_def dot_or_space_def)

theorem sanitize_safe_witness:
  "let r = sanitize_filename ''../etc/passwd..'' ''_''
   in r = ''.._etc_passwd'' \<and> r \<noteq> ''..'' \<and> list_all component_char r \<and> \<not> dot_or_space (last r)"
proof -
  have u: "list_all component_char ''_''" by code_simp
  have "sanitize_filename ''../etc/passwd..'' ''_'' = ''.._etc_passwd''" by code_simp
  then show ?thesis using sanitize_safe [OF u, of "''../etc/passwd..''"] by (simp add: Let_def)
qed

text \<open>
  The guard for reserved names is applied before the cut, and the cut can bring a reserved name
  back: a stem padded with spaces loses them.
\<close>

theorem truncation_exposes_reserved:
  "sanitize_filename (''CON'' @ replicate 240 (CHR '' '') @ ''.txt'') ''_'' = ''CON.txt''
   \<and> base_upper ''CON.txt'' \<in> set reserved_names"
  by code_simp

section \<open>Reserved destinations\<close>

text \<open>
  \<open>_claimed_destinations\<close> and \<open>_claim_locks\<close> per process, and the advisory locks of the operating
  system, which name their holder. A lock is refused while any descriptor holds it.
\<close>

record claims =
  cl_claimed :: "nat \<Rightarrow> string set"
  cl_locks :: "nat \<Rightarrow> string set"
  cl_holder :: "string \<Rightarrow> nat option"

text \<open>What the file system says before and under the lock, and whether the lock file opens.\<close>

record claim_env =
  ce_exists :: "string \<Rightarrow> bool"
  ce_exists_locked :: "string \<Rightarrow> bool"
  ce_resumable :: "(string \<Rightarrow> bool) option"
  ce_lockable :: "string \<Rightarrow> bool"
  ce_overwrite :: bool

definition CLAIM_SUFFIX :: string where
  "CLAIM_SUFFIX = ''.mbclaim''"

definition claim_lock_path :: "string \<Rightarrow> string" where
  "claim_lock_path candidate = candidate @ CLAIM_SUFFIX"

definition path_stem :: "string \<Rightarrow> string" where
  "path_stem name = take (length name - length (path_suffix name)) name"

definition numbered_candidate :: "string \<Rightarrow> nat \<Rightarrow> string" where
  "numbered_candidate name i =
    (if i = 0 then name else path_stem name @ '' ('' @ show_nat i @ '')'' @ path_suffix name)"

definition not_resumable :: "claim_env \<Rightarrow> string \<Rightarrow> bool" where
  "not_resumable E c = (case ce_resumable E of None \<Rightarrow> True | Some f \<Rightarrow> \<not> f c)"

definition try_claim :: "claim_env \<Rightarrow> nat \<Rightarrow> string \<Rightarrow> claims \<Rightarrow> bool" where
  "try_claim E p c S \<longleftrightarrow>
     c \<notin> cl_claimed S p
     \<and> \<not> ((ce_exists E c \<and> \<not> ce_overwrite E) \<and> not_resumable E c)
     \<and> ce_lockable E c \<and> cl_holder S (claim_lock_path c) = None
     \<and> \<not> ((ce_exists_locked E c \<and> \<not> ce_overwrite E) \<and> not_resumable E c)"

definition take_claim :: "nat \<Rightarrow> string \<Rightarrow> claims \<Rightarrow> claims" where
  "take_claim p c S =
     S\<lparr>cl_claimed := (cl_claimed S)(p := insert c (cl_claimed S p)),
       cl_locks := (cl_locks S)(p := insert c (cl_locks S p)),
       cl_holder := (cl_holder S)(claim_lock_path c \<mapsto> p)\<rparr>"

fun claim_from :: "nat \<Rightarrow> claim_env \<Rightarrow> nat \<Rightarrow> string \<Rightarrow> nat \<Rightarrow> claims \<Rightarrow> (string \<times> claims) option" where
  "claim_from 0 E p name i S = None"
| "claim_from (Suc n) E p name i S =
    (let c = numbered_candidate name i in
     if try_claim E p c S then
       Some (c, take_claim p c S)
     else claim_from n E p name (i + 1) S)"

definition claim_destination :: "nat \<Rightarrow> claim_env \<Rightarrow> nat \<Rightarrow> string \<Rightarrow> claims \<Rightarrow> (string \<times> claims) option" where
  "claim_destination fuel E p name S = claim_from fuel E p name 0 S"

definition release_destination :: "nat \<Rightarrow> string \<Rightarrow> claims \<Rightarrow> claims" where
  "release_destination p c S =
    (let held = c \<in> cl_locks S p;
         S = S\<lparr>cl_claimed := (cl_claimed S)(p := cl_claimed S p - {c}),
               cl_locks := (cl_locks S)(p := cl_locks S p - {c})\<rparr>
     in if held then S\<lparr>cl_holder := (cl_holder S)(claim_lock_path c := None)\<rparr> else S)"

text \<open>A process that ends loses its memory, and the operating system drops its locks.\<close>

definition process_exit :: "nat \<Rightarrow> claims \<Rightarrow> claims" where
  "process_exit p S = S\<lparr>cl_claimed := (cl_claimed S)(p := {}), cl_locks := (cl_locks S)(p := {}),
     cl_holder := (\<lambda>k. if cl_holder S k = Some p then None else cl_holder S k)\<rparr>"

definition no_claims :: claims where
  "no_claims = \<lparr>cl_claimed = (\<lambda>_. {}), cl_locks = (\<lambda>_. {}), cl_holder = (\<lambda>_. None)\<rparr>"

inductive claims_reach :: "claims \<Rightarrow> bool" where
  start: "claims_reach no_claims"
| claim: "claims_reach S \<Longrightarrow> claim_destination n E p name S = Some (c, S') \<Longrightarrow> claims_reach S'"
| release: "claims_reach S \<Longrightarrow> claims_reach (release_destination p c S)"
| exit: "claims_reach S \<Longrightarrow> claims_reach (process_exit p S)"

text \<open>What a process has claimed it holds the lock of.\<close>

definition claims_ok :: "claims \<Rightarrow> bool" where
  "claims_ok S \<longleftrightarrow> (\<forall>p c. c \<in> cl_claimed S p \<longleftrightarrow> cl_holder S (claim_lock_path c) = Some p)
     \<and> cl_locks S = cl_claimed S"

lemma claim_lock_path_inj [simp]: "claim_lock_path c = claim_lock_path d \<longleftrightarrow> c = d"
  by (simp add: claim_lock_path_def)

lemma claim_from_taken:
  "claim_from n E p name i S = Some (c, S') \<Longrightarrow>
    try_claim E p c S \<and> S' = take_claim p c S"
proof (induction n E p name i S rule: claim_from.induct)
  case (2 n E p name i S)
  show ?case
  proof (cases "try_claim E p (numbered_candidate name i) S")
    case True
    then show ?thesis using "2.prems" by (auto simp: Let_def)
  next
    case False
    then show ?thesis using "2.prems" "2.IH" [OF refl False] by (simp add: Let_def)
  qed
qed simp

lemma claims_reach_ok: "claims_reach S \<Longrightarrow> claims_ok S"
proof (induction rule: claims_reach.induct)
  case (claim S n E p name c S')
  from claim_from_taken [OF claim.hyps(2) [unfolded claim_destination_def]] claim.IH
  show ?case by (auto simp: claims_ok_def try_claim_def take_claim_def)
next
  case (release S p c)
  then show ?case by (auto simp: claims_ok_def release_destination_def Let_def)
next
  case (exit S p)
  then show ?case by (auto simp: claims_ok_def process_exit_def)
qed (simp add: claims_ok_def no_claims_def)

text \<open>
  C29: a destination belongs to one transfer. Whatever claims, releases and exits of processes came
  before, a claim returns a path that no transfer of any process holds, that is then held by this
  process alone, and that under the lock did not exist, may be overwritten or is a resumable
  continuation.
\<close>

theorem claim_exclusive:
  assumes "claims_reach S" and "claim_destination n E p name S = Some (c, S')"
  shows "c \<notin> cl_claimed S q \<and> (c \<in> cl_claimed S' q \<longleftrightarrow> q = p)
    \<and> (d \<noteq> c \<longrightarrow> (d \<in> cl_claimed S' q \<longleftrightarrow> d \<in> cl_claimed S q))
    \<and> (ce_exists_locked E c \<longrightarrow> ce_overwrite E \<or> (\<exists>f. ce_resumable E = Some f \<and> f c))"
  using claim_from_taken [OF assms(2) [unfolded claim_destination_def]] claims_reach_ok [OF assms(1)]
  by (auto simp: claims_ok_def try_claim_def take_claim_def not_resumable_def split: option.splits)

definition demo_claim_env :: claim_env where
  "demo_claim_env = \<lparr>ce_exists = (\<lambda>_. False), ce_exists_locked = (\<lambda>c. c = ''a (1).zip''),
     ce_resumable = None, ce_lockable = (\<lambda>_. True), ce_overwrite = False\<rparr>"

definition demo_claims :: claims where
  "demo_claims = snd (the (claim_destination 1 demo_claim_env 1 ''a.zip'' no_claims))"

theorem claim_exclusive_witness:
  "map_option fst (claim_destination 5 demo_claim_env 2 ''a.zip'' demo_claims) = Some ''a (2).zip''
   \<and> ''a (2).zip'' \<notin> cl_claimed demo_claims 1"
proof -
  have "claim_destination 1 demo_claim_env 1 ''a.zip'' no_claims = Some (''a.zip'', demo_claims)"
    by (simp add: demo_claims_def claim_destination_def Let_def try_claim_def numbered_candidate_def
        demo_claim_env_def no_claims_def)
  then have r: "claims_reach demo_claims" by (rule claims_reach.claim [OF claims_reach.start])
  have e: "map_option fst (claim_destination 5 demo_claim_env 2 ''a.zip'' demo_claims) = Some ''a (2).zip''"
    by code_simp
  then obtain T where "claim_destination 5 demo_claim_env 2 ''a.zip'' demo_claims = Some (''a (2).zip'', T)"
    by auto
  from claim_exclusive [OF r this] e show ?thesis by blast
qed

end
