(* ===== verification/UploadIdentity.thy ===== *)
theory UploadIdentity
  imports Helpers
begin

text \<open>
  \<open>core/upload_identity.py\<close>: where the resume state of a source lives, the identity of a source
  file, and when a resume state belongs to it. A file is what \<open>stat\<close> and \<open>read\<close> return for it at
  one moment; SHA-256 is an argument.
\<close>

section \<open>Identity of a file\<close>

record source_file =
  sf_path :: string
  sf_name :: string
  sf_resolved :: string
  sf_size :: nat
  sf_mtime :: int
  sf_dev :: nat
  sf_ino :: nat
  sf_content :: bytes

definition SOURCE_IDENTITY_VERSION :: int where
  "SOURCE_IDENTITY_VERSION = 2"

definition HASH_BLOCK :: nat where
  "HASH_BLOCK = 1024 * 1024"

definition upload_state_destination :: "(bytes \<Rightarrow> string) \<Rightarrow> string \<Rightarrow> source_file \<Rightarrow> string" where
  "upload_state_destination sha data_dir f =
    (let digest = take 24 (sha (utf8 (sf_resolved f @ ''|'' @ show_nat (sf_size f))))
     in data_dir @ ''/upload-state/'' @ sanitize_filename (sf_name f) ''_'' @ ''.'' @ digest @ ''.upload'')"

text \<open>The stop event is looked at before every read; \<open>stop k\<close> is what the \<open>k\<close>-th look sees.\<close>

fun hash_blocks :: "(nat \<Rightarrow> bool) \<Rightarrow> nat \<Rightarrow> bytes list \<Rightarrow> bytes \<Rightarrow> bytes py" where
  "hash_blocks stop k [] got = (if stop k then raise TransferError else Inr got)"
| "hash_blocks stop k (b # bs) got =
    (if stop k then raise TransferError else hash_blocks stop (k + 1) bs (got @ b))"

definition file_sha256 :: "(bytes \<Rightarrow> string) \<Rightarrow> (nat \<Rightarrow> bool) \<Rightarrow> source_file \<Rightarrow> string py" where
  "file_sha256 sha stop f =
    bindR (hash_blocks stop 0 (blocks_of HASH_BLOCK (sf_content f)) []) (\<lambda>data. Inr (sha data))"

definition source_identity ::
  "(bytes \<Rightarrow> string) \<Rightarrow> (nat \<Rightarrow> bool) \<Rightarrow> source_file \<Rightarrow> (string \<times> json) list py" where
  "source_identity sha stop f =
    bindR (file_sha256 sha stop f) (\<lambda>digest.
      Inr ([(''v'', JInt SOURCE_IDENTITY_VERSION), (''path'', JStr (sf_resolved f)),
            (''size'', JInt (int (sf_size f))), (''mtime_ns'', JInt (sf_mtime f)),
            (''sha256'', JStr digest)]
           @ (if sf_ino f \<noteq> 0
              then [(''file_id'', JStr (show_nat (sf_dev f) @ '':'' @ show_nat (sf_ino f)))] else [])))"

text \<open>\<open>==\<close> and truth of the values a JSON document holds: numbers compare by value.\<close>

fun json_num :: "json \<Rightarrow> (int \<times> int) option" where
  "json_num (JBool b) = Some (if b then 1 else 0, 1)"
| "json_num (JInt n) = Some (n, 1)"
| "json_num (JFloat p q) = Some (p, q)"
| "json_num _ = None"

definition py_eq :: "json \<Rightarrow> json \<Rightarrow> bool" where
  "py_eq a b \<longleftrightarrow>
    (case (json_num a, json_num b) of
       (Some (p, q), Some (r, s)) \<Rightarrow> p * s = r * q
     | (None, None) \<Rightarrow> a = b
     | _ \<Rightarrow> False)"

fun truthy :: "json \<Rightarrow> bool" where
  "truthy JNull = False"
| "truthy (JBool b) = b"
| "truthy (JInt n) = (n \<noteq> 0)"
| "truthy (JFloat p q) = (p \<noteq> 0)"
| "truthy (JStr s) = (s \<noteq> [])"
| "truthy (JArr xs) = (xs \<noteq> [])"
| "truthy (JObj d) = (d \<noteq> [])"

definition IDENTITY_FIELDS :: "string list" where
  "IDENTITY_FIELDS = [''path'', ''size'', ''mtime_ns'', ''sha256'']"

definition identities_match :: "json option \<Rightarrow> (string \<times> json) list \<Rightarrow> bool" where
  "identities_match recorded current =
    (case recorded of
       Some (JObj r) \<Rightarrow>
         py_eq (jget_none ''v'' r) (JInt SOURCE_IDENTITY_VERSION)
         \<and> list_all (\<lambda>k. py_eq (jget_none k r) (jget_none k current)) IDENTITY_FIELDS
         \<and> \<not> (truthy (jget_none ''file_id'' r) \<and> truthy (jget_none ''file_id'' current)
               \<and> \<not> py_eq (jget_none ''file_id'' r) (jget_none ''file_id'' current))
     | _ \<Rightarrow> False)"

definition is_resumable_upload_state ::
  "transfer_state \<Rightarrow> string \<Rightarrow> nat \<Rightarrow> (string \<times> json) list \<Rightarrow> bool" where
  "is_resumable_upload_state s src n identity \<longleftrightarrow>
     transfer_type s = ''upload'' \<and> total_size s = int n \<and> source s = src
     \<and> identities_match (jget ''source_identity'' (metadata s)) identity"

section \<open>What a match means\<close>

lemma hash_blocks_Inr: "hash_blocks stop k bs got = Inr r \<Longrightarrow> r = got @ concat bs"
  by (induction stop k bs got rule: hash_blocks.induct) (auto split: if_splits)

lemma hash_blocks_Inl: "hash_blocks stop k bs got = Inl e \<Longrightarrow> e = Exc TransferError None"
  by (induction stop k bs got rule: hash_blocks.induct) (auto split: if_splits)

lemma hash_blocks_calm: "(\<And>k. \<not> stop k) \<Longrightarrow> hash_blocks stop k bs got = Inr (got @ concat bs)"
  by (induction stop k bs got rule: hash_blocks.induct) auto

lemma file_sha256_Inr:
  assumes "file_sha256 sha stop f = Inr h"
  shows "h = sha (sf_content f)"
proof -
  obtain d where d: "hash_blocks stop 0 (blocks_of HASH_BLOCK (sf_content f)) [] = Inr d" "h = sha d"
    using assms by (auto simp: file_sha256_def bindR_Inr_iff)
  have "d = concat (blocks_of HASH_BLOCK (sf_content f))" using hash_blocks_Inr [OF d(1)] by simp
  then show ?thesis using d(2) by (simp add: concat_blocks_of HASH_BLOCK_def)
qed

lemma file_sha256_stopped:
  "file_sha256 sha stop f = Inl e \<Longrightarrow> e = Exc TransferError None"
  using hash_blocks_Inl by (auto simp: file_sha256_def bindR_Inl_iff)

definition file_id_of :: "source_file \<Rightarrow> string" where
  "file_id_of f = (if sf_ino f = 0 then [] else show_nat (sf_dev f) @ '':'' @ show_nat (sf_ino f))"

text \<open>The identity two snapshots share: everything but an unknown file id.\<close>

definition same_identity :: "(bytes \<Rightarrow> string) \<Rightarrow> source_file \<Rightarrow> source_file \<Rightarrow> bool" where
  "same_identity sha f g \<longleftrightarrow>
     sf_resolved f = sf_resolved g \<and> sf_size f = sf_size g \<and> sf_mtime f = sf_mtime g
     \<and> sha (sf_content f) = sha (sf_content g)
     \<and> (sf_ino f = 0 \<or> sf_ino g = 0 \<or> file_id_of f = file_id_of g)"

lemma source_identity_Inr:
  assumes "source_identity sha stop f = Inr d"
  shows "d = [(''v'', JInt 2), (''path'', JStr (sf_resolved f)), (''size'', JInt (int (sf_size f))),
              (''mtime_ns'', JInt (sf_mtime f)), (''sha256'', JStr (sha (sf_content f)))]
           @ (if sf_ino f = 0 then [] else [(''file_id'', JStr (file_id_of f))])"
  using assms file_sha256_Inr [of sha stop f]
  by (auto simp: source_identity_def bindR_Inr_iff SOURCE_IDENTITY_VERSION_def file_id_of_def)

lemma identities_match_snapshots:
  assumes "source_identity sha s1 f = Inr a" and "source_identity sha s2 g = Inr b"
  shows "identities_match (Some (JObj a)) b \<longleftrightarrow> same_identity sha f g"
  using source_identity_Inr [OF assms(1)] source_identity_Inr [OF assms(2)]
  by (auto simp: identities_match_def IDENTITY_FIELDS_def same_identity_def jget_default_def jget_def
      py_eq_def SOURCE_IDENTITY_VERSION_def file_id_of_def)

end
