(* ===== verification/Responses.thy ===== *)
theory Responses
  imports Keys Aead
begin

text \<open>
  \<open>core/responses.py\<close>, the guards every field of a server answer passes before it is used, and
  \<open>encrypt_attributes\<close> of \<open>core/crypto.py\<close> with the compact JSON printer it calls. An answer is
  its parsed JSON value.
\<close>

section \<open>Shape guards\<close>

datatype (plugins only: code size) kind = KStr | KInt | KList | KDict

definition expect_mapping :: "json \<Rightarrow> (string \<times> json) list py" where
  "expect_mapping value = (case value of JObj d \<Rightarrow> Inr d | _ \<Rightarrow> raise MegaError)"

fun has_kind :: "kind \<Rightarrow> json \<Rightarrow> bool" where
  "has_kind KStr (JStr _) = True"
| "has_kind KInt (JInt _) = True"
| "has_kind KList (JArr _) = True"
| "has_kind KDict (JObj _) = True"
| "has_kind _ _ = False"

definition expect_field :: "(string \<times> json) list \<Rightarrow> string \<Rightarrow> kind \<Rightarrow> json option \<Rightarrow> json py" where
  "expect_field mapping key k dflt =
    (case jget key mapping of
       None \<Rightarrow> (case dflt of None \<Rightarrow> raise MegaError | Some v \<Rightarrow> Inr v)
     | Some v \<Rightarrow> if has_kind k v then Inr v else raise MegaError)"

fun str_value :: "json \<Rightarrow> string" where
  "str_value (JStr s) = s"
| "str_value _ = []"

fun arr_value :: "json \<Rightarrow> json list" where
  "arr_value (JArr xs) = xs"
| "arr_value _ = []"

definition first_node_handle :: "json \<Rightarrow> string py" where
  "first_node_handle result =
    bindR (expect_mapping result) (\<lambda>d.
    bindR (expect_field d ''f'' KList (Some (JArr []))) (\<lambda>nodes.
      case arr_value nodes of
        [] \<Rightarrow> Inr []
      | n # _ \<Rightarrow> bindR (expect_mapping n) (\<lambda>nd.
                 bindR (expect_field nd ''h'' KStr None) (\<lambda>h. Inr (str_value h)))))"

lemma expect_mapping_total: "expect_mapping v = raise MegaError \<or> (\<exists>d. v = JObj d \<and> expect_mapping v = Inr d)"
  by (cases v) (simp_all add: expect_mapping_def)

lemma expect_field_kind:
  assumes "expect_field d key k dflt = Inr v"
  shows "has_kind k v \<or> dflt = Some v"
  using assms by (auto simp: expect_field_def split: option.splits if_splits)

lemma expect_field_error: "expect_field d key k dflt = Inl e \<Longrightarrow> e = Exc MegaError None"
  by (auto simp: expect_field_def split: option.splits if_splits)

lemma expect_mapping_error: "expect_mapping v = Inl e \<Longrightarrow> e = Exc MegaError None"
  using expect_mapping_total [of v] by auto

lemma first_node_handle_error:
  assumes "first_node_handle v = Inl e"
  shows "e = Exc MegaError None"
  using assms unfolding first_node_handle_def bindR_Inl_iff
  by (elim disjE exE conjE) (auto simp: bindR_Inl_iff split: list.splits dest: expect_mapping_error expect_field_error)

section \<open>Attribute blobs\<close>

definition hex4 :: "nat \<Rightarrow> string" where
  "hex4 n = [hex_char (n div 4096 mod 16), hex_char (n div 256 mod 16), hex_char (n div 16 mod 16), hex_char (n mod 16)]"

text \<open>One character of a JSON string, as \<open>json.dumps\<close> escapes it when \<open>ensure_ascii\<close> is on.\<close>

definition json_escape :: "char \<Rightarrow> string" where
  "json_escape c =
    (let n = of_char c :: nat in
     if n = 34 then [CHR 0x5C, CHR 0x22]
     else if n = 92 then [CHR 0x5C, CHR 0x5C]
     else if n = 10 then CHR 0x5C # ''n''
     else if n = 13 then CHR 0x5C # ''r''
     else if n = 9 then CHR 0x5C # ''t''
     else if n = 12 then CHR 0x5C # ''f''
     else if n = 8 then CHR 0x5C # ''b''
     else if 32 \<le> n \<and> n \<le> 126 then [c]
     else CHR 0x5C # ''u'' @ hex4 n)"

definition json_str :: "string \<Rightarrow> string" where
  "json_str s = CHR 0x22 # concat (map json_escape s) @ [CHR 0x22]"

fun json_members :: "(string \<times> string) list \<Rightarrow> string" where
  "json_members [] = []"
| "json_members [(k, v)] = json_str k @ CHR '':'' # json_str v"
| "json_members ((k, v) # ms) = json_str k @ CHR '':'' # json_str v @ CHR '','' # json_members ms"

definition ATTR_PREFIX :: bytes where
  "ATTR_PREFIX = utf8 ''MEGA''"

text \<open>The attribute dictionaries of the program map strings to strings.\<close>

definition attr_plaintext :: "(string \<times> string) list \<Rightarrow> bytes" where
  "attr_plaintext attrs =
    (let plaintext = ATTR_PREFIX @ utf8 (CHR ''{'' # json_members attrs @ ''}'')
     in plaintext @ zeros ((16 - length plaintext mod 16) mod 16))"

definition encrypt_attributes :: "aes \<Rightarrow> (string \<times> string) list \<Rightarrow> bytes \<Rightarrow> bytes py" where
  "encrypt_attributes C attrs key = aes_cbc_encrypt C (attr_plaintext attrs) key"

lemma attr_plaintext_blocks: "16 dvd length (attr_plaintext attrs)"
proof -
  let ?n = "length (ATTR_PREFIX @ utf8 (CHR ''{'' # json_members attrs @ ''}''))"
  have "length (attr_plaintext attrs) = ?n + (16 - ?n mod 16) mod 16"
    by (simp only: attr_plaintext_def Let_def length_append length_zeros)
  then show ?thesis by (simp only: pad16 dvd_eq_mod_eq_0)
qed

lemma encrypt_attributes_opens:
  assumes "aes_ok C" and "aes_key_size key"
  shows "\<exists>blob. encrypt_attributes C attrs key = Inr blob \<and> length blob = length (attr_plaintext attrs)
    \<and> aes_cbc_decrypt C blob key = Inr (attr_plaintext attrs)"
  using cbc_encrypt_ok [OF assms length_zeros attr_plaintext_blocks [of attrs]]
  by (metis encrypt_attributes_def aes_cbc_encrypt_def aes_cbc_decrypt_def)

end
