(* ===== verification/UploadChunk.thy ===== *)
theory UploadChunk
  imports DownloadChunk UploadIdentity Responses
begin

text \<open>
  \<open>core/upload_transport.py\<close>: one chunk is read, sealed, posted and recorded, and the pool of
  workers that do so. A worker's attempt has two steps, sending (up to the validated answer) and
  recording (what happens under the lock, and the save), so that a schedule interleaves workers
  between them. The endpoint's answer is an argument. \<open>ul_acks\<close> is the history of well-formed
  acknowledgements: slot, offset, body sent, body answered.
\<close>

section \<open>One attempt\<close>

definition UPLOAD_URL_EXPIRY_STATUS :: "int list" where
  "UPLOAD_URL_EXPIRY_STATUS = [403, 404, 410, 509]"

definition MAX_UPLOAD_RESPONSE_BYTES :: nat where
  "MAX_UPLOAD_RESPONSE_BYTES = 4096"

definition MAX_UPLOAD_ATTEMPTS :: nat where
  "MAX_UPLOAD_ATTEMPTS = 5"

text \<open>What the surroundings answer: clock and draw, the source as it reads now, the endpoint.\<close>

record post_env =
  pe_now :: int
  pe_draw :: nat
  pe_source :: "bytes py"
  pe_reply :: "string \<Rightarrow> bytes \<Rightarrow> http_reply"

record ul =
  ul_stop :: bool
  ul_selector :: selector
  ul_disk :: disk
  ul_state :: transfer_state
  ul_token :: "bytes option"
  ul_bytes_done :: nat
  ul_chunks_done :: nat
  ul_acks :: "(string \<times> nat \<times> bytes \<times> bytes) list"
  ul_calls :: "(string \<times> string \<times> string \<times> string) list"

text \<open>A body the transport could not finish raises what the transport raised.\<close>

definition read_bounded_body :: "bytes list \<Rightarrow> exc option \<Rightarrow> bytes py" where
  "read_bounded_body blocks tail =
    (case read_bounded_bytes blocks MAX_UPLOAD_RESPONSE_BYTES of
       Inl e \<Rightarrow> if isinstance e PayloadTooLargeError then raise NonRetryableTransferError else Inl e
     | Inr body \<Rightarrow> (case tail of Some e \<Rightarrow> Inl e | None \<Rightarrow> Inr body))"

definition is_final_chunk :: "chunk \<Rightarrow> int \<Rightarrow> bool" where
  "is_final_chunk c whole \<longleftrightarrow> whole \<le> int (ch_offset c) + int (ch_size c)"

text \<open>Reading, the MAC of the plaintext, and the encryption at the chunk's counter.\<close>

definition prepare_chunk :: "aes \<Rightarrow> bytes py \<Rightarrow> chunk \<Rightarrow> bytes \<Rightarrow> bytes \<Rightarrow> (bytes \<times> bytes) py" where
  "prepare_chunk C src c aes_key nonce =
    bindR src (\<lambda>content.
      let plaintext = slice (ch_offset c) (ch_end c) content
      in if length plaintext \<noteq> ch_size c then raise NonRetryableTransferError
         else bindR (chunk_mac C plaintext aes_key nonce) (\<lambda>mac.
              bindR (ctr_offset_to_counter (ch_offset c)) (\<lambda>n.
              bindR (make_ctr_cipher aes_key nonce n) (\<lambda>cipher.
                Inr (fst (ctr_update C cipher plaintext), mac)))))"

definition put_url :: "string \<Rightarrow> nat \<Rightarrow> string" where
  "put_url upload_url offset = upload_url @ ''/'' @ show_nat offset"

definition ul_blame :: "post_env \<Rightarrow> string option \<Rightarrow> ul \<Rightarrow> ul" where
  "ul_blame P picked u = u\<lparr>ul_selector := selector_report_failure (pe_now P) picked (ul_selector u)\<rparr>"

text \<open>The body check: a token for the final chunk, and only for it.\<close>

definition check_body :: "chunk \<Rightarrow> int \<Rightarrow> bytes \<Rightarrow> unit py" where
  "check_body c whole body =
    (if body \<noteq> [] \<and> \<not> is_final_chunk c whole then raise NonRetryableTransferError
     else if is_final_chunk c whole \<and> body = [] then raise NonRetryableTransferError else Inr ())"

definition accept_body :: "chunk \<Rightarrow> int \<Rightarrow> bytes list \<Rightarrow> exc option \<Rightarrow> bytes py" where
  "accept_body c whole blocks tail =
    bindR (read_bounded_body blocks tail) (\<lambda>body. bindR (check_body c whole body) (\<lambda>_. Inr body))"

definition post_chunk :: "post_env \<Rightarrow> string \<Rightarrow> chunk \<Rightarrow> bytes \<Rightarrow> ul \<Rightarrow> bytes py \<times> ul" where
  "post_chunk P upload_url c encrypted u =
    (case selector_select (pe_now P) (pe_draw P) (ul_selector u) of
       (Inl e, sel) \<Rightarrow> (Inl e, u\<lparr>ul_selector := sel\<rparr>)
     | (Inr (_, picked), sel) \<Rightarrow>
        let u = u\<lparr>ul_selector := sel\<rparr>
        in case pe_reply P (put_url upload_url (ch_offset c)) encrypted of
            NoReply e \<Rightarrow> (Inl e, if is_link_fault e then ul_blame P picked u else u)
          | Reply status _ blocks tail \<Rightarrow>
              if status \<in> set UPLOAD_URL_EXPIRY_STATUS then (raise UploadUrlExpiredError, u)
              else if status \<noteq> 200 then
                (if 500 \<le> status then raise RetryableTransferError else raise NonRetryableTransferError,
                 ul_blame P picked u)
              else case accept_body c (total_size (ul_state u)) blocks tail of
                  Inl e \<Rightarrow> (Inl e, ul_blame P picked u)
                | Inr body \<Rightarrow>
                    (Inr body, u\<lparr>ul_selector := selector_report_success picked (ul_selector u),
                                 ul_acks := ul_acks u @ [(upload_url, ch_offset c, encrypted, body)]\<rparr>))"

definition has_token :: "bytes option \<Rightarrow> bool" where
  "has_token t \<longleftrightarrow> (case t of None \<Rightarrow> False | Some b \<Rightarrow> b \<noteq> [])"

text \<open>Under the lock: chunk, counters, the first token; then the periodic save.\<close>

definition keep_token :: "bytes \<Rightarrow> ul \<Rightarrow> ul" where
  "keep_token body u =
    (if body \<noteq> [] \<and> \<not> has_token (ul_token u)
     then u\<lparr>ul_token := Some body,
            ul_state := (ul_state u)\<lparr>metadata :=
              dict_set ''completion_token'' (JStr (to_hex body)) (metadata (ul_state u))\<rparr>\<rparr>
     else u)"

definition save_progress :: "net_lib \<Rightarrow> env \<Rightarrow> ul \<Rightarrow> unit py \<times> ul" where
  "save_progress N E u =
    (case snapshot_state (ul_state u) of (live, snap) \<Rightarrow>
       case save_state N E snap (ul_disk u) of (r, disk) \<Rightarrow> (r, u\<lparr>ul_state := live, ul_disk := disk\<rparr>))"

definition under_lock :: "chunk \<Rightarrow> transfer_state \<Rightarrow> bytes \<Rightarrow> ul \<Rightarrow> ul" where
  "under_lock c s body u =
     keep_token body (u\<lparr>ul_state := s, ul_bytes_done := ul_bytes_done u + ch_size c,
                         ul_chunks_done := ul_chunks_done u + 1\<rparr>)"

definition record_chunk :: "net_lib \<Rightarrow> env \<Rightarrow> chunk \<Rightarrow> bytes \<Rightarrow> bytes \<Rightarrow> ul \<Rightarrow> unit py \<times> ul" where
  "record_chunk N E c mac body u =
    (case mark_chunk_done (int (ch_index c)) (Some mac) (ul_state u) of
       Inl e \<Rightarrow> (Inl e, u)
     | Inr s \<Rightarrow>
        let u = under_lock c s body u
        in if ul_chunks_done u mod 8 = 0 \<or> body \<noteq> [] then save_progress N E u else (Inr (), u))"

section \<open>The pool\<close>

text \<open>
  A worker waits with the attempts it has made, holds a validated answer with the chunk's MAC, or
  has returned or raised.
\<close>

datatype worker = Waiting nat | Answered bytes bytes | Finished "unit py"

text \<open>
  The retry decorator: an error of the allowlist is replayed, up to five attempts; any other, and
  the last, is raised.
\<close>

definition after_error :: "exc \<Rightarrow> nat \<Rightarrow> worker" where
  "after_error e n =
    (if is_retryable_upload_error e \<and> n + 1 < MAX_UPLOAD_ATTEMPTS then Waiting (n + 1) else Finished (Inl e))"

definition send_chunk ::
  "aes \<Rightarrow> string \<Rightarrow> bytes \<Rightarrow> bytes \<Rightarrow> post_env \<Rightarrow> chunk \<Rightarrow> nat \<Rightarrow> ul \<Rightarrow> worker \<times> ul" where
  "send_chunk C upload_url aes_key nonce P c n u =
    (if ul_stop u then (Finished (Inr ()), u)
     else case prepare_chunk C (pe_source P) c aes_key nonce of
         Inl e \<Rightarrow> (after_error e n, u)
       | Inr (encrypted, mac) \<Rightarrow>
           (case post_chunk P upload_url c encrypted u of
              (Inl e, u) \<Rightarrow> (after_error e n, u)
            | (Inr body, u) \<Rightarrow> (Answered mac body, u)))"

text \<open>What the main thread makes of a failed future, and what it then raises.\<close>

datatype outcome = Expired | Failed exc

definition on_failure :: "net_lib \<Rightarrow> env \<Rightarrow> exc \<Rightarrow> ul \<Rightarrow> outcome \<times> ul" where
  "on_failure N E e u =
    (let u = u\<lparr>ul_stop := True\<rparr>
     in if isinstance e UploadUrlExpiredError then (Expired, u)
        else case save_progress N E u of
            (Inl e', u) \<Rightarrow> (Failed e', u)
          | (Inr _, u) \<Rightarrow> (Failed (Exc TransferError None), u))"

text \<open>
  The futures are looked at in the order of submission: the first that has not returned blocks
  the look, and is a failure once it has raised.
\<close>

fun noticed :: "worker list \<Rightarrow> exc option" where
  "noticed [] = None"
| "noticed (Finished (Inr _) # ws) = noticed ws"
| "noticed (Finished (Inl e) # ws) = Some e"
| "noticed (_ # ws) = None"

datatype up_event = Send nat post_env | Record nat env | UserStop | Notice env

fun pool_event ::
  "aes \<Rightarrow> net_lib \<Rightarrow> string \<Rightarrow> bytes \<Rightarrow> bytes \<Rightarrow> chunk list \<Rightarrow> up_event
   \<Rightarrow> worker list \<times> outcome option \<times> ul \<Rightarrow> worker list \<times> outcome option \<times> ul" where
  "pool_event C N url key nonce cs (Send i P) (ws, out, u) =
    (if i < length ws then
       (case ws ! i of
          Waiting n \<Rightarrow> (case send_chunk C url key nonce P (cs ! i) n u of (w, u) \<Rightarrow> (ws[i := w], out, u))
        | _ \<Rightarrow> (ws, out, u))
     else (ws, out, u))"
| "pool_event C N url key nonce cs (Record i E) (ws, out, u) =
    (if i < length ws then
       (case ws ! i of
          Answered mac body \<Rightarrow>
            (case record_chunk N E (cs ! i) mac body u of (r, u) \<Rightarrow> (ws[i := Finished r], out, u))
        | _ \<Rightarrow> (ws, out, u))
     else (ws, out, u))"
| "pool_event C N url key nonce cs UserStop (ws, out, u) = (ws, out, u\<lparr>ul_stop := True\<rparr>)"
| "pool_event C N url key nonce cs (Notice E) (ws, out, u) =
    (case (out, noticed ws) of
       (None, Some e) \<Rightarrow> (case on_failure N E e u of (o', u) \<Rightarrow> (ws, Some o', u))
     | _ \<Rightarrow> (ws, out, u))"

definition is_finished :: "worker \<Rightarrow> bool" where
  "is_finished w \<longleftrightarrow> (case w of Finished _ \<Rightarrow> True | _ \<Rightarrow> False)"

text \<open>
  The pool's block is left when every worker has returned and a failure, if there is one, has been
  noticed; a schedule that ends before that is not one the program can leave.
\<close>

definition run_workers ::
  "aes \<Rightarrow> net_lib \<Rightarrow> string \<Rightarrow> bytes \<Rightarrow> bytes \<Rightarrow> chunk list \<Rightarrow> up_event list \<Rightarrow> ul \<Rightarrow> (outcome option \<times> ul) option" where
  "run_workers C N url key nonce cs evs u =
    (case foldl (\<lambda>p ev. pool_event C N url key nonce cs ev p) (replicate (length cs) (Waiting 0), None, u) evs of
       (ws, out, u) \<Rightarrow>
         if list_all is_finished ws \<and> (out \<noteq> None \<or> noticed ws = None) then Some (out, u) else None)"

section \<open>What a resume state yields\<close>

text \<open>
  What a resume state yields: the key and nonce in force afterwards, and the slot with its token
  unless the state is unusable. The key is assigned before the nonce is read, so a state that
  fails half-way has already replaced it.
\<close>

definition hex_member :: "string \<Rightarrow> (string \<times> json) list \<Rightarrow> bytes option" where
  "hex_member k d = (case jget k d of Some (JStr h) \<Rightarrow> from_hex h | _ \<Rightarrow> None)"

definition token_member :: "(string \<times> json) list \<Rightarrow> bytes option option" where
  "token_member d = (let v = jget_none ''completion_token'' d in
     if \<not> truthy v then Some None
     else case v of JStr h \<Rightarrow> map_option Some (from_hex h) | _ \<Rightarrow> None)"

definition resume_material ::
  "(string \<times> json) list \<Rightarrow> bytes \<Rightarrow> bytes \<Rightarrow> (string \<times> bytes option) option \<times> bytes \<times> bytes" where
  "resume_material d key0 nonce0 =
    (case hex_member ''aes_key'' d of
       None \<Rightarrow> (None, key0, nonce0)
     | Some key \<Rightarrow>
        (case hex_member ''nonce'' d of
           None \<Rightarrow> (None, key, nonce0)
         | Some nonce \<Rightarrow>
             if length key \<noteq> 16 \<or> length nonce \<noteq> 8 then (None, key, nonce)
             else (case (jget ''upload_url'' d, token_member d) of
                 (Some (JStr url), Some tok) \<Rightarrow> (Some (url, tok), key, nonce)
               | _ \<Rightarrow> (None, key, nonce))))"

section \<open>What the acknowledgements prove\<close>

text \<open>The bytes of the sealed file that belong to a chunk, and the plaintext ones.\<close>

definition sealed :: "aes \<Rightarrow> bytes \<Rightarrow> bytes \<Rightarrow> bytes \<Rightarrow> chunk \<Rightarrow> bytes" where
  "sealed C key nonce plain c = slice (ch_offset c) (ch_end c) (ctr_crypt C key nonce 0 plain)"

definition chunk_proven ::
  "aes \<Rightarrow> bytes \<Rightarrow> bytes \<Rightarrow> bytes \<Rightarrow> string \<Rightarrow> (string \<times> nat \<times> bytes \<times> bytes) list \<Rightarrow> chunk \<Rightarrow> bytes \<Rightarrow> bool" where
  "chunk_proven C key nonce plain url acks c mac \<longleftrightarrow>
     chunk_mac C (slice (ch_offset c) (ch_end c) plain) key nonce = Inr mac
     \<and> (\<exists>body. (url, ch_offset c, sealed C key nonce plain c, body) \<in> set acks)"

definition token_proven ::
  "aes \<Rightarrow> bytes \<Rightarrow> bytes \<Rightarrow> bytes \<Rightarrow> string \<Rightarrow> (string \<times> nat \<times> bytes \<times> bytes) list \<Rightarrow> bytes \<Rightarrow> bool" where
  "token_proven C key nonce plain url acks t \<longleftrightarrow>
     (\<exists>c \<in> set (iter_chunks (length plain)). ch_end c = length plain
        \<and> (url, ch_offset c, sealed C key nonce plain c, t) \<in> set acks)"

definition transfer_true ::
  "aes \<Rightarrow> bytes \<Rightarrow> bytes \<Rightarrow> bytes \<Rightarrow> string \<Rightarrow> (string \<times> nat \<times> bytes \<times> bytes) list \<Rightarrow> bytes option
   \<Rightarrow> transfer_state \<Rightarrow> bool" where
  "transfer_true C key nonce plain url acks tok s \<longleftrightarrow>
     total_size s = int (length plain)
     \<and> (\<forall>c \<in> set (iter_chunks (length plain)). \<forall>m.
          get_chunk_mac (int (ch_index c)) s = Inr (Some m) \<longrightarrow> chunk_proven C key nonce plain url acks c m)
     \<and> (\<forall>t. tok = Some t \<longrightarrow> token_proven C key nonce plain url acks t)"

text \<open>
  A disk is true of \<open>plain\<close> when what its resume state records, for an upload of that size, was
  acknowledged by the slot and under the key the state names.
\<close>

definition disk_true ::
  "aes \<Rightarrow> net_lib \<Rightarrow> bytes \<Rightarrow> (string \<times> nat \<times> bytes \<times> bytes) list \<Rightarrow> disk \<Rightarrow> bool" where
  "disk_true C N plain acks d \<longleftrightarrow>
    (\<forall>j s url tok key nonce. d_file d = Some (Doc j) \<longrightarrow> validate_state_dict N j = Inr s
       \<longrightarrow> total_size s = int (length plain) \<longrightarrow> resume_material (metadata s) [] [] = (Some (url, tok), key, nonce)
       \<longrightarrow> transfer_true C key nonce plain url acks tok s)"

text \<open>The metadata names the slot, the key and the token that are in use.\<close>

definition meta_says :: "(string \<times> json) list \<Rightarrow> string \<Rightarrow> bytes \<Rightarrow> bytes \<Rightarrow> bytes option \<Rightarrow> bool" where
  "meta_says d url key nonce tok \<longleftrightarrow>
     hex_member ''aes_key'' d = Some key \<and> hex_member ''nonce'' d = Some nonce
     \<and> jget ''upload_url'' d = Some (JStr url) \<and> token_member d = Some tok"

definition ul_sound :: "aes \<Rightarrow> net_lib \<Rightarrow> bytes \<Rightarrow> bytes \<Rightarrow> bytes \<Rightarrow> string \<Rightarrow> ul \<Rightarrow> bool" where
  "ul_sound C N key nonce plain url u \<longleftrightarrow>
     transfer_true C key nonce plain url (ul_acks u) (ul_token u) (ul_state u)
     \<and> meta_says (metadata (ul_state u)) url key nonce (ul_token u)
     \<and> distinct (map fst (chunk_macs (ul_state u))) \<and> disk_true C N plain (ul_acks u) (ul_disk u)"

lemma resume_material_iff:
  "resume_material d k n = (Some (url, tok), key, nonce)
     \<longleftrightarrow> meta_says d url key nonce tok \<and> length key = 16 \<and> length nonce = 8"
proof -
  obtain a b where ab: "hex_member ''aes_key'' d = a" "hex_member ''nonce'' d = b" by blast
  obtain x y where xy: "jget ''upload_url'' d = x" "token_member d = y" by blast
  have "(case (x, y) of (Some (JStr url), Some tok) \<Rightarrow> (Some (url, tok), ky, nc) | _ \<Rightarrow> (None, ky, nc))
      = (Some (url, tok), key, nonce) \<longleftrightarrow> x = Some (JStr url) \<and> y = Some tok \<and> ky = key \<and> nc = nonce" for ky nc
  proof (cases x)
    case (Some v)
    then show ?thesis by (cases v; cases y) auto
  qed simp
  then show ?thesis
    by (cases a; cases b) (auto simp: resume_material_def meta_says_def ab xy)
qed

lemma meta_says_unique:
  "meta_says d url key nonce tok \<Longrightarrow> meta_says d url' key' nonce' tok' \<Longrightarrow> url' = url \<and> tok' = tok \<and> key' = key \<and> nonce' = nonce"
  by (auto simp: meta_says_def)

lemma proven_mono:
  assumes "set acks \<subseteq> set acks'"
  shows "chunk_proven C key nonce plain url acks c m \<Longrightarrow> chunk_proven C key nonce plain url acks' c m"
    and "token_proven C key nonce plain url acks t \<Longrightarrow> token_proven C key nonce plain url acks' t"
  using assms by (auto simp: chunk_proven_def token_proven_def)

lemma transfer_true_mono:
  assumes "set acks \<subseteq> set acks'" and "transfer_true C key nonce plain url acks tok s"
  shows "transfer_true C key nonce plain url acks' tok s"
  using assms(2) unfolding transfer_true_def by (auto intro: proven_mono [OF assms(1)])

lemma disk_true_mono:
  assumes "set acks \<subseteq> set acks'" and "disk_true C N plain acks d" and "d_file d' = d_file d \<or> d_file d' = None"
  shows "disk_true C N plain acks' d'"
  unfolding disk_true_def
proof (intro allI impI)
  fix j s url tok key nonce
  assume j: "d_file d' = Some (Doc j)" "validate_state_dict N j = Inr s" "total_size s = int (length plain)"
    "resume_material (metadata s) [] [] = (Some (url, tok), key, nonce)"
  have "d_file d = Some (Doc j)" using j(1) assms(3) by simp
  then have "transfer_true C key nonce plain url acks tok s"
    using assms(2) j(2-4) unfolding disk_true_def by blast
  then show "transfer_true C key nonce plain url acks' tok s" by (rule transfer_true_mono [OF assms(1)])
qed

lemma get_mac_cong: "chunk_macs s = chunk_macs t \<Longrightarrow> get_chunk_mac j s = get_chunk_mac j t"
  by (simp add: get_chunk_mac_def)

lemma transfer_true_cong:
  assumes "chunk_macs s = chunk_macs t" and "total_size s = total_size t"
  shows "transfer_true C key nonce plain url acks tok s = transfer_true C key nonce plain url acks tok t"
  unfolding transfer_true_def assms(2) get_mac_cong [OF assms(1)] ..

lemma prepare_chunk_ok:
  assumes "prepare_chunk C (Inr plain) c key nonce = Inr (enc, mac)" and "c \<in> set (iter_chunks (length plain))"
  shows "enc = sealed C key nonce plain c
    \<and> chunk_mac C (slice (ch_offset c) (ch_end c) plain) key nonce = Inr mac"
proof -
  have o: "ch_offset c \<le> length plain" using plan.plan_bounds [OF assms(2)] by (simp add: ch_end_def)
  have "enc = ctr_crypt C key nonce (ch_offset c) (slice (ch_offset c) (ch_end c) plain)"
    using assms(1) plan.plan_aligned [OF assms(2)]
    by (auto simp: prepare_chunk_def bindR_Inr_iff ctr_offset_to_counter_def make_ctr_cipher_def ctr_update_def
        Let_def split: if_splits)
  then show ?thesis
    using assms(1) ctr.crypt_slice [OF o, of "ch_end c" C key nonce 0]
    by (auto simp: sealed_def prepare_chunk_def bindR_Inr_iff Let_def split: if_splits)
qed

lemma check_body_ok: "check_body c whole body = Inr v \<Longrightarrow> (body \<noteq> []) = is_final_chunk c whole"
  by (auto simp: check_body_def split: if_splits)

lemma accept_body_ok: "accept_body c whole blocks tail = Inr body \<Longrightarrow> (body \<noteq> []) = is_final_chunk c whole"
  by (auto simp: accept_body_def bindR_Inr_iff dest: check_body_ok)

text \<open>Sending touches the selector and the history only, and an answer is one new acknowledgement.\<close>

lemma post_chunk_facts:
  assumes "post_chunk P url c enc u = (r, u')"
  shows "(\<exists>e sel. r = Inl e \<and> u' = u\<lparr>ul_selector := sel\<rparr>)
    \<or> (\<exists>body sel. r = Inr body \<and> (body \<noteq> []) = is_final_chunk c (total_size (ul_state u))
         \<and> u' = u\<lparr>ul_selector := sel, ul_acks := ul_acks u @ [(url, ch_offset c, enc, body)]\<rparr>)"
proof -
  obtain q sel where s: "selector_select (pe_now P) (pe_draw P) (ul_selector u) = (q, sel)"
    by (metis surj_pair)
  show ?thesis
  proof (cases q)
    case (Inl e)
    then show ?thesis using assms s by (auto simp: post_chunk_def)
  next
    case (Inr route)
    obtain px picked where route: "route = (px, picked)" by (metis surj_pair)
    show ?thesis
    proof (cases "pe_reply P (put_url url (ch_offset c)) enc")
      case (NoReply e)
      then show ?thesis using assms s Inr route
        by (auto simp: post_chunk_def ul_blame_def Let_def split: if_splits)
    next
      case (Reply status headers blocks tail)
      show ?thesis
      proof (cases "accept_body c (total_size (ul_state u)) blocks tail")
        case a: (Inl e)
        show ?thesis using assms s Inr route Reply
          by (auto simp: post_chunk_def ul_blame_def Let_def a split: if_splits)
      next
        case a: (Inr body)
        show ?thesis using assms s Inr route Reply accept_body_ok [OF a]
          by (auto simp: post_chunk_def ul_blame_def Let_def a split: if_splits)
      qed
    qed
  qed
qed

definition worker_sound ::
  "aes \<Rightarrow> bytes \<Rightarrow> bytes \<Rightarrow> bytes \<Rightarrow> string \<Rightarrow> (string \<times> nat \<times> bytes \<times> bytes) list \<Rightarrow> chunk \<Rightarrow> worker \<Rightarrow> bool" where
  "worker_sound C key nonce plain url acks c w \<longleftrightarrow> (\<forall>mac body. w = Answered mac body \<longrightarrow>
     chunk_mac C (slice (ch_offset c) (ch_end c) plain) key nonce = Inr mac
     \<and> (url, ch_offset c, sealed C key nonce plain c, body) \<in> set acks
     \<and> (body \<noteq> [] \<longrightarrow> ch_end c = length plain))"

lemma worker_sound_mono:
  "worker_sound C key nonce plain url acks c w \<Longrightarrow> set acks \<subseteq> set acks' \<Longrightarrow> worker_sound C key nonce plain url acks' c w"
  by (auto simp: worker_sound_def)

lemma after_error_sound: "worker_sound C key nonce plain url acks c (after_error e n)"
  by (simp add: worker_sound_def after_error_def)

lemma final_end:
  assumes "c \<in> set (iter_chunks n)"
  shows "is_final_chunk c (int n) \<longleftrightarrow> ch_end c = n"
  using plan.plan_bounds [OF assms] by (auto simp: is_final_chunk_def ch_end_def)

lemma ul_sound_frame:
  assumes "ul_sound C N key nonce plain url u" and "ul_state u' = ul_state u" and "ul_token u' = ul_token u"
    and "set (ul_acks u) \<subseteq> set (ul_acks u')" and "d_file (ul_disk u') = d_file (ul_disk u) \<or> d_file (ul_disk u') = None"
  shows "ul_sound C N key nonce plain url u'"
  using assms(1) transfer_true_mono [OF assms(4)] disk_true_mono [OF assms(4) _ assms(5)]
  unfolding ul_sound_def assms(2,3) by blast

lemma send_chunk_sound:
  assumes "send_chunk C url key nonce P c n u = (w, u')" and "ul_sound C N key nonce plain url u"
    and "c \<in> set (iter_chunks (length plain))" and "\<And>x. pe_source P = Inr x \<Longrightarrow> x = plain"
  shows "ul_sound C N key nonce plain url u' \<and> worker_sound C key nonce plain url (ul_acks u') c w
    \<and> set (ul_acks u) \<subseteq> set (ul_acks u') \<and> ul_state u' = ul_state u \<and> ul_disk u' = ul_disk u \<and> ul_calls u' = ul_calls u"
proof (cases "ul_stop u \<or> (\<exists>e. prepare_chunk C (pe_source P) c key nonce = Inl e)")
  case True
  then have "u' = u" "\<And>m b. w \<noteq> Answered m b"
    using assms(1) by (auto simp: send_chunk_def after_error_def split: if_splits)
  then show ?thesis using assms(2) by (simp add: worker_sound_def)
next
  case False
  then obtain enc mac where p: "prepare_chunk C (pe_source P) c key nonce = Inr (enc, mac)" and st: "\<not> ul_stop u"
    by (metis old.prod.exhaust sum.exhaust)
  then have src: "pe_source P = Inr plain"
    using assms(4) by (cases "pe_source P") (auto simp: prepare_chunk_def)
  note pr = prepare_chunk_ok [OF p [unfolded src] assms(3)]
  obtain r v where v: "post_chunk P url c enc u = (r, v)" by (metis surj_pair)
  from post_chunk_facts [OF v] show ?thesis
  proof (elim disjE exE conjE)
    fix e sel assume r: "r = Inl e" "v = u\<lparr>ul_selector := sel\<rparr>"
    then have "u' = u\<lparr>ul_selector := sel\<rparr>" "w = after_error e n"
      using assms(1) st p v by (simp_all add: send_chunk_def)
    then show ?thesis using ul_sound_frame [OF assms(2), of u'] after_error_sound by simp
  next
    fix body sel
    assume r: "r = Inr body" "(body \<noteq> []) = is_final_chunk c (total_size (ul_state u))"
      "v = u\<lparr>ul_selector := sel, ul_acks := ul_acks u @ [(url, ch_offset c, enc, body)]\<rparr>"
    have u': "u' = v" "w = Answered mac body" using assms(1) st p v r(1) by (simp_all add: send_chunk_def)
    have t: "total_size (ul_state u) = int (length plain)" using assms(2) by (simp add: ul_sound_def transfer_true_def)
    have "worker_sound C key nonce plain url (ul_acks u') c w"
      using r(2) pr final_end [OF assms(3)] by (simp add: worker_sound_def u' r(3) t)
    then show ?thesis using ul_sound_frame [OF assms(2), of u'] by (simp add: u' r(3)) blast
  qed
qed

text \<open>Recording under the lock: what is newly on record was acknowledged.\<close>

lemma get_mac_set:
  assumes "mark_chunk_done i (Some m) s = Inr t"
  shows "get_chunk_mac j t = (if j = i then Inr (Some m) else get_chunk_mac j s)"
    and "total_size t = total_size s" and "metadata t = metadata s"
    and "distinct (map fst (chunk_macs s)) \<Longrightarrow> distinct (map fst (chunk_macs t))"
proof -
  have "length m = 16" using assms by (auto simp: mark_chunk_done_def Let_def MAC_BYTE_LENGTH_def MAC_HEX_LENGTH_def split: if_splits)
  then have "to_hex m \<noteq> []" by (cases m) (auto simp: to_hex_def)
  moreover have "chunk_macs t = dict_set i (to_hex m) (chunk_macs s)" "total_size t = total_size s" "metadata t = metadata s"
    using assms by (auto simp: mark_chunk_done_def Let_def split: if_splits)
  ultimately show "get_chunk_mac j t = (if j = i then Inr (Some m) else get_chunk_mac j s)"
    "total_size t = total_size s" "metadata t = metadata s"
    "distinct (map fst (chunk_macs s)) \<Longrightarrow> distinct (map fst (chunk_macs t))"
    by (simp_all add: get_chunk_mac_def from_hex_to_hex distinct_dict_set)
qed

lemma save_progress_frame:
  "save_progress N E u = (r, u') \<Longrightarrow>
     ul_state u' = (ul_state u)\<lparr>revision := revision (ul_state u) + 1\<rparr> \<and> ul_token u' = ul_token u
     \<and> ul_acks u' = ul_acks u \<and> ul_calls u' = ul_calls u \<and> ul_stop u' = ul_stop u"
  by (auto simp: save_progress_def snapshot_state_def Let_def split: prod.splits)

text \<open>A snapshot that is read back is the snapshot, when the dictionary of MACs is one.\<close>

lemma py_nat_show_nat_Some: "py_nat (show_nat n) = Some m \<Longrightarrow> m = n"
proof -
  have "int_digits False (show_nat n) = Some (show_nat n)"
    using show_nat_nonempty show_nat_digits digit_char_facts(1) by (intro int_digits_all) blast+
  then show "py_nat (show_nat n) = Some m \<Longrightarrow> m = n"
    by (simp add: py_nat_def digits_val_show_nat split: if_splits)
qed

lemma py_int_show_int_Some:
  assumes "py_int (show_int k) = Some j"
  shows "j = k"
proof (cases "k < 0")
  case True
  have "\<not> is_ws (CHR ''-'')" by (simp add: is_ws_def)
  then have ns: "\<forall>c \<in> set (show_int k). \<not> is_ws c"
    using True show_nat_digits digit_char_facts(3) by (auto simp: show_int_def)
  from True show ?thesis
    using assms py_nat_show_nat_Some [of "nat (- k)"]
    unfolding py_int_def strip_id [OF ns] by (auto simp: show_int_def)
next
  case False
  have ns: "\<forall>c \<in> set (show_nat (nat k)). \<not> is_ws c"
    using show_nat_digits digit_char_facts(3) by blast
  obtain c t where ct: "show_nat (nat k) = c # t"
    using show_nat_nonempty by (cases "show_nat (nat k)") auto
  then have "c \<noteq> CHR ''-''" "c \<noteq> CHR ''+''"
    using show_nat_digits [of c "nat k"] digit_char_facts(4,5) by auto
  then show ?thesis
    using False ct strip_id [OF ns] assms py_nat_show_nat_Some [of "nat k"]
    by (auto simp: py_int_def show_int_def)
qed

lemma chunks_read_same: "foldR validate_chunk_index (map JInt cs) seen = Inr r \<Longrightarrow> r = seen @ cs"
proof (induction cs arbitrary: seen)
  case (Cons c cs)
  then obtain s where s: "validate_chunk_index (JInt c) seen = Inr s" "foldR validate_chunk_index (map JInt cs) s = Inr r"
    by (auto simp: bindR_Inr_iff)
  have "s = seen @ [c]" using s(1) by (auto simp: validate_chunk_index_Inr)
  then show ?case using Cons.IH [OF s(2)] by simp
qed simp

lemma macs_read_same:
  assumes "foldR validate_mac (map (\<lambda>(k, v). (show_int k, JStr v)) ms) acc = Inr r" and "distinct (map fst (acc @ ms))"
  shows "r = acc @ ms"
  using assms
proof (induction ms arbitrary: acc)
  case (Cons m ms)
  obtain k v where m: "m = (k, v)" by (metis surj_pair)
  obtain s where s: "validate_mac (show_int k, JStr v) acc = Inr s"
    "foldR validate_mac (map (\<lambda>(k, v). (show_int k, JStr v)) ms) s = Inr r"
    using Cons.prems(1) m by (auto simp: bindR_Inr_iff)
  have "s = dict_set k v acc"
    using s(1) py_int_show_int_Some by (auto simp: validate_mac_Inr)
  moreover have "dict_set k v acc = acc @ [(k, v)]"
    using Cons.prems(2) m by (intro dict_set_fresh) auto
  ultimately show ?case using Cons.IH [of "acc @ [(k, v)]"] s(2) Cons.prems(2) m by simp
qed simp

lemma reads_back_same:
  assumes "validate_state_dict N (state_json s) = Inr t" and "distinct (map fst (chunk_macs s))"
  shows "t = s"
proof -
  have g: "need_int (JInt n) = Inr n" "need_str (JStr x) = Inr x" "need_arr (JArr l) = Inr l"
    "need_obj (JObj d) = Inr d" for n x l d
    by (simp_all add: need_int_def need_str_def need_arr_def need_obj_def)
  have m: "validate_metadata N (JObj d) = Inr e \<Longrightarrow> e = d" for d e
    by (auto simp: validate_metadata_def need_obj_def bindR_Inr_iff)
  show ?thesis
    using assms unfolding validate_state_dict_def state_json_def
    by (auto simp: g need_field_def jget_def jget_default_def req_def bindR_Inr_iff
        dest!: chunks_read_same macs_read_same m split: if_splits)
qed

lemma disk_true_snapshot:
  assumes "transfer_true C key nonce plain url acks tok s" and "distinct (map fst (chunk_macs s))"
    and "meta_says (metadata s) url key nonce tok" and "d_file d = Some (Doc (state_json s))"
  shows "disk_true C N plain acks d"
  unfolding disk_true_def
proof (intro allI impI)
  fix j t url' tok' key' nonce'
  assume j: "d_file d = Some (Doc j)" "validate_state_dict N j = Inr t"
    "resume_material (metadata t) [] [] = (Some (url', tok'), key', nonce')"
  have "t = s" using reads_back_same [OF _ assms(2)] j(1,2) assms(4) by simp
  then have "meta_says (metadata s) url' key' nonce' tok'" using j(3) by (simp add: resume_material_iff)
  from meta_says_unique [OF assms(3) this] \<open>t = s\<close>
  show "transfer_true C key' nonce' plain url' acks tok' t" using assms(1) by simp
qed

lemma save_progress_sound:
  assumes "save_progress N E u = (r, u')" and "ul_sound C N key nonce plain url u"
  shows "ul_sound C N key nonce plain url u'"
proof -
  note f = save_progress_frame [OF assms(1)]
  let ?s = "(ul_state u)\<lparr>revision := revision (ul_state u) + 1\<rparr>"
  have "d_file (ul_disk u') = d_file (ul_disk u) \<or> d_file (ul_disk u') = Some (Doc (state_json ?s))"
    using assms(1) save_state_file [of N E ?s "ul_disk u"]
    by (auto simp: save_progress_def snapshot_state_def Let_def split: prod.splits)
  moreover have "transfer_true C key nonce plain url (ul_acks u) (ul_token u) ?s"
    using assms(2) transfer_true_cong [of ?s "ul_state u"] by (simp add: ul_sound_def)
  moreover have "disk_true C N plain (ul_acks u) (ul_disk u)" and m: "meta_says (metadata ?s) url key nonce (ul_token u)"
    and d: "distinct (map fst (chunk_macs ?s))"
    using assms(2) by (simp_all add: ul_sound_def)
  ultimately have "disk_true C N plain (ul_acks u) (ul_disk u')"
    using disk_true_mono [of "ul_acks u" "ul_acks u" C N plain "ul_disk u" "ul_disk u'"]
      disk_true_snapshot [OF _ d m] by blast
  then show ?thesis
    using assms(2) f transfer_true_cong [of ?s "ul_state u"] by (simp add: ul_sound_def)
qed

lemma keep_token_facts:
  "ul_acks (keep_token body u) = ul_acks u \<and> ul_calls (keep_token body u) = ul_calls u
   \<and> ul_disk (keep_token body u) = ul_disk u \<and> chunk_macs (ul_state (keep_token body u)) = chunk_macs (ul_state u)
   \<and> total_size (ul_state (keep_token body u)) = total_size (ul_state u)
   \<and> (ul_token (keep_token body u) = ul_token u \<or> ul_token (keep_token body u) = Some body \<and> body \<noteq> [])"
  by (auto simp: keep_token_def)

lemma keep_token_says:
  assumes "meta_says (metadata (ul_state u)) url key nonce (ul_token u)"
  shows "meta_says (metadata (ul_state (keep_token body u))) url key nonce (ul_token (keep_token body u))"
proof (cases "body \<noteq> [] \<and> \<not> has_token (ul_token u)")
  case True
  then have "to_hex body \<noteq> []" by (cases body) (auto simp: to_hex_def)
  then show ?thesis
    using assms True
    by (auto simp: keep_token_def meta_says_def hex_member_def token_member_def jget_def jget_default_def
        from_hex_to_hex Let_def)
qed (use assms in \<open>auto simp: keep_token_def\<close>)

lemma under_lock_facts:
  "ul_acks (under_lock c s body u) = ul_acks u \<and> ul_calls (under_lock c s body u) = ul_calls u
   \<and> ul_disk (under_lock c s body u) = ul_disk u"
  using keep_token_facts by (simp add: under_lock_def)

lemma record_chunk_cases:
  assumes "record_chunk N E c mac body u = (r, u')"
  obtains "u' = u"
    | s where "mark_chunk_done (int (ch_index c)) (Some mac) (ul_state u) = Inr s" "u' = under_lock c s body u"
    | s where "mark_chunk_done (int (ch_index c)) (Some mac) (ul_state u) = Inr s"
      "save_progress N E (under_lock c s body u) = (r, u')"
  using assms by (auto simp: record_chunk_def Let_def split: sum.splits if_splits)

lemma record_chunk_calls: "record_chunk N E c mac body u = (r, u') \<Longrightarrow> ul_calls u' = ul_calls u"
  by (erule record_chunk_cases) (use under_lock_facts save_progress_frame in fastforce)+

lemma marked_sound:
  assumes "mark_chunk_done (int (ch_index c)) (Some mac) (ul_state u) = Inr s"
    and "ul_sound C N key nonce plain url u"
    and "worker_sound C key nonce plain url (ul_acks u) c (Answered mac body)"
    and "c \<in> set (iter_chunks (length plain))"
  shows "ul_sound C N key nonce plain url (under_lock c s body u)"
proof -
  define v where "v = u\<lparr>ul_state := s, ul_bytes_done := ul_bytes_done u + ch_size c, ul_chunks_done := ul_chunks_done u + 1\<rparr>"
  have v: "ul_state v = s" "ul_token v = ul_token u" "ul_acks v = ul_acks u" "ul_disk v = ul_disk u"
    by (simp_all add: v_def)
  let ?w = "keep_token body v"
  note f = keep_token_facts [of body v] and m = get_mac_set [OF assms(1)]
  have t: "transfer_true C key nonce plain url (ul_acks u) (ul_token u) (ul_state u)"
    using assms(2) by (simp add: ul_sound_def)
  have g: "get_chunk_mac j (ul_state ?w) =
      (if j = int (ch_index c) then Inr (Some mac) else get_chunk_mac j (ul_state u))" for j
    using m(1) get_mac_cong [of "ul_state ?w" s] f v(1) by simp
  have proven: "chunk_proven C key nonce plain url (ul_acks u) d k"
    if d: "d \<in> set (iter_chunks (length plain))" and k: "get_chunk_mac (int (ch_index d)) (ul_state ?w) = Inr (Some k)" for d k
  proof (cases "ch_index d = ch_index c")
    case True
    then have "d = c" using plan.plan_index_unique [OF d assms(4)] by simp
    then show ?thesis using k g assms(3) by (auto simp: chunk_proven_def worker_sound_def)
  next
    case False
    then show ?thesis using k g t d by (simp add: transfer_true_def)
  qed
  have tok: "token_proven C key nonce plain url (ul_acks u) k" if "ul_token ?w = Some k" for k
  proof (cases "ul_token ?w = ul_token u")
    case True
    then show ?thesis using t that by (simp add: transfer_true_def)
  next
    case False
    then have "k = body" "body \<noteq> []" using f v(2) that by auto
    then show ?thesis using assms(3,4) by (auto simp: token_proven_def worker_sound_def)
  qed
  have "transfer_true C key nonce plain url (ul_acks u) (ul_token ?w) (ul_state ?w)"
    using proven tok t m(2) f v(1) by (simp add: transfer_true_def)
  moreover have "meta_says (metadata (ul_state ?w)) url key nonce (ul_token ?w)"
    by (rule keep_token_says) (use assms(2) v(1,2) m(3) in \<open>simp add: ul_sound_def\<close>)
  moreover have "distinct (map fst (chunk_macs (ul_state ?w)))"
    using f assms(2) v(1) m(4) by (simp add: ul_sound_def)
  ultimately have "ul_sound C N key nonce plain url ?w" using assms(2) v f by (simp add: ul_sound_def)
  then show ?thesis unfolding under_lock_def v_def .
qed

lemma record_chunk_sound:
  assumes "record_chunk N E c mac body u = (r, u')" and "ul_sound C N key nonce plain url u"
    and "worker_sound C key nonce plain url (ul_acks u) c (Answered mac body)"
    and "c \<in> set (iter_chunks (length plain))"
  shows "ul_sound C N key nonce plain url u' \<and> ul_acks u' = ul_acks u \<and> ul_calls u' = ul_calls u"
  using assms(1)
proof (cases rule: record_chunk_cases)
  case 1
  then show ?thesis using assms(2) by simp
next
  case (2 s)
  then show ?thesis using marked_sound [OF 2(1) assms(2-4)] under_lock_facts by simp
next
  case (3 s)
  then show ?thesis
    using save_progress_sound [OF 3(2) marked_sound [OF 3(1) assms(2-4)]] save_progress_frame [OF 3(2)]
      under_lock_facts by simp
qed

lemma on_failure_frame:
  assumes "on_failure N E e u = (out, u')"
  shows "ul_token u' = ul_token u \<and> ul_acks u' = ul_acks u \<and> ul_calls u' = ul_calls u
    \<and> chunk_macs (ul_state u') = chunk_macs (ul_state u) \<and> total_size (ul_state u') = total_size (ul_state u)"
proof (cases "isinstance e UploadUrlExpiredError")
  case True
  then show ?thesis using assms by (auto simp: on_failure_def)
next
  case False
  obtain r v where v: "save_progress N E (u\<lparr>ul_stop := True\<rparr>) = (r, v)" by (metis surj_pair)
  then have "u' = v" using False assms by (auto simp: on_failure_def split: sum.splits)
  then show ?thesis using save_progress_frame [OF v] by simp
qed

lemma on_failure_sound:
  assumes "on_failure N E e u = (out, u')" and "ul_sound C N key nonce plain url u"
  shows "ul_sound C N key nonce plain url u'"
proof -
  have s: "ul_sound C N key nonce plain url (u\<lparr>ul_stop := True\<rparr>)" using assms(2) by (simp add: ul_sound_def)
  show ?thesis
  proof (cases "isinstance e UploadUrlExpiredError")
    case True
    then show ?thesis using assms(1) s by (auto simp: on_failure_def)
  next
    case False
    obtain r v where v: "save_progress N E (u\<lparr>ul_stop := True\<rparr>) = (r, v)" by (metis surj_pair)
    then have "u' = v" using False assms(1) by (auto simp: on_failure_def split: sum.splits)
    then show ?thesis using save_progress_sound [OF v s] by simp
  qed
qed

text \<open>The invariant of a running pool, and a schedule that reads the source as it is.\<close>

definition pool_sound ::
  "aes \<Rightarrow> net_lib \<Rightarrow> bytes \<Rightarrow> bytes \<Rightarrow> bytes \<Rightarrow> string \<Rightarrow> chunk list \<Rightarrow> worker list \<times> outcome option \<times> ul \<Rightarrow> bool" where
  "pool_sound C N key nonce plain url cs p \<longleftrightarrow>
     (case p of (ws, out, u) \<Rightarrow>
        ul_sound C N key nonce plain url u \<and> length ws = length cs
        \<and> (\<forall>i < length ws. worker_sound C key nonce plain url (ul_acks u) (cs ! i) (ws ! i)))"

definition reads_source :: "bytes \<Rightarrow> up_event list \<Rightarrow> bool" where
  "reads_source plain evs \<longleftrightarrow>
     list_all (\<lambda>ev. case ev of Send i P \<Rightarrow> (case pe_source P of Inl _ \<Rightarrow> True | Inr x \<Rightarrow> x = plain) | _ \<Rightarrow> True) evs"

lemma pool_sound_update:
  assumes "pool_sound C N key nonce plain url cs (ws, out, u)" and "ul_sound C N key nonce plain url u'"
    and "set (ul_acks u) \<subseteq> set (ul_acks u')" and "worker_sound C key nonce plain url (ul_acks u') (cs ! i) w"
  shows "pool_sound C N key nonce plain url cs (ws[i := w], out', u')"
  using assms worker_sound_mono [OF _ assms(3)]
  by (simp add: pool_sound_def) (metis nth_list_update_eq nth_list_update_neq)

lemma pool_event_sound:
  assumes "pool_sound C N key nonce plain url cs p" and "reads_source plain [ev]"
    and "set cs \<subseteq> set (iter_chunks (length plain))" and "pool_event C N url key nonce cs ev p = p'"
  shows "pool_sound C N key nonce plain url cs p' \<and> ul_calls (snd (snd p')) = ul_calls (snd (snd p))
    \<and> set (ul_acks (snd (snd p))) \<subseteq> set (ul_acks (snd (snd p')))"
proof -
  obtain ws out u where p: "p = (ws, out, u)" by (metis prod_cases3)
  have s: "ul_sound C N key nonce plain url u" and l: "length ws = length cs"
    and wk: "\<And>i. i < length ws \<Longrightarrow> worker_sound C key nonce plain url (ul_acks u) (cs ! i) (ws ! i)"
    using assms(1) by (auto simp: p pool_sound_def)
  have c: "i < length ws \<Longrightarrow> cs ! i \<in> set (iter_chunks (length plain))" for i
    using assms(3) l by (auto intro: nth_mem)
  show ?thesis
  proof (cases ev)
    case (Send i P)
    show ?thesis
    proof (cases "i < length ws \<and> (\<exists>n. ws ! i = Waiting n)")
      case True
      then obtain n where w: "i < length ws" "ws ! i = Waiting n" by blast
      obtain w' u' where v: "send_chunk C url key nonce P (cs ! i) n u = (w', u')" by (metis surj_pair)
      have "x = plain" if "pe_source P = Inr x" for x
        using assms(2) that by (simp add: reads_source_def Send)
      note f = send_chunk_sound [OF v s c [OF w(1)] this]
      then have "p' = (ws[i := w'], out, u')" using assms(4) w v by (simp add: p Send)
      then show ?thesis using f pool_sound_update [OF assms(1) [unfolded p], of u' i w' out] by (simp add: p)
    next
      case False
      then have "p' = p" using assms(4) by (auto simp: p Send split: worker.splits)
      then show ?thesis using assms(1) by simp
    qed
  next
    case (Record i E)
    show ?thesis
    proof (cases "i < length ws \<and> (\<exists>mac body. ws ! i = Answered mac body)")
      case True
      then obtain mac body where w: "i < length ws" "ws ! i = Answered mac body" by blast
      obtain r u' where v: "record_chunk N E (cs ! i) mac body u = (r, u')" by (metis surj_pair)
      note f = record_chunk_sound [OF v s wk [OF w(1), unfolded w(2)] c [OF w(1)]]
      have "p' = (ws[i := Finished r], out, u')" using assms(4) w v by (simp add: p Record)
      then show ?thesis
        using f pool_sound_update [OF assms(1) [unfolded p], of u' i "Finished r" out]
        by (simp add: p worker_sound_def)
    next
      case False
      then have "p' = p" using assms(4) by (auto simp: p Record split: worker.splits)
      then show ?thesis using assms(1) by simp
    qed
  next
    case UserStop
    then have "p' = (ws, out, u\<lparr>ul_stop := True\<rparr>)" using assms(4) by (simp add: p)
    then show ?thesis using assms(1) ul_sound_frame [OF s, of "u\<lparr>ul_stop := True\<rparr>"] by (simp add: p pool_sound_def)
  next
    case (Notice E)
    show ?thesis
    proof (cases "\<exists>e. out = None \<and> noticed ws = Some e")
      case True
      then obtain e where e: "out = None" "noticed ws = Some e" by blast
      obtain o' u' where v: "on_failure N E e u = (o', u')" by (metis surj_pair)
      have p': "p' = (ws, Some o', u')" using assms(4) e v by (simp add: p Notice)
      note f = on_failure_frame [OF v]
      have "ul_sound C N key nonce plain url u'" by (rule on_failure_sound [OF v s])
      then show ?thesis using assms(1) f by (simp add: p p' pool_sound_def)
    next
      case False
      then have "p' = p" using assms(4) by (auto simp: p Notice split: option.splits)
      then show ?thesis using assms(1) by simp
    qed
  qed
qed

lemma run_workers_sound:
  assumes "run_workers C N url key nonce cs evs u = Some (out, u')" and "ul_sound C N key nonce plain url u"
    and "reads_source plain evs" and "set cs \<subseteq> set (iter_chunks (length plain))"
  shows "ul_sound C N key nonce plain url u' \<and> ul_calls u' = ul_calls u \<and> set (ul_acks u) \<subseteq> set (ul_acks u')"
proof -
  let ?step = "\<lambda>p ev. pool_event C N url key nonce cs ev p"
  have fold: "pool_sound C N key nonce plain url cs (foldl ?step p evs)
      \<and> ul_calls (snd (snd (foldl ?step p evs))) = ul_calls (snd (snd p))
      \<and> set (ul_acks (snd (snd p))) \<subseteq> set (ul_acks (snd (snd (foldl ?step p evs))))"
    if "pool_sound C N key nonce plain url cs p" for p
    using assms(3) that
  proof (induction evs arbitrary: p)
    case (Cons ev evs)
    have r: "reads_source plain [ev]" "reads_source plain evs" using Cons.prems(1) by (simp_all add: reads_source_def)
    note f = pool_event_sound [OF Cons.prems(2) r(1) assms(4) refl]
    from Cons.IH [OF r(2) conjunct1 [OF f]] f show ?case by simp blast
  qed simp
  have "pool_sound C N key nonce plain url cs (replicate (length cs) (Waiting 0), None, u)"
    using assms(2) by (simp add: pool_sound_def worker_sound_def)
  note f = fold [OF this]
  obtain ws o' v where e: "foldl ?step (replicate (length cs) (Waiting 0), None, u) evs = (ws, o', v)"
    by (metis prod_cases3)
  have "v = u'" using assms(1) e by (auto simp: run_workers_def split: if_splits)
  then show ?thesis using f unfolding e by (simp add: pool_sound_def)
qed

text \<open>No worker asks for the completion of the upload.\<close>

lemma send_chunk_calls:
  assumes "send_chunk C url key nonce P c n u = (w, u')"
  shows "ul_calls u' = ul_calls u"
proof (cases "ul_stop u \<or> (\<exists>e. prepare_chunk C (pe_source P) c key nonce = Inl e)")
  case True
  then show ?thesis using assms by (auto simp: send_chunk_def split: if_splits)
next
  case False
  then obtain enc mac where p: "prepare_chunk C (pe_source P) c key nonce = Inr (enc, mac)"
    by (metis old.prod.exhaust sum.exhaust)
  obtain r v where v: "post_chunk P url c enc u = (r, v)" by (metis surj_pair)
  have "u' = v" using assms False p v by (auto simp: send_chunk_def split: sum.splits)
  then show ?thesis using post_chunk_facts [OF v] by auto
qed

lemma pool_event_calls: "ul_calls (snd (snd (pool_event C N url key nonce cs ev (ws, out, u)))) = ul_calls u"
proof (cases ev)
  case (Send i P)
  then show ?thesis by (auto split: worker.splits prod.splits dest: send_chunk_calls)
next
  case (Record i E)
  then show ?thesis by (auto split: worker.splits prod.splits dest: record_chunk_calls)
next
  case (Notice E)
  then show ?thesis using on_failure_frame by (auto split: option.splits prod.splits)
qed simp

lemma run_workers_calls:
  assumes "run_workers C N url key nonce cs evs u = Some (out, u')"
  shows "ul_calls u' = ul_calls u"
proof -
  let ?step = "\<lambda>p ev. pool_event C N url key nonce cs ev p"
  have fold: "ul_calls (snd (snd (foldl ?step p evs))) = ul_calls (snd (snd p))" for p
  proof (induction evs arbitrary: p)
    case (Cons ev evs)
    then show ?case using pool_event_calls by (cases p) simp
  qed simp
  obtain ws o' v where e: "foldl ?step (replicate (length cs) (Waiting 0), None, u) evs = (ws, o', v)"
    by (metis prod_cases3)
  then have "v = u'" using assms by (auto simp: run_workers_def split: if_splits)
  then show ?thesis using fold [of "(replicate (length cs) (Waiting 0), None, u)"] e by simp
qed

end
