(* ===== verification/Uploader.thy ===== *)
theory Uploader
  imports UploadChunk
begin

text \<open>
  \<open>core/uploader.py\<close>: one file from the lease to the registered node. A job holds the source as it
  is at the start and at the final check, the random key and nonce, and what the API answers; a
  round of the pool is a submission with its schedule. \<open>ul_calls\<close> is the history of completion
  requests. The progress ticker and the clock have no part in the result.
\<close>

section \<open>The job\<close>

datatype upload_lease = LeaseTaken | LeaseHeld | LeaseError

record upload_job =
  uj_aes :: aes
  uj_lib :: net_lib
  uj_env :: env
  uj_sha :: "bytes \<Rightarrow> string"
  uj_is_file :: bool
  uj_lease :: upload_lease
  uj_source :: source_file
  uj_source_end :: "source_file option"
  uj_hash_stop :: "nat \<Rightarrow> bool"
  uj_hash_stop_end :: "nat \<Rightarrow> bool"
  uj_state_path :: string
  uj_auto_resume :: bool
  uj_key :: bytes
  uj_nonce :: bytes
  uj_target :: "string option"
  uj_root :: "string option py"
  uj_rename :: "string option"
  uj_master :: bytes
  uj_slot :: "json py"
  uj_slot_refresh :: "json py"
  uj_complete :: "string \<Rightarrow> string \<Rightarrow> string \<Rightarrow> string \<Rightarrow> json py"
  uj_empty_tries :: "post_env \<times> post_env"

record upload_result =
  ur_handle :: string
  ur_name :: string
  ur_size :: nat

definition or_text :: "string option \<Rightarrow> string \<Rightarrow> string" where
  "or_text t dflt = (case t of Some s \<Rightarrow> if s = [] then dflt else s | None \<Rightarrow> dflt)"

definition request_upload_url :: "json py \<Rightarrow> string py" where
  "request_upload_url answer =
    bindR answer (\<lambda>v. bindR (expect_mapping v) (\<lambda>d. bindR (expect_field d ''p'' KStr None) (\<lambda>p.
      if str_value p = [] then raise MegaError else Inr (str_value p))))"

definition upload_target :: "upload_job \<Rightarrow> string py" where
  "upload_target J =
    (case uj_target J of
       Some (c # t) \<Rightarrow> Inr (c # t)
     | _ \<Rightarrow> bindR (uj_root J) (\<lambda>r. case r of Some (c # t) \<Rightarrow> Inr (c # t) | _ \<Rightarrow> raise TransferError))"

definition upload_name :: "upload_job \<Rightarrow> string" where
  "upload_name J = sanitize_filename (or_text (uj_rename J) (sf_name (uj_source J))) ''_''"

section \<open>Registration\<close>

definition decode_ascii :: "bytes \<Rightarrow> string py" where
  "decode_ascii bs =
    (if list_all (\<lambda>b. unat b < 128) bs then Inr (map (\<lambda>b. char_of (unat b)) bs) else raise UnicodeError)"

definition node_handle :: "json \<Rightarrow> string py" where
  "node_handle result =
    (case result of
       JObj d \<Rightarrow> (case jget ''f'' d of
         Some (JArr (JObj nd # _)) \<Rightarrow> (case jget ''h'' nd of
           Some (JStr (c # h)) \<Rightarrow> Inr (c # h)
         | _ \<Rightarrow> raise TransferError)
       | _ \<Rightarrow> raise TransferError)
     | _ \<Rightarrow> raise TransferError)"

text \<open>The three texts of the completion request: token, attributes, wrapped key.\<close>

definition node_request ::
  "upload_job \<Rightarrow> bytes \<Rightarrow> bytes \<Rightarrow> a32 \<Rightarrow> bytes \<Rightarrow> (string \<times> string \<times> string) py" where
  "node_request J aes_key nonce mac_iv token =
    bindR (pack_file_key aes_key nonce mac_iv) (\<lambda>file_key.
    bindR (encrypt_attributes (uj_aes J) [(''n'', upload_name J)] aes_key) (\<lambda>attrs.
    bindR (aes_key_wrap_encrypt (uj_aes J) (a32_to_bytes file_key) (uj_master J)) (\<lambda>wrapped.
      case decode_ascii token of
        Inl _ \<Rightarrow> raise TransferError
      | Inr tok \<Rightarrow> Inr (tok, b64_url_encode attrs, b64_url_encode wrapped))))"

definition register_node ::
  "upload_job \<Rightarrow> string \<Rightarrow> bytes \<Rightarrow> bytes \<Rightarrow> a32 \<Rightarrow> bytes \<Rightarrow> ul \<Rightarrow> string py \<times> ul" where
  "register_node J target aes_key nonce mac_iv token u =
    (case node_request J aes_key nonce mac_iv token of
       Inl e \<Rightarrow> (Inl e, u)
     | Inr (tok, attrs, wrapped) \<Rightarrow>
         (bindR (uj_complete J target tok attrs wrapped) node_handle,
          u\<lparr>ul_calls := ul_calls u @ [(target, tok, attrs, wrapped)]\<rparr>))"

section \<open>Resume or a fresh slot\<close>

definition fresh_upload ::
  "upload_job \<Rightarrow> (string \<times> json) list \<Rightarrow> string \<Rightarrow> bytes \<Rightarrow> bytes \<Rightarrow> transfer_state" where
  "fresh_upload J identity url key nonce =
     \<lparr>transfer_type = ''upload'', source = sf_path (uj_source J), destination = uj_state_path J,
      total_size = int (sf_size (uj_source J)), format_version = STATE_FORMAT_VERSION,
      completed_chunks = [], chunk_macs = [],
      metadata = [(''upload_url'', JStr url), (''aes_key'', JStr (to_hex key)), (''nonce'', JStr (to_hex nonce)),
                  (''source_identity'', JObj identity)],
      revision = 0\<rparr>"

text \<open>The slot, token, key, nonce and state the transfer goes on with.\<close>

type_synonym transfer = "string \<times> bytes option \<times> bytes \<times> bytes \<times> transfer_state"

definition start_fresh ::
  "upload_job \<Rightarrow> (string \<times> json) list \<Rightarrow> bytes \<Rightarrow> bytes \<Rightarrow> disk \<Rightarrow> transfer py \<times> disk" where
  "start_fresh J identity key nonce disk =
    (if unrecognized_state_version (uj_env J) disk \<noteq> None then (raise TransferError, disk)
     else case clear_state (uj_lib J) (uj_env J) disk of
         (Inl e, disk) \<Rightarrow> (Inl e, disk)
       | (Inr _, disk) \<Rightarrow>
          (case request_upload_url (uj_slot J) of
             Inl e \<Rightarrow> (Inl e, disk)
           | Inr url \<Rightarrow> (Inr (url, None, key, nonce, fresh_upload J identity url key nonce), disk)))"

definition discard_and_start ::
  "upload_job \<Rightarrow> (string \<times> json) list \<Rightarrow> bytes \<Rightarrow> bytes \<Rightarrow> disk \<Rightarrow> transfer py \<times> disk" where
  "discard_and_start J identity key nonce disk =
    (case clear_state (uj_lib J) (uj_env J) disk of
       (Inl e, disk) \<Rightarrow> (Inl e, disk)
     | (Inr _, disk) \<Rightarrow> start_fresh J identity key nonce disk)"

definition choose_upload :: "upload_job \<Rightarrow> (string \<times> json) list \<Rightarrow> disk \<Rightarrow> transfer py \<times> disk" where
  "choose_upload J identity disk =
    (case (if uj_auto_resume J then load_state (uj_lib J) (uj_env J) disk else (Inr None, disk)) of
       (Inl e, disk) \<Rightarrow> (Inl e, disk)
     | (Inr None, disk) \<Rightarrow> start_fresh J identity (uj_key J) (uj_nonce J) disk
     | (Inr (Some s), disk) \<Rightarrow>
         if \<not> is_resumable_upload_state s (sf_path (uj_source J)) (sf_size (uj_source J)) identity
         then discard_and_start J identity (uj_key J) (uj_nonce J) disk
         else (case resume_material (metadata s) (uj_key J) (uj_nonce J) of
             (Some (url, tok), key, nonce) \<Rightarrow> (Inr (url, tok, key, nonce, s), disk)
           | (None, key, nonce) \<Rightarrow> discard_and_start J identity key nonce disk))"

section \<open>Rounds\<close>

definition uj_chunks :: "upload_job \<Rightarrow> chunk list" where
  "uj_chunks J = iter_chunks (sf_size (uj_source J))"

text \<open>A round: how many chunks are submitted before the loop sees a stop, and the schedule.\<close>

type_synonym round = "nat option \<times> up_event list"

definition upload_round ::
  "upload_job \<Rightarrow> string \<Rightarrow> bytes \<Rightarrow> bytes \<Rightarrow> round \<Rightarrow> ul \<Rightarrow> (outcome option \<times> ul) option" where
  "upload_round J url key nonce r u =
    (let pending = filter (\<lambda>c. \<not> is_chunk_done (ul_state u) (int (ch_index c))) (uj_chunks J);
         finished = filter (\<lambda>c. is_chunk_done (ul_state u) (int (ch_index c))) (uj_chunks J);
         submitted = (case fst r of None \<Rightarrow> pending | Some k \<Rightarrow> take k pending)
     in run_workers (uj_aes J) (uj_lib J) url key nonce submitted (snd r)
          (u\<lparr>ul_bytes_done := sum_list (map ch_size finished),
             ul_chunks_done := length (uj_chunks J) - length pending, ul_stop := False\<rparr>))"

text \<open>A new slot: everything acknowledged by the old one is forgotten.\<close>

definition refresh_slot :: "upload_job \<Rightarrow> ul \<Rightarrow> string py \<times> ul" where
  "refresh_slot J u =
    (case request_upload_url (uj_slot_refresh J) of
       Inl e \<Rightarrow> (Inl e, u)
     | Inr url \<Rightarrow>
        (case save_progress (uj_lib J) (uj_env J)
            (u\<lparr>ul_token := None,
               ul_state := (ul_state u)\<lparr>metadata := dict_del ''completion_token''
                   (dict_set ''upload_url'' (JStr url) (metadata (ul_state u))),
                 completed_chunks := [], chunk_macs := []\<rparr>\<rparr>) of
           (Inl e, u) \<Rightarrow> (Inl e, u)
         | (Inr _, u) \<Rightarrow> (Inr url, u)))"

fun upload_loop ::
  "upload_job \<Rightarrow> bytes \<Rightarrow> bytes \<Rightarrow> bool \<Rightarrow> round list \<Rightarrow> string \<Rightarrow> ul \<Rightarrow> (string py \<times> ul) option" where
  "upload_loop J key nonce refreshed [] url u = None"
| "upload_loop J key nonce refreshed (r # rs) url u =
    (case upload_round J url key nonce r u of
       None \<Rightarrow> None
     | Some (None, u) \<Rightarrow> Some (Inr url, u)
     | Some (Some (Failed e), u) \<Rightarrow> Some (Inl e, u)
     | Some (Some Expired, u) \<Rightarrow>
         if refreshed then
           (case save_progress (uj_lib J) (uj_env J) u of
              (Inl e, u) \<Rightarrow> Some (Inl e, u)
            | (Inr _, u) \<Rightarrow> Some (raise TransferError, u))
         else (case refresh_slot J u of
             (Inl e, u) \<Rightarrow> Some (Inl e, u)
           | (Inr url, u) \<Rightarrow> upload_loop J key nonce True rs url u))"

section \<open>The final checks\<close>

definition clear_and_raise :: "upload_job \<Rightarrow> ul \<Rightarrow> 'a py \<times> ul" where
  "clear_and_raise J u =
    (case clear_state (uj_lib J) (uj_env J) (ul_disk u) of
       (Inl e, disk) \<Rightarrow> (Inl e, u\<lparr>ul_disk := disk\<rparr>)
     | (Inr _, disk) \<Rightarrow> (raise TransferError, u\<lparr>ul_disk := disk\<rparr>))"

definition complete_macs :: "upload_job \<Rightarrow> transfer_state \<Rightarrow> bytes list py" where
  "complete_macs J s =
    bindR (mapR (\<lambda>c. get_chunk_mac (int (ch_index c)) s) (uj_chunks J)) (\<lambda>macs.
      if list_ex (\<lambda>m. m = None) macs then raise TransferError else Inr (map the macs))"

definition finish_upload ::
  "upload_job \<Rightarrow> string \<Rightarrow> (string \<times> json) list \<Rightarrow> bytes \<Rightarrow> bytes \<Rightarrow> ul \<Rightarrow> upload_result py \<times> ul" where
  "finish_upload J target identity key nonce u =
    (case ul_token u of
       None \<Rightarrow> (raise TransferError, u)
     | Some token \<Rightarrow>
        (case uj_source_end J of
           None \<Rightarrow> clear_and_raise J u
         | Some f \<Rightarrow>
            (case source_identity (uj_sha J) (\<lambda>k. ul_stop u \<or> uj_hash_stop_end J k) f of
               Inl e \<Rightarrow> (Inl e, u)
             | Inr current \<Rightarrow>
                 if \<not> identities_match (Some (JObj identity)) current then clear_and_raise J u
                 else (case bindR (complete_macs J (ul_state u)) (\<lambda>macs.
                              bindR (combine_chunk_macs (uj_aes J) macs key) condense_mac) of
                     Inl e \<Rightarrow> (Inl e, u)
                   | Inr mac_iv \<Rightarrow>
                      (case register_node J target key nonce mac_iv token u of
                         (Inl e, u) \<Rightarrow> (Inl e, u)
                       | (Inr handle, u) \<Rightarrow>
                          (case clear_state (uj_lib J) (uj_env J) (ul_disk u) of
                             (Inl e, disk) \<Rightarrow> (Inl e, u\<lparr>ul_disk := disk\<rparr>)
                           | (Inr _, disk) \<Rightarrow>
                               (Inr \<lparr>ur_handle = handle, ur_name = upload_name J, ur_size = sf_size (uj_source J)\<rparr>,
                                u\<lparr>ul_disk := disk\<rparr>)))))))"

section \<open>Empty files\<close>

definition empty_post :: "post_env \<Rightarrow> string \<Rightarrow> ul \<Rightarrow> (int \<times> bytes \<times> string option) py \<times> ul" where
  "empty_post P url u =
    (case selector_select (pe_now P) (pe_draw P) (ul_selector u) of
       (Inl e, sel) \<Rightarrow> (Inl e, u\<lparr>ul_selector := sel\<rparr>)
     | (Inr (_, picked), sel) \<Rightarrow>
        let u = u\<lparr>ul_selector := sel\<rparr>
        in case pe_reply P (put_url url 0) [] of
            NoReply e \<Rightarrow> (Inl e, if is_link_fault e then ul_blame P picked u else u)
          | Reply status _ blocks tail \<Rightarrow>
              (case (if status = 200 then read_bounded_body blocks tail else Inr []) of
                 Inl e \<Rightarrow> (Inl e, u)
               | Inr body \<Rightarrow> (Inr (status, body, picked), u)))"

definition empty_verdict :: "post_env \<Rightarrow> int \<Rightarrow> bytes \<Rightarrow> string option \<Rightarrow> ul \<Rightarrow> bytes py \<times> ul" where
  "empty_verdict P status body picked u =
    (if status \<noteq> 200 then (raise TransferError, ul_blame P picked u)
     else if body = []
     then (raise TransferError, u\<lparr>ul_selector := selector_report_success picked (ul_selector u)\<rparr>)
     else (Inr body, u\<lparr>ul_selector := selector_report_success picked (ul_selector u)\<rparr>))"

definition empty_token :: "upload_job \<Rightarrow> ul \<Rightarrow> bytes py \<times> ul" where
  "empty_token J u =
    (case request_upload_url (uj_slot J) of
       Inl e \<Rightarrow> (Inl e, u)
     | Inr url \<Rightarrow>
        (case empty_post (fst (uj_empty_tries J)) url u of
           (Inl e, u) \<Rightarrow> (Inl e, u)
         | (Inr (status, body, picked), u) \<Rightarrow>
             if status \<in> set UPLOAD_URL_EXPIRY_STATUS then
               (case request_upload_url (uj_slot_refresh J) of
                  Inl e \<Rightarrow> (Inl e, u)
                | Inr url \<Rightarrow>
                   (case empty_post (snd (uj_empty_tries J)) url u of
                      (Inl e, u) \<Rightarrow> (Inl e, u)
                    | (Inr (status, body, picked), u) \<Rightarrow>
                        empty_verdict (snd (uj_empty_tries J)) status body picked u))
             else empty_verdict (fst (uj_empty_tries J)) status body picked u))"

definition upload_empty_file ::
  "upload_job \<Rightarrow> string \<Rightarrow> (string \<times> json) list \<Rightarrow> ul \<Rightarrow> upload_result py \<times> ul" where
  "upload_empty_file J target identity u =
    (case empty_token J u of
       (Inl e, u) \<Rightarrow> (Inl e, u)
     | (Inr token, u) \<Rightarrow>
        (case uj_source_end J of
           None \<Rightarrow> (raise TransferError, u)
         | Some f \<Rightarrow>
            (case source_identity (uj_sha J) (\<lambda>k. ul_stop u \<or> uj_hash_stop_end J k) f of
               Inl e \<Rightarrow> (Inl e, u)
             | Inr current \<Rightarrow>
                 if sf_size f \<noteq> 0 \<or> \<not> identities_match (Some (JObj identity)) current then (raise TransferError, u)
                 else (case bindR (combine_chunk_macs (uj_aes J) [] (uj_key J)) condense_mac of
                     Inl e \<Rightarrow> (Inl e, u)
                   | Inr mac_iv \<Rightarrow>
                      (case register_node J target (uj_key J) (uj_nonce J) mac_iv token u of
                         (Inl e, u) \<Rightarrow> (Inl e, u)
                       | (Inr handle, u) \<Rightarrow>
                           (Inr \<lparr>ur_handle = handle, ur_name = upload_name J, ur_size = 0\<rparr>, u))))))"

section \<open>One upload\<close>

definition reset_per_file :: "ul \<Rightarrow> ul" where
  "reset_per_file u = u\<lparr>ul_stop := False, ul_bytes_done := 0, ul_chunks_done := 0, ul_token := None\<rparr>"

definition upload_file_locked :: "upload_job \<Rightarrow> round list \<Rightarrow> ul \<Rightarrow> (upload_result py \<times> ul) option" where
  "upload_file_locked J rounds u0 =
    (let u = reset_per_file u0
     in case upload_target J of
       Inl e \<Rightarrow> Some (Inl e, u)
     | Inr target \<Rightarrow>
        (case source_identity (uj_sha J) (uj_hash_stop J) (uj_source J) of
           Inl e \<Rightarrow> Some (Inl e, u)
         | Inr identity \<Rightarrow>
             if sf_size (uj_source J) = 0 then Some (upload_empty_file J target identity u)
             else (case choose_upload J identity (ul_disk u) of
                 (Inl e, disk) \<Rightarrow> Some (Inl e, u\<lparr>ul_disk := disk\<rparr>)
               | (Inr (url, tok, key, nonce, s), disk) \<Rightarrow>
                   (case upload_loop J key nonce False rounds url
                           (u\<lparr>ul_disk := disk, ul_state := s, ul_token := tok\<rparr>) of
                      None \<Rightarrow> None
                    | Some (Inl e, u) \<Rightarrow> Some (Inl e, u)
                    | Some (Inr _, u) \<Rightarrow> Some (finish_upload J target identity key nonce u)))))"

definition upload_file :: "upload_job \<Rightarrow> round list \<Rightarrow> ul \<Rightarrow> (upload_result py \<times> ul) option" where
  "upload_file J rounds u =
    (if \<not> uj_is_file J then Some (raise FileNotFoundError, u)
     else case uj_lease J of
         LeaseHeld \<Rightarrow> Some (raise UploadInProgressError, u)
       | LeaseError \<Rightarrow> Some (raise TransferError, u)
       | LeaseTaken \<Rightarrow> upload_file_locked J rounds u)"

section \<open>Success\<close>

lemma upload_round_sound:
  assumes "upload_round J url key nonce r u = Some (out, u')" and "ul_sound (uj_aes J) (uj_lib J) key nonce plain url u"
    and "reads_source plain (snd r)" and "sf_size (uj_source J) = length plain"
  shows "ul_sound (uj_aes J) (uj_lib J) key nonce plain url u' \<and> ul_calls u' = ul_calls u"
proof -
  let ?p = "filter (\<lambda>c. \<not> is_chunk_done (ul_state u) (int (ch_index c))) (uj_chunks J)"
  let ?q = "case fst r of None \<Rightarrow> ?p | Some k \<Rightarrow> take k ?p"
  let ?v = "u\<lparr>ul_bytes_done := sum_list (map ch_size (filter (\<lambda>c. is_chunk_done (ul_state u) (int (ch_index c))) (uj_chunks J))),
             ul_chunks_done := length (uj_chunks J) - length ?p, ul_stop := False\<rparr>"
  have r: "run_workers (uj_aes J) (uj_lib J) url key nonce ?q (snd r) ?v = Some (out, u')"
    using assms(1) by (simp add: upload_round_def Let_def)
  have "set ?q \<subseteq> set (iter_chunks (length plain))"
    using assms(4) by (auto simp: uj_chunks_def split: option.splits dest: in_set_takeD)
  moreover have "ul_sound (uj_aes J) (uj_lib J) key nonce plain url ?v" by (rule ul_sound_frame [OF assms(2)]) simp_all
  ultimately show ?thesis using run_workers_sound [OF r _ assms(3)] by simp
qed

lemma refresh_slot_sound:
  assumes "refresh_slot J u = (r, u')" and "ul_sound C (uj_lib J) key nonce plain url u"
  shows "(case r of Inl _ \<Rightarrow> True | Inr url' \<Rightarrow> ul_sound C (uj_lib J) key nonce plain url' u')
    \<and> disk_true C (uj_lib J) plain (ul_acks u') (ul_disk u')"
proof (cases "request_upload_url (uj_slot_refresh J)")
  case (Inl e)
  then have "r = Inl e \<and> u' = u" using assms(1) by (simp add: refresh_slot_def)
  then show ?thesis using assms(2) by (simp add: ul_sound_def)
next
  case (Inr v)
  let ?w = "u\<lparr>ul_token := None,
               ul_state := (ul_state u)\<lparr>metadata := dict_del ''completion_token''
                   (dict_set ''upload_url'' (JStr v) (metadata (ul_state u))),
                 completed_chunks := [], chunk_macs := []\<rparr>\<rparr>"
  obtain q w where w: "save_progress (uj_lib J) (uj_env J) ?w = (q, w)" by (metis surj_pair)
  have s: "ul_sound C (uj_lib J) key nonce plain v ?w"
    using assms(2)
    by (simp add: ul_sound_def transfer_true_def get_chunk_mac_def meta_says_def hex_member_def token_member_def
        jget_def jget_default_def)
  note s' = save_progress_sound [OF w s]
  show ?thesis
  proof (cases q)
    case x: (Inl x)
    then have "r = Inl x \<and> u' = w" using assms(1) Inr w by (simp add: refresh_slot_def)
    then show ?thesis using s' by (simp add: ul_sound_def)
  next
    case y: (Inr y)
    then have "r = Inr v \<and> u' = w" using assms(1) Inr w by (simp add: refresh_slot_def)
    then show ?thesis using s' by (simp add: ul_sound_def)
  qed
qed

lemma upload_loop_sound:
  assumes "upload_loop J key nonce b rounds url u = Some (r, u')"
    and "ul_sound (uj_aes J) (uj_lib J) key nonce plain url u"
    and "list_all (\<lambda>r. reads_source plain (snd r)) rounds" and "sf_size (uj_source J) = length plain"
  shows "(case r of Inl _ \<Rightarrow> True | Inr url' \<Rightarrow> ul_sound (uj_aes J) (uj_lib J) key nonce plain url' u')
    \<and> disk_true (uj_aes J) (uj_lib J) plain (ul_acks u') (ul_disk u')"
  using assms(1-3)
proof (induction rounds arbitrary: b url u)
  case (Cons rd rs)
  obtain out v where v: "upload_round J url key nonce rd u = Some (out, v)"
    using Cons.prems(1) by (cases "upload_round J url key nonce rd u") auto
  have rds: "reads_source plain (snd rd)" "list_all (\<lambda>r. reads_source plain (snd r)) rs"
    using Cons.prems(3) by simp_all
  have s: "ul_sound (uj_aes J) (uj_lib J) key nonce plain url v"
    using upload_round_sound [OF v Cons.prems(2) rds(1) assms(4)] by simp
  show ?case
  proof (cases "out = Some Expired")
    case False
    then have "u' = v \<and> (r = Inr url \<or> (\<exists>e. r = Inl e))"
      using Cons.prems(1) v by (cases out) (auto split: outcome.splits)
    then show ?thesis using s by (auto simp: ul_sound_def)
  next
    case ex: True
    show ?thesis
    proof (cases b)
      case True
      obtain x w where w: "save_progress (uj_lib J) (uj_env J) v = (x, w)" by (metis surj_pair)
      then have "u' = w \<and> (\<exists>e. r = Inl e)" using Cons.prems(1) v True ex by (auto split: sum.splits)
      then show ?thesis using save_progress_sound [OF w s] by (auto simp: ul_sound_def)
    next
      case False
      obtain x w where w: "refresh_slot J v = (x, w)" by (metis surj_pair)
      note f = refresh_slot_sound [OF w s]
      show ?thesis
      proof (cases x)
        case (Inl e)
        then have "u' = w \<and> r = Inl e" using Cons.prems(1) v False ex w by simp
        then show ?thesis using f by simp
      next
        case (Inr url2)
        then have "upload_loop J key nonce True rs url2 w = Some (r, u')" using Cons.prems(1) v False ex w by simp
        from Cons.IH [OF this _ rds(2)] show ?thesis using f Inr by simp
      qed
    qed
  qed
qed simp

lemma upload_round_calls:
  "upload_round J url key nonce r u = Some (out, u') \<Longrightarrow> ul_calls u' = ul_calls u"
  unfolding upload_round_def Let_def by (drule run_workers_calls) simp

lemma refresh_slot_calls: "refresh_slot J u = (r, u') \<Longrightarrow> ul_calls u' = ul_calls u"
  by (auto simp: refresh_slot_def split: sum.splits prod.splits dest!: save_progress_frame)

lemma upload_loop_calls: "upload_loop J key nonce b rounds url u = Some (r, u') \<Longrightarrow> ul_calls u' = ul_calls u"
proof (induction rounds arbitrary: b url u)
  case (Cons rd rs)
  obtain out v where v: "upload_round J url key nonce rd u = Some (out, v)"
    using Cons.prems by (cases "upload_round J url key nonce rd u") auto
  note c = upload_round_calls [OF v]
  show ?case
  proof (cases "out = Some Expired")
    case False
    then have "u' = v" using Cons.prems v by (cases out) (auto split: outcome.splits)
    then show ?thesis using c by simp
  next
    case True
    show ?thesis
    proof (cases b)
      case True
      obtain x w where w: "save_progress (uj_lib J) (uj_env J) v = (x, w)" by (metis surj_pair)
      then have "u' = w" using Cons.prems v True \<open>out = Some Expired\<close> by (auto split: sum.splits)
      then show ?thesis using c save_progress_frame [OF w] by simp
    next
      case False
      obtain x w where w: "refresh_slot J v = (x, w)" by (metis surj_pair)
      show ?thesis
      proof (cases x)
        case (Inl e)
        then have "u' = w" using Cons.prems v w False \<open>out = Some Expired\<close> by simp
        then show ?thesis using c refresh_slot_calls [OF w] by simp
      next
        case (Inr url2)
        then have "upload_loop J key nonce True rs url2 w = Some (r, u')"
          using Cons.prems v w False \<open>out = Some Expired\<close> by simp
        from Cons.IH [OF this] show ?thesis using c refresh_slot_calls [OF w] by simp
      qed
    qed
  qed
qed simp

section \<open>The final checks\<close>

text \<open>Every way the finish ends: without a request, or with one after all checks passed.\<close>

lemma clear_and_raise_facts:
  assumes "clear_and_raise J u = (r, u')"
  shows "(\<exists>e. r = Inl e) \<and> ul_calls u' = ul_calls u"
proof (cases "fst (clear_state (uj_lib J) (uj_env J) (ul_disk u))")
  case (Inl e)
  then show ?thesis using assms by (auto simp: clear_and_raise_def split: prod.splits)
next
  case (Inr v)
  then show ?thesis using assms by (auto simp: clear_and_raise_def split: prod.splits)
qed

lemma register_node_facts:
  assumes "register_node J target key nonce mac_iv token u = (r, u')"
  shows "(\<exists>e. r = Inl e \<and> u' = u)
    \<or> (\<exists>tok attrs wrapped. node_request J key nonce mac_iv token = Inr (tok, attrs, wrapped)
        \<and> u' = u\<lparr>ul_calls := ul_calls u @ [(target, tok, attrs, wrapped)]\<rparr>)"
  using assms by (cases "node_request J key nonce mac_iv token") (auto simp: register_node_def)

lemma finish_upload_facts:
  assumes "finish_upload J target identity key nonce u = (r, u')"
  shows "(\<exists>e. r = Inl e) \<and> ul_calls u' = ul_calls u
    \<or> (\<exists>f current token macs mac_iv tok attrs wrapped.
         uj_source_end J = Some f \<and> source_identity (uj_sha J) (\<lambda>k. ul_stop u \<or> uj_hash_stop_end J k) f = Inr current
         \<and> identities_match (Some (JObj identity)) current
         \<and> ul_token u = Some token \<and> complete_macs J (ul_state u) = Inr macs
         \<and> bindR (combine_chunk_macs (uj_aes J) macs key) condense_mac = Inr mac_iv
         \<and> node_request J key nonce mac_iv token = Inr (tok, attrs, wrapped)
         \<and> ul_calls u' = ul_calls u @ [(target, tok, attrs, wrapped)] \<and> ul_acks u' = ul_acks u)"
proof (cases "ul_token u")
  case None
  then show ?thesis using assms by (auto simp: finish_upload_def)
next
  case token: (Some token)
  show ?thesis
  proof (cases "uj_source_end J")
    case None
    then show ?thesis using assms token clear_and_raise_facts by (auto simp: finish_upload_def)
  next
    case f: (Some f)
    show ?thesis
    proof (cases "source_identity (uj_sha J) (\<lambda>k. ul_stop u \<or> uj_hash_stop_end J k) f")
      case (Inl e)
      then show ?thesis using assms token f by (auto simp: finish_upload_def)
    next
      case current: (Inr current)
      show ?thesis
      proof (cases "identities_match (Some (JObj identity)) current")
        case False
        then show ?thesis using assms token f current clear_and_raise_facts by (auto simp: finish_upload_def)
      next
        case match: True
        let ?m = "bindR (complete_macs J (ul_state u)) (\<lambda>macs. bindR (combine_chunk_macs (uj_aes J) macs key) condense_mac)"
        show ?thesis
        proof (cases ?m)
          case (Inl e)
          then show ?thesis using assms token f current match by (auto simp: finish_upload_def)
        next
          case (Inr mac_iv)
          then obtain macs where macs: "complete_macs J (ul_state u) = Inr macs"
            "bindR (combine_chunk_macs (uj_aes J) macs key) condense_mac = Inr mac_iv"
            unfolding bindR_Inr_iff [of "complete_macs J (ul_state u)"] by blast
          obtain x v where v: "register_node J target key nonce mac_iv token u = (x, v)" by (metis surj_pair)
          have fin: "(\<exists>e. r = Inl e \<and> x = Inl e \<and> u' = v)
              \<or> (\<exists>h. x = Inr h \<and> ul_calls u' = ul_calls v \<and> ul_acks u' = ul_acks v)"
            using assms token f current match Inr v by (auto simp: finish_upload_def split: sum.splits prod.splits)
          from register_node_facts [OF v] show ?thesis
          proof (elim disjE exE conjE)
            fix e assume "x = Inl e" "v = u"
            then show ?thesis using fin by auto
          next
            fix tok attrs wrapped
            assume q: "node_request J key nonce mac_iv token = Inr (tok, attrs, wrapped)"
              "v = u\<lparr>ul_calls := ul_calls u @ [(target, tok, attrs, wrapped)]\<rparr>"
            have "ul_calls u' = ul_calls v \<and> ul_acks u' = ul_acks v" using fin by auto
            then have "ul_calls u' = ul_calls u @ [(target, tok, attrs, wrapped)]" "ul_acks u' = ul_acks u"
              using q(2) by simp_all
            then show ?thesis using f current match token macs q(1) by blast
          qed
        qed
      qed
    qed
  qed
qed

section \<open>What is registered\<close>

text \<open>
  A completion request delivers \<open>plain\<close>: one slot has acknowledged every chunk of the sealed file,
  the token is the endpoint's answer to the chunk with the last byte, and the wrapped key, read the
  way a downloader reads a node key, is the key and nonce of those chunks with a MAC under which
  the download check accepts \<open>plain\<close>.
\<close>

definition delivers ::
  "aes \<Rightarrow> bytes \<Rightarrow> bytes \<Rightarrow> (string \<times> nat \<times> bytes \<times> bytes) list \<Rightarrow> string \<Rightarrow> string \<Rightarrow> bool" where
  "delivers C master plain acks tok wrapped \<longleftrightarrow>
    (\<exists>url key nonce mac_iv token.
       list_all (\<lambda>c. \<exists>body. (url, ch_offset c, sealed C key nonce plain c, body) \<in> set acks) (iter_chunks (length plain))
       \<and> token_proven C key nonce plain url acks token \<and> decode_ascii token = Inr tok
       \<and> bindR (b64_url_decode wrapped) (\<lambda>w. bindR (aes_key_wrap_decrypt C w master)
            (\<lambda>k. unpack_file_key (bytes_to_a32 k))) = Inr (key, nonce, mac_iv)
       \<and> verify_file_on_disk C (iter_chunks (length plain)) key nonce mac_iv (Some plain) = Inr True)"

lemma mapR_Inr_iff: "mapR f xs = Inr ys \<longleftrightarrow> list_all2 (\<lambda>x y. f x = Inr y) xs ys"
  by (induction xs arbitrary: ys) (auto simp: bindR_Inr_iff list_all2_Cons1)

lemma disk_macs_all:
  assumes "list_all2 (\<lambda>c m. chunk_mac C (slice (ch_offset c) (ch_end c) file) key nonce = Inr m
      \<and> length (slice (ch_offset c) (ch_end c) file) = ch_size c) cs ms"
  shows "disk_macs C key nonce file cs = Inr (Some ms)"
  using assms by (induction rule: list_all2_induct) (simp_all add: disk_chunk_mac_def Let_def)

lemma complete_macs_proven:
  assumes "complete_macs J s = Inr macs"
  shows "list_all2 (\<lambda>c m. get_chunk_mac (int (ch_index c)) s = Inr (Some m)) (uj_chunks J) macs"
proof -
  obtain ms where m: "mapR (\<lambda>c. get_chunk_mac (int (ch_index c)) s) (uj_chunks J) = Inr ms"
    "\<not> list_ex (\<lambda>m. m = None) ms" "macs = map the ms"
    using assms by (auto simp: complete_macs_def bindR_Inr_iff split: if_splits)
  have "list_all2 (\<lambda>c y. get_chunk_mac (int (ch_index c)) s = Inr y) (uj_chunks J) ms"
    using m(1) by (simp add: mapR_Inr_iff)
  then show ?thesis
    using m(2,3) by (auto simp: list_all2_conv_all_nth list_ex_length) 
qed

lemma condense_mac_verifies:
  assumes "condense_mac file_mac = Inr mac_iv"
  shows "length mac_iv = 2"
  using assms by (auto simp: condense_mac_def Let_def split: if_splits)

lemma node_request_ok:
  assumes "node_request J key nonce mac_iv token = Inr (tok, attrs, wrapped)"
    and "aes_ok (uj_aes J)" and "aes_key_size (uj_master J)"
    and "length key = 16" and "length nonce = 8" and "length mac_iv = 2"
  shows "decode_ascii token = Inr tok
    \<and> bindR (b64_url_decode wrapped) (\<lambda>w. bindR (aes_key_wrap_decrypt (uj_aes J) w (uj_master J))
            (\<lambda>k. unpack_file_key (bytes_to_a32 k))) = Inr (key, nonce, mac_iv)"
proof -
  obtain fk w where f: "pack_file_key key nonce mac_iv = Inr fk"
    "aes_key_wrap_encrypt (uj_aes J) (a32_to_bytes fk) (uj_master J) = Inr w"
    "wrapped = b64_url_encode w" "decode_ascii token = Inr tok"
    using assms(1) by (cases "decode_ascii token") (auto simp: node_request_def bindR_Inr_iff)
  have u: "unpack_file_key fk = Inr (key, nonce, mac_iv)"
    using unpack_pack_file_key [OF assms(4-6)] f(1) by simp
  then have "length fk = 8" by (auto simp: unpack_file_key_def split: if_splits)
  then have "16 dvd length (a32_to_bytes fk)" by simp
  from key_wrap_roundtrip [OF assms(2,3) this] u f show ?thesis
    by (simp add: b64_url_decode_encode)
qed

lemma chunk_mac_sizes:
  assumes "chunk_mac C p key nonce = Inr m" and "p \<noteq> []"
  shows "aes_key_size key \<and> length nonce = 8"
  using assms by (auto simp: chunk_mac_def cbc_encrypt_def Let_def bindR_Inr_iff split: if_splits)

lemma registered_verifies:
  assumes "complete_macs J s = Inr macs" and "bindR (combine_chunk_macs C macs key) condense_mac = Inr mac_iv"
    and "sf_size (uj_source J) = length plain"
    and "\<And>c m. c \<in> set (iter_chunks (length plain)) \<Longrightarrow> get_chunk_mac (int (ch_index c)) s = Inr (Some m)
      \<Longrightarrow> chunk_mac C (slice (ch_offset c) (ch_end c) plain) key nonce = Inr m"
  shows "verify_file_on_disk C (iter_chunks (length plain)) key nonce mac_iv (Some plain) = Inr True"
proof -
  have "list_all2 (\<lambda>c m. get_chunk_mac (int (ch_index c)) s = Inr (Some m)) (iter_chunks (length plain)) macs"
    using complete_macs_proven [OF assms(1)] assms(3) by (simp add: uj_chunks_def)
  then have "list_all2 (\<lambda>c m. chunk_mac C (slice (ch_offset c) (ch_end c) plain) key nonce = Inr m
      \<and> length (slice (ch_offset c) (ch_end c) plain) = ch_size c) (iter_chunks (length plain)) macs"
    by (rule list.rel_mono_strong) (use assms(4) plan.plan_slice_length in blast)
  note d = disk_macs_all [OF this]
  obtain m where m: "combine_chunk_macs C macs key = Inr m" "condense_mac m = Inr mac_iv"
    using assms(2) by (auto simp: bindR_Inr_iff)
  show ?thesis
    using condense_mac_verifies [OF m(2)] by (simp add: verify_file_on_disk_def d m index_list_def)
qed

lemma clear_state_file:
  "clear_state N E d = (r, d') \<Longrightarrow> d_file d' = d_file d \<or> d_file d' = None"
  by (auto simp: clear_state_def split: if_splits sum.splits prod.splits)

lemma load_state_file:
  assumes "load_state N E d = (r, d')"
  shows "d_file d' = d_file d \<or> d_file d' = None"
  using load_state_facts [where N = N and E = E and d = d] assms by auto

lemma load_state_Some:
  assumes "load_state N E d = (Inr (Some s), d')"
  shows "\<exists>j. d_file d = Some (Doc j) \<and> validate_state_dict N j = Inr s"
  using assms by (auto simp: load_state_def split: option.splits if_splits content.splits sum.splits)

lemma start_fresh_ok:
  assumes "start_fresh J identity key nonce disk = (r, disk')"
  shows "(d_file disk' = d_file disk \<or> d_file disk' = None)
    \<and> (\<forall>url tok key' nonce' s. r = Inr (url, tok, key', nonce', s)
         \<longrightarrow> tok = None \<and> s = fresh_upload J identity url key nonce \<and> key' = key \<and> nonce' = nonce)"
  using assms clear_state_file
  by (auto simp: start_fresh_def split: if_splits prod.splits sum.splits)

lemma discard_and_start_ok:
  assumes "discard_and_start J identity key nonce disk = (r, disk')"
  shows "(d_file disk' = d_file disk \<or> d_file disk' = None)
    \<and> (\<forall>url tok key' nonce' s. r = Inr (url, tok, key', nonce', s)
         \<longrightarrow> tok = None \<and> s = fresh_upload J identity url key nonce \<and> key' = key \<and> nonce' = nonce)"
proof -
  obtain q d where c: "clear_state (uj_lib J) (uj_env J) disk = (q, d)" by (metis surj_pair)
  show ?thesis
    using assms c clear_state_file [OF c] start_fresh_ok [of J identity key nonce d r disk']
    by (cases q) (auto simp: discard_and_start_def)
qed

lemma fresh_upload_sound:
  assumes "sf_size (uj_source J) = length plain" and "ul_state u = fresh_upload J identity url key nonce"
    and "ul_token u = None" and "disk_true C (uj_lib J) plain (ul_acks u) (ul_disk u)"
  shows "ul_sound C (uj_lib J) key nonce plain url u"
  using assms
  by (simp add: ul_sound_def transfer_true_def fresh_upload_def get_chunk_mac_def meta_says_def hex_member_def
      token_member_def jget_def jget_default_def from_hex_to_hex)

lemma choose_upload_file:
  assumes "choose_upload J identity disk = (r, disk')"
  shows "d_file disk' = d_file disk \<or> d_file disk' = None"
proof -
  let ?ld = "if uj_auto_resume J then load_state (uj_lib J) (uj_env J) disk else (Inr None, disk)"
  obtain x d where l: "?ld = (x, d)" by (metis surj_pair)
  have d: "d_file d = d_file disk \<or> d_file d = None"
    using l load_state_file [of "uj_lib J" "uj_env J" disk x d] by (auto split: if_splits)
  have "d_file disk' = d_file d \<or> d_file disk' = None"
  proof (cases "\<exists>e. x = Inl e")
    case True
    then show ?thesis using assms l by (auto simp: choose_upload_def)
  next
    case False
    then obtain ld where x: "x = Inr ld" by (cases x) auto
    show ?thesis
    proof (cases ld)
      case None
      then show ?thesis using assms l x start_fresh_ok by (fastforce simp: choose_upload_def)
    next
      case (Some t)
      obtain m k n where m: "resume_material (metadata t) (uj_key J) (uj_nonce J) = (m, k, n)" by (metis prod_cases3)
      consider "disk' = d" | key nonce where "discard_and_start J identity key nonce d = (r, disk')"
        using assms l x Some m by (cases m) (auto simp: choose_upload_def split: if_splits)
      then show ?thesis using discard_and_start_ok by cases auto
    qed
  qed
  then show ?thesis using d by auto
qed

lemma choose_upload_sound:
  assumes "choose_upload J identity (ul_disk u) = (Inr (url, tok, key, nonce, s), disk)"
    and "sf_size (uj_source J) = length plain" and "disk_true (uj_aes J) (uj_lib J) plain (ul_acks u) (ul_disk u)"
  shows "ul_sound (uj_aes J) (uj_lib J) key nonce plain url (u\<lparr>ul_disk := disk, ul_state := s, ul_token := tok\<rparr>)"
proof -
  let ?ld = "if uj_auto_resume J then load_state (uj_lib J) (uj_env J) (ul_disk u) else (Inr None, ul_disk u)"
  obtain x disk1 where l: "?ld = (x, disk1)" by (metis surj_pair)
  then obtain ld where x: "x = Inr ld" using assms(1) by (cases x) (auto simp: choose_upload_def)
  have dt: "disk_true (uj_aes J) (uj_lib J) plain (ul_acks u) disk"
    by (rule disk_true_mono [OF subset_refl assms(3) choose_upload_file [OF assms(1)]])
  have fresh: "ul_sound (uj_aes J) (uj_lib J) key nonce plain url (u\<lparr>ul_disk := disk, ul_state := s, ul_token := tok\<rparr>)"
    if "tok = None \<and> s = fresh_upload J identity url k n \<and> key = k \<and> nonce = n" for k n
    using that dt by (intro fresh_upload_sound [OF assms(2)]) auto
  show ?thesis
  proof (cases ld)
    case None
    then have "start_fresh J identity (uj_key J) (uj_nonce J) disk1 = (Inr (url, tok, key, nonce, s), disk)"
      using assms(1) l x by (simp add: choose_upload_def)
    from start_fresh_ok [OF this] show ?thesis using fresh by blast
  next
    case (Some t)
    have ld: "load_state (uj_lib J) (uj_env J) (ul_disk u) = (Inr (Some t), disk1)"
      using l x Some by (auto split: if_splits)
    obtain m k n where m: "resume_material (metadata t) (uj_key J) (uj_nonce J) = (m, k, n)" by (metis prod_cases3)
    show ?thesis
    proof (cases "is_resumable_upload_state t (sf_path (uj_source J)) (sf_size (uj_source J)) identity \<and> m \<noteq> None")
      case True
      then obtain url1 tok1 where mm: "m = Some (url1, tok1)" by auto
      have e: "url = url1" "tok = tok1" "key = k" "nonce = n" "s = t"
        using assms(1) l x Some True m mm by (auto simp: choose_upload_def)
      have tt: "total_size t = int (length plain)" using True assms(2) by (simp add: is_resumable_upload_state_def)
      have ms: "meta_says (metadata t) url1 k n tok1" "length k = 16" "length n = 8"
        using m mm by (simp_all add: resume_material_iff)
      then have "resume_material (metadata t) [] [] = (Some (url1, tok1), k, n)" by (simp add: resume_material_iff)
      then have "transfer_true (uj_aes J) k n plain url1 (ul_acks u) tok1 t"
        using load_state_Some [OF ld] assms(3) tt unfolding disk_true_def by blast
      moreover have "distinct (map fst (chunk_macs t))"
        using load_state_facts [where N = "uj_lib J" and E = "uj_env J" and d = "ul_disk u"] ld by (simp add: state_valid_def macs_ok_def)
      ultimately show ?thesis using ms(1) dt by (simp add: ul_sound_def e)
    next
      case False
      then have "discard_and_start J identity (uj_key J) (uj_nonce J) disk1 = (Inr (url, tok, key, nonce, s), disk)
          \<or> discard_and_start J identity k n disk1 = (Inr (url, tok, key, nonce, s), disk)"
        using assms(1) l x Some m by (cases m) (auto simp: choose_upload_def split: if_splits)
      then show ?thesis using discard_and_start_ok fresh by blast
    qed
  qed
qed

lemma resume_material_key:
  assumes "validate_metadata N (JObj d) = Inr d" and "resume_material d key0 nonce0 = (m, key, nonce)"
    and "length key0 \<le> 16"
  shows "length key \<le> 16"
proof (cases "hex_member ''aes_key'' d")
  case None
  then show ?thesis using assms(2,3) by (simp add: resume_material_def)
next
  case (Some k)
  then obtain h where h: "jget ''aes_key'' d = Some (JStr h)" "from_hex h = Some k"
    by (auto simp: hex_member_def split: option.splits json.splits)
  have "length h = 32"
    using assms(1) h(1)
    by (auto simp: validate_metadata_def need_obj_def if_present_def validate_hex_def need_str_def req_def
        AES_KEY_HEX_LENGTH_def bindR_Inr_iff split: if_splits)
  then have "length k \<le> 16" using from_hex_length [OF h(2)] by simp
  moreover have "key = k"
    using assms(2) Some by (auto simp: resume_material_def split: option.splits if_splits json.splits)
  ultimately show ?thesis by simp
qed

lemma choose_upload_key:
  assumes "choose_upload J identity disk = (Inr (url, tok, key, nonce, s), disk')" and "length (uj_key J) \<le> 16"
  shows "length key \<le> 16"
proof -
  let ?ld = "if uj_auto_resume J then load_state (uj_lib J) (uj_env J) disk else (Inr None, disk)"
  obtain x d where l: "?ld = (x, d)" by (metis surj_pair)
  then obtain ld where x: "x = Inr ld" using assms(1) by (cases x) (auto simp: choose_upload_def)
  show ?thesis
  proof (cases ld)
    case None
    then have "start_fresh J identity (uj_key J) (uj_nonce J) d = (Inr (url, tok, key, nonce, s), disk')"
      using assms(1) l x by (simp add: choose_upload_def)
    then show ?thesis using start_fresh_ok assms(2) by blast
  next
    case (Some t)
    have "load_state (uj_lib J) (uj_env J) disk = (Inr (Some t), d)" using l x Some by (auto split: if_splits)
    then have "validate_metadata (uj_lib J) (JObj (metadata t)) = Inr (metadata t)"
      using load_state_facts [where N = "uj_lib J" and E = "uj_env J" and d = disk] by (simp add: state_valid_def)
    moreover obtain m k n where m: "resume_material (metadata t) (uj_key J) (uj_nonce J) = (m, k, n)" by (metis prod_cases3)
    ultimately have k: "length k \<le> 16" using resume_material_key assms(2) by blast
    consider "key = k" | "discard_and_start J identity (uj_key J) (uj_nonce J) d = (Inr (url, tok, key, nonce, s), disk')"
      | "discard_and_start J identity k n d = (Inr (url, tok, key, nonce, s), disk')"
      using assms(1) l x Some m by (cases m) (auto simp: choose_upload_def split: if_splits)
    then show ?thesis
      using discard_and_start_ok assms(2) k by cases blast+
  qed
qed

lemma finish_upload_file:
  assumes "finish_upload J target identity key nonce u = (r, u')"
  shows "ul_acks u' = ul_acks u \<and> (d_file (ul_disk u') = d_file (ul_disk u) \<or> d_file (ul_disk u') = None)"
proof -
  have cr: "ul_acks v = ul_acks u \<and> (d_file (ul_disk v) = d_file (ul_disk u) \<or> d_file (ul_disk v) = None)"
    if "clear_and_raise J u = (q, v)" for q :: "upload_result py" and v
    using that by (auto simp: clear_and_raise_def split: prod.splits sum.splits dest!: clear_state_file)
  show ?thesis
    using assms cr
    by (auto simp: finish_upload_def register_node_def split: option.splits sum.splits if_splits prod.splits
        dest!: clear_state_file)
qed

lemma finish_delivers:
  assumes "finish_upload J target identity key nonce w = (r, u')"
    and "ul_sound (uj_aes J) (uj_lib J) key nonce plain url w" and "sf_size (uj_source J) = length plain"
    and "plain \<noteq> []" and "length key \<le> 16" and "aes_ok (uj_aes J)" and "aes_key_size (uj_master J)"
  shows "disk_true (uj_aes J) (uj_lib J) plain (ul_acks u') (ul_disk u')
    \<and> (\<forall>x. r = Inr x \<longrightarrow> (\<exists>target tok attrs wrapped. ul_calls u' = ul_calls w @ [(target, tok, attrs, wrapped)]
         \<and> delivers (uj_aes J) (uj_master J) plain (ul_acks u') tok wrapped))"
proof (intro conjI allI impI)
  note ff = finish_upload_file [OF assms(1)]
  have tt: "transfer_true (uj_aes J) key nonce plain url (ul_acks w) (ul_token w) (ul_state w)"
    and "disk_true (uj_aes J) (uj_lib J) plain (ul_acks w) (ul_disk w)" using assms(2) by (simp_all add: ul_sound_def)
  then show "disk_true (uj_aes J) (uj_lib J) plain (ul_acks u') (ul_disk u')"
    using disk_true_mono [of "ul_acks w" "ul_acks u'"] ff by simp
  fix x assume "r = Inr x"
  with finish_upload_facts [OF assms(1)] obtain token macs mac_iv tok attrs wrapped where f:
    "ul_token w = Some token" "complete_macs J (ul_state w) = Inr macs"
    "bindR (combine_chunk_macs (uj_aes J) macs key) condense_mac = Inr mac_iv"
    "node_request J key nonce mac_iv token = Inr (tok, attrs, wrapped)"
    "ul_calls u' = ul_calls w @ [(target, tok, attrs, wrapped)]" "ul_acks u' = ul_acks w" by auto
  have proven: "chunk_proven (uj_aes J) key nonce plain url (ul_acks w) c m"
    if "c \<in> set (iter_chunks (length plain))" "get_chunk_mac (int (ch_index c)) (ul_state w) = Inr (Some m)" for c m
    using tt that by (simp add: transfer_true_def)
  have v: "verify_file_on_disk (uj_aes J) (iter_chunks (length plain)) key nonce mac_iv (Some plain) = Inr True"
    using registered_verifies [OF f(2,3) assms(3)] proven by (simp add: chunk_proven_def)
  have "\<exists>m. get_chunk_mac (int (ch_index c)) (ul_state w) = Inr (Some m)"
    if "c \<in> set (iter_chunks (length plain))" for c
    using complete_macs_proven [OF f(2)] that assms(3)
    by (auto simp: uj_chunks_def in_set_conv_nth list_all2_conv_all_nth)
  note has_mac = this
  then have a: "list_all (\<lambda>c. \<exists>body. (url, ch_offset c, sealed (uj_aes J) key nonce plain c, body) \<in> set (ul_acks u'))
      (iter_chunks (length plain))"
    using proven f(6) by (fastforce simp: list_all_iff chunk_proven_def)
  have tk: "token_proven (uj_aes J) key nonce plain url (ul_acks u') token"
    using tt f(1,6) by (simp add: transfer_true_def)
  obtain c where c: "c \<in> set (iter_chunks (length plain))"
    using plan.plan_split [of plain] assms(4) by (cases "iter_chunks (length plain)") auto
  then obtain m where "chunk_mac (uj_aes J) (slice (ch_offset c) (ch_end c) plain) key nonce = Inr m"
    using has_mac proven unfolding chunk_proven_def by blast
  moreover have "slice (ch_offset c) (ch_end c) plain \<noteq> []"
    using plan.plan_slice_length [OF c] plan.plan_bounds [OF c] by auto
  ultimately have "aes_key_size key \<and> length nonce = 8" by (rule chunk_mac_sizes)
  moreover have "length mac_iv = 2" using f(3) by (auto simp: bindR_Inr_iff dest: condense_mac_verifies)
  ultimately have sizes: "length key = 16" "length nonce = 8" "length mac_iv = 2"
    using assms(5) by (auto simp: aes_key_size_def)
  have "delivers (uj_aes J) (uj_master J) plain (ul_acks u') tok wrapped"
    using node_request_ok [OF f(4) assms(6,7) sizes] a tk v unfolding delivers_def by blast
  then show "\<exists>target tok attrs wrapped. ul_calls u' = ul_calls w @ [(target, tok, attrs, wrapped)]
         \<and> delivers (uj_aes J) (uj_master J) plain (ul_acks u') tok wrapped" using f(5) by blast
qed

lemma upload_file_locked_true:
  assumes "upload_file_locked J rounds u = Some (r, u')" and "sf_size (uj_source J) = length plain" and "plain \<noteq> []"
    and "list_all (\<lambda>r. reads_source plain (snd r)) rounds"
    and "length (uj_key J) = 16" and "aes_ok (uj_aes J)" and "aes_key_size (uj_master J)"
    and "disk_true (uj_aes J) (uj_lib J) plain (ul_acks u) (ul_disk u)"
  shows "disk_true (uj_aes J) (uj_lib J) plain (ul_acks u') (ul_disk u')
    \<and> (\<forall>x. r = Inr x \<longrightarrow> (\<exists>target tok attrs wrapped. ul_calls u' = ul_calls u @ [(target, tok, attrs, wrapped)]
         \<and> delivers (uj_aes J) (uj_master J) plain (ul_acks u') tok wrapped))"
proof -
  let ?u = "reset_per_file u"
  have ru: "ul_acks ?u = ul_acks u" "ul_disk ?u = ul_disk u" "ul_calls ?u = ul_calls u"
    by (simp_all add: reset_per_file_def)
  have n: "sf_size (uj_source J) \<noteq> 0" using assms(2,3) by simp
  show ?thesis
  proof (cases "\<exists>target identity. upload_target J = Inr target
      \<and> source_identity (uj_sha J) (uj_hash_stop J) (uj_source J) = Inr identity")
    case False
    then have "u' = ?u \<and> (\<exists>e. r = Inl e)"
      using assms(1) by (auto simp: upload_file_locked_def Let_def split: sum.splits)
    then show ?thesis using assms(8) ru by auto
  next
    case True
    then obtain target identity where t: "upload_target J = Inr target"
      and i: "source_identity (uj_sha J) (uj_hash_stop J) (uj_source J) = Inr identity" by blast
    obtain c disk where c0: "choose_upload J identity (ul_disk ?u) = (c, disk)" by (metis surj_pair)
    have dt: "disk_true (uj_aes J) (uj_lib J) plain (ul_acks u) disk"
      by (rule disk_true_mono [OF subset_refl assms(8) choose_upload_file [OF c0 [unfolded ru(2)]]])
    show ?thesis
    proof (cases c)
      case (Inl e)
      then have "u' = ?u\<lparr>ul_disk := disk\<rparr> \<and> r = Inl e"
        using assms(1) t i n c0 by (simp add: upload_file_locked_def Let_def)
      then show ?thesis using dt ru by simp
    next
      case (Inr x)
      obtain url tok0 key nonce s where x: "x = (url, tok0, key, nonce, s)" by (metis prod_cases5)
      let ?v = "?u\<lparr>ul_disk := disk, ul_state := s, ul_token := tok0\<rparr>"
      obtain y w where l: "upload_loop J key nonce False rounds url ?v = Some (y, w)"
        using assms(1) t i n c0 Inr x by (auto simp: upload_file_locked_def Let_def split: option.splits)
      have s0: "ul_sound (uj_aes J) (uj_lib J) key nonce plain url ?v"
        using choose_upload_sound [OF c0 [unfolded Inr x] assms(2)] assms(8) ru by simp
      note snd1 = upload_loop_sound [OF l s0 assms(4) assms(2)]
      have calls: "ul_calls w = ul_calls u" using upload_loop_calls [OF l] ru by simp
      show ?thesis
      proof (cases y)
        case (Inl e)
        then have "u' = w \<and> r = Inl e"
          using assms(1) t i n c0 Inr x l by (simp add: upload_file_locked_def Let_def)
        then show ?thesis using snd1 by simp
      next
        case (Inr url')
        then have fin: "finish_upload J target identity key nonce w = (r, u')"
          using assms(1) t i n c0 \<open>c = Inr x\<close> x l by (simp add: upload_file_locked_def Let_def)
        have w: "ul_sound (uj_aes J) (uj_lib J) key nonce plain url' w" using snd1 Inr by simp
        have "length key \<le> 16"
          using choose_upload_key [OF c0 [unfolded \<open>c = Inr x\<close> x]] assms(5) by simp
        note f = finish_delivers [OF fin w assms(2,3) this assms(6,7)]
        then show ?thesis using calls by simp
      qed
    qed
  qed
qed

section \<open>Interrupted uploads\<close>

text \<open>
  A history of uploads of one content by this program: each run starts from what the one before
  left, whatever its outcome was.
\<close>

inductive upload_history :: "aes \<Rightarrow> net_lib \<Rightarrow> bytes \<Rightarrow> ul \<Rightarrow> bool" for C N plain where
  first: "d_file (ul_disk u) = None \<Longrightarrow> upload_history C N plain u"
| again: "upload_history C N plain u \<Longrightarrow> uj_aes J = C \<Longrightarrow> uj_lib J = N \<Longrightarrow> sf_size (uj_source J) = length plain
    \<Longrightarrow> list_all (\<lambda>r. reads_source plain (snd r)) rounds
    \<Longrightarrow> length (uj_key J) = 16 \<Longrightarrow> aes_ok (uj_aes J) \<Longrightarrow> aes_key_size (uj_master J) \<Longrightarrow> upload_file J rounds u = Some (r, u')
    \<Longrightarrow> upload_history C N plain u'"

lemma upload_file_true:
  assumes "upload_file J rounds u = Some (r, u')" and "sf_size (uj_source J) = length plain" and "plain \<noteq> []"
    and "list_all (\<lambda>r. reads_source plain (snd r)) rounds"
    and "length (uj_key J) = 16" and "aes_ok (uj_aes J)" and "aes_key_size (uj_master J)"
    and "disk_true (uj_aes J) (uj_lib J) plain (ul_acks u) (ul_disk u)"
  shows "disk_true (uj_aes J) (uj_lib J) plain (ul_acks u') (ul_disk u')
    \<and> (\<forall>x. r = Inr x \<longrightarrow> (\<exists>target tok attrs wrapped. ul_calls u' = ul_calls u @ [(target, tok, attrs, wrapped)]
         \<and> delivers (uj_aes J) (uj_master J) plain (ul_acks u') tok wrapped))"
proof (cases "uj_is_file J \<and> uj_lease J = LeaseTaken")
  case True
  then have "upload_file_locked J rounds u = Some (r, u')" using assms(1) by (simp add: upload_file_def)
  from upload_file_locked_true [OF this assms(2-8)] show ?thesis .
next
  case False
  then have "u' = u \<and> (\<exists>e. r = Inl e)"
    using assms(1) by (auto simp: upload_file_def split: if_splits upload_lease.splits)
  then show ?thesis using assms(8) by auto
qed

lemma history_true:
  assumes "upload_history C N plain u" and "plain \<noteq> []"
  shows "disk_true C N plain (ul_acks u) (ul_disk u)"
  using assms(1)
proof induction
  case (first u)
  then show ?case by (simp add: disk_true_def)
next
  case (again u J rounds r u')
  from upload_file_true [OF again.hyps(9,4) assms(2) again.hyps(5-8)] again show ?case by simp
qed

text \<open>
  C2: an upload that succeeds delivers the source, also after any number of interrupted, failed and
  resumed runs. If every read saw the content, then whatever the schedules, the retries, the
  proxies and the slot refreshes were, exactly one completion request is made by the run that
  succeeds; it names a token that answered the last byte, all chunks of the sealed file were
  acknowledged by one slot, and the key it carries is one under which the download check accepts
  the source.
\<close>

theorem upload_success_delivers:
  assumes "upload_history (uj_aes J) (uj_lib J) plain u" and "upload_file J rounds u = Some (Inr r, u')"
    and "sf_size (uj_source J) = length plain" and "plain \<noteq> []"
    and "list_all (\<lambda>r. reads_source plain (snd r)) rounds"
    and "length (uj_key J) = 16" and "aes_ok (uj_aes J)" and "aes_key_size (uj_master J)"
  shows "\<exists>target tok attrs wrapped. ul_calls u' = ul_calls u @ [(target, tok, attrs, wrapped)]
    \<and> delivers (uj_aes J) (uj_master J) plain (ul_acks u') tok wrapped"
  using upload_file_true [OF assms(2-8) history_true [OF assms(1,4)]] by blast

section \<open>A source that changed\<close>

lemma empty_post_calls: "empty_post P url u = (r, u') \<Longrightarrow> ul_calls u' = ul_calls u"
  by (auto simp: empty_post_def ul_blame_def Let_def
      split: sum.splits prod.splits http_reply.splits if_splits)

lemma empty_verdict_calls: "empty_verdict P st body picked u = (r, u') \<Longrightarrow> ul_calls u' = ul_calls u"
  by (auto simp: empty_verdict_def ul_blame_def split: if_splits)

lemma empty_token_calls:
  assumes "empty_token J u = (r, u')"
  shows "ul_calls u' = ul_calls u"
proof (cases "request_upload_url (uj_slot J)")
  case (Inl e)
  then show ?thesis using assms by (simp add: empty_token_def)
next
  case (Inr url)
  obtain x v where x: "empty_post (fst (uj_empty_tries J)) url u = (x, v)" by (metis surj_pair)
  note c = empty_post_calls [OF x]
  show ?thesis
  proof (cases x)
    case (Inl e)
    then show ?thesis using assms x c \<open>request_upload_url (uj_slot J) = Inr url\<close> by (simp add: empty_token_def)
  next
    case (Inr y)
    obtain st body picked where y: "y = (st, body, picked)" by (metis prod_cases3)
    show ?thesis
    proof (cases "st \<in> set UPLOAD_URL_EXPIRY_STATUS")
      case False
      then show ?thesis
        using assms x c Inr y \<open>request_upload_url (uj_slot J) = Inr url\<close> empty_verdict_calls
        by (fastforce simp: empty_token_def)
    next
      case True
      then show ?thesis
        using assms x c Inr y \<open>request_upload_url (uj_slot J) = Inr url\<close>
        by (auto simp: empty_token_def split: sum.splits prod.splits dest!: empty_post_calls empty_verdict_calls)
    qed
  qed
qed

lemma upload_empty_facts:
  assumes "upload_empty_file J target identity u = (r, u')"
  shows "ul_calls u' = ul_calls u
    \<or> (\<exists>f stop current call. uj_source_end J = Some f \<and> sf_size f = 0
         \<and> source_identity (uj_sha J) stop f = Inr current
         \<and> identities_match (Some (JObj identity)) current \<and> ul_calls u' = ul_calls u @ [call])"
proof -
  obtain x v where x: "empty_token J u = (x, v)" by (metis surj_pair)
  note c = empty_token_calls [OF x]
  show ?thesis
  proof (cases "\<exists>token f current mac_iv. x = Inr token \<and> uj_source_end J = Some f
      \<and> source_identity (uj_sha J) (\<lambda>k. ul_stop v \<or> uj_hash_stop_end J k) f = Inr current
      \<and> sf_size f = 0 \<and> identities_match (Some (JObj identity)) current
      \<and> bindR (combine_chunk_macs (uj_aes J) [] (uj_key J)) condense_mac = Inr mac_iv")
    case False
    then have "u' = v" using assms x
      by (auto simp: upload_empty_file_def split: sum.splits option.splits if_splits)
    then show ?thesis using c by simp
  next
    case True
    then obtain token f current mac_iv where t: "x = Inr token" "uj_source_end J = Some f"
      "source_identity (uj_sha J) (\<lambda>k. ul_stop v \<or> uj_hash_stop_end J k) f = Inr current"
      "sf_size f = 0" "identities_match (Some (JObj identity)) current"
      "bindR (combine_chunk_macs (uj_aes J) [] (uj_key J)) condense_mac = Inr mac_iv" by blast
    obtain y w where y: "register_node J target (uj_key J) (uj_nonce J) mac_iv token v = (y, w)" by (metis surj_pair)
    have "u' = w" using assms x t y by (auto simp: upload_empty_file_def split: sum.splits)
    then have "ul_calls u' = ul_calls u \<or> (\<exists>call. ul_calls u' = ul_calls u @ [call])"
      using register_node_facts [OF y] c by auto
    then show ?thesis using t(2-5) by blast
  qed
qed

text \<open>
  C5: a file that changed is never registered. If a completion request leaves the program, it is the
  only one, and the source was hashed again after the last byte and has the path, size, time, hash
  and, where both are known, file id of the file the upload started with; this holds for every
  outcome of the upload and for empty files.
\<close>

theorem changed_source_not_registered:
  assumes "upload_file J rounds u = Some (r, u')" and "ul_calls u' \<noteq> ul_calls u"
  shows "\<exists>f call. uj_source_end J = Some f \<and> same_identity (uj_sha J) (uj_source J) f
    \<and> ul_calls u' = ul_calls u @ [call]"
proof -
  have lk: "upload_file_locked J rounds u = Some (r, u')"
    using assms by (auto simp: upload_file_def split: if_splits upload_lease.splits)
  let ?u = "reset_per_file u"
  have r: "ul_calls ?u = ul_calls u" by (simp add: reset_per_file_def)
  obtain target where t: "upload_target J = Inr target"
    using lk assms(2) r by (cases "upload_target J") (auto simp: upload_file_locked_def Let_def)
  obtain identity where i: "source_identity (uj_sha J) (uj_hash_stop J) (uj_source J) = Inr identity"
    using lk assms(2) r t by (cases "source_identity (uj_sha J) (uj_hash_stop J) (uj_source J)")
      (auto simp: upload_file_locked_def Let_def)
  show ?thesis
  proof (cases "sf_size (uj_source J) = 0")
    case True
    then have "upload_empty_file J target identity ?u = (r, u')"
      using lk t i by (simp add: upload_file_locked_def Let_def)
    from upload_empty_facts [OF this] obtain f stop current call where f: "uj_source_end J = Some f"
      "source_identity (uj_sha J) stop f = Inr current"
      "identities_match (Some (JObj identity)) current" "ul_calls u' = ul_calls u @ [call]"
      using assms(2) r by metis
    then show ?thesis using identities_match_snapshots [OF i f(2)] by blast
  next
    case False
    obtain c disk where c0: "choose_upload J identity (ul_disk ?u) = (c, disk)" by (metis surj_pair)
    then obtain url tok key nonce s where c: "c = Inr (url, tok, key, nonce, s)"
      using lk t i False assms(2) r by (cases c) (auto simp: upload_file_locked_def Let_def)
    let ?v = "?u\<lparr>ul_disk := disk, ul_state := s, ul_token := tok\<rparr>"
    obtain x w where l: "upload_loop J key nonce False rounds url ?v = Some (x, w)"
      using lk t i False c0 c by (auto simp: upload_file_locked_def Let_def split: option.splits)
    have w: "ul_calls w = ul_calls u" using upload_loop_calls [OF l] r by simp
    show ?thesis
    proof (cases x)
      case (Inl e)
      then show ?thesis using lk t i False c0 c l w assms(2) by (simp add: upload_file_locked_def Let_def)
    next
      case (Inr url')
      then have "finish_upload J target identity key nonce w = (r, u')"
        using lk t i False c0 c l by (simp add: upload_file_locked_def Let_def)
      from finish_upload_facts [OF this] obtain f current call where f: "uj_source_end J = Some f"
        "source_identity (uj_sha J) (\<lambda>k. ul_stop w \<or> uj_hash_stop_end J k) f = Inr current"
        "identities_match (Some (JObj identity)) current" "ul_calls u' = ul_calls u @ [call]"
        using assms(2) w by auto
      then show ?thesis using identities_match_snapshots [OF i f(2)] by blast
    qed
  qed
qed

lemma upload_loop_refreshed: "upload_loop J key nonce True (r # rs) url u = upload_loop J key nonce True [r] url u"
  by (auto split: option.splits outcome.splits)

lemma upload_loop_two:
  "upload_loop J key nonce False (r1 # r2 # rs) url u = upload_loop J key nonce False [r1, r2] url u"
  by (simp only: upload_loop.simps(2) [of J key nonce False] upload_loop_refreshed [of J key nonce r2 rs])


section \<open>A finish that goes through\<close>

lemma key_wrap_total:
  assumes "aes_key_size k" and "16 dvd length data"
  shows "\<exists>w. aes_key_wrap_encrypt C data k = Inr w"
  using key_wrap_blocks(1) [OF assms] by blast

lemma pack_file_key_total:
  assumes "length a = 16" and "length n = 8" and "length m = 2"
  shows "\<exists>k. pack_file_key a n m = Inr k \<and> length k = 8"
  using unpack_pack_file_key [OF assms]
  by (auto simp: bindR_Inr_iff unpack_file_key_def split: if_splits)

lemma node_request_total:
  assumes "aes_ok (uj_aes J)" and "aes_key_size (uj_master J)" and "length key = 16" and "length nonce = 8"
    and "length mac_iv = 2" and "decode_ascii token = Inr tok"
  shows "\<exists>attrs wrapped. node_request J key nonce mac_iv token = Inr (tok, attrs, wrapped)"
proof -
  obtain k where k: "pack_file_key key nonce mac_iv = Inr k" "length k = 8"
    using pack_file_key_total [OF assms(3-5)] by blast
  obtain blob where b: "encrypt_attributes (uj_aes J) [(''n'', upload_name J)] key = Inr blob"
    using encrypt_attributes_opens [OF assms(1), of key] assms(3) by (auto simp: aes_key_size_def)
  have "16 dvd length (a32_to_bytes k)" using k(2) by simp
  then obtain w where w: "aes_key_wrap_encrypt (uj_aes J) (a32_to_bytes k) (uj_master J) = Inr w"
    using key_wrap_total [OF assms(2)] by blast
  show ?thesis using k(1) b w assms(6) by (simp add: node_request_def)
qed

lemma finish_goes_through:
  assumes "ul_token u = Some token" and "decode_ascii token = Inr tok" and "uj_source_end J = Some f"
    and "source_identity (uj_sha J) (\<lambda>k. ul_stop u \<or> uj_hash_stop_end J k) f = Inr current"
    and "identities_match (Some (JObj identity)) current"
    and "complete_macs J (ul_state u) = Inr macs" and "\<forall>m \<in> set macs. length m = 16"
    and "aes_ok (uj_aes J)" and "aes_key_size (uj_master J)" and "length key = 16" and "length nonce = 8"
    and "\<And>a b c. uj_complete J target a b c = Inr ans" and "node_handle ans = Inr h"
    and "clear_state (uj_lib J) (uj_env J) (ul_disk u) = (Inr (), disk)"
  shows "\<exists>u'. finish_upload J target identity key nonce u
    = (Inr \<lparr>ur_handle = h, ur_name = upload_name J, ur_size = sf_size (uj_source J)\<rparr>, u')"
proof -
  have ks: "aes_key_size key" using assms(10) by (simp add: aes_key_size_def)
  let ?m = "mac_chain (uj_aes J) key macs (zeros 16)"
  have "length ?m = 16" using mac_chain_length [OF assms(8) ks] assms(7) by simp
  then have "length (bytes_to_a32 ?m) = 4" using length_bytes_to_a32 [of ?m] by simp
  then obtain iv where iv: "condense_mac ?m = Inr iv" "length iv = 2" by (simp add: condense_mac_def Let_def)
  obtain attrs wrapped where q: "node_request J key nonce iv token = Inr (tok, attrs, wrapped)"
    using node_request_total [OF assms(8-11) iv(2) assms(2)] by blast
  show ?thesis
    using assms(1,3-6,12-14) iv(1) q combine_chunk_macs_chain [OF assms(8) ks assms(7)]
    by (simp add: finish_upload_def register_node_def)
qed

section \<open>Example runs\<close>

definition demo_source :: source_file where
  "demo_source = \<lparr>sf_path = ''a.bin'', sf_name = ''a.bin'', sf_resolved = ''/a.bin'', sf_size = 3, sf_mtime = 7,
     sf_dev = 1, sf_ino = 2, sf_content = demo_plain\<rparr>"

definition demo_post :: post_env where
  "demo_post = \<lparr>pe_now = 0, pe_draw = 0, pe_source = Inr demo_plain,
     pe_reply = \<lambda>url data. Reply 200 (\<lambda>_. None) [utf8 ''tok''] None\<rparr>"

definition demo_upload :: upload_job where
  "demo_upload = \<lparr>uj_aes = demo_aes, uj_lib = plain_lib, uj_env = reader, uj_sha = to_hex, uj_is_file = True,
     uj_lease = LeaseTaken, uj_source = demo_source, uj_source_end = Some demo_source, uj_hash_stop = \<lambda>_. False,
     uj_hash_stop_end = \<lambda>_. False, uj_state_path = ''s'', uj_auto_resume = True, uj_key = demo_key,
     uj_nonce = demo_nonce, uj_target = Some ''ROOT'', uj_root = Inr None, uj_rename = None,
     uj_master = replicate 16 3, uj_slot = Inr (JObj [(''p'', JStr ''https://u.mega.nz/x'')]),
     uj_slot_refresh = Inr (JObj [(''p'', JStr ''https://u.mega.nz/y'')]),
     uj_complete = \<lambda>_ _ _ _. Inr (JObj [(''f'', JArr [JObj [(''h'', JStr ''H'')]])]),
     uj_empty_tries = (demo_post, demo_post)\<rparr>"

definition demo_ul :: ul where
  "demo_ul = \<lparr>ul_stop = False, ul_selector = make_selector None None False, ul_disk = empty_disk,
     ul_state = fresh_state, ul_token = None, ul_bytes_done = 0, ul_chunks_done = 0, ul_acks = [], ul_calls = []\<rparr>"

definition demo_rounds :: "round list" where
  "demo_rounds = [(None, [Send 0 demo_post, Record 0 reader])]"

definition demo_identity :: "(string \<times> json) list" where
  "demo_identity = [(''v'', JInt 2), (''path'', JStr ''/a.bin''), (''size'', JInt 3), (''mtime_ns'', JInt 7),
     (''sha256'', JStr (to_hex demo_plain)), (''file_id'', JStr ''1:2'')]"

lemma demo_source_identity: "(\<And>k. \<not> stop k) \<Longrightarrow> source_identity to_hex stop demo_source = Inr demo_identity"
proof -
  assume "\<And>k. \<not> stop k"
  moreover have "show_nat (Suc 0) = ''1''" "show_nat 2 = ''2''" by code_simp+
  ultimately show ?thesis
    by (simp add: source_identity_def file_sha256_def hash_blocks_calm demo_source_def demo_identity_def
        SOURCE_IDENTITY_VERSION_def HASH_BLOCK_def)
qed

lemma demo_upload_chunks: "uj_chunks demo_upload = [demo_chunk]"
proof -
  have "sf_size (uj_source demo_upload) = length demo_plain"
    by (simp add: demo_upload_def demo_source_def demo_plain_def)
  then show ?thesis by (simp only: uj_chunks_def demo_plan)
qed

definition demo_begun :: ul where
  "demo_begun = (reset_per_file demo_ul)\<lparr>ul_state :=
     fresh_upload demo_upload demo_identity ''https://u.mega.nz/x'' demo_key demo_nonce\<rparr>"

lemma demo_choose_upload:
  "choose_upload demo_upload demo_identity empty_disk
     = (Inr (''https://u.mega.nz/x'', None, demo_key, demo_nonce,
         fresh_upload demo_upload demo_identity ''https://u.mega.nz/x'' demo_key demo_nonce), empty_disk)"
  by (simp add: choose_upload_def start_fresh_def demo_upload_def load_state_def empty_disk_def
      unrecognized_state_version_def read_json_def reader_def clear_state_def disk_guard_def
      request_upload_url_def expect_mapping_def expect_field_def jget_def)

definition demo_ran :: "(outcome option \<times> ul) option" where
  "demo_ran = run_workers demo_aes plain_lib ''https://u.mega.nz/x'' demo_key demo_nonce [demo_chunk]
     [Send 0 demo_post, Record 0 reader] demo_begun"

definition demo_sent :: ul where
  "demo_sent = snd (the demo_ran)"

lemma demo_ran_ok: "map_option fst demo_ran = Some None"
  by code_simp

lemma demo_sent_facts:
  "ul_token demo_sent = Some (utf8 ''tok'')" "\<not> ul_stop demo_sent"
  by code_simp+


lemma demo_round_ok:
  "upload_round demo_upload ''https://u.mega.nz/x'' demo_key demo_nonce (None, [Send 0 demo_post, Record 0 reader])
     (demo_begun\<lparr>ul_disk := empty_disk\<rparr>) = Some (None, demo_sent)"
proof -
  obtain x u where r: "demo_ran = Some (x, u)" using demo_ran_ok by (cases demo_ran) auto
  then have "demo_sent = u" unfolding demo_sent_def r by simp
  moreover have "x = None" using demo_ran_ok unfolding r by simp
  ultimately have "demo_ran = Some (None, demo_sent)" unfolding r by simp
  moreover have "demo_begun\<lparr>ul_disk := empty_disk, ul_bytes_done := 0, ul_chunks_done := 0, ul_stop := False\<rparr> = demo_begun"
    by (simp add: demo_begun_def reset_per_file_def demo_ul_def)
  moreover have "\<not> is_chunk_done (ul_state demo_begun) 0"
    by (simp add: demo_begun_def fresh_upload_def is_chunk_done_def)
  moreover have "ch_index demo_chunk = 0" by (simp add: demo_chunk_def)
  moreover have "uj_aes demo_upload = demo_aes" "uj_lib demo_upload = plain_lib" by (simp_all add: demo_upload_def)
  ultimately show ?thesis
    by (simp add: upload_round_def demo_upload_chunks demo_ran_def)
qed


lemma demo_sent_macs:
  "map (\<lambda>(i, h). (i, map_option length (from_hex h), h = [])) (chunk_macs (ul_state demo_sent)) = [(0, Some 16, False)]"
  by code_simp

lemma demo_sent_disk: "fst (clear_state plain_lib reader (ul_disk demo_sent)) = Inr ()"
  by code_simp

lemma demo_complete: "\<exists>m. complete_macs demo_upload (ul_state demo_sent) = Inr [m] \<and> length m = 16"
proof -
  obtain h m where h: "chunk_macs (ul_state demo_sent) = [(0, h)]" "from_hex h = Some m" "length m = 16" "h \<noteq> []"
    using demo_sent_macs by (auto simp: map_eq_Cons_conv)
  then have "get_chunk_mac 0 (ul_state demo_sent) = Inr (Some m)" by (simp add: get_chunk_mac_def)
  then show ?thesis using h(3)
    by (simp add: complete_macs_def demo_upload_chunks demo_chunk_def)
qed

definition demo_uploaded :: "(upload_result py \<times> ul) option" where
  "demo_uploaded = upload_file demo_upload demo_rounds demo_ul"

lemma demo_upload_facts:
  "uj_aes demo_upload = demo_aes" "uj_lib demo_upload = plain_lib" "uj_env demo_upload = reader"
  "uj_sha demo_upload = to_hex" "uj_source demo_upload = demo_source" "uj_source_end demo_upload = Some demo_source"
  "uj_is_file demo_upload" "uj_lease demo_upload = LeaseTaken" "uj_key demo_upload = demo_key"
  "uj_hash_stop demo_upload = (\<lambda>_. False)" "uj_hash_stop_end demo_upload = (\<lambda>_. False)"
  "uj_master demo_upload = replicate 16 3" "upload_target demo_upload = Inr ''ROOT''"
  "uj_complete demo_upload a b c d = Inr (JObj [(''f'', JArr [JObj [(''h'', JStr ''H'')]])])"
  by (simp_all add: demo_upload_def upload_target_def)

lemma demo_uploaded_ok:
  "\<exists>u'. demo_uploaded = Some (Inr \<lparr>ur_handle = ''H'', ur_name = upload_name demo_upload, ur_size = 3\<rparr>, u')"
proof -
  obtain m where m: "complete_macs demo_upload (ul_state demo_sent) = Inr [m]" "length m = 16"
    using demo_complete by blast
  obtain disk where c: "clear_state plain_lib reader (ul_disk demo_sent) = (Inr (), disk)"
    using demo_sent_disk by (metis prod.collapse)
  have st: "(\<lambda>k :: nat. ul_stop demo_sent \<or> False) = (\<lambda>_. False)" using demo_sent_facts(2) by simp
  have id: "source_identity to_hex (\<lambda>_. False) demo_source = Inr demo_identity" by (rule demo_source_identity) simp
  have tok: "decode_ascii (utf8 ''tok'') = Inr ''tok''" by code_simp
  have hn: "node_handle (JObj [(''f'', JArr [JObj [(''h'', JStr ''H'')]])]) = Inr ''H''"
    by (simp add: node_handle_def jget_def)
  have id2: "source_identity (uj_sha demo_upload)
      (\<lambda>k. ul_stop demo_sent \<or> uj_hash_stop_end demo_upload k) demo_source = Inr demo_identity"
    using id demo_sent_facts(2) by (simp add: demo_upload_facts)
  have m16: "\<forall>x \<in> set [m]. length x = 16" using m(2) by simp
  have match: "identities_match (Some (JObj demo_identity)) demo_identity"
    using identities_match_snapshots [OF id id] by (simp add: same_identity_def)
  have cl: "clear_state (uj_lib demo_upload) (uj_env demo_upload) (ul_disk demo_sent) = (Inr (), disk)"
    using c by (simp add: demo_upload_facts)
  have "\<exists>u'. finish_upload demo_upload ''ROOT'' demo_identity demo_key demo_nonce demo_sent
      = (Inr \<lparr>ur_handle = ''H'', ur_name = upload_name demo_upload, ur_size = sf_size (uj_source demo_upload)\<rparr>, u')"
    by (rule finish_goes_through [OF demo_sent_facts(1) tok demo_upload_facts(6) id2 match m(1) m16 _ _ _ _ _ hn cl])
      (simp_all add: demo_upload_facts demo_aes_ok aes_key_size_def demo_key_def demo_nonce_def)
  moreover have "sf_size demo_source = 3" by (simp add: demo_source_def)
  moreover have d: "ul_disk (reset_per_file demo_ul) = empty_disk" by (simp add: reset_per_file_def demo_ul_def)
  moreover have "(reset_per_file demo_ul)\<lparr>ul_disk := empty_disk,
      ul_state := fresh_upload demo_upload demo_identity ''https://u.mega.nz/x'' demo_key demo_nonce, ul_token := None\<rparr>
      = demo_begun\<lparr>ul_disk := empty_disk\<rparr>"
    by (simp add: demo_begun_def reset_per_file_def)
  ultimately show ?thesis
    by (simp add: demo_uploaded_def upload_file_def upload_file_locked_def demo_upload_facts id
        demo_choose_upload demo_rounds_def demo_round_ok)
qed

lemma demo_premises:
  "upload_history (uj_aes demo_upload) (uj_lib demo_upload) demo_plain demo_ul"
  "sf_size (uj_source demo_upload) = length demo_plain" "demo_plain \<noteq> []"
  "list_all (\<lambda>r. reads_source demo_plain (snd r)) demo_rounds" "length (uj_key demo_upload) = 16"
  "aes_ok (uj_aes demo_upload)" "aes_key_size (uj_master demo_upload)"
  by (rule upload_history.first)
    (simp_all add: demo_ul_def empty_disk_def demo_upload_facts demo_source_def demo_plain_def demo_rounds_def
      reads_source_def demo_post_def demo_key_def demo_aes_ok aes_key_size_def)

theorem upload_success_delivers_witness:
  "\<exists>target tok attrs wrapped. ul_calls (snd (the demo_uploaded)) = [(target, tok, attrs, wrapped)]
    \<and> delivers demo_aes (replicate 16 3) demo_plain (ul_acks (snd (the demo_uploaded))) tok wrapped"
proof -
  obtain r u' where d: "demo_uploaded = Some (Inr r, u')" using demo_uploaded_ok by blast
  have "ul_calls demo_ul = []" by (simp add: demo_ul_def)
  then show ?thesis
    using upload_success_delivers [OF demo_premises(1) d [unfolded demo_uploaded_def] demo_premises(2-7)]
    unfolding d by (simp add: demo_upload_facts)
qed

theorem changed_source_not_registered_witness:
  "\<exists>f call. uj_source_end demo_upload = Some f \<and> same_identity to_hex demo_source f
    \<and> ul_calls (snd (the demo_uploaded)) = [call]"
proof -
  obtain r u' where d: "demo_uploaded = Some (Inr r, u')" using demo_uploaded_ok by blast
  have e: "ul_calls demo_ul = []" by (simp add: demo_ul_def)
  have "ul_calls u' \<noteq> ul_calls demo_ul"
    using upload_file_true [OF d [unfolded demo_uploaded_def] demo_premises(2-7) history_true [OF demo_premises(1,3)]]
    by auto
  from changed_source_not_registered [OF d [unfolded demo_uploaded_def] this] show ?thesis
    unfolding d using e by (simp add: demo_upload_facts)
qed

text \<open>
  The key of a resume state is in force even when the state is then rejected. A state whose key has
  the right number of characters and two blanks among them passes validation, and the upload that
  starts afresh goes on with fifteen bytes, a key no cipher accepts.
\<close>

theorem rejected_state_keeps_key:
  "let d = [(''aes_key'', JStr (''00  '' @ replicate 28 (CHR ''0''))), (''nonce'', JStr (replicate 16 (CHR ''0'')))]
   in validate_metadata plain_lib (JObj d) = Inr d
     \<and> (case resume_material d (replicate 16 5) (replicate 8 6) of (m, key, nonce) \<Rightarrow>
          m = None \<and> length key = 15 \<and> make_ctr_cipher key nonce 0 = raise ValueError)"
  by code_simp

end
