(* ===== verification/Nodes.thy ===== *)
theory Nodes
  imports Responses
begin

text \<open>
  \<open>core/nodes.py\<close> and \<open>core/cloud.py\<close>: a node of the cloud tree, its key and name, the cached
  listing and the mutations of the account's own tree, with \<open>decrypt_attributes\<close> of
  \<open>core/crypto.py\<close>. The API is a function of the requests made so far and the request; decoding
  and parsing of an attribute text (\<open>json.loads\<close> of the bytes decoded with replacement) is an
  argument, what the code makes of the parsed value is modelled.
\<close>

section \<open>Attributes\<close>

type_synonym loads = "bytes \<Rightarrow> json py"

text \<open>One element of what \<open>dict(v)\<close> iterates over: a pair, or not.\<close>

definition dict_item :: "json \<Rightarrow> (json \<times> json) py" where
  "dict_item v =
    (case v of
       JArr [k, x] \<Rightarrow> Inr (k, x)
     | JStr [a, b] \<Rightarrow> Inr (JStr [a], JStr [b])
     | JObj [(a, _), (b, _)] \<Rightarrow> Inr (JStr a, JStr b)
     | JArr _ \<Rightarrow> raise ValueError | JStr _ \<Rightarrow> raise ValueError | JObj _ \<Rightarrow> raise ValueError
     | _ \<Rightarrow> raise TypeError)"

text \<open>Unhashable keys raise; a key that is not a text is never looked up, so it is left out.\<close>

fun dict_items :: "json list \<Rightarrow> (string \<times> json) list \<Rightarrow> (string \<times> json) list py" where
  "dict_items [] d = Inr d"
| "dict_items (v # vs) d =
    bindR (dict_item v) (\<lambda>(k, x).
      case k of
        JStr s \<Rightarrow> dict_items vs (dict_set s x d)
      | JArr _ \<Rightarrow> raise TypeError | JObj _ \<Rightarrow> raise TypeError
      | _ \<Rightarrow> dict_items vs d)"

definition py_dict :: "json \<Rightarrow> (string \<times> json) list py" where
  "py_dict v =
    (case v of
       JObj d \<Rightarrow> Inr d
     | JArr vs \<Rightarrow> dict_items vs []
     | JStr s \<Rightarrow> if s = [] then Inr [] else raise ValueError
     | _ \<Rightarrow> raise TypeError)"

definition decrypt_attributes :: "aes \<Rightarrow> loads \<Rightarrow> bytes \<Rightarrow> bytes \<Rightarrow> (string \<times> json) list option py" where
  "decrypt_attributes C L data key =
    (if data = [] \<or> length data mod 16 \<noteq> 0 then Inr None
     else bindR (aes_cbc_decrypt C data key) (\<lambda>plaintext.
       if take 4 plaintext \<noteq> ATTR_PREFIX then Inr None
       else case L (rstrip_by (\<lambda>b. b = 0) (drop 4 plaintext)) of
           Inl e \<Rightarrow> if isinstance e JSONDecodeError then Inr None else Inl e
         | Inr v \<Rightarrow> bindR (py_dict v) (\<lambda>d. Inr (Some d))))"

section \<open>Nodes\<close>

record mega_node =
  n_handle :: string
  n_parent :: string
  n_owner :: string
  n_type :: int
  n_size :: int
  n_timestamp :: int
  n_raw_attrs :: bytes
  n_raw_key :: string
  n_key :: "bytes option"
  n_name :: "json option"
  n_file_key :: "a32 option"

definition is_file :: "mega_node \<Rightarrow> bool" where
  "is_file n \<longleftrightarrow> n_type n = 0"

definition is_root :: "mega_node \<Rightarrow> bool" where
  "is_root n \<longleftrightarrow> n_type n = 2"

definition is_inbox :: "mega_node \<Rightarrow> bool" where
  "is_inbox n \<longleftrightarrow> n_type n = 3"

definition is_trash :: "mega_node \<Rightarrow> bool" where
  "is_trash n \<longleftrightarrow> n_type n = 4"

definition decrypt_node_key :: "aes \<Rightarrow> string \<Rightarrow> bytes \<Rightarrow> bytes py" where
  "decrypt_node_key C encoded_key master_key =
    (let wrapped = (case partition_at (CHR '':'') encoded_key of (h, found, t) \<Rightarrow> if found then t else encoded_key)
     in bindR (b64_url_decode wrapped) (\<lambda>b. aes_key_wrap_decrypt C b master_key))"

fun int_value :: "json \<Rightarrow> int" where
  "int_value (JInt n) = n"
| "int_value _ = 0"

definition text_field :: "(string \<times> json) list \<Rightarrow> string \<Rightarrow> string option \<Rightarrow> string py" where
  "text_field d k dflt = bindR (expect_field d k KStr (map_option JStr dflt)) (\<lambda>v. Inr (str_value v))"

definition int_field :: "(string \<times> json) list \<Rightarrow> string \<Rightarrow> int option \<Rightarrow> int py" where
  "int_field d k dflt = bindR (expect_field d k KInt (map_option JInt dflt)) (\<lambda>v. Inr (int_value v))"

text \<open>The fields of a node object, before anything is decrypted.\<close>

definition raw_node :: "json \<Rightarrow> mega_node py" where
  "raw_node v =
    bindR (expect_mapping v) (\<lambda>d.
    bindR (text_field d ''a'' (Some [])) (\<lambda>attrs.
    bindR (text_field d ''h'' None) (\<lambda>h.
    bindR (text_field d ''p'' (Some [])) (\<lambda>p.
    bindR (text_field d ''u'' (Some [])) (\<lambda>u.
    bindR (int_field d ''t'' None) (\<lambda>t.
    bindR (int_field d ''s'' (Some 0)) (\<lambda>s.
    bindR (int_field d ''ts'' (Some 0)) (\<lambda>ts.
    bindR (if attrs = [] then Inr [] else b64_url_decode attrs) (\<lambda>blob.
    bindR (text_field d ''k'' (Some [])) (\<lambda>k.
      Inr \<lparr>n_handle = h, n_parent = p, n_owner = u, n_type = t, n_size = s, n_timestamp = ts,
           n_raw_attrs = blob, n_raw_key = k, n_key = None, n_name = None, n_file_key = None\<rparr>))))))))))"

definition set_name :: "(string \<times> json) list option py \<Rightarrow> mega_node \<Rightarrow> mega_node" where
  "set_name attrs n =
    (case attrs of
       Inr (Some d) \<Rightarrow> if d = [] then n
         else (case jget ''n'' d of None \<Rightarrow> n | Some JNull \<Rightarrow> n | Some v \<Rightarrow> n\<lparr>n_name := Some v\<rparr>)
     | _ \<Rightarrow> n)"

text \<open>The body of the \<open>try\<close>: whatever it raises is logged, and what was assigned before stays.\<close>

definition decrypt_fields :: "aes \<Rightarrow> loads \<Rightarrow> bytes \<Rightarrow> mega_node \<Rightarrow> mega_node" where
  "decrypt_fields C L master_key n =
    (case decrypt_node_key C (n_raw_key n) master_key of
       Inl e \<Rightarrow> n
     | Inr k \<Rightarrow>
        let n = n\<lparr>n_key := Some k\<rparr>
        in if is_file n \<and> 32 \<le> length k then
             (let fk = bytes_to_a32 (take 32 k); n = n\<lparr>n_file_key := Some fk\<rparr>
              in case unpack_file_key fk of
                  Inl e \<Rightarrow> n
                | Inr (aes_key, _, _) \<Rightarrow> set_name (decrypt_attributes C L (n_raw_attrs n) aes_key) n)
           else if 16 \<le> length k then set_name (decrypt_attributes C L (n_raw_attrs n) (take 16 k)) n
           else n)"

definition decrypt_node :: "aes \<Rightarrow> loads \<Rightarrow> bytes option \<Rightarrow> json \<Rightarrow> mega_node py" where
  "decrypt_node C L master v =
    (case master of
       None \<Rightarrow> raise AuthError
     | Some key \<Rightarrow> bindR (raw_node v) (\<lambda>n.
         Inr (if n_raw_key n = [] then n else decrypt_fields C L key n)))"

section \<open>Listings\<close>

datatype api_request =
    ListNodes
  | CreateFolder string string string
  | DeleteNode string
  | MoveNode string string
  | RenameNode string string string

type_synonym api = "api_request list \<Rightarrow> api_request \<Rightarrow> json py"

record client =
  cl_session :: "bytes option"
  cl_cache :: "mega_node list option"
  cl_log :: "api_request list"

definition api_call :: "api \<Rightarrow> api_request \<Rightarrow> client \<Rightarrow> json py \<times> client" where
  "api_call A r c = (A (cl_log c) r, c\<lparr>cl_log := cl_log c @ [r]\<rparr>)"

definition invalidate_cache :: "client \<Rightarrow> client" where
  "invalidate_cache c = c\<lparr>cl_cache := None\<rparr>"

definition list_files :: "aes \<Rightarrow> loads \<Rightarrow> api \<Rightarrow> bool \<Rightarrow> client \<Rightarrow> mega_node list py \<times> client" where
  "list_files C L A refresh c =
    (if cl_session c = None then (raise AuthError, c)
     else if cl_cache c \<noteq> None \<and> \<not> refresh then (Inr (the (cl_cache c)), c)
     else case api_call A ListNodes c of
         (Inl e, c) \<Rightarrow> (Inl e, c)
       | (Inr v, c) \<Rightarrow>
          (case bindR (expect_mapping v) (\<lambda>d. bindR (expect_field d ''f'' KList (Some (JArr [])))
                  (\<lambda>f. mapR (decrypt_node C L (cl_session c)) (arr_value f))) of
             Inl e \<Rightarrow> (Inl e, c)
           | Inr nodes \<Rightarrow> (Inr nodes, c\<lparr>cl_cache := Some nodes\<rparr>)))"

fun split_slashes :: "string \<Rightarrow> string list" where
  "split_slashes [] = [[]]"
| "split_slashes (ch # s) =
    (if ch = CHR ''/'' \<or> ch = CHR 0x5C then [] # split_slashes s
     else case split_slashes s of [] \<Rightarrow> [[ch]] | p # ps \<Rightarrow> (ch # p) # ps)"

definition path_parts :: "string \<Rightarrow> string list" where
  "path_parts p = filter (\<lambda>x. x \<noteq> []) (split_slashes p)"

fun walk_path :: "mega_node list \<Rightarrow> string list \<Rightarrow> string \<Rightarrow> mega_node option \<Rightarrow> mega_node option" where
  "walk_path nodes [] cur found = found"
| "walk_path nodes (p # ps) cur found =
    (case find (\<lambda>n. n_parent n = cur \<and> n_name n = Some (JStr p)) nodes of
       None \<Rightarrow> None
     | Some n \<Rightarrow> walk_path nodes ps (n_handle n) (Some n))"

text \<open>\<open>find_root\<close>, \<open>find_trash\<close> and \<open>find_inbox\<close> differ in the type they look for.\<close>

definition find_special :: "(mega_node \<Rightarrow> bool) \<Rightarrow> aes \<Rightarrow> loads \<Rightarrow> api \<Rightarrow> client \<Rightarrow> string option py \<times> client" where
  "find_special p C L A c =
    (case list_files C L A False c of
       (Inl e, c) \<Rightarrow> (Inl e, c)
     | (Inr nodes, c) \<Rightarrow> (Inr (map_option n_handle (find p nodes)), c))"

abbreviation find_root :: "aes \<Rightarrow> loads \<Rightarrow> api \<Rightarrow> client \<Rightarrow> string option py \<times> client" where
  "find_root \<equiv> find_special is_root"

abbreviation find_trash :: "aes \<Rightarrow> loads \<Rightarrow> api \<Rightarrow> client \<Rightarrow> string option py \<times> client" where
  "find_trash \<equiv> find_special is_trash"

definition find_node ::
  "aes \<Rightarrow> loads \<Rightarrow> api \<Rightarrow> string \<Rightarrow> string option \<Rightarrow> client \<Rightarrow> mega_node option py \<times> client" where
  "find_node C L A handle path c =
    (case list_files C L A False c of
       (Inl e, c) \<Rightarrow> (Inl e, c)
     | (Inr nodes, c) \<Rightarrow>
        if handle \<noteq> [] then (Inr (find (\<lambda>n. n_handle n = handle) nodes), c)
        else case path of
            None \<Rightarrow> (Inr None, c)
          | Some p \<Rightarrow>
             (case find_root C L A c of
                (Inl e, c) \<Rightarrow> (Inl e, c)
              | (Inr None, c) \<Rightarrow> (Inr None, c)
              | (Inr (Some root), c) \<Rightarrow> (Inr (walk_path nodes (path_parts p) root None), c)))"

definition children_of :: "aes \<Rightarrow> loads \<Rightarrow> api \<Rightarrow> string \<Rightarrow> client \<Rightarrow> mega_node list py \<times> client" where
  "children_of C L A parent c =
    (case list_files C L A False c of
       (Inl e, c) \<Rightarrow> (Inl e, c)
     | (Inr nodes, c) \<Rightarrow> (Inr (filter (\<lambda>n. n_parent n = parent) nodes), c))"

section \<open>Mutations\<close>

text \<open>The two texts every mutation sends: the attribute blob and the wrapped key.\<close>

definition node_texts :: "aes \<Rightarrow> string \<Rightarrow> bytes \<Rightarrow> bytes \<Rightarrow> bytes \<Rightarrow> (string \<times> string) py" where
  "node_texts C name attr_key raw_key master =
    bindR (encrypt_attributes C [(''n'', name)] attr_key) (\<lambda>attrs.
    bindR (aes_key_wrap_encrypt C raw_key master) (\<lambda>wrapped.
      Inr (b64_url_encode attrs, b64_url_encode wrapped)))"

definition logged_in :: "client \<Rightarrow> (bytes \<Rightarrow> client \<Rightarrow> 'a py \<times> client) \<Rightarrow> 'a py \<times> client" where
  "logged_in c f = (case cl_session c of None \<Rightarrow> (raise AuthError, c) | Some m \<Rightarrow> f m c)"

definition mkdir ::
  "aes \<Rightarrow> loads \<Rightarrow> api \<Rightarrow> bytes \<Rightarrow> string \<Rightarrow> string option \<Rightarrow> client \<Rightarrow> string py \<times> client" where
  "mkdir C L A folder_key name parent_handle c =
    logged_in c (\<lambda>master c.
      case (case parent_handle of Some (x # p) \<Rightarrow> (Inr (Some (x # p)), c) | _ \<Rightarrow> find_root C L A c) of
        (Inl e, c) \<Rightarrow> (Inl e, c)
      | (Inr (Some (x # p)), c) \<Rightarrow>
          (case node_texts C name folder_key folder_key master of
             Inl e \<Rightarrow> (Inl e, c)
           | Inr (attrs, key) \<Rightarrow>
              (case api_call A (CreateFolder (x # p) attrs key) c of
                 (Inl e, c) \<Rightarrow> (Inl e, c)
               | (Inr v, c) \<Rightarrow>
                   if is_JObj v then (first_node_handle v, invalidate_cache c) else (raise MegaError, c)))
      | (Inr _, c) \<Rightarrow> (raise MegaError, c))"

definition simple_call :: "api \<Rightarrow> api_request \<Rightarrow> client \<Rightarrow> unit py \<times> client" where
  "simple_call A r c =
    (case api_call A r c of (Inl e, c) \<Rightarrow> (Inl e, c) | (Inr _, c) \<Rightarrow> (Inr (), invalidate_cache c))"

definition delete_node :: "api \<Rightarrow> string \<Rightarrow> client \<Rightarrow> unit py \<times> client" where
  "delete_node A handle c = logged_in c (\<lambda>_ c. simple_call A (DeleteNode handle) c)"

definition move_node :: "api \<Rightarrow> string \<Rightarrow> string \<Rightarrow> client \<Rightarrow> unit py \<times> client" where
  "move_node A handle new_parent c = logged_in c (\<lambda>_ c. simple_call A (MoveNode handle new_parent) c)"

text \<open>The key a node's attributes are under, and the raw key that is wrapped again.\<close>

definition rename_keys :: "mega_node \<Rightarrow> (bytes \<times> bytes) py" where
  "rename_keys n =
    (case (n_file_key n, n_key n) of
       (Some (w # ws), _) \<Rightarrow>
         if is_file n then bindR (unpack_file_key (w # ws)) (\<lambda>(a, _, _). Inr (a, a32_to_bytes (w # ws)))
         else (case n_key n of Some (b # bs) \<Rightarrow> Inr (take 16 (b # bs), b # bs) | _ \<Rightarrow> raise MegaError)
     | (_, Some (b # bs)) \<Rightarrow> Inr (take 16 (b # bs), b # bs)
     | _ \<Rightarrow> raise MegaError)"

definition rename_node ::
  "aes \<Rightarrow> loads \<Rightarrow> api \<Rightarrow> string \<Rightarrow> string \<Rightarrow> client \<Rightarrow> unit py \<times> client" where
  "rename_node C L A handle new_name c =
    logged_in c (\<lambda>master c.
      case find_node C L A handle None c of
        (Inl e, c) \<Rightarrow> (Inl e, c)
      | (Inr None, c) \<Rightarrow> (raise MegaError, c)
      | (Inr (Some n), c) \<Rightarrow>
          (case bindR (rename_keys n) (\<lambda>(aes_key, raw). node_texts C new_name aes_key raw master) of
             Inl e \<Rightarrow> (Inl e, c)
           | Inr (attrs, key) \<Rightarrow> simple_call A (RenameNode handle attrs key) c))"

text \<open>An API error for one child is logged; any other exception ends the loop.\<close>

fun delete_all :: "api \<Rightarrow> mega_node list \<Rightarrow> client \<Rightarrow> unit py \<times> client" where
  "delete_all A [] c = (Inr (), c)"
| "delete_all A (n # ns) c =
    (case api_call A (DeleteNode (n_handle n)) c of
       (Inl e, c) \<Rightarrow> if isinstance e MegaError then delete_all A ns c else (Inl e, c)
     | (Inr _, c) \<Rightarrow> delete_all A ns c)"

definition empty_trash :: "aes \<Rightarrow> loads \<Rightarrow> api \<Rightarrow> client \<Rightarrow> unit py \<times> client" where
  "empty_trash C L A c =
    logged_in c (\<lambda>_ c.
      case find_trash C L A c of
        (Inl e, c) \<Rightarrow> (Inl e, c)
      | (Inr (Some (x # t)), c) \<Rightarrow>
          (case children_of C L A (x # t) c of
             (Inl e, c) \<Rightarrow> (Inl e, c)
           | (Inr ns, c) \<Rightarrow>
              (case delete_all A ns c of (Inl e, c) \<Rightarrow> (Inl e, c) | (Inr _, c) \<Rightarrow> (Inr (), invalidate_cache c)))
      | (Inr _, c) \<Rightarrow> (Inr (), c))"

section \<open>A renamed node reads back\<close>

lemma key_wrap_decrypt_aligned:
  assumes "aes_ok C" and "aes_key_size m" and "aes_key_wrap_decrypt C d m = Inr k"
  shows "16 dvd length k"
proof -
  have d: "16 dvd length d"
    using assms(3) by (simp add: aes_key_wrap_decrypt_def dvd_eq_mod_eq_0 split: if_splits)
  have "\<forall>b \<in> set (map (\<lambda>b. xor_bytes (dec_block C m b) (zeros 16)) (blocks_of 16 d)). length b = 16"
    using blocks_of_length [OF _ d] aes_okD [OF assms(1,2)] by auto
  from length_concat_uniform [OF this] show ?thesis
    using key_wrap_blocks(2) [OF assms(2) d] assms(3) by simp
qed

lemma attr_body:
  "rstrip_by (\<lambda>b. b = 0) (drop 4 (attr_plaintext attrs)) = utf8 (CHR ''{'' # json_members attrs @ ''}'')"
proof -
  have p: "length ATTR_PREFIX = 4" by (simp add: ATTR_PREFIX_def utf8_def utf8_char_def)
  have t: "utf8 (CHR ''{'' # json_members attrs @ ''}'') = utf8 (CHR ''{'' # json_members attrs) @ [125]"
    by (simp add: utf8_def utf8_char_def)
  have "rstrip_by (\<lambda>b. b = 0) (utf8 (CHR ''{'' # json_members attrs @ ''}'') @ zeros n)
      = utf8 (CHR ''{'' # json_members attrs @ ''}'')" for n
    by (subst rstrip_by_append_all) (simp_all only: t, simp_all add: zeros_def rstrip_by_def)
  then show ?thesis by (simp add: attr_plaintext_def Let_def p)
qed

lemma attr_plaintext_prefix: "take 4 (attr_plaintext attrs) = ATTR_PREFIX"
  by (simp add: attr_plaintext_def Let_def ATTR_PREFIX_def utf8_def utf8_char_def)

lemma b64_url_no_colon: "CHR '':'' \<notin> set (b64_url_encode bs)"
proof
  assume "CHR '':'' \<in> set (b64_url_encode bs)"
  then obtain v where "v \<in> set (b64raw bs)" "b64_char v = CHR '':''"
    by (auto simp: b64_url_raw replace_char_def split: if_splits)
  then show False using b64_char_facts(6) [OF b64raw_bound [of v bs]] by (simp add: is_alnum_def is_digit_def is_upper_def is_lower_def)
qed

lemma node_texts_read:
  assumes "aes_ok C" and "aes_key_size ak" and "aes_key_size master" and "16 dvd length raw"
    and "node_texts C name ak raw master = Inr (a, k)"
    and "L (utf8 (CHR ''{'' # json_members [(''n'', name)] @ ''}'')) = Inr (JObj d)"
  shows "\<exists>blob w. b64_url_decode a = Inr blob \<and> decrypt_attributes C L blob ak = Inr (Some d)
    \<and> a \<noteq> [] \<and> b64_url_decode k = Inr w \<and> aes_key_wrap_decrypt C w master = Inr raw \<and> CHR '':'' \<notin> set k"
proof -
  let ?p = "attr_plaintext [(''n'', name)]"
  obtain blob where b: "encrypt_attributes C [(''n'', name)] ak = Inr blob" "length blob = length ?p"
    "aes_cbc_decrypt C blob ak = Inr ?p" using encrypt_attributes_opens [OF assms(1,2)] by blast
  obtain w where w: "aes_key_wrap_encrypt C raw master = Inr w" "aes_key_wrap_decrypt C w master = Inr raw"
    using key_wrap_roundtrip [OF assms(1,3,4)] by (auto simp: bindR_Inr_iff)
  have ak: "a = b64_url_encode blob" "k = b64_url_encode w"
    using assms(5) b(1) w(1) by (simp_all add: node_texts_def)
  have ne: "blob \<noteq> []" using b(2) attr_plaintext_prefix [of "[(''n'', name)]"]
    by (auto simp: ATTR_PREFIX_def utf8_def utf8_char_def)
  have "decrypt_attributes C L blob ak = Inr (Some d)"
    using ne b(2,3) attr_plaintext_blocks [of "[(''n'', name)]"] assms(6) unfolding decrypt_attributes_def
    by (simp add: attr_body attr_plaintext_prefix py_dict_def dvd_eq_mod_eq_0)
  moreover have "a \<noteq> []"
  proof
    assume "a = []"
    then have "b64_url_decode [] = Inr blob" using ak(1) b64_url_decode_encode [of blob] by simp
    then show False using ne b64_url_decode_encode [of "[]"] by (simp add: b64_url_encode_def rstrip_by_def replace_char_def)
  qed
  moreover have "CHR '':'' \<notin> set k" unfolding ak(2) by (rule b64_url_no_colon)
  ultimately show ?thesis using w(2) b64_url_decode_encode ak by blast
qed

lemma set_name_keys [simp]:
  "n_key (set_name a n) = n_key n" "n_file_key (set_name a n) = n_file_key n" "n_type (set_name a n) = n_type n"
  "n_owner (set_name a n) = n_owner n"
  by (simp_all add: set_name_def split: sum.splits option.splits json.splits)

lemma decrypt_fields_keys:
  assumes "n_key n0 = None" and "n_file_key n0 = None" and "n = decrypt_fields C L master n0"
    and "n_key n = Some k \<or> n_file_key n = Some fk"
  shows "\<exists>k. decrypt_node_key C (n_raw_key n0) master = Inr k \<and> n_key n = Some k
    \<and> n_file_key n = (if is_file n0 \<and> 32 \<le> length k then Some (bytes_to_a32 (take 32 k)) else None)
    \<and> n_type n = n_type n0 \<and> n_owner n = n_owner n0"
proof (cases "decrypt_node_key C (n_raw_key n0) master")
  case (Inl e)
  then show ?thesis using assms by (simp add: decrypt_fields_def)
next
  case (Inr kk)
  then show ?thesis using assms(1-3) unfolding decrypt_fields_def
    by (intro exI [of _ kk]) (simp add: Let_def is_file_def split: sum.splits prod.splits)
qed

lemma decrypt_node_keys:
  assumes "decrypt_node C L (Some master) (JObj d) = Inr n" and "rename_keys n = Inr (ak, raw)"
  shows "\<exists>n0 k. raw_node (JObj d) = Inr n0 \<and> decrypt_node_key C (n_raw_key n0) master = Inr k
    \<and> n_key n = Some k \<and> n_type n = n_type n0
    \<and> n_file_key n = (if is_file n0 \<and> 32 \<le> length k then Some (bytes_to_a32 (take 32 k)) else None)"
proof -
  obtain n0 where n0: "raw_node (JObj d) = Inr n0"
    and n: "n = (if n_raw_key n0 = [] then n0 else decrypt_fields C L master n0)"
    using assms(1) by (auto simp: decrypt_node_def bindR_Inr_iff)
  have e: "n_key n0 = None" "n_file_key n0 = None" using n0 by (auto simp: raw_node_def bindR_Inr_iff)
  have "(\<exists>k. n_key n = Some k) \<or> (\<exists>fk. n_file_key n = Some fk)"
    using assms(2) by (auto simp: rename_keys_def split: option.splits list.splits if_splits)
  moreover from this e n have "n = decrypt_fields C L master n0" by (auto split: if_splits)
  ultimately show ?thesis using decrypt_fields_keys [OF e] n0 by blast
qed

text \<open>The key that is wrapped again is the key the next reading unwraps, and opens the same attributes.\<close>

lemma rename_keys_reads:
  assumes "decrypt_node C L (Some master) (JObj d) = Inr n" and "rename_keys n = Inr (ak, raw)"
    and "aes_ok C" and "aes_key_size master"
  shows "16 dvd length raw \<and> length ak = 16 \<and> raw \<noteq> []
    \<and> (if n_file_key n = None then \<not> (is_file n \<and> 32 \<le> length raw) \<and> n_key n = Some raw \<and> ak = take 16 raw
       else is_file n \<and> length raw = 32 \<and> n_file_key n = Some (bytes_to_a32 raw)
         \<and> (\<exists>x y. unpack_file_key (bytes_to_a32 raw) = Inr (ak, x, y)))"
proof -
  obtain n0 k where n0: "decrypt_node_key C (n_raw_key n0) master = Inr k" "n_key n = Some k" "n_type n = n_type n0"
    and fk: "n_file_key n = (if is_file n0 \<and> 32 \<le> length k then Some (bytes_to_a32 (take 32 k)) else None)"
    using decrypt_node_keys [OF assms(1,2)] by blast
  have k16: "16 dvd length k"
    using n0(1) key_wrap_decrypt_aligned [OF assms(3,4)]
    by (auto simp: decrypt_node_key_def bindR_Inr_iff Let_def)
  have t: "is_file n = is_file n0" by (simp add: is_file_def n0(3))
  show ?thesis
  proof (cases "is_file n0 \<and> 32 \<le> length k")
    case True
    then have l: "length (take 32 k) = 32" by simp
    have b: "length (bytes_to_a32 (take 32 k)) = 8" using length_bytes_to_a32 [of "take 32 k"] l by simp
    then obtain w ws where ws: "bytes_to_a32 (take 32 k) = w # ws" by (cases "bytes_to_a32 (take 32 k)") auto
    have bk: "a32_to_bytes (w # ws) = take 32 k" using a32_to_bytes_of_bytes [of "take 32 k"] l ws by simp
    have f: "n_file_key n = Some (w # ws)" using True fk ws by simp
    obtain x y where u: "unpack_file_key (w # ws) = Inr (ak, x, y)" and raw: "raw = a32_to_bytes (w # ws)"
      using assms(2) True t f by (auto simp: rename_keys_def bindR_Inr_iff)
    then show ?thesis
      using True t f bk l ws unpack_file_key_sizes [OF u] by auto
  next
    case False
    then have f: "n_file_key n = None" using fk by simp
    then have r: "raw = k" "ak = take 16 k" "k \<noteq> []" using assms(2) n0(2)
      by (auto simp: rename_keys_def split: option.splits list.splits)
    have "16 \<le> length k" using k16 r(3) by (auto dest: dvd_imp_le)
    then show ?thesis using r k16 f n0(2) False t by simp
  qed
qed

text \<open>The node object the server returns after it stored the two texts under the owner's handle.\<close>

definition with_texts :: "string \<Rightarrow> string \<Rightarrow> string \<Rightarrow> (string \<times> json) list \<Rightarrow> (string \<times> json) list" where
  "with_texts owner a k d = dict_set ''a'' (JStr a) (dict_set ''k'' (JStr (owner @ CHR '':'' # k)) d)"

lemma raw_node_with_texts:
  assumes "raw_node (JObj d) = Inr n0" and "b64_url_decode a = Inr blob" and "a \<noteq> []"
  shows "raw_node (JObj (with_texts owner a k d)) = Inr (n0\<lparr>n_raw_attrs := blob, n_raw_key := owner @ CHR '':'' # k\<rparr>)"
  using assms
  by (auto simp: raw_node_def with_texts_def bindR_Inr_iff text_field_def int_field_def expect_field_def jget_def expect_mapping_def)

lemma renamed_reads:
  assumes "aes_ok C" and "aes_key_size master" and "decrypt_node C L (Some master) (JObj d) = Inr n"
    and "rename_keys n = Inr (ak, raw)" and "node_texts C new ak raw master = Inr (a, k)"
    and "L (utf8 (CHR ''{'' # json_members [(''n'', new)] @ ''}'')) = Inr (JObj [(''n'', JStr new)])"
    and "CHR '':'' \<notin> set owner"
  shows "\<exists>n'. decrypt_node C L (Some master) (JObj (with_texts owner a k d)) = Inr n'
    \<and> n_name n' = Some (JStr new) \<and> n_file_key n' = n_file_key n \<and> rename_keys n' = rename_keys n"
proof -
  note r = rename_keys_reads [OF assms(3,4,1,2)]
  have ak: "aes_key_size ak" "length ak = 16" "16 dvd length raw" using r by (auto simp: aes_key_size_def)
  obtain blob w where b: "b64_url_decode a = Inr blob" "decrypt_attributes C L blob ak = Inr (Some [(''n'', JStr new)])"
    "a \<noteq> []" and w: "b64_url_decode k = Inr w" "aes_key_wrap_decrypt C w master = Inr raw"
    using node_texts_read [where L = L and d = "[(''n'', JStr new)]", OF assms(1) ak(1) assms(2) ak(3) assms(5,6)]
    by blast
  obtain n0 where n0: "raw_node (JObj d) = Inr n0" "n_type n = n_type n0" "n_key n0 = None" "n_file_key n0 = None"
    using decrypt_node_keys [OF assms(3,4)] by (auto simp: raw_node_def bindR_Inr_iff)
  let ?m = "n0\<lparr>n_raw_attrs := blob, n_raw_key := owner @ CHR '':'' # k\<rparr>"
  let ?n = "decrypt_fields C L master ?m"
  have m: "decrypt_node C L (Some master) (JObj (with_texts owner a k d)) = Inr ?n"
    using raw_node_with_texts [OF n0(1) b(1,3)] by (simp add: decrypt_node_def)
  have key: "decrypt_node_key C (n_raw_key ?m) master = Inr raw"
    using w assms(7) by (simp add: decrypt_node_key_def partition_at_found)
  have named: "set_name (decrypt_attributes C L blob ak) x = x\<lparr>n_name := Some (JStr new)\<rparr>" for x
    by (simp add: b(2) set_name_def jget_def)
  have t: "is_file ?m = is_file n" by (simp add: is_file_def n0(2))
  have "n_name ?n = Some (JStr new) \<and> n_file_key ?n = n_file_key n \<and> rename_keys ?n = rename_keys n"
  proof (cases "n_file_key n")
    case None
    then have f: "\<not> (is_file n \<and> 32 \<le> length raw)" "n_key n = Some raw" "ak = take 16 raw" "raw \<noteq> []" using r by auto
    have "16 \<le> length raw" using ak(3) f(4) by (auto dest: dvd_imp_le)
    then have "?n = ?m\<lparr>n_key := Some raw, n_name := Some (JStr new)\<rparr>"
      using f(1) t named [of "?m\<lparr>n_key := Some raw\<rparr>"] unfolding decrypt_fields_def key f(3)
      by (auto simp: Let_def is_file_def)
    then show ?thesis using None f(2,4) n0(4) assms(4) by (cases raw) (simp_all add: rename_keys_def)
  next
    case (Some fk)
    with r have f: "is_file n" "length raw = 32" "fk = bytes_to_a32 raw"
      and "\<exists>x y. unpack_file_key (bytes_to_a32 raw) = Inr (ak, x, y)" by simp_all
    then obtain x y where u: "unpack_file_key (bytes_to_a32 raw) = Inr (ak, x, y)" by blast
    have "?n = ?m\<lparr>n_key := Some raw, n_file_key := Some fk, n_name := Some (JStr new)\<rparr>"
      using f t named [of "?m\<lparr>n_key := Some raw, n_file_key := Some fk\<rparr>"] unfolding decrypt_fields_def key
      by (simp add: Let_def is_file_def u)
    moreover have "fk \<noteq> []" using f(2,3) length_bytes_to_a32 [of raw] by auto
    ultimately show ?thesis using Some f(1) t by (cases fk) (simp_all add: rename_keys_def is_file_def)
  qed
  then show ?thesis using m by blast
qed

text \<open>
  A rename sends one request, and the node object the server then returns reads back as the new
  name under the same key: the contents stay readable, for files and folders alike, when
  \<open>json.loads\<close> reads the attribute text that was printed.
\<close>

theorem rename_keeps_key:
  assumes "aes_ok C" and "aes_key_size master" and "cl_session c = Some master" and "cl_cache c = Some nodes"
    and "h \<noteq> []" and "find (\<lambda>n. n_handle n = h) nodes = Some n"
    and "decrypt_node C L (Some master) (JObj d) = Inr n" and "rename_node C L A h new c = (Inr (), c')"
    and "L (utf8 (CHR ''{'' # json_members [(''n'', new)] @ ''}'')) = Inr (JObj [(''n'', JStr new)])"
    and "CHR '':'' \<notin> set owner"
  shows "\<exists>a k n'. cl_log c' = cl_log c @ [RenameNode h a k] \<and> cl_cache c' = None
    \<and> decrypt_node C L (Some master) (JObj (with_texts owner a k d)) = Inr n'
    \<and> n_name n' = Some (JStr new) \<and> n_file_key n' = n_file_key n \<and> rename_keys n' = rename_keys n"
proof -
  have f: "find_node C L A h None c = (Inr (Some n), c)"
    using assms(3-6) by (simp add: find_node_def list_files_def)
  obtain ak raw a k where k: "rename_keys n = Inr (ak, raw)" "node_texts C new ak raw master = Inr (a, k)"
    "simple_call A (RenameNode h a k) c = (Inr (), c')"
    using assms(8) by (auto simp: rename_node_def logged_in_def assms(3) f bindR_Inr_iff split: sum.splits prod.splits)
  then have "cl_log c' = cl_log c @ [RenameNode h a k] \<and> cl_cache c' = None"
    by (auto simp: simple_call_def api_call_def invalidate_cache_def split: sum.splits)
  then show ?thesis using renamed_reads [where L = L, OF assms(1,2,7) k(1,2) assms(9,10)] by blast
qed

text \<open>A folder under a demonstration key, listed and renamed to \<open>b\<close>.\<close>

definition demo_folder :: "(string \<times> json) list" where
  "demo_folder = [(''a'', JStr []), (''h'', JStr ''h1''), (''t'', JInt 1), (''k'', JStr ''AQEBAQEBAQEBAQEBAQEBAQ'')]"

definition demo_folder_node :: mega_node where
  "demo_folder_node = \<lparr>n_handle = ''h1'', n_parent = [], n_owner = [], n_type = 1, n_size = 0, n_timestamp = 0,
     n_raw_attrs = [], n_raw_key = ''AQEBAQEBAQEBAQEBAQEBAQ'', n_key = Some (replicate 16 4), n_name = None,
     n_file_key = None\<rparr>"

definition demo_loads :: loads where
  "demo_loads bs = Inr (JObj [(''n'', JStr ''b'')])"

definition demo_client :: client where
  "demo_client = \<lparr>cl_session = Some (replicate 16 5), cl_cache = Some [demo_folder_node], cl_log = []\<rparr>"

lemma rename_keeps_key_witness:
  "\<exists>a k n'. cl_log (snd (rename_node demo_aes demo_loads (\<lambda>_ _. Inr (JInt 0)) ''h1'' ''b'' demo_client))
       = cl_log demo_client @ [RenameNode ''h1'' a k]
    \<and> cl_cache (snd (rename_node demo_aes demo_loads (\<lambda>_ _. Inr (JInt 0)) ''h1'' ''b'' demo_client)) = None
    \<and> decrypt_node demo_aes demo_loads (Some (replicate 16 5)) (JObj (with_texts ''u'' a k demo_folder)) = Inr n'
    \<and> n_name n' = Some (JStr ''b'') \<and> n_file_key n' = n_file_key demo_folder_node
    \<and> rename_keys n' = rename_keys demo_folder_node"
proof (rule rename_keeps_key [OF demo_aes_ok, where nodes = "[demo_folder_node]"])
  show "decrypt_node demo_aes demo_loads (Some (replicate 16 5)) (JObj demo_folder) = Inr demo_folder_node"
    by code_simp
  show "rename_node demo_aes demo_loads (\<lambda>_ _. Inr (JInt 0)) ''h1'' ''b'' demo_client
      = (Inr (), snd (rename_node demo_aes demo_loads (\<lambda>_ _. Inr (JInt 0)) ''h1'' ''b'' demo_client))"
    by code_simp
qed (simp_all add: demo_client_def demo_folder_node_def demo_loads_def aes_key_size_def)

text \<open>
  An attribute text that is no base64 raises through \<open>decrypt_node\<close>, and so through the listing:
  the decoding stands outside the guarded part.
\<close>

lemma bad_attribute_text_leaks:
  "decrypt_node demo_aes demo_loads (Some (replicate 16 5))
     (JObj [(''a'', JStr ''A''), (''h'', JStr ''h1''), (''t'', JInt 1)]) = raise BinasciiError"
  by code_simp

end
