(* ===== verification/UploadTree.thy ===== *)
theory UploadTree
  imports Uploader Nodes "HOL-Library.Char_ord" "HOL-Library.List_Lexorder"
begin

text \<open>
  \<open>core/upload_tree.py\<close>: which entries of a local directory are uploaded, and the mirror of that tree
  in remote folders. A path is the list of its components below the source directory, which is the
  empty list; paths compare component by component, as \<open>pathlib\<close> compares them. The folders are
  made by \<open>mkdir\<close> of the Nodes theory and the files sent by \<open>upload_file\<close> of the Uploader theory.
\<close>

type_synonym path = "string list"

definition parents :: "path \<Rightarrow> path list" where
  "parents p = map (\<lambda>n. take n p) [0..<length p]"

section \<open>What is uploaded\<close>

fun walk_from :: "(path \<Rightarrow> bool) \<Rightarrow> path list \<Rightarrow> path list \<Rightarrow> path list \<times> nat" where
  "walk_from is_link [] skipped_dirs = ([], 0)"
| "walk_from is_link (p # ps) skipped_dirs =
    (if is_link p then
       (case walk_from is_link ps (p # skipped_dirs) of (kept, skipped) \<Rightarrow> (kept, Suc skipped))
     else if list_ex (\<lambda>q. q \<in> set skipped_dirs) (parents p) then
       (case walk_from is_link ps skipped_dirs of (kept, skipped) \<Rightarrow> (kept, Suc skipped))
     else (case walk_from is_link ps skipped_dirs of (kept, skipped) \<Rightarrow> (p # kept, skipped)))"

definition walk_upload_entries :: "(path \<Rightarrow> bool) \<Rightarrow> path list \<Rightarrow> path list \<times> nat" where
  "walk_upload_entries is_link rglob = walk_from is_link (sort rglob) []"

text \<open>An entry may be published when neither it nor a directory above it is a listed symlink.\<close>

definition publishable :: "(path \<Rightarrow> bool) \<Rightarrow> path list \<Rightarrow> path \<Rightarrow> bool" where
  "publishable is_link rglob p \<longleftrightarrow>
     \<not> is_link p \<and> list_all (\<lambda>q. \<not> (q \<in> set rglob \<and> is_link q)) (parents p)"

lemma parent_less: "q \<in> set (parents p) \<Longrightarrow> q < p"
proof -
  assume "q \<in> set (parents p)"
  then obtain n where n: "n < length p" "q = take n p" by (auto simp: parents_def)
  then have "p = q @ drop n p" "drop n p \<noteq> []" by auto
  then show "q < p" by (metis list_less_def lexord_append_rightI neq_Nil_conv)
qed

lemma walk_from_filter:
  assumes "sorted (done @ ps)" and "set skipped = {q \<in> set done. is_link q}"
  shows "walk_from is_link ps skipped =
    (filter (publishable is_link (done @ ps)) ps, length (filter (\<lambda>p. \<not> publishable is_link (done @ ps) p) ps))"
  using assms
proof (induction ps arbitrary: "done" skipped)
  case (Cons p ps)
  have later: "q \<notin> set (p # ps)" if "q \<in> set (parents p)" for q
    using parent_less [OF that] Cons.prems(1) by (auto simp: sorted_append)
  have pub: "publishable is_link (done @ p # ps) p \<longleftrightarrow> \<not> is_link p \<and> \<not> list_ex (\<lambda>q. q \<in> set skipped) (parents p)"
    using later Cons.prems(2) by (fastforce simp: publishable_def list_all_iff list_ex_iff)
  have s: "sorted ((done @ [p]) @ ps)" using Cons.prems(1) by simp
  show ?case
  proof (cases "is_link p")
    case True
    have "set (p # skipped) = {q \<in> set (done @ [p]). is_link q}" using True Cons.prems(2) by auto
    from Cons.IH [OF s this] show ?thesis using True pub by simp
  next
    case False
    have "set skipped = {q \<in> set (done @ [p]). is_link q}" using False Cons.prems(2) by auto
    from Cons.IH [OF s this] show ?thesis using False pub by simp
  qed
qed simp

lemma walk_skips_entries:
  "walk_upload_entries is_link rglob =
    (sort (filter (publishable is_link rglob) rglob),
     length (filter (\<lambda>p. \<not> publishable is_link rglob p) rglob))"
proof -
  have p: "publishable is_link (sort rglob) = publishable is_link rglob"
    by (rule ext) (simp add: publishable_def)
  have "length (filter P (sort rglob)) = length (filter P rglob)" for P
    by (simp add: filter_sort)
  then show ?thesis
    using walk_from_filter [of "[]" "sort rglob" "[]" is_link]
    by (simp add: walk_upload_entries_def p filter_sort)
qed

text \<open>
  The one pass over the sorted listing keeps exactly the entries with no symlink at or above
  them, in path order, and counts the others: no file behind a link is ever published.
\<close>

theorem walk_skips_links:
  "walk_upload_entries is_link rglob =
    (sort (filter (publishable is_link rglob) rglob),
     length (filter (\<lambda>p. \<not> publishable is_link rglob p) rglob))"
  by (rule walk_skips_entries)

section \<open>The mirrored tree\<close>

text \<open>
  What the directory, the machine and the callbacks answer: the listing and the type tests, the
  random key of each folder, the job and the schedule of each file, and what the two callbacks raise.
\<close>

record tree =
  tr_name :: string
  tr_rglob :: "path list"
  tr_is_link :: "path \<Rightarrow> bool"
  tr_is_dir :: "path \<Rightarrow> bool"
  tr_is_file :: "path \<Rightarrow> bool"
  tr_key :: "path \<Rightarrow> bytes"
  tr_job :: "path \<Rightarrow> upload_job"
  tr_rounds :: "path \<Rightarrow> round list"
  tr_manifest :: "path list \<Rightarrow> exc option"
  tr_file_done :: "path \<Rightarrow> exc option"

record tree_state =
  ts_client :: client
  ts_ul :: ul
  ts_handle_for :: "path \<rightharpoonup> string"
  ts_results :: "upload_result list"
  ts_failures :: "path list"
  ts_failed_dirs :: "path list"

definition parent_remote :: "string \<Rightarrow> tree_state \<Rightarrow> path \<Rightarrow> string" where
  "parent_remote root_handle st p = (case ts_handle_for st (butlast p) of Some h \<Rightarrow> h | None \<Rightarrow> root_handle)"

text \<open>The uploader drops the cached listing once the completion request was answered.\<close>

definition completion_answered :: "upload_job \<Rightarrow> ul \<Rightarrow> ul \<Rightarrow> bool" where
  "completion_answered J u u' \<longleftrightarrow>
    list_ex (\<lambda>(target, tok, attrs, wrapped). (case uj_complete J target tok attrs wrapped of Inl _ \<Rightarrow> False | Inr _ \<Rightarrow> True))
      (drop (length (ul_calls u)) (ul_calls u'))"

definition send_file ::
  "aes \<Rightarrow> loads \<Rightarrow> api \<Rightarrow> tree \<Rightarrow> path \<Rightarrow> string \<Rightarrow> tree_state \<Rightarrow> (upload_result py \<times> tree_state) option" where
  "send_file C L A T p target st =
    (let J = (tr_job T p)\<lparr>uj_target := Some target\<rparr>;
         (root, c) = (if target = [] \<and> uj_is_file J \<and> uj_lease J = LeaseTaken then find_root C L A (ts_client st)
                      else (uj_root J, ts_client st));
         J = J\<lparr>uj_root := root\<rparr>
     in case upload_file J (tr_rounds T p) (ts_ul st) of
          None \<Rightarrow> None
        | Some (r, u) \<Rightarrow>
            Some (r, st\<lparr>ts_client := (if completion_answered J (ts_ul st) u then invalidate_cache c else c), ts_ul := u\<rparr>))"

definition fail_entry :: "path \<Rightarrow> tree_state \<Rightarrow> tree_state" where
  "fail_entry p st = st\<lparr>ts_failures := ts_failures st @ [p]\<rparr>"

definition upload_entry ::
  "aes \<Rightarrow> loads \<Rightarrow> api \<Rightarrow> tree \<Rightarrow> string \<Rightarrow> path \<Rightarrow> tree_state \<Rightarrow> tree_state option" where
  "upload_entry C L A T root_handle p st =
    (if list_ex (\<lambda>q. q \<in> set (ts_failed_dirs st)) (parents p) then Some (fail_entry p st)
     else if tr_is_dir T p then
       (case mkdir C L A (tr_key T p) (last p) (Some (parent_remote root_handle st p)) (ts_client st) of
          (Inl e, c) \<Rightarrow> Some (fail_entry p (st\<lparr>ts_client := c, ts_failed_dirs := p # ts_failed_dirs st\<rparr>))
        | (Inr h, c) \<Rightarrow> Some (st\<lparr>ts_client := c, ts_handle_for := (ts_handle_for st)(p \<mapsto> h)\<rparr>))
     else if tr_is_file T p then
       (case send_file C L A T p (parent_remote root_handle st p) st of
          None \<Rightarrow> None
        | Some (Inl e, st) \<Rightarrow> Some (fail_entry p st)
        | Some (Inr r, st) \<Rightarrow>
           (let st = st\<lparr>ts_results := ts_results st @ [r]\<rparr>
            in Some (if tr_file_done T p = None then st else fail_entry p st)))
     else Some st)"

fun upload_entries ::
  "aes \<Rightarrow> loads \<Rightarrow> api \<Rightarrow> tree \<Rightarrow> string \<Rightarrow> path list \<Rightarrow> tree_state \<Rightarrow> tree_state option" where
  "upload_entries C L A T root_handle [] st = Some st"
| "upload_entries C L A T root_handle (p # ps) st =
    (case upload_entry C L A T root_handle p st of
       None \<Rightarrow> None
     | Some st \<Rightarrow> upload_entries C L A T root_handle ps st)"

text \<open>The folder the tree goes below: the target, or the root of the cloud.\<close>

definition base_parent :: "aes \<Rightarrow> loads \<Rightarrow> api \<Rightarrow> string option \<Rightarrow> client \<Rightarrow> string py \<times> client" where
  "base_parent C L A target_handle c =
    (case target_handle of
       Some (x # t) \<Rightarrow> (Inr (x # t), c)
     | _ \<Rightarrow> (case find_root C L A c of
               (Inl e, c) \<Rightarrow> (Inl e, c)
             | (Inr (Some (x # t)), c) \<Rightarrow> (Inr (x # t), c)
             | (Inr _, c) \<Rightarrow> (raise TransferError, c)))"

definition upload_directory ::
  "aes \<Rightarrow> loads \<Rightarrow> api \<Rightarrow> tree \<Rightarrow> string option \<Rightarrow> bool \<Rightarrow> client \<Rightarrow> ul
     \<Rightarrow> (upload_result list py \<times> tree_state) option" where
  "upload_directory C L A T target_handle keep_going c u =
    (let st = \<lparr>ts_client = c, ts_ul = u, ts_handle_for = Map.empty, ts_results = [], ts_failures = [], ts_failed_dirs = []\<rparr>
     in if \<not> tr_is_dir T [] then Some (raise FileNotFoundError, st)
        else
         (case walk_upload_entries (tr_is_link T) (tr_rglob T) of (entries, skipped_links) \<Rightarrow>
            case tr_manifest T (filter (tr_is_file T) entries) of
              Some e \<Rightarrow> Some (Inl e, st)
            | None \<Rightarrow>
               (case base_parent C L A target_handle c of
                  (Inl e, c) \<Rightarrow> Some (Inl e, st\<lparr>ts_client := c\<rparr>)
                | (Inr base, c) \<Rightarrow>
                   (case mkdir C L A (tr_key T []) (tr_name T) (Some base) c of
                      (Inl e, c) \<Rightarrow> Some (Inl e, st\<lparr>ts_client := c\<rparr>)
                    | (Inr root_handle, c) \<Rightarrow>
                       (case upload_entries C L A T root_handle entries
                               (st\<lparr>ts_client := c, ts_handle_for := [[] \<mapsto> root_handle]\<rparr>) of
                          None \<Rightarrow> None
                        | Some st \<Rightarrow>
                            Some (if ts_failures st \<noteq> [] \<and> \<not> keep_going then raise TransferError
                                  else Inr (ts_results st), st))))))"

section \<open>A tree that was uploaded\<close>

text \<open>
  The file was sent by a successful \<open>upload_file\<close> of its own job, into the folder recorded for its
  parent, and no folder above it had failed.
\<close>

definition sent_to :: "tree \<Rightarrow> string \<Rightarrow> tree_state \<Rightarrow> path \<Rightarrow> upload_result \<Rightarrow> bool" where
  "sent_to T root_handle st p r \<longleftrightarrow>
    \<not> list_ex (\<lambda>q. q \<in> set (ts_failed_dirs st)) (parents p)
    \<and> (\<exists>J u u'. upload_file J (tr_rounds T p) u = Some (Inr r, u') \<and> uj_source J = uj_source (tr_job T p)
        \<and> uj_target J = Some (parent_remote root_handle st p))"

definition plain_files :: "tree \<Rightarrow> path set" where
  "plain_files T = {p. tr_is_file T p \<and> \<not> tr_is_dir T p}"

definition tree_inv :: "tree \<Rightarrow> string \<Rightarrow> path list \<Rightarrow> path list \<Rightarrow> tree_state \<Rightarrow> bool" where
  "tree_inv T root_handle done fs st \<longleftrightarrow>
    list_all2 (sent_to T root_handle st) fs (ts_results st) \<and> sorted_wrt (<) fs
    \<and> set fs \<subseteq> set done \<inter> plain_files T \<and> set done \<inter> plain_files T \<subseteq> set fs \<union> set (ts_failures st)
    \<and> set done \<inter> Collect (tr_is_dir T) \<subseteq> dom (ts_handle_for st) \<union> set (ts_failures st)"

lemma butlast_parent: "p \<noteq> [] \<Longrightarrow> butlast p \<in> set (parents p)"
  by (auto simp: parents_def butlast_conv_take)

lemma sent_to_later:
  assumes "sent_to T h st p r" and "p \<noteq> []" and "p < q"
    and "ts_handle_for st' = ts_handle_for st \<or> (\<exists>x. ts_handle_for st' = (ts_handle_for st)(q \<mapsto> x))"
    and "set (ts_failed_dirs st') \<subseteq> insert q (set (ts_failed_dirs st))"
  shows "sent_to T h st' p r"
proof -
  have n: "q \<notin> set (parents p)" using parent_less [of q p] assms(3) by (meson order_less_asym)
  then have "butlast p \<noteq> q" using butlast_parent [OF assms(2)] by metis
  then have "parent_remote h st' p = parent_remote h st p" using assms(4) by (auto simp: parent_remote_def)
  moreover have "\<not> list_ex (\<lambda>q. q \<in> set (ts_failed_dirs st')) (parents p)"
    using assms(1,5) n by (auto simp: sent_to_def list_ex_iff)
  ultimately show ?thesis using assms(1) by (simp add: sent_to_def)
qed

lemma sent_to_kept:
  assumes "list_all2 (sent_to T h st) fs rs" and "set fs \<subseteq> set done" and "[] \<notin> set done"
    and "list_all (\<lambda>p. p < q) done"
    and "ts_handle_for st' = ts_handle_for st \<or> (\<exists>x. ts_handle_for st' = (ts_handle_for st)(q \<mapsto> x))"
    and "set (ts_failed_dirs st') \<subseteq> insert q (set (ts_failed_dirs st))"
  shows "list_all2 (sent_to T h st') fs rs"
  using assms(1)
proof (rule list.rel_mono_strong)
  fix p r
  assume p: "p \<in> set fs" and s: "sent_to T h st p r"
  have "p \<noteq> []" "p < q" using p assms(2-4) by (auto simp: list_all_iff)
  then show "sent_to T h st' p r" using sent_to_later [OF s _ _ assms(5,6)] by blast
qed

lemma send_file_sent:
  assumes "send_file C L A T p target st = Some (r, st')"
  shows "ts_handle_for st' = ts_handle_for st \<and> ts_failed_dirs st' = ts_failed_dirs st
    \<and> ts_failures st' = ts_failures st \<and> ts_results st' = ts_results st
    \<and> (\<exists>J u u'. upload_file J (tr_rounds T p) u = Some (r, u') \<and> uj_source J = uj_source (tr_job T p)
        \<and> uj_target J = Some target)"
proof -
  let ?J = "(tr_job T p)\<lparr>uj_target := Some target\<rparr>"
  obtain root c where rc: "(if target = [] \<and> uj_is_file ?J \<and> uj_lease ?J = LeaseTaken then find_root C L A (ts_client st)
      else (uj_root ?J, ts_client st)) = (root, c)" by (metis surj_pair)
  obtain u where u: "upload_file (?J\<lparr>uj_root := root\<rparr>) (tr_rounds T p) (ts_ul st) = Some (r, u)"
    and st': "st' = st\<lparr>ts_client := (if completion_answered (?J\<lparr>uj_root := root\<rparr>) (ts_ul st) u
        then invalidate_cache c else c), ts_ul := u\<rparr>"
    using assms unfolding send_file_def Let_def rc by (auto split: option.splits)
  have "uj_source (?J\<lparr>uj_root := root\<rparr>) = uj_source (tr_job T p)" "uj_target (?J\<lparr>uj_root := root\<rparr>) = Some target"
    by simp_all
  with u have "\<exists>J u u'. upload_file J (tr_rounds T p) u = Some (r, u') \<and> uj_source J = uj_source (tr_job T p)
      \<and> uj_target J = Some target" by blast
  then show ?thesis using st' by simp
qed

lemma upload_entry_inv:
  assumes "upload_entry C L A T h p st = Some st'" and "tree_inv T h done fs st"
    and "[] \<notin> set done" and "list_all (\<lambda>q. q < p) done"
  shows "\<exists>fs. tree_inv T h (done @ [p]) fs st'"
proof -
  note i = assms(2) [unfolded tree_inv_def]
  note kept = sent_to_kept [OF i [THEN conjunct1] _ assms(3,4)]
  have sub: "set fs \<subseteq> set done" using i by blast
  consider (below) "list_ex (\<lambda>q. q \<in> set (ts_failed_dirs st)) (parents p)"
    | (folder) "\<not> list_ex (\<lambda>q. q \<in> set (ts_failed_dirs st)) (parents p)" "tr_is_dir T p"
    | (sent) "\<not> list_ex (\<lambda>q. q \<in> set (ts_failed_dirs st)) (parents p)" "p \<in> plain_files T"
    | (neither) "\<not> list_ex (\<lambda>q. q \<in> set (ts_failed_dirs st)) (parents p)" "\<not> tr_is_dir T p" "\<not> tr_is_file T p"
    by (auto simp: plain_files_def)
  then show ?thesis
  proof cases
    case below
    then have st': "st' = fail_entry p st" using assms(1) by (simp add: upload_entry_def)
    have "list_all2 (sent_to T h st') fs (ts_results st)" by (rule kept [OF sub]) (auto simp: st' fail_entry_def)
    then have "tree_inv T h (done @ [p]) fs st'" using i by (auto simp: tree_inv_def st' fail_entry_def)
    then show ?thesis by blast
  next
    case folder
    then have np: "p \<notin> plain_files T" by (simp add: plain_files_def)
    obtain r c where m: "mkdir C L A (tr_key T p) (last p) (Some (parent_remote h st p)) (ts_client st) = (r, c)"
      by (metis surj_pair)
    show ?thesis
    proof (cases r)
      case (Inl e)
      then have st': "st' = fail_entry p (st\<lparr>ts_client := c, ts_failed_dirs := p # ts_failed_dirs st\<rparr>)"
        using assms(1) folder m by (simp add: upload_entry_def)
      have "list_all2 (sent_to T h st') fs (ts_results st)" by (rule kept [OF sub]) (auto simp: st' fail_entry_def)
      then have "tree_inv T h (done @ [p]) fs st'" using i np by (auto simp: tree_inv_def st' fail_entry_def)
      then show ?thesis by blast
    next
      case (Inr x)
      then have st': "st' = st\<lparr>ts_client := c, ts_handle_for := (ts_handle_for st)(p \<mapsto> x)\<rparr>"
        using assms(1) folder m by (simp add: upload_entry_def)
      have "list_all2 (sent_to T h st') fs (ts_results st)" by (rule kept [OF sub]) (auto simp: st')
      then have "tree_inv T h (done @ [p]) fs st'" using i np by (auto simp: tree_inv_def st')
      then show ?thesis by blast
    qed
  next
    case sent
    then have f: "tr_is_file T p" "\<not> tr_is_dir T p" by (simp_all add: plain_files_def)
    obtain r s where s: "send_file C L A T p (parent_remote h st p) st = Some (r, s)"
      using assms(1) sent(1) f by (auto simp: upload_entry_def split: option.splits)
    note t = send_file_sent [OF s]
    show ?thesis
    proof (cases r)
      case (Inl e)
      then have st': "st' = fail_entry p s" using assms(1) sent(1) f s by (simp add: upload_entry_def)
      have "list_all2 (sent_to T h st') fs (ts_results st)" by (rule kept [OF sub]) (simp_all add: st' fail_entry_def t subset_insertI)
      then have "tree_inv T h (done @ [p]) fs st'" using i t f by (auto simp: tree_inv_def st' fail_entry_def)
      then show ?thesis by blast
    next
      case (Inr x)
      let ?s = "s\<lparr>ts_results := ts_results s @ [x]\<rparr>"
      have st': "st' = ?s \<or> st' = fail_entry p ?s" using assms(1) sent(1) f s Inr by (auto simp: upload_entry_def Let_def split: if_splits)
      then have e: "ts_handle_for st' = ts_handle_for st" "ts_failed_dirs st' = ts_failed_dirs st"
        "ts_results st' = ts_results st @ [x]" "set (ts_failures st) \<subseteq> set (ts_failures st')"
        using t by (auto simp: fail_entry_def)
      have "list_all2 (sent_to T h st') fs (ts_results st)" by (rule kept [OF sub]) (simp_all add: e subset_insertI)
      moreover have "sent_to T h st' p x"
        using t sent(1) Inr e by (auto simp: sent_to_def parent_remote_def)
      ultimately have "list_all2 (sent_to T h st') (fs @ [p]) (ts_results st')" by (simp add: e(3) list_all2_appendI)
      moreover have "sorted_wrt (<) (fs @ [p])" using i sub assms(4) by (auto simp: sorted_wrt_append list_all_iff)
      ultimately have "tree_inv T h (done @ [p]) (fs @ [p]) st'"
        using i sent(2) f(2) e(1,4) unfolding tree_inv_def by auto
      then show ?thesis by blast
    qed
  next
    case neither
    then have st': "st' = st" "p \<notin> plain_files T" using assms(1) by (simp_all add: upload_entry_def plain_files_def)
    then have "tree_inv T h (done @ [p]) fs st'" using i neither(2) by (auto simp: tree_inv_def)
    then show ?thesis by blast
  qed
qed

lemma upload_entries_inv:
  assumes "upload_entries C L A T h ps st = Some st'" and "tree_inv T h done fs st"
    and "[] \<notin> set (done @ ps)" and "sorted (done @ ps)" and "distinct (done @ ps)"
  shows "\<exists>fs. tree_inv T h (done @ ps) fs st'"
  using assms
proof (induction ps arbitrary: "done" fs st)
  case (Cons p ps)
  obtain s where s: "upload_entry C L A T h p st = Some s" "upload_entries C L A T h ps s = Some st'"
    using Cons.prems(1) by (auto split: option.splits)
  have "list_all (\<lambda>q. q < p) done"
    using Cons.prems(4,5) by (auto simp: list_all_iff sorted_append intro!: le_neq_trans)
  then obtain fs' where "tree_inv T h (done @ [p]) fs' s"
    using upload_entry_inv [OF s(1) Cons.prems(2)] Cons.prems(3) by auto
  from Cons.IH [OF s(2) this] show ?case using Cons.prems(3-5) by simp
qed auto


lemma set_walk: "set (fst (walk_upload_entries is_link rglob)) = {p \<in> set rglob. publishable is_link rglob p}"
  by (simp add: walk_skips_entries)


text \<open>One file beside one symlink, with the demonstration upload of the Uploader theory.\<close>

definition demo_tree :: tree where
  "demo_tree = \<lparr>tr_name = ''t'', tr_rglob = [[''l''], [''a'']], tr_is_link = \<lambda>p. p = [''l''], tr_is_dir = \<lambda>p. p = [],
     tr_is_file = \<lambda>p. p = [''a''], tr_key = \<lambda>_. replicate 16 1, tr_job = \<lambda>_. demo_upload, tr_rounds = \<lambda>_. demo_rounds,
     tr_manifest = \<lambda>_. None, tr_file_done = \<lambda>_. None\<rparr>"

definition demo_folder_api :: api where
  "demo_folder_api log r = Inr (JObj [(''f'', JArr [JObj [(''h'', JStr ''ROOT'')]])])"

definition demo_tree_run :: "(upload_result list py \<times> tree_state) option" where
  "demo_tree_run = upload_directory demo_aes demo_loads demo_folder_api demo_tree (Some ''ROOT'') False demo_client demo_ul"

lemma demo_tree_mkdir:
  "fst (mkdir demo_aes demo_loads demo_folder_api (replicate 16 1) ''t'' (Some ''ROOT'') demo_client) = Inr ''ROOT''"
  by code_simp

lemma demo_tree_walk: "walk_upload_entries (\<lambda>p. p = [''l'']) [[''l''], [''a'']] = ([[''a'']], 1)"
  by (simp add: walk_skips_entries publishable_def parents_def)

lemma demo_tree_runs: "\<exists>rs st. demo_tree_run = Some (Inr rs, st)"
proof -
  obtain r u where u: "upload_file demo_upload demo_rounds demo_ul = Some (Inr r, u)"
    using demo_uploaded_ok unfolding demo_uploaded_def by blast
  obtain c where m: "mkdir demo_aes demo_loads demo_folder_api (replicate 16 1) ''t'' (Some ''ROOT'') demo_client
      = (Inr ''ROOT'', c)" using demo_tree_mkdir by (metis prod.collapse)
  have same: "demo_upload\<lparr>uj_target := Some ''ROOT''\<rparr> = demo_upload"
    by (simp add: demo_upload_def)
  show ?thesis
    by (simp add: demo_tree_run_def upload_directory_def demo_tree_def demo_tree_walk base_parent_def m upload_entry_def
        parents_def send_file_def parent_remote_def same u Let_def)
qed


text \<open>
  An answer without a node gives the empty handle, which no caller rejects: a file sent into such a
  folder goes to the root of the cloud instead.
\<close>

lemma empty_folder_handle:
  "first_node_handle (JObj []) = Inr []
    \<and> upload_target (J\<lparr>uj_target := Some [], uj_root := Inr (Some (x # root))\<rparr>) = Inr (x # root)"
  by (simp add: first_node_handle_def expect_mapping_def expect_field_def jget_def upload_target_def)

end
