(* ===== verification/Streaming.thy ===== *)
theory Streaming
  imports DownloadChunk Helpers
begin

text \<open>
  The request handler of \<open>streaming/server.py\<close>: which hosts need a token, the token check, the
  \<open>Range\<close> header, the upstream request with one refresh of the URL, and the pump that decrypts the
  upstream body to the client. The clock, the draw of the proxy, what the CDN answers to each of the
  two attempts and the moment the client goes away are answers of an environment. A view is what the
  client sees of one response.
\<close>

section \<open>Hosts and tokens\<close>

text \<open>\<open>ipaddress.ip_address\<close> answers the version and whether the address is a loopback.\<close>

type_synonym ip_lib = "string \<Rightarrow> (nat \<times> bool) option"

definition is_bracket :: "char \<Rightarrow> bool" where
  "is_bracket c \<longleftrightarrow> c = CHR ''['' \<or> c = CHR '']''"

definition strip_brackets :: "string \<Rightarrow> string" where
  "strip_brackets s = rstrip_by is_bracket (lstrip_by is_bracket s)"

definition address_family_for_host :: "ip_lib \<Rightarrow> string \<Rightarrow> nat" where
  "address_family_for_host P host =
    (case P (strip_brackets (strip host)) of Some (v, _) \<Rightarrow> if v = 6 then 6 else 4 | None \<Rightarrow> 4)"

definition is_loopback_host :: "ip_lib \<Rightarrow> string \<Rightarrow> bool" where
  "is_loopback_host P host \<longleftrightarrow>
    (if host = [] then False
     else let candidate = map lower_char (strip host)
          in if candidate = ''localhost'' \<or> candidate = ''localhost.localdomain'' then True
             else case P (strip_brackets candidate) of Some (_, b) \<Rightarrow> b | None \<Rightarrow> False)"

record stream_source =
  src_url :: string
  src_resolver :: bool
  src_size :: int
  src_key :: bytes
  src_nonce :: bytes
  src_filename :: string
  src_mimetype :: string

record stream_server =
  sv_token :: "string option"
  sv_query_token :: bool
  sv_source :: "stream_source option"
  sv_selector :: selector

definition make_server ::
  "ip_lib \<Rightarrow> string \<Rightarrow> string option \<Rightarrow> bool \<Rightarrow> selector \<Rightarrow> stream_server py" where
  "make_server P host auth_token allow_query_token sel =
    (if \<not> is_loopback_host P host \<and> strip (case auth_token of None \<Rightarrow> [] | Some t \<Rightarrow> t) = [] then raise ValueError
     else Inr \<lparr>sv_token = auth_token, sv_query_token = allow_query_token, sv_source = None, sv_selector = sel\<rparr>)"

text \<open>
  A request: its \<open>Range\<close> and \<open>Authorization\<close> headers, empty when absent, and the fields of its
  query string as \<open>parse_qs\<close> reads them.
\<close>

record stream_request =
  rq_range :: string
  rq_auth :: string
  rq_query :: "(string \<times> string list) list py"

text \<open>\<open>hmac.compare_digest\<close> refuses texts that are not ASCII.\<close>

definition compare_digest :: "string \<Rightarrow> string \<Rightarrow> bool py" where
  "compare_digest a b =
    (if list_all (\<lambda>c. (of_char c :: nat) < 128) (a @ b) then Inr (a = b) else raise TypeError)"

definition query_token :: "(string \<times> string list) list \<Rightarrow> string option" where
  "query_token q =
    (let first = (\<lambda>k. case map_of q k of Some (v # _) \<Rightarrow> Some v | _ \<Rightarrow> None)
     in case first ''token'' of Some v \<Rightarrow> Some v | None \<Rightarrow> first ''access_token'')"

definition bearer_token :: "string \<Rightarrow> string option" where
  "bearer_token h = (if starts_with ''Bearer '' h then Some (strip (drop 7 h)) else None)"

definition supplied_token :: "stream_server \<Rightarrow> stream_request \<Rightarrow> string option py" where
  "supplied_token S R =
    (case bearer_token (rq_auth R) of
       Some t \<Rightarrow> Inr (Some t)
     | None \<Rightarrow> if sv_query_token S then bindR (rq_query R) (\<lambda>q. Inr (query_token q)) else Inr None)"

definition check_auth :: "stream_server \<Rightarrow> stream_request \<Rightarrow> bool py" where
  "check_auth S R =
    (case sv_token S of
       None \<Rightarrow> Inr True
     | Some token \<Rightarrow>
         if token = [] then Inr True
         else bindR (supplied_token S R) (\<lambda>t. case t of None \<Rightarrow> Inr False | Some s \<Rightarrow> compare_digest s token))"

section \<open>Headers\<close>

definition upper_hex :: "nat \<Rightarrow> char" where
  "upper_hex n = (if n < 10 then char_of (48 + n) else char_of (55 + n))"

definition is_unreserved :: "nat \<Rightarrow> bool" where
  "is_unreserved n \<longleftrightarrow> 48 \<le> n \<and> n \<le> 57 \<or> 65 \<le> n \<and> n \<le> 90 \<or> 97 \<le> n \<and> n \<le> 122 \<or> n \<in> {45, 46, 95, 126}"

text \<open>\<open>urllib.parse.quote\<close> with nothing declared safe.\<close>

definition quote_all :: "string \<Rightarrow> string" where
  "quote_all s = concat (map (\<lambda>b. let n = unat b in
      if is_unreserved n then [char_of n] else [CHR ''%'', upper_hex (n div 16), upper_hex (n mod 16)]) (utf8 s))"

definition content_disposition :: "string \<Rightarrow> string" where
  "content_disposition filename =
    (let cleaned = map (\<lambda>c. if c \<in> {CHR 0x0D, CHR 0x0A, CHR 0x5C} then CHR ''_'' else c) filename;
         ascii_name = filter (\<lambda>c. (of_char c :: nat) < 128) cleaned;
         ascii_name = (if ascii_name = [] then ''download'' else ascii_name);
         ascii_name = concat (map (\<lambda>c. if c = CHR 0x22 then [CHR 0x5C, CHR 0x22] else [c]) ascii_name)
     in ''inline; filename='' @ [CHR 0x22] @ ascii_name @ [CHR 0x22] @ ''; filename*=UTF-8'' @ [CHR 0x27, CHR 0x27]
        @ quote_all cleaned)"

text \<open>What the client sees: the status line, the headers, the bytes of the file, a closed connection.\<close>

record view =
  vw_status :: int
  vw_headers :: "(string \<times> string) list"
  vw_body :: bytes
  vw_close :: bool

text \<open>\<open>send_error\<close>: the page of the standard library, which also closes the connection.\<close>

definition send_error :: "int \<Rightarrow> view" where
  "send_error code = \<lparr>vw_status = code, vw_headers = [(''Connection'', ''close'')], vw_body = [], vw_close = True\<rparr>"

definition reply_headers :: "int \<Rightarrow> (string \<times> string) list \<Rightarrow> view" where
  "reply_headers code hs = \<lparr>vw_status = code, vw_headers = hs, vw_body = [], vw_close = False\<rparr>"

definition unauthorized :: view where
  "unauthorized = reply_headers 401
    [(''WWW-Authenticate'', ''Bearer realm='' @ [CHR 0x22] @ ''megabasterd-cli'' @ [CHR 0x22]), (''Content-Length'', ''0'')]"

definition file_headers :: "stream_source \<Rightarrow> int \<Rightarrow> (string \<times> string) list" where
  "file_headers src n =
    [(''Content-Type'', src_mimetype src), (''Content-Length'', show_int n), (''Accept-Ranges'', ''bytes''),
     (''Content-Disposition'', content_disposition (src_filename src))]"

definition do_HEAD :: "stream_server \<Rightarrow> stream_request \<Rightarrow> view py" where
  "do_HEAD S R =
    bindR (check_auth S R) (\<lambda>ok.
      if \<not> ok then Inr unauthorized
      else case sv_source S of
          None \<Rightarrow> Inr (send_error 503)
        | Some src \<Rightarrow> Inr (reply_headers 200 (file_headers src (src_size src))))"

section \<open>The range\<close>

definition parse_range :: "string \<Rightarrow> int \<Rightarrow> (int \<times> int \<times> bool) py" where
  "parse_range range_header fsize =
    (if range_header = [] then Inr (0, fsize - 1, False)
     else if \<not> starts_with ''bytes='' range_header then raise ValueError
     else let spec = drop 6 range_header
     in if CHR '','' \<in> set spec then raise ValueError
     else case partition_at (CHR ''-'') spec of (left, sep, right) \<Rightarrow>
       if \<not> sep then raise ValueError
       else bindR (if left \<noteq> [] then
                     bindR (int_of_text left) (\<lambda>start.
                     bindR (if right \<noteq> [] then int_of_text right else Inr (fsize - 1)) (\<lambda>stop. Inr (start, stop)))
                   else bindR (int_of_text right) (\<lambda>suffix_len.
                     if suffix_len \<le> 0 then raise IndexError else Inr (max 0 (fsize - suffix_len), fsize - 1)))
         (\<lambda>(start, stop). if start < 0 \<or> stop < start \<or> fsize \<le> start then raise IndexError
                          else Inr (start, min stop (fsize - 1), True)))"

section \<open>Upstream\<close>

record stream_env =
  se_now :: "nat \<Rightarrow> int"
  se_draw :: "nat \<Rightarrow> nat"
  se_reply :: "nat \<Rightarrow> string \<Rightarrow> http_reply"
  se_resolve :: "string py"
  se_gone :: "nat \<Rightarrow> bool"

definition refresh_cdn_url :: "string py \<Rightarrow> stream_source \<Rightarrow> (unit py \<times> stream_source)" where
  "refresh_cdn_url fresh src =
    (if \<not> src_resolver src then (raise RuntimeError, src)
     else case fresh of Inl e \<Rightarrow> (Inl e, src) | Inr url \<Rightarrow> (Inr (), src\<lparr>src_url := url\<rparr>))"

text \<open>The body of an accepted answer, or the 502 the client gets instead.\<close>

datatype upstream = Refused | Opened "bytes list" "exc option" | Crashed exc

fun open_attempts ::
  "stream_env \<Rightarrow> int \<Rightarrow> int \<Rightarrow> nat list \<Rightarrow> stream_source \<Rightarrow> selector \<Rightarrow> upstream \<times> stream_source \<times> selector" where
  "open_attempts E start stop [] src sel = (Refused, src, sel)"
| "open_attempts E start stop (k # ks) src sel =
    (case selector_select (se_now E k) (se_draw E k) sel of
       (Inl e, sel) \<Rightarrow> (if isinstance e ProxyRequiredError then Refused else Crashed e, src, sel)
     | (Inr (_, picked), sel) \<Rightarrow>
        (let blame = selector_report_failure (se_now E k) picked sel
         in case se_reply E k (src_url src) of
              NoReply e \<Rightarrow> if isinstance e RequestException then (Refused, src, blame) else (Crashed e, src, sel)
            | Reply status headers blocks tail \<Rightarrow>
                if status \<in> set URL_EXPIRY_STATUS \<and> k = 0 then
                  (case refresh_cdn_url (se_resolve E) src of
                     (Inl e, src) \<Rightarrow> (Refused, src, sel)
                   | (Inr _, src) \<Rightarrow> open_attempts E start stop ks src sel)
                else if status \<noteq> 200 \<and> status \<noteq> 206 then (Refused, src, blame)
                else case validate_range_response status headers start stop (src_size src) of
                    Inl e \<Rightarrow> if isinstance e RangeNotHonoredError then (Refused, src, blame) else (Crashed e, src, sel)
                  | Inr _ \<Rightarrow> (Opened blocks tail, src, selector_report_success picked sel)))"

definition open_upstream ::
  "stream_env \<Rightarrow> int \<Rightarrow> int \<Rightarrow> stream_source \<Rightarrow> selector \<Rightarrow> upstream \<times> stream_source \<times> selector" where
  "open_upstream E start stop src sel = open_attempts E start stop [0, 1] src sel"

section \<open>The pump\<close>

text \<open>A Python slice up to an index that may be negative.\<close>

definition take_upto :: "int \<Rightarrow> 'a list \<Rightarrow> 'a list" where
  "take_upto n xs = (if n < 0 then take (length xs - nat (- n)) xs else take (nat n) xs)"

datatype pump_end = Drained | Gone

fun pump_blocks ::
  "aes \<Rightarrow> (nat \<Rightarrow> bool) \<Rightarrow> int \<Rightarrow> bytes list \<Rightarrow> ctr_cipher \<Rightarrow> nat \<Rightarrow> bytes \<Rightarrow> pump_end option \<times> bytes" where
  "pump_blocks C gone len [] cipher block_skip out = (None, out)"
| "pump_blocks C gone len (b # bs) cipher block_skip out =
    (if b = [] then pump_blocks C gone len bs cipher block_skip out
     else case ctr_update C cipher b of (decrypted, cipher) \<Rightarrow>
       let n = min block_skip (length decrypted);
           decrypted = drop n decrypted;
           block_skip = block_skip - n;
           decrypted = (if len < int (length out) + int (length decrypted)
                        then take_upto (len - int (length out)) decrypted else decrypted)
       in if decrypted = [] then pump_blocks C gone len bs cipher block_skip out
          else if gone (length out) then (Some Gone, out)
          else if len \<le> int (length (out @ decrypted)) then (Some Drained, out @ decrypted)
          else pump_blocks C gone len bs cipher block_skip (out @ decrypted))"

datatype pump_result = Complete | Client_gone | Short | Aborted exc

definition pump ::
  "aes \<Rightarrow> (nat \<Rightarrow> bool) \<Rightarrow> int \<Rightarrow> bytes list \<Rightarrow> exc option \<Rightarrow> ctr_cipher \<Rightarrow> nat \<Rightarrow> pump_result \<times> bytes" where
  "pump C gone len blocks tail cipher block_skip =
    (case pump_blocks C gone len blocks cipher block_skip [] of
       (Some Gone, out) \<Rightarrow> (Client_gone, out)
     | (Some Drained, out) \<Rightarrow> (if int (length out) \<noteq> len then Short else Complete, out)
     | (None, out) \<Rightarrow>
         (case tail of
            Some e \<Rightarrow> (Aborted e, out)
          | None \<Rightarrow> (if int (length out) \<noteq> len then Short else Complete, out)))"

section \<open>GET\<close>

definition unsatisfiable :: "int \<Rightarrow> (string \<times> string) list \<Rightarrow> view" where
  "unsatisfiable fsize extra =
    reply_headers 416 ([(''Content-Range'', ''bytes */'' @ show_int fsize), (''Accept-Ranges'', ''bytes'')] @ extra)"

definition content_range :: "int \<Rightarrow> int \<Rightarrow> int \<Rightarrow> string" where
  "content_range start stop fsize = ''bytes '' @ show_int start @ ''-'' @ show_int stop @ ''/'' @ show_int fsize"

definition range_headers :: "stream_source \<Rightarrow> int \<Rightarrow> int \<Rightarrow> bool \<Rightarrow> (string \<times> string) list" where
  "range_headers src start stop is_partial =
    (if is_partial then [(''Content-Range'', content_range start stop (src_size src))] else [])
    @ file_headers src (stop - start + 1)"

text \<open>
  The answer to a request whose token was accepted. A disconnected client is no error; a body that
  ended early, or in an exception, ends the connection. \<open>Inl\<close> is a handler that raised before it
  wrote a status line.
\<close>

definition serve_range ::
  "aes \<Rightarrow> stream_env \<Rightarrow> stream_source \<Rightarrow> int \<Rightarrow> int \<Rightarrow> bool \<Rightarrow> stream_server \<Rightarrow> view py \<times> stream_server" where
  "serve_range C E src start stop is_partial S =
    (let block_start = start div 16 * 16;
         block_skip = start - block_start
     in case open_upstream E block_start stop src (sv_selector S) of (up, src, sel) \<Rightarrow>
       let S = S\<lparr>sv_source := Some src, sv_selector := sel\<rparr>
       in case up of
            Refused \<Rightarrow> (Inr (send_error 502), S)
          | Crashed e \<Rightarrow> (Inl e, S)
          | Opened blocks tail \<Rightarrow>
              (case make_ctr_cipher (src_key src) (src_nonce src) (nat (block_start div 16)) of
                 Inl e \<Rightarrow> (Inl e, S)
               | Inr cipher \<Rightarrow>
                  (case pump C (se_gone E) (stop - start + 1) blocks tail cipher (nat block_skip) of (r, out) \<Rightarrow>
                     (Inr \<lparr>vw_status = (if is_partial then 206 else 200),
                           vw_headers = range_headers src start stop is_partial,
                           vw_body = out,
                           vw_close = (case r of Complete \<Rightarrow> False | _ \<Rightarrow> True)\<rparr>, S))))"

definition serve_source :: "aes \<Rightarrow> stream_env \<Rightarrow> stream_request \<Rightarrow> stream_source \<Rightarrow> stream_server \<Rightarrow> view py \<times> stream_server" where
  "serve_source C E R src S =
    (if src_size src = 0 then
       (Inr (if rq_range R \<noteq> [] then unsatisfiable 0 [(''Content-Length'', ''0'')]
             else reply_headers 200 (file_headers src 0)), S)
     else case parse_range (rq_range R) (src_size src) of
         Inl e \<Rightarrow> (if isinstance e ValueError then Inr (send_error 400)
                   else if isinstance e IndexError then Inr (unsatisfiable (src_size src) [])
                   else Inl e, S)
       | Inr (start, stop, is_partial) \<Rightarrow> serve_range C E src start stop is_partial S)"

definition do_GET :: "aes \<Rightarrow> stream_env \<Rightarrow> stream_request \<Rightarrow> stream_server \<Rightarrow> view py \<times> stream_server" where
  "do_GET C E R S =
    (case check_auth S R of
       Inl e \<Rightarrow> (Inl e, S)
     | Inr False \<Rightarrow> (Inr unauthorized, S)
     | Inr True \<Rightarrow>
        (case sv_source S of
           None \<Rightarrow> (Inr (send_error 503), S)
         | Some src \<Rightarrow> serve_source C E R src S))"

section \<open>The bytes that reach the client\<close>

lemma take_upto_int [simp]: "take_upto (int n) xs = take n xs"
  by (simp add: take_upto_def)

lemma take_cut: "take n (out @ d @ ys) = take n (out @ take (n - length out) d @ ys)"
proof (cases "length d \<le> n - length out")
  case False
  then have "n - length out - length d = 0" "n - length out - min (length d) (n - length out) = 0" by simp_all
  then show ?thesis by simp
qed simp

lemma pump_step:
  assumes "b \<noteq> []" and "ctr_update C c b = (dec, c')" and "length out \<le> n"
    and "e = take (n - length out) (drop skip dec)"
  shows "pump_blocks C gone (int n) (b # bs) c skip out =
    (if e = [] then pump_blocks C gone (int n) bs c' (skip - length dec) out
     else if gone (length out) then (Some Gone, out)
     else if n \<le> length (out @ e) then (Some Drained, out @ e)
     else pump_blocks C gone (int n) bs c' (skip - length dec) (out @ e))"
proof -
  let ?d = "drop (min skip (length dec)) dec"
  have d: "?d = drop skip dec" by (simp add: min_def)
  have n: "int n - int (length out) = int (n - length out)" using assms(3) by simp
  have "(if int n < int (length out) + int (length ?d) then take_upto (int n - int (length out)) ?d else ?d) = e"
    unfolding assms(4) d n take_upto_int using assms(3) by (auto simp del: length_drop)
  moreover have "skip - min skip (length dec) = skip - length dec" by simp
  ultimately show ?thesis
    unfolding pump_blocks.simps(2) assms(2) Let_def prod.case using assms(1) by (simp only: if_False) simp
qed

lemma pump_blocks_exact:
  assumes "pump_blocks C gone (int n) bs c skip out = (r, out')" and "length out \<le> n"
  shows "(\<exists>k. out' = take k (take n (out @ drop skip (ctr_feed C c bs))))
    \<and> (r \<noteq> Some Gone \<longrightarrow> out' = take n (out @ drop skip (ctr_feed C c bs)))"
  using assms
proof (induction bs arbitrary: c skip out)
  case Nil
  then show ?case by (auto intro!: exI [of _ n])
next
  case (Cons b bs)
  show ?case
  proof (cases "b = []")
    case True
    then show ?thesis using Cons by (simp add: ctr_update_def ctr_crypt_def)
  next
    case False
    obtain dec c' where u: "ctr_update C c b = (dec, c')" by (metis surj_pair)
    define e where "e = take (n - length out) (drop skip dec)"
    have full: "take n (out @ drop skip (ctr_feed C c (b # bs)))
        = take n ((out @ e) @ drop (skip - length dec) (ctr_feed C c' bs))"
      using take_cut [of n out "drop skip dec" "drop (skip - length dec) (ctr_feed C c' bs)"] by (simp add: u e_def)
    have len: "length (out @ e) \<le> n" unfolding e_def using Cons.prems(2) by simp
    note step = Cons.prems(1) [unfolded pump_step [OF False u Cons.prems(2) e_def]]
    consider (none) "e = []" | (gone) "e \<noteq> []" "gone (length out)"
      | (full) "e \<noteq> []" "\<not> gone (length out)" "n \<le> length (out @ e)"
      | (on) "e \<noteq> []" "\<not> gone (length out)" "\<not> n \<le> length (out @ e)" by blast
    then show ?thesis
    proof cases
      case none
      then have "pump_blocks C gone (int n) bs c' (skip - length dec) out = (r, out')" using step by simp
      from Cons.IH [OF this Cons.prems(2)] show ?thesis unfolding full none append_Nil2 .
    next
      case gone
      then have o: "r = Some Gone" "out' = out" using step by simp_all
      have "out = take (length out) (take n ((out @ e) @ drop (skip - length dec) (ctr_feed C c' bs)))"
        using Cons.prems(2) by simp
      then show ?thesis unfolding full o(2) using o(1) by blast
    next
      case full
      then have o: "out' = out @ e" using step by (simp only: if_False if_True prod.inject)
      have "n = length (out @ e)" using full(3) len by simp
      then have "take n ((out @ e) @ drop (skip - length dec) (ctr_feed C c' bs)) = out @ e" by simp
      then have "out' = take n (out @ drop skip (ctr_feed C c (b # bs)))"
        unfolding \<open>take n (out @ drop skip (ctr_feed C c (b # bs))) = _\<close> o by (rule sym)
      then show ?thesis by (metis take_all_iff nle_le)
    next
      case on
      then have "pump_blocks C gone (int n) bs c' (skip - length dec) (out @ e) = (r, out')" using step by (simp only: if_False)
      from Cons.IH [OF this len] show ?thesis unfolding full .
    qed
  qed
qed

lemma parse_range_bounds:
  assumes "parse_range h fsize = Inr (a, b, p)" and "0 < fsize"
  shows "0 \<le> a \<and> a \<le> b \<and> b < fsize"
  using assms by (auto simp: parse_range_def bindR_Inr_iff Let_def split: if_splits prod.splits)

lemma open_attempts_opened:
  assumes "open_attempts E start stop ks src sel = (Opened blocks tail, src', sel')"
  shows "(\<exists>u. src' = src\<lparr>src_url := u\<rparr>)
    \<and> (\<exists>k url st h. se_reply E k url = Reply st h blocks tail \<and> validate_range_response st h start stop (src_size src) = Inr ())"
  using assms
proof (induction E start stop ks src sel rule: open_attempts.induct)
  case (2 E start stop k ks src sel)
  obtain x sl where s: "selector_select (se_now E k) (se_draw E k) sel = (x, sl)" by (metis surj_pair)
  obtain y picked where x: "x = Inr (y, picked)" using "2.prems" s by (cases x) (auto split: if_splits)
  obtain st h bs tl where r: "se_reply E k (src_url src) = Reply st h bs tl"
    using "2.prems" s x by (cases "se_reply E k (src_url src)") (auto simp: Let_def split: if_splits)
  show ?case
  proof (cases "st \<in> set URL_EXPIRY_STATUS \<and> k = 0")
    case True
    obtain z s1 where f: "refresh_cdn_url (se_resolve E) src = (z, s1)" by (metis surj_pair)
    then obtain v where z: "z = Inr v" "open_attempts E start stop ks s1 sl = (Opened blocks tail, src', sel')"
      using "2.prems" s x r True by (cases z) (auto simp: Let_def)
    have s1: "\<exists>u. s1 = src\<lparr>src_url := u\<rparr>" using f z(1) by (auto simp: refresh_cdn_url_def split: if_splits sum.splits)
    then have sz: "src_size s1 = src_size src" by auto
    note ih = "2.IH" [OF s [symmetric] x refl refl r True f [symmetric] z(1) z(2), unfolded sz]
    moreover have "\<exists>u. src' = src\<lparr>src_url := u\<rparr>" using ih s1 by auto
    ultimately show ?thesis by blast
  next
    case False
    then have v: "validate_range_response st h start stop (src_size src) = Inr ()"
      and o: "Opened bs tl = Opened blocks tail" "src' = src"
      using "2.prems" s x r by (auto simp: Let_def split: if_splits sum.splits)
    have "src' = src\<lparr>src_url := src_url src\<rparr>" using o(2) by simp
    then show ?thesis using v o(1) r by blast
  qed
qed simp

definition honest_upstream :: "aes \<Rightarrow> stream_source \<Rightarrow> bytes \<Rightarrow> stream_env \<Rightarrow> bool" where
  "honest_upstream C src plain E \<longleftrightarrow>
    (\<forall>k url. case se_reply E k url of
       NoReply _ \<Rightarrow> True
     | Reply st h blocks tail \<Rightarrow>
         \<exists>rest. honest_body st h (concat blocks @ rest) (ctr_crypt C (src_key src) (src_nonce src) 0 plain))"

text \<open>The blocks of an accepted answer, fed to the cipher of their offset, are a prefix of the window.\<close>

lemma opened_window:
  assumes "honest_upstream C src plain E" and "se_reply E k url = Reply st h blocks tail"
    and "validate_range_response st h (int s) (int b) (int (length plain)) = Inr ()" and "s \<le> length plain"
  shows "\<exists>m. ctr_crypt C (src_key src) (src_nonce src) s (concat blocks) = take m (slice s (b + 1) plain)"
proof -
  let ?c = "ctr_crypt C (src_key src) (src_nonce src)"
  obtain rest where "honest_body st h (concat blocks @ rest) (?c 0 plain)"
    using assms(1) [unfolded honest_upstream_def, rule_format, of k url] assms(2) by auto
  moreover have "validate_range_response st h (int s) (int (b + 1) - 1) (int (length plain)) = Inr ()"
    using assms(3) by simp
  ultimately have "?c s (concat blocks @ rest) = slice s (b + 1) plain"
    using range.accepted_plaintext assms(4) by blast
  then have "?c s (concat blocks) = take (length (concat blocks)) (slice s (b + 1) plain)"
    using ctr.crypt_take [of "length (concat blocks)" C "src_key src" "src_nonce src" s "concat blocks @ rest"] by simp
  then show ?thesis by blast
qed

lemma serve_range_exact:
  assumes "serve_range C E src (int a) (int b) p S = (Inr v, S')" and "src_size src = int (length plain)"
    and "honest_upstream C src plain E" and "a \<le> b" and "b < length plain" and "vw_status v \<in> {200, 206}"
  shows "vw_headers v = range_headers src (int a) (int b) p
    \<and> (\<exists>k. vw_body v = take k (slice a (b + 1) plain)) \<and> (vw_close v \<or> vw_body v = slice a (b + 1) plain)"
proof -
  let ?s = "a div 16 * 16" and ?c = "ctr_crypt C (src_key src) (src_nonce src)"
  have s: "int a div 16 * 16 = int ?s" "int a - int ?s = int (a - ?s)" "nat (int ?s div 16) = a div 16"
    by (simp_all add: zdiv_int of_nat_diff)
  obtain up src' sel where u: "open_upstream E (int ?s) (int b) src (sv_selector S) = (up, src', sel)"
    by (metis prod_cases3)
  obtain blocks tail where up: "up = Opened blocks tail"
    using assms(1,6) u unfolding serve_range_def s by (cases up) (auto simp: Let_def s send_error_def open_upstream_def)
  obtain w k url st h where o: "src' = src\<lparr>src_url := w\<rparr>" "se_reply E k url = Reply st h blocks tail"
    "validate_range_response st h (int ?s) (int b) (src_size src) = Inr ()"
    using open_attempts_opened [OF u [unfolded open_upstream_def up]] by blast
  have sl: "?s \<le> length plain" using assms(4,5) div_times_less_eq_dividend [of a 16] by linarith
  obtain m where m: "?c ?s (concat blocks) = take m (slice ?s (b + 1) plain)"
    using opened_window [OF assms(3) o(2) o(3) [unfolded assms(2)] sl] by blast
  obtain cipher where c: "make_ctr_cipher (src_key src') (src_nonce src') (a div 16) = Inr cipher"
    using assms(1) u up unfolding serve_range_def s
    by (cases "make_ctr_cipher (src_key src') (src_nonce src') (a div 16)") (auto simp: Let_def s)
  then have cf: "cc_key cipher = src_key src" "cc_nonce cipher = src_nonce src" "cc_pos cipher = ?s"
    using o(1) by (auto simp: make_ctr_cipher_def split: if_splits)
  obtain r sent where pm: "pump C (se_gone E) (int b - int a + 1) blocks tail cipher (a - ?s) = (r, sent)" by (metis surj_pair)
  have v: "vw_headers v = range_headers src' (int a) (int b) p" "vw_body v = sent" "vw_close v \<longleftrightarrow> r \<noteq> Complete"
    using assms(1) unfolding serve_range_def s Let_def u up prod.case upstream.case c sum.case nat_int pm
    by (auto split: pump_result.splits)
  have n: "int b - int a + 1 = int (b + 1 - a)" using assms(4) by simp
  obtain q where pb: "pump_blocks C (se_gone E) (int (b + 1 - a)) blocks cipher (a - ?s) [] = (q, sent)"
    and q: "r = Complete \<Longrightarrow> length sent = b + 1 - a"
    using pm unfolding pump_def n by (auto split: prod.splits option.splits pump_end.splits if_splits)
  let ?full = "take (b + 1 - a) (drop (a - ?s) (ctr_feed C cipher blocks))"
  have "drop (a - ?s) (slice ?s (b + 1) plain) = slice a (b + 1) plain"
    by (simp add: slice_def drop_take add.commute)
  then have full: "?full = take (b + 1 - a) (take (m - (a - ?s)) (slice a (b + 1) plain))"
    by (simp add: ctr_feed_concat cf m drop_take)
  obtain k where k: "sent = take k ?full" using pump_blocks_exact [OF pb] by auto
  then have pre: "\<exists>k. sent = take k (slice a (b + 1) plain)" unfolding full take_take by blast
  have "r = Complete \<Longrightarrow> sent = slice a (b + 1) plain"
  proof -
    assume "r = Complete"
    then have "length sent = length (slice a (b + 1) plain)" using q assms(4,5) by (simp add: length_slice)
    then show ?thesis using pre by (metis length_take take_all min.commute min_def nle_le)
  qed
  moreover have "range_headers src' = range_headers src"
    by (intro ext) (simp add: range_headers_def file_headers_def o(1))
  ultimately show ?thesis using v pre by auto
qed

text \<open>
  C4: whatever a client asks and however the CDN's answers are cut, delayed, refreshed or broken off,
  the bytes of a 200 or 206 are the head of exactly the byte range the headers announce, decrypted at
  the right counter; and either they are all of it or the connection is closed under the client, so a
  truncated file never looks complete. The CDN is honest as HTTP defines it: a body is the bytes its
  status and \<open>Content-Range\<close> name, or a head of them.
\<close>

theorem stream_range_exact:
  assumes "do_GET C E R S = (Inr v, S')" and "vw_status v \<in> {200, 206}" and "sv_source S = Some src"
    and "src_size src = int (length plain)" and "plain \<noteq> []" and "honest_upstream C src plain E"
  shows "\<exists>a b p. parse_range (rq_range R) (int (length plain)) = Inr (int a, int b, p) \<and> a \<le> b \<and> b < length plain
    \<and> vw_headers v = range_headers src (int a) (int b) p
    \<and> (\<exists>k. vw_body v = take k (slice a (b + 1) plain)) \<and> (vw_close v \<or> vw_body v = slice a (b + 1) plain)"
proof -
  have "check_auth S R = Inr True"
    using assms(1,2) by (auto simp: do_GET_def unauthorized_def reply_headers_def split: sum.splits bool.splits)
  then have g: "serve_source C E R src S = (Inr v, S')" using assms(1,3) by (simp add: do_GET_def)
  obtain a b p where pr: "parse_range (rq_range R) (src_size src) = Inr (a, b, p)"
    using g assms(2,4,5) unfolding serve_source_def
    by (cases "parse_range (rq_range R) (src_size src)")
      (auto simp: send_error_def unsatisfiable_def reply_headers_def split: if_splits)
  have bd: "0 \<le> a" "a \<le> b" "b < int (length plain)" using parse_range_bounds [OF pr] assms(4,5) by auto
  then obtain m n where mn: "a = int m" "b = int n" by (metis nonneg_int_cases order_trans)
  have r: "serve_range C E src (int m) (int n) p S = (Inr v, S')"
    using g pr assms(4,5) by (simp add: serve_source_def mn)
  have l: "m \<le> n" "n < length plain" using bd by (simp_all add: mn)
  show ?thesis using serve_range_exact [OF r assms(4,6) l assms(2)] pr [unfolded assms(4) mn] l by blast
qed

text \<open>
  C11: a server that listens beyond the machine serves nothing without its token: every byte of the
  file, and every answer but 401, is for a request that presented the token, in the header or, where
  the operator allowed it, in the query.
\<close>

theorem no_content_without_token:
  assumes "make_server P host token allow sel = Inr S0" and "\<not> is_loopback_host P host"
    and "S = S0\<lparr>sv_source := held, sv_selector := sel'\<rparr>"
    and "do_GET C E R S = (Inr v, S') \<or> do_HEAD S R = Inr v" and "vw_status v \<noteq> 401 \<or> vw_body v \<noteq> []"
  shows "bearer_token (rq_auth R) = token \<and> token \<noteq> None
    \<or> allow \<and> (\<exists>q. rq_query R = Inr q \<and> query_token q = token \<and> token \<noteq> None)"
proof -
  have s0: "S0 = \<lparr>sv_token = token, sv_query_token = allow, sv_source = None, sv_selector = sel\<rparr>"
    and ne: "strip (case token of None \<Rightarrow> [] | Some t \<Rightarrow> t) \<noteq> []"
    using assms(1,2) by (auto simp: make_server_def split: if_splits)
  have "strip [] = []" by (simp add: strip_def rstrip_by_def lstrip_by_def)
  then obtain t where t: "token = Some t" "t \<noteq> []" using ne by (cases token) auto
  have "check_auth S R = Inr True"
    using assms(4,5) by (auto simp: do_GET_def do_HEAD_def bindR_Inr_iff unauthorized_def reply_headers_def
        split: sum.splits bool.splits if_splits)
  then have "supplied_token S R = Inr (Some t)"
    using t unfolding assms(3) s0
    by (auto simp: check_auth_def bindR_Inr_iff compare_digest_def split: option.splits if_splits)
  then show ?thesis
    using t unfolding assms(3) s0 by (auto simp: supplied_token_def bindR_Inr_iff split: option.splits if_splits)
qed

text \<open>No file name splits the response: the header value has no line break.\<close>

lemma quote_all_chars:
  assumes "c \<in> set (quote_all s)"
  shows "32 < (of_char c :: nat)"
proof -
  have h: "32 < (of_char (upper_hex n) :: nat)" if "n < 16" for n
    using that by (simp add: upper_hex_def take_bit_eq_mod)
  obtain b where "c \<in> set (let n = unat (b :: byte) in
      if is_unreserved n then [char_of n] else [CHR ''%'', upper_hex (n div 16), upper_hex (n mod 16)])"
    using assms by (auto simp: quote_all_def)
  moreover have "unat b div 16 < 16" "unat b < 256" using unat_byte_less [of b] by simp_all
  ultimately show ?thesis
    using h [of "unat b div 16"] h [of "unat b mod 16"]
    by (auto simp: Let_def is_unreserved_def take_bit_eq_mod split: if_splits)
qed

lemma disposition_one_line:
  "CHR 0x0D \<notin> set (content_disposition f) \<and> CHR 0x0A \<notin> set (content_disposition f)"
proof -
  have "(of_char (CHR 0x0D) :: nat) = 13" "(of_char (CHR 0x0A) :: nat) = 10" by simp_all
  then have "CHR 0x0D \<notin> set (quote_all s)" "CHR 0x0A \<notin> set (quote_all s)" for s
    using quote_all_chars by fastforce+
  then show ?thesis by (auto simp: content_disposition_def Let_def)
qed

text \<open>A range of a file of forty bytes, sent in three blocks with an empty one among them.\<close>

definition demo_stream_source :: stream_source where
  "demo_stream_source = \<lparr>src_url = ''u'', src_resolver = True, src_size = 40, src_key = replicate 16 3, src_nonce = replicate 8 1,
     src_filename = ''a'', src_mimetype = ''m''\<rparr>"

definition demo_stream_plain :: bytes where
  "demo_stream_plain = replicate 40 9"

definition demo_stream_reply :: http_reply where
  "demo_stream_reply =
    (let w = slice 16 31 (ctr_crypt demo_aes (replicate 16 3) (replicate 8 1) 0 demo_stream_plain)
     in Reply 206 (just_range ''bytes 16-30/40'') [take 2 w, [], drop 2 w] None)"

definition demo_stream_env :: stream_env where
  "demo_stream_env = \<lparr>se_now = \<lambda>_. 0, se_draw = \<lambda>_. 0, se_reply = \<lambda>_ _. demo_stream_reply, se_resolve = Inr ''u'', se_gone = \<lambda>_. False\<rparr>"

definition demo_stream_server :: stream_server where
  "demo_stream_server = \<lparr>sv_token = Some ''tok'', sv_query_token = False, sv_source = Some demo_stream_source,
     sv_selector = make_selector None None False\<rparr>"

definition demo_stream_request :: stream_request where
  "demo_stream_request = \<lparr>rq_range = ''bytes=20-30'', rq_auth = ''Bearer tok'', rq_query = Inr []\<rparr>"

definition demo_get :: "view py \<times> stream_server" where
  "demo_get = do_GET demo_aes demo_stream_env demo_stream_request demo_stream_server"

lemma demo_get_ok: "(case fst demo_get of Inl e \<Rightarrow> None | Inr v \<Rightarrow> Some (vw_status v, vw_body v, vw_close v)) = Some (206, replicate 11 9, False)"
  by code_simp

lemma demo_get_view: "\<exists>v S'. demo_get = (Inr v, S') \<and> vw_status v = 206"
proof -
  obtain r S' where d: "demo_get = (r, S')" by (metis surj_pair)
  show ?thesis using demo_get_ok unfolding d by (cases r) auto
qed

lemma demo_honest_stream: "honest_upstream demo_aes demo_stream_source demo_stream_plain demo_stream_env"
proof -
  have "content_window (just_range ''bytes 16-30/40'') = Some (16, 30, 40)" by code_simp
  then show ?thesis
    by (auto simp: honest_upstream_def demo_stream_env_def demo_stream_reply_def Let_def honest_body_def demo_stream_source_def
        intro!: exI [of _ "[]"])
qed

lemma stream_range_exact_witness:
  "\<exists>v a b p. fst demo_get = Inr v \<and> parse_range ''bytes=20-30'' (int (length demo_stream_plain)) = Inr (int a, int b, p) \<and> a \<le> b
    \<and> vw_headers v = range_headers demo_stream_source (int a) (int b) p
    \<and> (\<exists>k. vw_body v = take k (slice a (b + 1) demo_stream_plain))"
proof -
  obtain v S' where v: "demo_get = (Inr v, S')" and st: "vw_status v \<in> {200, 206}" using demo_get_view by auto
  have "sv_source demo_stream_server = Some demo_stream_source" "src_size demo_stream_source = int (length demo_stream_plain)"
    "demo_stream_plain \<noteq> []" by (simp_all add: demo_stream_server_def demo_stream_source_def demo_stream_plain_def)
  from stream_range_exact [OF v [unfolded demo_get_def] st this demo_honest_stream] show ?thesis
    unfolding v by (auto simp: demo_stream_request_def)
qed

lemma no_content_without_token_witness: "bearer_token ''Bearer tok'' = Some ''tok''"
proof -
  let ?P = "\<lambda>_ :: string. None :: (nat \<times> bool) option"
  let ?S = "\<lparr>sv_token = Some ''tok'', sv_query_token = False, sv_source = None, sv_selector = make_selector None None False\<rparr>"
  have m: "make_server ?P ''0.0.0.0'' (Some ''tok'') False (make_selector None None False) = Inr ?S"
    and l: "\<not> is_loopback_host ?P ''0.0.0.0''" by code_simp+
  have s: "demo_stream_server = ?S\<lparr>sv_source := Some demo_stream_source, sv_selector := make_selector None None False\<rparr>"
    by (simp add: demo_stream_server_def)
  obtain v S' where v: "demo_get = (Inr v, S')" and st: "vw_status v \<noteq> 401 \<or> vw_body v \<noteq> []"
    using demo_get_view by auto
  have "do_GET demo_aes demo_stream_env demo_stream_request demo_stream_server = (Inr v, S') \<or>
      do_HEAD demo_stream_server demo_stream_request = Inr v" using v by (simp add: demo_get_def)
  from no_content_without_token [OF m l s this st] show ?thesis by (simp add: demo_stream_request_def)
qed

text \<open>
  A token with a character that is not ASCII is no wrong token to the handler: the comparison raises
  and the connection drops without an answer.
\<close>

lemma non_ascii_token_drops:
  "check_auth demo_stream_server (demo_stream_request\<lparr>rq_auth := ''Bearer '' @ [CHR 0xE9]\<rparr>) = raise TypeError"
  by code_simp

text \<open>A configured token with a leading blank can never be presented: the header is stripped, the token is not.\<close>

lemma padded_token_locks_out:
  "check_auth (demo_stream_server\<lparr>sv_token := Some '' tok''\<rparr>) (demo_stream_request\<lparr>rq_auth := ''Bearer  tok''\<rparr>)
   = Inr False"
  by code_simp

end
