(* ===== verification/StreamSlots.thy ===== *)
theory StreamSlots
  imports Prelude
begin

text \<open>
  The connection limits of \<open>streaming/server.py\<close>: the global semaphore, the count per address and
  the small pool of refusing threads, under any interleaving of the accept loop and the handler
  threads. A connection is its address and how far it has come; every acquisition and release is a
  step of its own, as the code takes the semaphores and the address lock separately.
\<close>

section \<open>Counts per address\<close>

type_synonym peer_counts = "string \<rightharpoonup> nat"

definition acquire_peer :: "nat \<Rightarrow> string \<Rightarrow> peer_counts \<Rightarrow> bool \<times> peer_counts" where
  "acquire_peer cap peer counts =
    (let held = (case counts peer of None \<Rightarrow> 0 | Some n \<Rightarrow> n)
     in if cap \<le> held then (False, counts) else (True, counts(peer \<mapsto> held + 1)))"

definition release_peer :: "string \<Rightarrow> peer_counts \<Rightarrow> peer_counts" where
  "release_peer peer counts =
    (let held = (case counts peer of None \<Rightarrow> 0 | Some n \<Rightarrow> n)
     in if 1 < held then counts(peer \<mapsto> held - 1) else counts(peer := None))"

section \<open>The life of a connection\<close>

text \<open>
  It holds a global slot; then the address is counted and its thread runs, or it is turned away with
  the slot still held; the thread, or the accept loop when the thread could not start, first forgets
  the address and then gives the slot back. A refused connection holds a slot of the refusing pool.
\<close>

datatype phase = Slotted | Serving | Turned_away | Uncounted | Refusing

record slot_config =
  max_connections :: nat
  max_per_client :: nat
  max_reject :: nat

record slots =
  free_slots :: nat
  free_reject :: nat
  peers :: peer_counts
  conns :: "(string \<times> phase) list"

definition idle :: "slot_config \<Rightarrow> slots" where
  "idle G = \<lparr>free_slots = max_connections G, free_reject = max_reject G, peers = Map.empty, conns = []\<rparr>"

text \<open>\<open>_reject_over_capacity\<close>: a thread of the refusing pool, or the socket is dropped.\<close>

definition reject_over_capacity :: "string \<Rightarrow> slots \<Rightarrow> slots" where
  "reject_over_capacity peer s =
    (if free_reject s = 0 then s
     else s\<lparr>free_reject := free_reject s - 1, conns := conns s @ [(peer, Refusing)]\<rparr>)"

definition accept_connection :: "string \<Rightarrow> slots \<Rightarrow> slots" where
  "accept_connection peer s =
    (if free_slots s = 0 then reject_over_capacity peer s
     else s\<lparr>free_slots := free_slots s - 1, conns := conns s @ [(peer, Slotted)]\<rparr>)"

definition drop_at :: "nat \<Rightarrow> 'a list \<Rightarrow> 'a list" where
  "drop_at i xs = take i xs @ drop (Suc i) xs"

text \<open>What the connection at a position does next.\<close>

definition advance :: "slot_config \<Rightarrow> nat \<Rightarrow> slots \<Rightarrow> slots" where
  "advance G i s =
    (case conns s ! i of
       (peer, Slotted) \<Rightarrow>
         (case acquire_peer (max_per_client G) peer (peers s) of
            (True, m) \<Rightarrow> s\<lparr>peers := m, conns := (conns s)[i := (peer, Serving)]\<rparr>
          | (False, m) \<Rightarrow> s\<lparr>conns := (conns s)[i := (peer, Turned_away)]\<rparr>)
     | (peer, Serving) \<Rightarrow> s\<lparr>peers := release_peer peer (peers s), conns := (conns s)[i := (peer, Uncounted)]\<rparr>
     | (peer, Turned_away) \<Rightarrow>
         reject_over_capacity peer (s\<lparr>free_slots := free_slots s + 1, conns := drop_at i (conns s)\<rparr>)
     | (peer, Uncounted) \<Rightarrow> s\<lparr>free_slots := free_slots s + 1, conns := drop_at i (conns s)\<rparr>
     | (peer, Refusing) \<Rightarrow> s\<lparr>free_reject := free_reject s + 1, conns := drop_at i (conns s)\<rparr>)"

inductive slot_reach :: "slot_config \<Rightarrow> slots \<Rightarrow> bool" for G where
  start: "slot_reach G (idle G)"
| accept: "slot_reach G s \<Longrightarrow> slot_reach G (accept_connection peer s)"
| step: "slot_reach G s \<Longrightarrow> i < length (conns s) \<Longrightarrow> slot_reach G (advance G i s)"

section \<open>Nothing leaks\<close>

abbreviation in_phase :: "phase \<Rightarrow> string \<times> phase \<Rightarrow> bool" where
  "in_phase ph c \<equiv> snd c = ph"

definition serving :: "string \<Rightarrow> slots \<Rightarrow> nat" where
  "serving peer s = length (filter (\<lambda>c. c = (peer, Serving)) (conns s))"

definition counts_ok :: "slots \<Rightarrow> bool" where
  "counts_ok s \<longleftrightarrow> (\<forall>p. peers s p = (if serving p s = 0 then None else Some (serving p s)))"

definition slots_ok :: "slot_config \<Rightarrow> slots \<Rightarrow> bool" where
  "slots_ok G s \<longleftrightarrow>
     free_slots s + length (filter (\<lambda>c. \<not> in_phase Refusing c) (conns s)) = max_connections G
     \<and> free_reject s + length (filter (in_phase Refusing) (conns s)) = max_reject G
     \<and> counts_ok s \<and> (\<forall>p. serving p s \<le> max_per_client G)"

lemma drop_at_count:
  assumes "i < length xs"
  shows "length (filter P (drop_at i xs)) + (if P (xs ! i) then 1 else 0) = length (filter P xs)"
proof -
  have "filter P xs = filter P (take i xs @ xs ! i # drop (Suc i) xs)" using id_take_nth_drop [OF assms] by simp
  then show ?thesis by (simp add: drop_at_def)
qed

lemma update_count:
  assumes "i < length xs"
  shows "length (filter P (xs[i := y])) + (if P (xs ! i) then 1 else 0) = length (filter P xs) + (if P y then 1 else 0)"
proof -
  have "filter P xs = filter P (take i xs @ xs ! i # drop (Suc i) xs)" using id_take_nth_drop [OF assms] by simp
  moreover have "filter P (xs[i := y]) = filter P (take i xs @ y # drop (Suc i) xs)"
    using upd_conv_take_nth_drop [OF assms] by simp
  ultimately show ?thesis by simp
qed

lemmas count_step = update_count [where P = "\<lambda>c. \<not> in_phase Refusing c"] update_count [where P = "in_phase Refusing"]
  drop_at_count [where P = "\<lambda>c. \<not> in_phase Refusing c"] drop_at_count [where P = "in_phase Refusing"]

lemma serving_update:
  assumes "i < length (conns s)" and "conns s ! i = c"
  shows "serving p (s\<lparr>conns := (conns s)[i := y]\<rparr>) + (if c = (p, Serving) then 1 else 0)
    = serving p s + (if y = (p, Serving) then 1 else 0)"
  using update_count [OF assms(1), of "\<lambda>c. c = (p, Serving)" y] assms(2) by (simp add: serving_def)

lemma serving_drop:
  assumes "i < length (conns s)" and "conns s ! i = c"
  shows "serving p (s\<lparr>conns := drop_at i (conns s)\<rparr>) + (if c = (p, Serving) then 1 else 0) = serving p s"
  using drop_at_count [OF assms(1), of "\<lambda>c. c = (p, Serving)"] assms(2) by (simp add: serving_def)

lemma serving_frame [simp]:
  "serving p (s\<lparr>peers := m\<rparr>) = serving p s" "serving p (s\<lparr>free_slots := n\<rparr>) = serving p s"
  "serving p (s\<lparr>free_reject := n\<rparr>) = serving p s"
  by (simp_all add: serving_def)

lemma counts_serving: "counts_ok s \<Longrightarrow> (case peers s p of None \<Rightarrow> 0 | Some n \<Rightarrow> n) = serving p s"
  by (simp add: counts_ok_def)

lemma reject_ok: "slots_ok G s \<Longrightarrow> slots_ok G (reject_over_capacity peer s)"
  by (auto simp: reject_over_capacity_def slots_ok_def counts_ok_def serving_def)

lemma accept_ok: "slots_ok G s \<Longrightarrow> slots_ok G (accept_connection peer s)"
  using reject_ok by (auto simp: accept_connection_def slots_ok_def counts_ok_def serving_def)

lemma advance_ok:
  assumes "slots_ok G s" and "i < length (conns s)"
  shows "slots_ok G (advance G i s)"
proof -
  obtain peer ph where c: "conns s ! i = (peer, ph)" by (metis surj_pair)
  have held: "(case peers s peer of None \<Rightarrow> 0 | Some n \<Rightarrow> n) = serving peer s"
    using assms(1) counts_serving by (simp add: slots_ok_def)
  note n = count_step [OF assms(2)] and u = serving_update [OF assms(2) c] and d = serving_drop [OF assms(2) c]
  have dropped: "slots_ok G (s\<lparr>free_slots := free_slots s + 1, conns := drop_at i (conns s)\<rparr>)"
    if "ph = Turned_away \<or> ph = Uncounted"
  proof -
    have "serving p (s\<lparr>conns := drop_at i (conns s)\<rparr>) = serving p s" for p using d [of p] that by auto
    then have "serving p (s\<lparr>free_slots := free_slots s + 1, conns := drop_at i (conns s)\<rparr>) = serving p s" for p
      by (simp add: serving_def)
    then show ?thesis using assms(1) n(3,4) c that by (auto simp: slots_ok_def counts_ok_def)
  qed
  show ?thesis
  proof (cases ph)
    case Slotted
    show ?thesis
    proof (cases "max_per_client G \<le> serving peer s")
      case True
      let ?s = "s\<lparr>conns := (conns s)[i := (peer, Turned_away)]\<rparr>"
      have "serving p ?s = serving p s" for p using u [of p "(peer, Turned_away)"] Slotted by auto
      then have "slots_ok G ?s"
        using assms(1) n(1,2) [of "(peer, Turned_away)"] c Slotted by (auto simp: slots_ok_def counts_ok_def)
      then show ?thesis using c Slotted True held by (simp add: advance_def acquire_peer_def Let_def)
    next
      case False
      let ?s = "s\<lparr>peers := (peers s)(peer \<mapsto> serving peer s + 1), conns := (conns s)[i := (peer, Serving)]\<rparr>"
      have sv: "serving p ?s = serving p s + (if p = peer then 1 else 0)" for p
        using u [of p "(peer, Serving)"] Slotted by (auto simp: serving_def)
      have "slots_ok G ?s"
        unfolding slots_ok_def counts_ok_def sv
        using assms(1) n(1,2) [of "(peer, Serving)"] c Slotted False by (auto simp: slots_ok_def counts_ok_def)
      then show ?thesis using c Slotted False held by (simp add: advance_def acquire_peer_def Let_def)
    qed
  next
    case Serving
    let ?s = "s\<lparr>peers := release_peer peer (peers s), conns := (conns s)[i := (peer, Uncounted)]\<rparr>"
    have sv: "serving p ?s = serving p s - (if p = peer then 1 else 0)" and pos: "0 < serving peer s" for p
      using u [of p "(peer, Uncounted)"] u [of peer "(peer, Uncounted)"] Serving by (auto simp: serving_def)
    have "slots_ok G ?s"
      unfolding slots_ok_def counts_ok_def sv
      using assms(1) n(1,2) [of "(peer, Uncounted)"] c Serving pos held
      by (auto simp: slots_ok_def counts_ok_def release_peer_def Let_def le_diff_conv intro: le_SucI)
    then show ?thesis using c Serving by (simp add: advance_def)
  next
    case Turned_away
    then show ?thesis using reject_ok [OF dropped] c by (simp add: advance_def)
  next
    case Uncounted
    then show ?thesis using dropped c by (simp add: advance_def)
  next
    case Refusing
    let ?s = "s\<lparr>free_reject := free_reject s + 1, conns := drop_at i (conns s)\<rparr>"
    have "serving p ?s = serving p s" for p using d [of p] Refusing by (auto simp: serving_def)
    then have "slots_ok G ?s" using assms(1) n(3,4) c Refusing by (auto simp: slots_ok_def counts_ok_def)
    then show ?thesis using c Refusing by (simp add: advance_def)
  qed
qed

lemma reach_ok: "slot_reach G s \<Longrightarrow> slots_ok G s"
proof (induction rule: slot_reach.induct)
  case start
  show ?case by (simp add: slots_ok_def counts_ok_def idle_def serving_def)
qed (simp_all add: accept_ok advance_ok)

text \<open>
  C30: under any interleaving of arrivals, handler threads, refusals and failed starts, the open
  connections never exceed the global cap nor one address its own; the table holds exactly the
  addresses being served, with their exact counts; and when the last connection is gone every slot is
  free and the table empty, so no exit path leaks a slot or locks a client out.
\<close>

theorem slots_never_leak:
  assumes "slot_reach G s"
  shows "length (filter (\<lambda>c. \<not> in_phase Refusing c) (conns s)) \<le> max_connections G
    \<and> length (filter (in_phase Refusing) (conns s)) \<le> max_reject G \<and> serving p s \<le> max_per_client G
    \<and> peers s p = (if serving p s = 0 then None else Some (serving p s))
    \<and> (if conns s = [] then s = idle G else True)"
proof -
  have ok: "slots_ok G s" using reach_ok [OF assms] .
  have "s = idle G" if "conns s = []"
  proof -
    have "peers s = Map.empty" using ok that by (intro ext) (simp add: slots_ok_def counts_ok_def serving_def)
    moreover have "free_slots s = max_connections G" "free_reject s = max_reject G"
      using ok that by (simp_all add: slots_ok_def)
    ultimately show ?thesis using that by (simp add: idle_def)
  qed
  moreover have "length (filter (\<lambda>c. \<not> in_phase Refusing c) (conns s)) \<le> max_connections G"
    "length (filter (in_phase Refusing) (conns s)) \<le> max_reject G"
    using ok unfolding slots_ok_def by linarith+
  ultimately show ?thesis using ok by (simp add: slots_ok_def counts_ok_def)
qed

lemma slots_never_leak_witness:
  "let G = \<lparr>max_connections = 2, max_per_client = 1, max_reject = 1\<rparr>;
       s = advance G 1 (accept_connection ''a'' (advance G 0 (accept_connection ''a'' (idle G))))
   in serving ''a'' s = 1 \<and> peers s ''a'' = Some 1 \<and> conns s = [(''a'', Serving), (''a'', Turned_away)]"
proof -
  let ?G = "\<lparr>max_connections = 2, max_per_client = 1, max_reject = 1\<rparr>"
  let ?s = "advance ?G 1 (accept_connection ''a'' (advance ?G 0 (accept_connection ''a'' (idle ?G))))"
  have c: "conns ?s = [(''a'', Serving), (''a'', Turned_away)]"
    by (simp add: advance_def accept_connection_def idle_def acquire_peer_def)
  have "slot_reach ?G ?s"
    by (intro slot_reach.step slot_reach.accept slot_reach.start)
      (simp_all add: advance_def accept_connection_def idle_def acquire_peer_def)
  from slots_never_leak [OF this, of "''a''"] c show ?thesis by (simp add: Let_def serving_def)
qed

end
