(* ===== verification/AtomicFile.thy ===== *)
theory AtomicFile
  imports StateFile
begin

text \<open>
  \<open>_atomic_output\<close> of \<open>core/crypter.py\<close>, which the crypter and the splitter write through: a
  temporary file that replaces the destination only after the whole content is on it. The file
  system answers whether the temporary file can be made, written and removed, and what each attempt
  to replace does; the replace loop is the one of the state file.
\<close>

record store =
  st_files :: "string \<rightharpoonup> bytes"
  st_left :: nat

record out_env =
  oe_create :: bool
  oe_write :: bool
  oe_replace :: "nat \<Rightarrow> replace_outcome"
  oe_unlink :: bool

definition discard_temp :: "out_env \<Rightarrow> exc \<Rightarrow> store \<Rightarrow> unit py \<times> store" where
  "discard_temp E e s = (Inl e, if oe_unlink E then s else s\<lparr>st_left := st_left s + 1\<rparr>)"

text \<open>The body is what the block writes, or the exception it raises.\<close>

definition atomic_output :: "out_env \<Rightarrow> string \<Rightarrow> bytes py \<Rightarrow> store \<Rightarrow> unit py \<times> store" where
  "atomic_output E dst content s =
    (if \<not> oe_create E then (raise OSError, s)
     else case content of
         Inl e \<Rightarrow> discard_temp E e s
       | Inr b \<Rightarrow>
           if \<not> oe_write E then discard_temp E (Exc OSError None) s
           else (case try_replace (oe_replace E) [0..<5] of
                   Inl e \<Rightarrow> discard_temp E e s
                 | Inr _ \<Rightarrow> (Inr (), s\<lparr>st_files := (st_files s)(dst \<mapsto> b)\<rparr>)))"

lemma atomic_output_iff:
  "atomic_output E dst content s = (Inr u, s') \<longleftrightarrow>
    oe_create E \<and> oe_write E \<and> try_replace (oe_replace E) [0..<5] = Inr ()
    \<and> (\<exists>b. content = Inr b \<and> s' = s\<lparr>st_files := (st_files s)(dst \<mapsto> b)\<rparr>)"
  by (auto simp: atomic_output_def discard_temp_def split: sum.splits)

lemma atomic_output_fails: "atomic_output E dst content s = (Inl e, s') \<Longrightarrow> st_files s' = st_files s"
  by (auto simp: atomic_output_def discard_temp_def split: sum.splits if_splits)

lemma atomic_output_raises:
  "content = Inl e \<Longrightarrow> \<exists>e s'. atomic_output E dst content s = (Inl e, s') \<and> st_files s' = st_files s"
  by (simp add: atomic_output_def discard_temp_def)

definition good_output :: out_env where
  "good_output = \<lparr>oe_create = True, oe_write = True, oe_replace = \<lambda>_. Replaced, oe_unlink = True\<rparr>"

lemma good_output_writes: "atomic_output good_output dst (Inr b) s = (Inr (), s\<lparr>st_files := (st_files s)(dst \<mapsto> b)\<rparr>)"
  by (simp add: atomic_output_def good_output_def upt_rec)

end
