(* ===== verification/Crypter.thy ===== *)
theory Crypter
  imports AtomicFile Aead
begin

text \<open>
  \<open>core/crypter.py\<close>: the passphrase format MBCR, version 2 as written and read, version 1 as read.
  AES-GCM, scrypt, the salt and the nonces are parameters; a file is its bytes.
\<close>

section \<open>Constants and key\<close>

definition MAGIC :: bytes where
  "MAGIC = utf8 ''MBCR''"

definition CRYPTER_VERSION :: byte where
  "CRYPTER_VERSION = 2"

definition VERSION_LEGACY :: byte where
  "VERSION_LEGACY = 1"

definition SALT_LEN :: nat where
  "SALT_LEN = 16"

definition NONCE_LEN :: nat where
  "NONCE_LEN = 12"

definition TAG_LEN :: nat where
  "TAG_LEN = 16"

definition MAX_CRYPTER_CHUNK :: int where
  "MAX_CRYPTER_CHUNK = 16777216"

definition power_of_two :: "int \<Rightarrow> bool" where
  "power_of_two n \<longleftrightarrow> and n (n - 1) = 0"

definition validate_scrypt_params :: "int \<Rightarrow> int \<Rightarrow> int \<Rightarrow> unit py" where
  "validate_scrypt_params n r p =
    (if n < 1024 \<or> 1048576 < n then raise CrypterError
     else if \<not> power_of_two n then raise CrypterError
     else if r < 1 \<or> 32 < r then raise CrypterError
     else if p < 1 \<or> 16 < p then raise CrypterError
     else if 268435456 < 128 * n * r * p then raise CrypterError
     else Inr ())"

text \<open>The scrypt parameters are constants; the KDF takes the encoded passphrase and the salt.\<close>

type_synonym kdf = "bytes \<Rightarrow> bytes \<Rightarrow> bytes"

definition derive_key :: "kdf \<Rightarrow> string \<Rightarrow> bytes \<Rightarrow> bytes py" where
  "derive_key K passphrase salt =
    bindR (validate_scrypt_params 16384 8 1) (\<lambda>_. Inr (K (utf8 passphrase) salt))"

lemma derive_key_total: "derive_key K passphrase salt = Inr (K (utf8 passphrase) salt)"
proof -
  have "validate_scrypt_params 16384 8 1 = Inr ()" by code_simp
  then show ?thesis by (simp add: derive_key_def)
qed

text \<open>\<open>struct.pack\<close> of an unsigned big-endian integer.\<close>

definition pack_be :: "nat \<Rightarrow> nat \<Rightarrow> bytes py" where
  "pack_be n v = (if int v < 256 ^ n then Inr (be_of_nat n v) else raise StructError)"

section \<open>Encryption\<close>

record sealer =
  se_aead :: aead
  se_key :: bytes
  se_header :: bytes
  se_nonce :: "nat \<Rightarrow> bytes"

definition chunk_aad :: "bytes \<Rightarrow> nat \<Rightarrow> bool \<Rightarrow> bytes py" where
  "chunk_aad header idx final = bindR (pack_be 8 idx) (\<lambda>i. Inr (header @ i @ [if final then 1 else 0]))"

definition write_sealed :: "sealer \<Rightarrow> nat \<Rightarrow> bool \<Rightarrow> bytes \<Rightarrow> bytes py" where
  "write_sealed S idx final plaintext =
    bindR (chunk_aad (se_header S) idx final) (\<lambda>aad.
      let nonce = se_nonce S idx;
          block = nonce @ gcm_seal (se_aead S) (se_key S) nonce plaintext aad
      in bindR (pack_be 4 (length block)) (\<lambda>l. Inr ([if final then 1 else 0] @ l @ block)))"

text \<open>The loop reads one chunk ahead, so it knows which one is the last.\<close>

function write_from :: "sealer \<Rightarrow> nat \<Rightarrow> nat \<Rightarrow> bytes \<Rightarrow> bytes \<Rightarrow> bytes py" where
  "write_from S n idx prev rest =
    (if take n rest = [] then write_sealed S idx True prev
     else bindR (write_sealed S idx False prev) (\<lambda>out.
          bindR (write_from S n (idx + 1) (take n rest) (drop n rest)) (\<lambda>outs. Inr (out @ outs))))"
  by pat_completeness auto
termination
  by (relation "measure (\<lambda>(S, n, idx, prev, rest). length rest)") auto

declare write_from.simps [simp del]

definition v2_header :: "bytes \<Rightarrow> nat \<Rightarrow> nat \<Rightarrow> bytes py" where
  "v2_header salt chunk_size src_size =
    bindR (pack_be 4 chunk_size) (\<lambda>c. bindR (pack_be 8 src_size) (\<lambda>l. Inr (MAGIC @ [CRYPTER_VERSION] @ salt @ c @ l)))"

record crypter =
  cr_aead :: aead
  cr_kdf :: kdf

definition v2_body :: "sealer \<Rightarrow> nat \<Rightarrow> bytes \<Rightarrow> bytes py" where
  "v2_body S n src = bindR (write_from S n 0 (take n src) (drop n src)) (\<lambda>chunks. Inr (se_header S @ chunks))"

definition encrypt_file ::
  "crypter \<Rightarrow> out_env \<Rightarrow> bytes \<Rightarrow> (nat \<Rightarrow> bytes) \<Rightarrow> bytes \<Rightarrow> nat \<Rightarrow> string \<Rightarrow> string \<Rightarrow> int \<Rightarrow> store \<Rightarrow> unit py \<times> store" where
  "encrypt_file C E salt nonces src src_size dst passphrase chunk_size s =
    (if chunk_size \<le> 0 \<or> MAX_CRYPTER_CHUNK < chunk_size then (raise CrypterError, s)
     else case bindR (derive_key (cr_kdf C) passphrase salt) (\<lambda>key.
               bindR (v2_header salt (nat chunk_size) src_size) (\<lambda>header.
                 Inr \<lparr>se_aead = cr_aead C, se_key = key, se_header = header, se_nonce = nonces\<rparr>)) of
         Inl e \<Rightarrow> (Inl e, s)
       | Inr S \<Rightarrow> atomic_output E dst (v2_body S (nat chunk_size) src) s)"

section \<open>Decryption\<close>

definition read_exact :: "nat \<Rightarrow> bytes \<Rightarrow> (bytes \<times> bytes) py" where
  "read_exact n b = (if length b < n then raise CrypterError else Inr (take n b, drop n b))"

text \<open>A framed block of version 2: the flag, the declared length and the bytes.\<close>

definition read_block :: "nat \<Rightarrow> bytes \<Rightarrow> (bool \<times> bytes \<times> bytes) py" where
  "read_block chunk_size b =
    (case b of
       [] \<Rightarrow> raise CrypterError
     | flag # b \<Rightarrow>
         if flag \<noteq> 0 \<and> flag \<noteq> 1 then raise CrypterError
         else bindR (read_exact 4 b) (\<lambda>(l, b).
           let blen = nat_of_be l
           in if blen < NONCE_LEN + TAG_LEN then raise CrypterError
              else if NONCE_LEN + chunk_size + TAG_LEN < blen then raise CrypterError
              else bindR (read_exact blen b) (\<lambda>(block, b). Inr (flag = 1, block, b))))"

definition open_block :: "aead \<Rightarrow> bytes \<Rightarrow> bytes \<Rightarrow> bytes \<Rightarrow> bytes py" where
  "open_block A key aad block =
    (case gcm_open A key (take NONCE_LEN block) (drop NONCE_LEN block) aad of
       None \<Rightarrow> raise CrypterError | Some p \<Rightarrow> Inr p)"

lemma read_block_shorter: "read_block n b = Inr (flag, block, b') \<Longrightarrow> length b' < length b"
  by (auto simp: read_block_def read_exact_def bindR_Inr_iff Let_def split: list.splits if_splits)

text \<open>The plaintext up to the chunk flagged final, and what follows it.\<close>

function read_v2 :: "aead \<Rightarrow> bytes \<Rightarrow> bytes \<Rightarrow> nat \<Rightarrow> nat \<Rightarrow> bytes \<Rightarrow> (bytes \<times> bytes) py" where
  "read_v2 A key header n idx b =
    (case read_block n b of
       Inl e \<Rightarrow> Inl e
     | Inr (final, block, b') \<Rightarrow>
         bindR (bindR (chunk_aad header idx final) (\<lambda>aad. open_block A key aad block)) (\<lambda>p.
           if final then Inr (p, b')
           else (case read_v2 A key header n (idx + 1) b' of
                   Inl e \<Rightarrow> Inl e | Inr (q, b) \<Rightarrow> Inr (p @ q, b))))"
  by pat_completeness auto
termination
  by (relation "measure (\<lambda>(A, key, header, n, idx, b). length b)") (auto dest: read_block_shorter)

declare read_v2.simps [simp del]

definition v2_plain :: "aead \<Rightarrow> bytes \<Rightarrow> bytes \<Rightarrow> nat \<Rightarrow> nat \<Rightarrow> bytes \<Rightarrow> bytes py" where
  "v2_plain A key header chunk_size original_length b =
    bindR (read_v2 A key header chunk_size 0 b) (\<lambda>(plain, trailing).
      if trailing \<noteq> [] then raise CrypterError
      else if length plain \<noteq> original_length then raise CrypterError
      else Inr plain)"

text \<open>The header of version 2: salt, chunk size, length, the bytes it is made of, what follows.\<close>

definition v2_fields :: "bytes \<Rightarrow> bytes \<Rightarrow> (bytes \<times> nat \<times> nat \<times> bytes \<times> bytes) py" where
  "v2_fields prefix b =
    bindR (read_exact SALT_LEN b) (\<lambda>(salt, b).
    bindR (read_exact 4 b) (\<lambda>(c, b).
    bindR (read_exact 8 b) (\<lambda>(l, b). Inr (salt, nat_of_be c, nat_of_be l, prefix @ salt @ c @ l, b))))"

definition decrypt_v2 :: "crypter \<Rightarrow> out_env \<Rightarrow> bytes \<Rightarrow> bytes \<Rightarrow> nat \<Rightarrow> string \<Rightarrow> string \<Rightarrow> store \<Rightarrow> unit py \<times> store" where
  "decrypt_v2 C E prefix b src_size dst passphrase s =
    (case v2_fields prefix b of
       Inl e \<Rightarrow> (Inl e, s)
     | Inr (salt, chunk_size, original_length, header, b) \<Rightarrow>
         if chunk_size = 0 \<or> MAX_CRYPTER_CHUNK < int chunk_size then (raise CrypterError, s)
         else if src_size < original_length then (raise CrypterError, s)
         else (case derive_key (cr_kdf C) passphrase salt of
                 Inl e \<Rightarrow> (Inl e, s)
               | Inr key \<Rightarrow> atomic_output E dst (v2_plain (cr_aead C) key header chunk_size original_length b) s))"

text \<open>Version 1: length-prefixed blocks up to an empty one, each opened without associated data.\<close>

function read_v1 :: "aead \<Rightarrow> bytes \<Rightarrow> nat \<Rightarrow> bytes \<Rightarrow> bytes py" where
  "read_v1 A key n b =
    (case read_exact 4 b of
       Inl e \<Rightarrow> Inl e
     | Inr (l, b') \<Rightarrow>
         if nat_of_be l = 0 then Inr []
         else if NONCE_LEN + n + TAG_LEN < nat_of_be l then raise CrypterError
         else (case read_exact (nat_of_be l) b' of
                 Inl e \<Rightarrow> Inl e
               | Inr (block, b'') \<Rightarrow>
                   bindR (open_block A key [] block) (\<lambda>p.
                   bindR (read_v1 A key n b'') (\<lambda>q. Inr (p @ q)))))"
  by pat_completeness auto
termination
  by (relation "measure (\<lambda>(A, key, n, b). length b)") (auto simp: read_exact_def split: if_splits)

declare read_v1.simps [simp del]

definition decrypt_v1 :: "crypter \<Rightarrow> out_env \<Rightarrow> bytes \<Rightarrow> string \<Rightarrow> string \<Rightarrow> store \<Rightarrow> unit py \<times> store" where
  "decrypt_v1 C E b dst passphrase s =
    (case bindR (read_exact SALT_LEN b) (\<lambda>(salt, b). bindR (read_exact 4 b) (\<lambda>(c, b). Inr (salt, nat_of_be c, b))) of
       Inl e \<Rightarrow> (Inl e, s)
     | Inr (salt, chunk_size, b) \<Rightarrow>
         if chunk_size = 0 \<or> MAX_CRYPTER_CHUNK < int chunk_size then (raise CrypterError, s)
         else (case derive_key (cr_kdf C) passphrase salt of
                 Inl e \<Rightarrow> (Inl e, s)
               | Inr key \<Rightarrow> atomic_output E dst (read_v1 (cr_aead C) key chunk_size b) s))"

definition decrypt_file :: "crypter \<Rightarrow> out_env \<Rightarrow> bytes \<Rightarrow> string \<Rightarrow> string \<Rightarrow> store \<Rightarrow> unit py \<times> store" where
  "decrypt_file C E src dst passphrase s =
    (let prefix = take 5 src; b = drop 5 src
     in if length prefix < 5 then (raise CrypterError, s)
        else if take 4 prefix \<noteq> MAGIC then (raise CrypterError, s)
        else if prefix ! 4 = VERSION_LEGACY then decrypt_v1 C E b dst passphrase s
        else if prefix ! 4 = CRYPTER_VERSION then decrypt_v2 C E prefix b (length src) dst passphrase s
        else (raise CrypterError, s))"

section \<open>What was written reads back\<close>

lemma pack_be_Inr: "pack_be n v = Inr b \<longleftrightarrow> v < 256 ^ n \<and> b = be_of_nat n v"
proof -
  have "int v < 256 ^ n \<longleftrightarrow> v < 256 ^ n" by (metis of_nat_less_iff of_nat_numeral of_nat_power)
  then show ?thesis by (auto simp: pack_be_def)
qed

lemma pack_be_len: "pack_be n v = Inr b \<Longrightarrow> length b = n" "pack_be n v = Inr b \<Longrightarrow> nat_of_be b = v"
  by (auto simp: pack_be_Inr nat_of_be_be_of_nat)

lemma write_sealed_reads:
  assumes "write_sealed S idx final p = Inr out" and "aead_ok (se_aead S)" and "length (se_nonce S idx) = 12"
    and "length p \<le> n"
  shows "\<exists>block aad. read_block n (out @ t) = Inr (final, block, t) \<and> chunk_aad (se_header S) idx final = Inr aad
    \<and> open_block (se_aead S) (se_key S) aad block = Inr p \<and> length p \<le> length out"
proof -
  obtain aad l where a: "chunk_aad (se_header S) idx final = Inr aad"
    and l: "pack_be 4 (length (se_nonce S idx @ gcm_seal (se_aead S) (se_key S) (se_nonce S idx) p aad)) = Inr l"
    and out: "out = [if final then 1 else 0] @ l @ se_nonce S idx @ gcm_seal (se_aead S) (se_key S) (se_nonce S idx) p aad"
    using assms(1) by (auto simp: write_sealed_def Let_def bindR_Inr_iff)
  let ?c = "gcm_seal (se_aead S) (se_key S) (se_nonce S idx) p aad"
  have len: "length ?c = length p + 16" by (rule length_gcm_seal [OF assms(2)])
  have "read_block n (out @ t) = Inr (final, se_nonce S idx @ ?c, t)"
    using pack_be_len [OF l] len assms(3,4)
    by (simp add: out read_block_def read_exact_def NONCE_LEN_def TAG_LEN_def Let_def)
  moreover have "open_block (se_aead S) (se_key S) aad (se_nonce S idx @ ?c) = Inr p"
    using assms(3) by (simp add: open_block_def NONCE_LEN_def gcm_open_seal [OF assms(2)])
  ultimately show ?thesis using a len by (auto simp: out)
qed

lemma write_from_reads:
  assumes "write_from S n idx prev rest = Inr out" and "aead_ok (se_aead S)" and "\<And>i. length (se_nonce S i) = 12"
    and "length prev \<le> n" and "0 < n"
  shows "read_v2 (se_aead S) (se_key S) (se_header S) n idx (out @ t) = Inr (prev @ rest, t) \<and> length (prev @ rest) \<le> length out"
  using assms
proof (induction S n idx prev rest arbitrary: out t rule: write_from.induct)
  case (1 S n idx prev rest)
  show ?case
  proof (cases "take n rest = []")
    case True
    then have w: "write_sealed S idx True prev = Inr out" and r: "rest = []"
      using "1.prems"(1,5) by (simp_all add: write_from.simps)
    obtain block aad where "read_block n (out @ t) = Inr (True, block, t)" "chunk_aad (se_header S) idx True = Inr aad"
      "open_block (se_aead S) (se_key S) aad block = Inr prev" "length prev \<le> length out"
      using write_sealed_reads [OF w "1.prems"(2,3,4)] by blast
    then show ?thesis using r by (simp add: read_v2.simps [of _ _ _ _ _ "out @ t"])
  next
    case False
    obtain o1 o2 where o: "write_sealed S idx False prev = Inr o1"
      "write_from S n (idx + 1) (take n rest) (drop n rest) = Inr o2" "out = o1 @ o2"
      using "1.prems"(1) False by (auto simp: write_from.simps [of S n idx prev rest] bindR_Inr_iff)
    obtain block aad where b: "read_block n (o1 @ o2 @ t) = Inr (False, block, o2 @ t)" "chunk_aad (se_header S) idx False = Inr aad"
      "open_block (se_aead S) (se_key S) aad block = Inr prev" "length prev \<le> length o1"
      using write_sealed_reads [OF o(1) "1.prems"(2,3,4)] by blast
    have "read_v2 (se_aead S) (se_key S) (se_header S) n (idx + 1) (o2 @ t) = Inr (take n rest @ drop n rest, t)
        \<and> length (take n rest @ drop n rest) \<le> length o2"
      by (rule "1.IH" [OF False o(2) "1.prems"(2,3) _ "1.prems"(5)]) simp
    then show ?thesis using b by (simp add: o(3) read_v2.simps [of _ _ _ _ idx])
  qed
qed

lemma header_reads:
  assumes "v2_header salt n m = Inr header" and "length salt = 16"
  shows "take 5 (header @ t) = MAGIC @ [2] \<and> length header = 33
    \<and> v2_fields (MAGIC @ [2]) (drop 5 (header @ t)) = Inr (salt, n, m, header, t)"
proof -
  obtain c l where c: "pack_be 4 n = Inr c" and l: "pack_be 8 m = Inr l" and h: "header = MAGIC @ [2] @ salt @ c @ l"
    using assms(1) by (auto simp: v2_header_def bindR_Inr_iff CRYPTER_VERSION_def)
  have m: "length MAGIC = 4" by (simp add: MAGIC_def utf8_def utf8_char_def)
  show ?thesis using pack_be_len [OF c] pack_be_len [OF l] assms(2)
    by (simp add: h m v2_fields_def read_exact_def SALT_LEN_def)
qed

text \<open>
  Decrypting what was encrypted gives the file back, for every chunk size, file, passphrase, salt
  and run of nonces, when the output can be written; and the source of neither step is touched.
\<close>

theorem crypter_roundtrip:
  assumes "encrypt_file C E salt nonces src (length src) dst passphrase n s = (Inr (), s')"
    and "aead_ok (cr_aead C)" and "length salt = 16" and "\<And>i. length (nonces i) = 12"
    and "oe_create E' \<and> oe_write E' \<and> try_replace (oe_replace E') [0..<5] = Inr ()"
  shows "\<exists>blob. s' = s\<lparr>st_files := (st_files s)(dst \<mapsto> blob)\<rparr>
    \<and> decrypt_file C E' blob plain passphrase s' = (Inr (), s'\<lparr>st_files := (st_files s')(plain \<mapsto> src)\<rparr>)"
proof -
  let ?k = "cr_kdf C (utf8 passphrase) salt"
  have n: "0 < n" "n \<le> 16777216" using assms(1) by (auto simp: encrypt_file_def MAX_CRYPTER_CHUNK_def split: if_splits)
  obtain header where h: "v2_header salt (nat n) (length src) = Inr header"
    using assms(1) by (cases "v2_header salt (nat n) (length src)") (auto simp: encrypt_file_def derive_key_total split: if_splits)
  let ?S = "\<lparr>se_aead = cr_aead C, se_key = ?k, se_header = header, se_nonce = nonces\<rparr>"
  obtain out where o: "write_from ?S (nat n) 0 (take (nat n) src) (drop (nat n) src) = Inr out"
    and s': "s' = s\<lparr>st_files := (st_files s)(dst \<mapsto> header @ out)\<rparr>"
    using assms(1) h n by (auto simp: encrypt_file_def derive_key_total atomic_output_iff v2_body_def bindR_Inr_iff MAX_CRYPTER_CHUNK_def)
  note hd = header_reads [OF h assms(3), of out]
  have r: "read_v2 (cr_aead C) ?k header (nat n) 0 out = Inr (src, [])" and len: "length src \<le> length out"
    using write_from_reads [OF o, of "[]"] assms(2,4) n(1) by simp_all
  have pre: "length (take 5 (header @ out)) = 5" "take 4 (take 5 (header @ out)) = MAGIC" "take 5 (header @ out) ! 4 = 2"
    unfolding hd [THEN conjunct1] by (simp_all add: MAGIC_def utf8_def utf8_char_def)
  have "decrypt_v2 C E' (MAGIC @ [2]) (drop 5 (header @ out)) (length (header @ out)) plain passphrase s'
      = (Inr (), s'\<lparr>st_files := (st_files s')(plain \<mapsto> src)\<rparr>)"
    unfolding decrypt_v2_def hd [THEN conjunct2, THEN conjunct2] using r len n assms(5)
    by (simp add: derive_key_total v2_plain_def MAX_CRYPTER_CHUNK_def atomic_output_iff)
  then have "decrypt_file C E' (header @ out) plain passphrase s' = (Inr (), s'\<lparr>st_files := (st_files s')(plain \<mapsto> src)\<rparr>)"
    unfolding decrypt_file_def Let_def pre hd [THEN conjunct1]
    by (simp add: VERSION_LEGACY_def CRYPTER_VERSION_def MAGIC_def utf8_def utf8_char_def)
  then show ?thesis using s' by blast
qed

section \<open>Truncation and appended data\<close>

lemma read_exact_append: "read_exact n b = Inr (x, y) \<Longrightarrow> read_exact n (b @ t) = Inr (x, y @ t)"
  by (auto simp: read_exact_def split: if_splits)

lemma read_block_append: "read_block n b = Inr (f, block, b') \<Longrightarrow> read_block n (b @ t) = Inr (f, block, b' @ t)"
  by (auto simp: read_block_def bindR_Inr_iff Let_def read_exact_append split: list.splits if_splits)

lemma read_v2_append:
  "read_v2 A key header n idx b = Inr (p, b') \<Longrightarrow> read_v2 A key header n idx (b @ t) = Inr (p, b' @ t)"
proof (induction A key header n idx b arbitrary: p b' rule: read_v2.induct)
  case (1 A key header n idx b)
  obtain final block r where b: "read_block n b = Inr (final, block, r)"
    using "1.prems" by (cases "read_block n b") (auto simp: read_v2.simps [of A key header n idx b])
  note bt = read_block_append [OF b, of t]
  obtain q where q: "bindR (chunk_aad header idx final) (\<lambda>aad. open_block A key aad block) = Inr q"
    using "1.prems" by (auto simp: read_v2.simps [of A key header n idx b] b bindR_Inr_iff)
  show ?case
  proof (cases final)
    case True
    then show ?thesis using "1.prems" b bt q by (simp add: read_v2.simps [of A key header n idx])
  next
    case False
    obtain q' r' where r: "read_v2 A key header n (idx + 1) r = Inr (q', r')"
      using "1.prems" b q False by (cases "read_v2 A key header n (idx + 1) r") (auto simp: read_v2.simps [of A key header n idx b])
    have "read_v2 A key header n (idx + 1) (r @ t) = Inr (q', r' @ t)"
      using "1.IH" [OF b refl refl False r] .
    then show ?thesis using "1.prems" b bt q False r by (simp add: read_v2.simps [of A key header n idx])
  qed
qed

lemma v2_fields_append:
  "v2_fields prefix b = Inr (salt, n, m, header, b') \<Longrightarrow> v2_fields prefix (b @ t) = Inr (salt, n, m, header, b' @ t)"
proof -
  assume "v2_fields prefix b = Inr (salt, n, m, header, b')"
  then obtain x b1 c b2 l where e: "read_exact SALT_LEN b = Inr (x, b1)" "read_exact 4 b1 = Inr (c, b2)"
    "read_exact 8 b2 = Inr (l, b')" "salt = x" "n = nat_of_be c" "m = nat_of_be l" "header = prefix @ x @ c @ l"
    by (auto simp: v2_fields_def bindR_Inr_iff)
  show ?thesis by (simp add: v2_fields_def read_exact_append [OF e(1)] read_exact_append [OF e(2)] read_exact_append [OF e(3)] e)
qed

lemma decrypt_v2_ok:
  assumes "decrypt_v2 C E prefix b sz dst passphrase s = (Inr (), s')"
  shows "\<exists>salt n m header b' plain. v2_fields prefix b = Inr (salt, n, m, header, b')
    \<and> read_v2 (cr_aead C) (cr_kdf C (utf8 passphrase) salt) header n 0 b' = Inr (plain, []) \<and> length plain = m
    \<and> s' = s\<lparr>st_files := (st_files s)(dst \<mapsto> plain)\<rparr>"
  using assms
  by (cases "v2_fields prefix b")
    (auto simp: decrypt_v2_def derive_key_total v2_plain_def atomic_output_iff bindR_Inr_iff split: if_splits)

lemma accepted_prefix:
  assumes "decrypt_file C E blob dst passphrase s = (Inr (), s')"
    and "decrypt_file C E' (blob @ x) dst' passphrase r = (Inr (), r')" and "blob ! 4 = CRYPTER_VERSION"
  shows "x = []"
proof -
  let ?p = "take 5 blob"
  have l: "5 \<le> length blob" using assms(1) by (auto simp: decrypt_file_def Let_def split: if_splits)
  then have v: "?p ! 4 = CRYPTER_VERSION" "take 5 (blob @ x) = ?p" "drop 5 (blob @ x) = drop 5 blob @ x"
    using assms(3) by simp_all
  have d: "decrypt_v2 C E ?p (drop 5 blob) (length blob) dst passphrase s = (Inr (), s')"
    "decrypt_v2 C E' ?p (drop 5 blob @ x) (length (blob @ x)) dst' passphrase r = (Inr (), r')"
    using assms(1,2) unfolding decrypt_file_def Let_def v
    by (auto simp: VERSION_LEGACY_def CRYPTER_VERSION_def split: if_splits)
  obtain salt n m header b' plain where f: "v2_fields ?p (drop 5 blob) = Inr (salt, n, m, header, b')"
    "read_v2 (cr_aead C) (cr_kdf C (utf8 passphrase) salt) header n 0 b' = Inr (plain, [])"
    using decrypt_v2_ok [OF d(1)] by blast
  note f2 = v2_fields_append [OF f(1), of x] read_v2_append [OF f(2), of x]
  show ?thesis using decrypt_v2_ok [OF d(2)] f2 by auto
qed

text \<open>
  No accepted file is a part of another. When a version 2 file decrypts, cutting any bytes off its
  end, whole chunks included, or adding any, gives a file that does not decrypt under the passphrase.
\<close>

theorem crypter_prefix_free:
  assumes "decrypt_file C E blob dst passphrase s = (Inr (), s')" and "blob ! 4 = CRYPTER_VERSION" and "k < length blob"
  shows "fst (decrypt_file C E (take k blob) dst passphrase s) \<noteq> Inr ()
    \<and> fst (decrypt_file C E (blob @ y # ys) dst passphrase s) \<noteq> Inr ()"
proof
  show "fst (decrypt_file C E (take k blob) dst passphrase s) \<noteq> Inr ()"
  proof
    assume "fst (decrypt_file C E (take k blob) dst passphrase s) = Inr ()"
    then obtain r where r: "decrypt_file C E (take k blob) dst passphrase s = (Inr (), r)" by (metis prod.collapse)
    then have "5 \<le> length (take k blob)" by (auto simp: decrypt_file_def Let_def split: if_splits)
    then have "take k blob ! 4 = CRYPTER_VERSION" using assms(2) by simp
    moreover have "decrypt_file C E (take k blob @ drop k blob) dst passphrase s = (Inr (), s')" using assms(1) by simp
    ultimately have "drop k blob = []" using accepted_prefix [OF r] by blast
    then show False using assms(3) by simp
  qed
  show "fst (decrypt_file C E (blob @ y # ys) dst passphrase s) \<noteq> Inr ()"
    using accepted_prefix [OF assms(1) _ assms(2), of E "y # ys" dst s] by (metis list.distinct(1) prod.collapse)
qed

section \<open>Only sealed sequences are accepted\<close>

text \<open>A list of chunks written in order, the last one flagged final.\<close>

fun write_list :: "sealer \<Rightarrow> nat \<Rightarrow> bytes list \<Rightarrow> bytes py" where
  "write_list S idx [] = Inr []"
| "write_list S idx [p] = write_sealed S idx True p"
| "write_list S idx (p # ps) = bindR (write_sealed S idx False p) (\<lambda>a. bindR (write_list S (idx + 1) ps) (\<lambda>b. Inr (a @ b)))"

text \<open>GCM decryption is the inverse of encryption: what opens is what the key sealed.\<close>

definition aead_inverse :: "aead \<Rightarrow> bool" where
  "aead_inverse A \<longleftrightarrow> (\<forall>k n c a p. gcm_open A k n c a = Some p \<longrightarrow> c = gcm_seal A k n p a)"

lemma read_exact_split: "read_exact n b = Inr (x, y) \<Longrightarrow> b = x @ y \<and> length x = n"
  by (auto simp: read_exact_def split: if_splits)

lemma read_block_frame:
  assumes "read_block n b = Inr (final, block, b')"
  shows "\<exists>l. b = (if final then 1 else 0) # l @ block @ b' \<and> length l = 4 \<and> nat_of_be l = length block"
proof -
  obtain f c where b: "b = f # c" using assms by (cases b) (simp_all add: read_block_def)
  then have e: "f = (if final then 1 else 0)" "read_exact 4 c = Inr (take 4 c, drop 4 c)"
    "read_exact (nat_of_be (take 4 c)) (drop 4 c) = Inr (block, b')"
    using assms by (auto simp: read_block_def bindR_Inr_iff Let_def read_exact_def split: if_splits)
  then have "drop 4 c = block @ b'" "length block = nat_of_be (take 4 c)" "4 \<le> length c"
    using read_exact_split [OF e(3)] by (auto simp: read_exact_def split: if_splits)
  then show ?thesis using b e(1) append_take_drop_id [of 4 c] by (intro exI [of _ "take 4 c"]) simp
qed

lemma opened_block_written:
  assumes "read_block n b = Inr (final, block, b')" and "chunk_aad header idx final = Inr aad"
    and "open_block A key aad block = Inr p" and "aead_inverse A" and "nonces idx = take 12 block"
  shows "\<exists>out. write_sealed \<lparr>se_aead = A, se_key = key, se_header = header, se_nonce = nonces\<rparr> idx final p = Inr out \<and> b = out @ b'"
proof -
  obtain l where l: "b = (if final then 1 else 0) # l @ block @ b'" "length l = 4" "nat_of_be l = length block"
    using read_block_frame [OF assms(1)] by blast
  have "drop 12 block = gcm_seal A key (nonces idx) p aad"
    using assms(3,4,5) by (auto simp: open_block_def aead_inverse_def NONCE_LEN_def split: option.splits)
  then have s: "nonces idx @ gcm_seal A key (nonces idx) p aad = block" using assms(5) by (metis append_take_drop_id)
  have "pack_be 4 (length block) = Inr l"
    using l(2,3) nat_of_be_less [of l] be_of_nat_nat_of_be [OF l(2)] by (simp add: pack_be_Inr)
  then show ?thesis unfolding write_sealed_def Let_def sealer.select_convs assms(2) bindR_simps s
    by (simp add: l(1))
qed

lemma write_chunk_nonces:
  assumes "nonces idx = nonces' idx"
  shows "write_sealed \<lparr>se_aead = A, se_key = key, se_header = header, se_nonce = nonces\<rparr> idx final p
    = write_sealed \<lparr>se_aead = A, se_key = key, se_header = header, se_nonce = nonces'\<rparr> idx final p"
  using assms by (simp add: write_sealed_def)

lemma write_list_nonces:
  assumes "\<And>i. idx \<le> i \<Longrightarrow> nonces i = nonces' i"
  shows "write_list \<lparr>se_aead = A, se_key = key, se_header = header, se_nonce = nonces\<rparr> idx ps
    = write_list \<lparr>se_aead = A, se_key = key, se_header = header, se_nonce = nonces'\<rparr> idx ps"
  using assms
proof (induction ps arbitrary: idx)
  case (Cons p ps)
  have "write_sealed \<lparr>se_aead = A, se_key = key, se_header = header, se_nonce = nonces\<rparr> idx f p
      = write_sealed \<lparr>se_aead = A, se_key = key, se_header = header, se_nonce = nonces'\<rparr> idx f p" for f
    using Cons.prems by (intro write_chunk_nonces) simp
  then show ?case using Cons.IH [of "idx + 1"] Cons.prems by (cases ps) simp_all
qed simp

lemma read_v2_written:
  assumes "read_v2 A key header n idx b = Inr (plain, t)" and "aead_inverse A"
  shows "\<exists>nonces ps out. ps \<noteq> [] \<and> plain = concat ps \<and> b = out @ t
    \<and> write_list \<lparr>se_aead = A, se_key = key, se_header = header, se_nonce = nonces\<rparr> idx ps = Inr out"
  using assms
proof (induction A key header n idx b arbitrary: plain t rule: read_v2.induct)
  case (1 A key header n idx b)
  obtain final block r where b: "read_block n b = Inr (final, block, r)"
    using "1.prems" by (cases "read_block n b") (auto simp: read_v2.simps [of A key header n idx b])
  obtain q aad where q: "chunk_aad header idx final = Inr aad" "open_block A key aad block = Inr q"
    using "1.prems" by (auto simp: read_v2.simps [of A key header n idx b] b bindR_Inr_iff)
  show ?case
  proof (cases final)
    case True
    have "plain = q" "t = r" using "1.prems" b q True by (simp_all add: read_v2.simps [of A key header n idx b])
    moreover obtain out where "write_sealed \<lparr>se_aead = A, se_key = key, se_header = header, se_nonce = \<lambda>_. take 12 block\<rparr> idx final q
        = Inr out" "b = out @ r"
      using opened_block_written [OF b q "1.prems"(2), of "\<lambda>_. take 12 block"] by blast
    ultimately show ?thesis using True by (intro exI [of _ "\<lambda>_. take 12 block"] exI [of _ "[q]"] exI [of _ out]) simp
  next
    case False
    obtain q' where r: "read_v2 A key header n (idx + 1) r = Inr (q', t)" and plain: "plain = q @ q'"
      using "1.prems" b q False by (cases "read_v2 A key header n (idx + 1) r") (auto simp: read_v2.simps [of A key header n idx b])
    from "1.IH" [OF b refl refl False r "1.prems"(2)] obtain nonces ps out where
      o: "ps \<noteq> []" "q' = concat ps" "r = out @ t"
        "write_list \<lparr>se_aead = A, se_key = key, se_header = header, se_nonce = nonces\<rparr> (idx + 1) ps = Inr out" by blast
    let ?n = "nonces(idx := take 12 block)"
    obtain out1 where w: "write_sealed \<lparr>se_aead = A, se_key = key, se_header = header, se_nonce = ?n\<rparr> idx final q = Inr out1"
      "b = out1 @ r" using opened_block_written [OF b q "1.prems"(2), of ?n] by auto
    have "write_list \<lparr>se_aead = A, se_key = key, se_header = header, se_nonce = ?n\<rparr> (idx + 1) ps = Inr out"
      using o(4) write_list_nonces [of "idx + 1" ?n nonces] by simp
    then have "write_list \<lparr>se_aead = A, se_key = key, se_header = header, se_nonce = ?n\<rparr> idx (q # ps) = Inr (out1 @ out)"
      using o(1) w(1) False by (cases ps) simp_all
    moreover have "q # ps \<noteq> []" "plain = concat (q # ps)" "b = (out1 @ out) @ t" using o w(2) plain by simp_all
    ultimately show ?thesis by blast
  qed
qed

text \<open>
  C13: a version 2 file that decrypts is a header followed by exactly the sealed chunks of the bytes
  written, numbered from 0 without a gap, under the passphrase's key and that header, the last one and
  only it flagged final, and their length is the one the header declares. Reordering, duplicating,
  dropping or splicing chunks needs a seal under the key.
\<close>

theorem crypter_accepts_only_sealed:
  assumes "decrypt_file C E blob dst passphrase s = (Inr (), s')" and "blob ! 4 = CRYPTER_VERSION"
    and "aead_inverse (cr_aead C)"
  shows "\<exists>salt n header nonces ps out. v2_header salt n (length (concat ps)) = Inr header \<and> blob = header @ out \<and> ps \<noteq> []
    \<and> write_list \<lparr>se_aead = cr_aead C, se_key = cr_kdf C (utf8 passphrase) salt, se_header = header, se_nonce = nonces\<rparr> 0 ps = Inr out
    \<and> s' = s\<lparr>st_files := (st_files s)(dst \<mapsto> concat ps)\<rparr>"
proof -
  let ?p = "take 5 blob"
  have l: "5 \<le> length blob" "take 4 ?p = MAGIC" using assms(1) by (auto simp: decrypt_file_def Let_def split: if_splits)
  then have v: "?p ! 4 = CRYPTER_VERSION" using assms(2) by simp
  have p: "?p = MAGIC @ [CRYPTER_VERSION]"
    using l v take_Suc_conv_app_nth [of 4 ?p] by (simp add: numeral_eq_Suc)
  have d: "decrypt_v2 C E ?p (drop 5 blob) (length blob) dst passphrase s = (Inr (), s')"
    using assms(1) unfolding decrypt_file_def Let_def v
    by (auto simp: VERSION_LEGACY_def CRYPTER_VERSION_def split: if_splits)
  obtain salt n header b' plain where f: "v2_fields ?p (drop 5 blob) = Inr (salt, n, length plain, header, b')"
    "read_v2 (cr_aead C) (cr_kdf C (utf8 passphrase) salt) header n 0 b' = Inr (plain, [])"
    "s' = s\<lparr>st_files := (st_files s)(dst \<mapsto> plain)\<rparr>"
    using decrypt_v2_ok [OF d] by blast
  obtain b1 c b2 k where e: "read_exact SALT_LEN (drop 5 blob) = Inr (salt, b1)" "read_exact 4 b1 = Inr (c, b2)"
    "read_exact 8 b2 = Inr (k, b')" "n = nat_of_be c" "length plain = nat_of_be k" "header = ?p @ salt @ c @ k"
    using f(1) by (auto simp: v2_fields_def bindR_Inr_iff)
  note x = read_exact_split [OF e(1)] read_exact_split [OF e(2)] read_exact_split [OF e(3)]
  have "blob = ?p @ drop 5 blob" by simp
  then have blob: "blob = header @ b'" using x e(6) by simp
  have pk: "pack_be 4 n = Inr c" "pack_be 8 (length plain) = Inr k"
    using x nat_of_be_less [of c] nat_of_be_less [of k] be_of_nat_nat_of_be [of c 4] be_of_nat_nat_of_be [of k 8]
    by (simp_all add: pack_be_Inr e(4,5))
  have h: "v2_header salt n (length plain) = Inr header" by (simp add: v2_header_def pk e(6) p)
  from read_v2_written [OF f(2) assms(3)] obtain nonces ps out where o: "ps \<noteq> []" "plain = concat ps" "b' = out @ []"
    "write_list \<lparr>se_aead = cr_aead C, se_key = cr_kdf C (utf8 passphrase) salt, se_header = header, se_nonce = nonces\<rparr> 0 ps = Inr out"
    by blast
  have "blob = header @ out" using blob o(3) by simp
  then show ?thesis using h [unfolded o(2)] f(3) [unfolded o(2)] o(1,4) by blast
qed

text \<open>A failed step leaves every file as it was.\<close>

lemma crypter_failure_keeps_files:
  "encrypt_file C E salt nonces src sz dst passphrase n s = (Inl e, s') \<Longrightarrow> st_files s' = st_files s"
  "decrypt_file C E blob dst passphrase s = (Inl e, s') \<Longrightarrow> st_files s' = st_files s"
  by (auto simp: encrypt_file_def decrypt_file_def decrypt_v1_def decrypt_v2_def Let_def
      dest: atomic_output_fails split: if_splits sum.splits)

section \<open>An example\<close>

definition demo_crypter :: crypter where
  "demo_crypter = \<lparr>cr_aead = demo_aead, cr_kdf = \<lambda>p salt. take 32 (p @ salt @ zeros 32)\<rparr>"

definition demo_store :: store where
  "demo_store = \<lparr>st_files = Map.empty, st_left = 0\<rparr>"

definition demo_sealed :: "unit py \<times> store" where
  "demo_sealed = encrypt_file demo_crypter good_output (replicate 16 7) (\<lambda>i. replicate 12 (of_nat i)) [1, 2, 3, 4, 5] 5 ''c'' ''pw'' 2 demo_store"

definition demo_blob :: bytes where
  "demo_blob = (case st_files (snd demo_sealed) ''c'' of Some b \<Rightarrow> b | None \<Rightarrow> [])"

lemma demo_sealed_ok: "fst demo_sealed = Inr ()"
  by code_simp

lemma demo_blob_facts: "length demo_blob = 137 \<and> demo_blob ! 4 = CRYPTER_VERSION"
  by code_simp

lemma demo_opens: "fst (decrypt_file demo_crypter good_output demo_blob ''p'' ''pw'' demo_store) = Inr ()"
  by code_simp

lemma demo_aead_inverse: "aead_inverse demo_aead"
  unfolding aead_inverse_def demo_aead_def
  by (auto simp: Let_def split: if_splits) (metis append_take_drop_id)

lemma crypter_roundtrip_witness:
  "\<exists>blob. snd demo_sealed = demo_store\<lparr>st_files := (st_files demo_store)(''c'' \<mapsto> blob)\<rparr>
    \<and> decrypt_file demo_crypter good_output blob ''p'' ''pw'' (snd demo_sealed)
      = (Inr (), (snd demo_sealed)\<lparr>st_files := (st_files (snd demo_sealed))(''p'' \<mapsto> [1, 2, 3, 4, 5])\<rparr>)"
proof -
  have "demo_sealed = (Inr (), snd demo_sealed)" using demo_sealed_ok by (metis prod.collapse)
  then have e: "encrypt_file demo_crypter good_output (replicate 16 7) (\<lambda>i. replicate 12 (of_nat i)) [1, 2, 3, 4, 5]
      (length [1, 2, 3, 4, 5 :: byte]) ''c'' ''pw'' 2 demo_store = (Inr (), snd demo_sealed)"
    unfolding demo_sealed_def by (simp add: numeral_eq_Suc)
  show ?thesis
    by (rule crypter_roundtrip [OF e]) (simp_all add: demo_crypter_def demo_aead_ok good_output_def upt_rec)
qed

lemma crypter_prefix_free_witness:
  "fst (decrypt_file demo_crypter good_output (take 91 demo_blob) ''p'' ''pw'' demo_store) \<noteq> Inr ()
   \<and> fst (decrypt_file demo_crypter good_output (demo_blob @ [0]) ''p'' ''pw'' demo_store) \<noteq> Inr ()"
proof -
  obtain s' where "decrypt_file demo_crypter good_output demo_blob ''p'' ''pw'' demo_store = (Inr (), s')"
    using demo_opens by (metis prod.collapse)
  then show ?thesis by (rule crypter_prefix_free) (simp_all add: demo_blob_facts)
qed

lemma crypter_accepts_only_sealed_witness:
  "\<exists>salt n header nonces ps out. v2_header salt n (length (concat ps)) = Inr header \<and> demo_blob = header @ out \<and> ps \<noteq> []
    \<and> write_list \<lparr>se_aead = demo_aead, se_key = cr_kdf demo_crypter (utf8 ''pw'') salt, se_header = header, se_nonce = nonces\<rparr> 0 ps = Inr out"
proof -
  obtain s' where d: "decrypt_file demo_crypter good_output demo_blob ''p'' ''pw'' demo_store = (Inr (), s')"
    using demo_opens by (metis prod.collapse)
  have a: "cr_aead demo_crypter = demo_aead" by (simp add: demo_crypter_def)
  have "aead_inverse (cr_aead demo_crypter)" by (simp add: a demo_aead_inverse)
  from crypter_accepts_only_sealed [OF d demo_blob_facts [THEN conjunct2] this] show ?thesis unfolding a by blast
qed

end
