(* ===== verification/Splitter.thy ===== *)
theory Splitter
  imports AtomicFile
begin

text \<open>
  \<open>core/splitter.py\<close>: a file cut into numbered parts beside its SHA-1, and parts merged back. A path
  is a directory and a name; a directory tree is the map of its files. SHA-1 is a parameter that gives
  the hexadecimal digest; the file system answers whether two paths are one file, and each output.
\<close>

section \<open>Names\<close>

definition path_in :: "string \<Rightarrow> string \<Rightarrow> string" where
  "path_in d n = d @ ''/'' @ n"

definition part_name :: "string \<Rightarrow> nat \<Rightarrow> nat \<Rightarrow> string" where
  "part_name base i n = base @ ''.part'' @ show_nat i @ ''-'' @ show_nat n"

definition sha_name :: "string \<Rightarrow> string" where
  "sha_name base = base @ ''.sha1''"

definition split_last_dot :: "string \<Rightarrow> (string \<times> string) option" where
  "split_last_dot s = (case partition_at (CHR ''.'') (rev s) of (t, found, h) \<Rightarrow> if found then Some (rev h, rev t) else None)"

definition digits :: "string \<Rightarrow> bool" where
  "digits s \<longleftrightarrow> s \<noteq> [] \<and> list_all is_digit s"

text \<open>
  The pattern of a part name: the base and the digits of the total. The numbers hold no dot, so the
  greedy base ends at the last one; the base holds no line break, and the end anchor allows one after
  the total.
\<close>

definition match_part :: "string \<Rightarrow> (string \<times> string) option" where
  "match_part name =
    (case split_last_dot name of
       None \<Rightarrow> None
     | Some (base, ext) \<Rightarrow>
         if base = [] \<or> CHR 0x0A \<in> set base \<or> \<not> starts_with ''part'' ext then None
         else (case partition_at (CHR ''-'') (drop 4 ext) of (idx, found, t) \<Rightarrow>
           let num = (if t \<noteq> [] \<and> last t = CHR 0x0A then butlast t else t)
           in if found \<and> digits idx \<and> digits num then Some (base, num) else None))"

section \<open>Splitting\<close>

type_synonym sha1 = "bytes \<Rightarrow> string"

record split_env =
  sp_same :: "string \<Rightarrow> string \<Rightarrow> bool"
  sp_mkdir :: bool
  sp_out :: "nat \<Rightarrow> out_env"
  sp_unlink :: "string \<Rightarrow> bool"

definition reject_aliases :: "split_env \<Rightarrow> string list \<Rightarrow> string list \<Rightarrow> unit py" where
  "reject_aliases E outputs inputs =
    (if list_ex (\<lambda>out. list_ex (sp_same E out) inputs) outputs then raise SplitterAliasError else Inr ())"

record split_result =
  sr_parts :: "string list"
  sr_sha1 :: string
  sr_total :: nat

text \<open>One part after another, each through its own temporary file.\<close>

fun write_parts :: "split_env \<Rightarrow> nat \<Rightarrow> nat \<Rightarrow> string list \<Rightarrow> bytes \<Rightarrow> store \<Rightarrow> unit py \<times> store" where
  "write_parts E k part_bytes [] rest s = (Inr (), s)"
| "write_parts E k part_bytes (p # ps) rest s =
    (case atomic_output (sp_out E k) p (Inr (take part_bytes rest)) s of
       (Inl e, s) \<Rightarrow> (Inl e, s)
     | (Inr _, s) \<Rightarrow> write_parts E (k + 1) part_bytes ps (drop part_bytes rest) s)"

text \<open>\<open>fsize\<close> is what \<open>stat\<close> says of the source, which is read afterwards.\<close>

definition split_file ::
  "split_env \<Rightarrow> sha1 \<Rightarrow> string \<Rightarrow> string \<Rightarrow> int \<Rightarrow> nat \<Rightarrow> string \<Rightarrow> store \<Rightarrow> split_result py \<times> store" where
  "split_file E H d name part_size_mb fsize out_dir s =
    (if part_size_mb \<le> 0 then (raise SplitterError, s)
     else case st_files s (path_in d name) of
         None \<Rightarrow> (raise SplitterError, s)
       | Some content \<Rightarrow>
          (let part_bytes = nat part_size_mb * (1024 * 1024);
               num_parts = (fsize + part_bytes - 1) div part_bytes;
               parts = map (\<lambda>i. path_in out_dir (part_name name i num_parts)) [1..<num_parts + 1];
               sha_path = path_in out_dir (sha_name name)
           in if fsize = 0 then (raise SplitterError, s)
              else if \<not> sp_mkdir E then (raise OSError, s)
              else case reject_aliases E (parts @ [sha_path]) [path_in d name] of
                  Inl e \<Rightarrow> (Inl e, s)
                | Inr _ \<Rightarrow>
                   (case write_parts E 0 part_bytes parts content s of
                      (Inl e, s) \<Rightarrow> (Inl e, s)
                    | (Inr _, s) \<Rightarrow>
                       (let digest = H (take (num_parts * part_bytes) content)
                        in case atomic_output (sp_out E num_parts) sha_path (Inr (utf8 (digest @ [CHR 0x0A]))) s of
                             (Inl e, s) \<Rightarrow> (Inl e, s)
                           | (Inr _, s) \<Rightarrow> (Inr \<lparr>sr_parts = parts, sr_sha1 = digest, sr_total = fsize\<rparr>, s)))))"

section \<open>Merging\<close>

definition read_ascii :: "bytes \<Rightarrow> string py" where
  "read_ascii b = (if list_all (\<lambda>x. unat x < 128) b then Inr (map (\<lambda>x. char_of (unat x)) b) else raise UnicodeError)"

text \<open>The first word of the file, in lower case; a blank file has none.\<close>

definition expected_sha :: "bytes \<Rightarrow> string py" where
  "expected_sha b =
    bindR (read_ascii b) (\<lambda>t.
      case strip t of [] \<Rightarrow> raise IndexError | w \<Rightarrow> Inr (lower (takeWhile (\<lambda>c. \<not> is_ws c) w)))"

definition wanted_sha :: "bool \<Rightarrow> bytes option \<Rightarrow> string option py" where
  "wanted_sha verify_sha1 sha_file =
    (if verify_sha1 then (case sha_file of None \<Rightarrow> Inr None | Some b \<Rightarrow> bindR (expected_sha b) (\<lambda>w. Inr (Some w)))
     else Inr None)"

definition merged_body :: "sha1 \<Rightarrow> string option \<Rightarrow> bytes \<Rightarrow> bytes py" where
  "merged_body H expected content =
    (if expected \<noteq> None \<and> expected \<noteq> Some (lower (H content)) then raise SplitterError else Inr content)"

definition unlink_all :: "split_env \<Rightarrow> string list \<Rightarrow> store \<Rightarrow> store" where
  "unlink_all E ps s = s\<lparr>st_files := (\<lambda>p. if p \<in> set ps \<and> sp_unlink E p then None else st_files s p)\<rparr>"

definition merge_parts ::
  "split_env \<Rightarrow> sha1 \<Rightarrow> string \<Rightarrow> string \<Rightarrow> string option \<Rightarrow> bool \<Rightarrow> bool \<Rightarrow> store \<Rightarrow> string py \<times> store" where
  "merge_parts E H d first_part out verify_sha1 delete_parts s =
    (case match_part first_part of
       None \<Rightarrow> (raise SplitterError, s)
     | Some (base, num) \<Rightarrow>
        (case py_int num of
           None \<Rightarrow> (raise ValueError, s)
         | Some n \<Rightarrow>
        (let parts = map (\<lambda>i. path_in d (part_name base i (nat n))) [1..<nat n + 1];
             target = (case out of Some t \<Rightarrow> t | None \<Rightarrow> path_in d base);
             sha_file = path_in d (sha_name base)
         in if list_ex (\<lambda>p. st_files s p = None) parts then (raise SplitterError, s)
            else case reject_aliases E [target] (parts @ [sha_file]) of
                Inl e \<Rightarrow> (Inl e, s)
              | Inr _ \<Rightarrow>
                 (case wanted_sha verify_sha1 (st_files s sha_file) of
                    Inl e \<Rightarrow> (Inl e, s)
                  | Inr expected \<Rightarrow>
                     (case atomic_output (sp_out E 0) target
                             (merged_body H expected (concat (map (\<lambda>p. the (st_files s p)) parts))) s of
                        (Inl e, s) \<Rightarrow> (Inl e, s)
                      | (Inr _, s) \<Rightarrow>
                          (Inr target, if delete_parts then unlink_all E (parts @ [sha_file]) s else s))))))"

section \<open>What the parts hold\<close>

lemma show_nat_inj: "show_nat i = show_nat j \<longleftrightarrow> i = j"
  using digits_val_show_nat by metis

lemma part_name_inj: "part_name base i n = part_name base j n \<longleftrightarrow> i = j"
  by (auto simp: part_name_def show_nat_inj)

lemma part_not_sha: "part_name base i n \<noteq> sha_name base"
  by (simp add: part_name_def sha_name_def)

lemma distinct_parts: "distinct (map (\<lambda>i. path_in d (part_name base i n)) is) \<longleftrightarrow> distinct is"
  by (auto simp: distinct_map inj_on_def path_in_def part_name_inj)

lemma write_parts_writes:
  assumes "write_parts E k b ps rest s = (Inr u, s')" and "distinct ps"
  shows "(\<forall>i < length ps. st_files s' (ps ! i) = Some (take b (drop (i * b) rest)))
    \<and> (\<forall>p. p \<notin> set ps \<longrightarrow> st_files s' p = st_files s p)"
  using assms
proof (induction E k b ps rest s arbitrary: s' rule: write_parts.induct)
  case (2 E k b p ps rest s)
  let ?out = "atomic_output (sp_out E k) p (Inr (take b rest)) s"
  obtain s1 where out: "?out = (Inr (), s1)" and rec: "write_parts E (k + 1) b ps (drop b rest) s1 = (Inr u, s')"
    using "2.prems"(1) by (auto split: prod.splits sum.splits)
  have s1: "s1 = s\<lparr>st_files := (st_files s)(p \<mapsto> take b rest)\<rparr>"
    using out by (auto simp: atomic_output_iff)
  have fresh: "p \<notin> set ps" "distinct ps" using "2.prems"(2) by auto
  have IH: "\<forall>i < length ps. st_files s' (ps ! i) = Some (take b (drop (i * b) (drop b rest)))"
    "\<forall>q. q \<notin> set ps \<longrightarrow> st_files s' q = st_files s1 q"
    using "2.IH" [OF out [symmetric] refl rec fresh(2)] by auto
  show ?case
  proof (intro conjI allI impI)
    fix i assume i: "i < length (p # ps)"
    show "st_files s' ((p # ps) ! i) = Some (take b (drop (i * b) rest))"
    proof (cases i)
      case 0
      then show ?thesis using IH(2) fresh by (simp add: s1)
    next
      case (Suc j)
      then show ?thesis using IH(1) i by (simp add: add.commute)
    qed
  next
    fix q assume "q \<notin> set (p # ps)"
    then show "st_files s' q = st_files s q" using IH(2) by (simp add: s1)
  qed
qed simp

lemma concat_pieces: "concat (map (\<lambda>i. take b (drop (i * b) xs)) [0..<n]) = take (n * b) xs"
proof (induction n)
  case (Suc n)
  have "take (n * b) xs @ take b (drop (n * b) xs) = take (n * b + b) xs" by (simp add: take_add)
  then show ?case using Suc by (simp add: add.commute)
qed simp

section \<open>Names read back\<close>

lemma digit_char_in: "d < 10 \<Longrightarrow> digit_char d \<in> set ''0123456789''"
proof -
  have "list_all (\<lambda>d. digit_char d \<in> set ''0123456789'') [0..<10]" by code_simp
  then show "d < 10 \<Longrightarrow> digit_char d \<in> set ''0123456789''" by (auto simp only: list_all_iff set_upt atLeastLessThan_iff)
qed

lemma show_nat_in: "c \<in> set (show_nat n) \<Longrightarrow> c \<in> set ''0123456789''"
  using show_nat_digits digit_char_in by blast

lemma show_nat_apart: "CHR ''.'' \<notin> set (show_nat n)" "CHR ''-'' \<notin> set (show_nat n)" "CHR 0x0A \<notin> set (show_nat n)"
  by (auto dest!: show_nat_in)

lemma digits_show_nat: "digits (show_nat n)"
  by (auto simp: digits_def show_nat_nonempty list_all_iff is_digit_def dest!: show_nat_in)

lemma match_part_name:
  assumes "base \<noteq> []" and "CHR 0x0A \<notin> set base"
  shows "match_part (part_name base i n) = Some (base, show_nat n)"
proof -
  have ext: "CHR ''.'' \<notin> set (rev (''part'' @ show_nat i @ ''-'' @ show_nat n))"
    by (simp add: show_nat_apart)
  have "rev (part_name base i n) = rev (''part'' @ show_nat i @ ''-'' @ show_nat n) @ CHR ''.'' # rev base"
    by (simp add: part_name_def)
  then have "partition_at (CHR ''.'') (rev (part_name base i n))
      = (rev (''part'' @ show_nat i @ ''-'' @ show_nat n), True, rev base)"
    using partition_at_found [OF ext] by metis
  then have split: "split_last_dot (part_name base i n) = Some (base, ''part'' @ show_nat i @ ''-'' @ show_nat n)"
    by (simp add: split_last_dot_def)
  have dash: "partition_at (CHR ''-'') (show_nat i @ CHR ''-'' # show_nat n) = (show_nat i, True, show_nat n)"
    by (rule partition_at_found) (rule show_nat_apart)
  have nl: "last (show_nat n) \<noteq> CHR 0x0A"
    using show_nat_apart(3) [of n] last_in_set [OF show_nat_nonempty] by metis
  show ?thesis
    using assms by (simp add: match_part_def split dash nl digits_show_nat starts_with_def show_nat_nonempty)
qed

lemma py_int_total: "length (show_nat n) \<le> max_str_digits \<Longrightarrow> py_int (show_nat n) = Some (int n)"
  using py_int_show_int [of "int n"] by (simp add: show_int_def)

section \<open>The checksum file\<close>

definition hex_digest :: "string \<Rightarrow> bool" where
  "hex_digest s \<longleftrightarrow> s \<noteq> [] \<and> list_all (\<lambda>c. c \<in> set ''0123456789abcdef'') s"

lemma hex_digit_facts:
  assumes "c \<in> set ''0123456789abcdef''"
  shows "(of_char c :: nat) < 128" "\<not> is_ws c" "lower_char c = c"
  using assms by (auto simp: is_ws_def lower_char_def)

lemma utf8_ascii: "\<forall>c \<in> set s. (of_char c :: nat) < 128 \<Longrightarrow> utf8 s = map (\<lambda>c. of_nat (of_char c)) s"
  by (induction s) (auto simp: utf8_def utf8_char_def Let_def)

lemma read_ascii_utf8:
  assumes "\<forall>c \<in> set s. (of_char c :: nat) < 128"
  shows "read_ascii (utf8 s) = Inr s"
proof -
  have "\<forall>c \<in> set s. unat (of_nat (of_char c) :: byte) = of_char c"
    using assms by (auto simp: unat_of_nat)
  then show ?thesis
    using assms by (simp add: read_ascii_def utf8_ascii list_all_iff comp_def map_idI)
qed

lemma expected_sha_digest:
  assumes "hex_digest s"
  shows "expected_sha (utf8 (s @ [CHR 0x0A])) = Inr s"
proof -
  have all: "\<forall>c \<in> set s. c \<in> set ''0123456789abcdef''" using assms unfolding hex_digest_def list_all_iff by blast
  have ne: "s \<noteq> []" using assms by (simp add: hex_digest_def)
  have facts: "\<forall>c \<in> set s. (of_char c :: nat) < 128" "\<forall>c \<in> set s. \<not> is_ws c" "\<forall>c \<in> set s. lower_char c = c"
    using all hex_digit_facts by blast+
  have read: "read_ascii (utf8 (s @ [CHR 0x0A])) = Inr (s @ [CHR 0x0A])"
    by (rule read_ascii_utf8) (use facts(1) in auto)
  have nl: "is_ws (CHR 0x0A)" by (simp add: is_ws_def)
  have left: "dropWhile is_ws (s @ [CHR 0x0A]) = s @ [CHR 0x0A]"
    using ne facts(2) by (cases s) auto
  have right: "dropWhile is_ws (rev s) = rev s"
    using ne facts(2) by (cases "rev s" ) (auto dest: arg_cong [where f = set])
  have strip: "strip (s @ [CHR 0x0A]) = s"
    by (simp add: strip_def lstrip_by_def rstrip_by_def left right nl)
  have word: "takeWhile (\<lambda>c. \<not> is_ws c) s = s" using facts(2) by (simp add: takeWhile_eq_all_conv)
  have low: "lower s = s" using facts(3) by (simp add: lower_def map_idI)
  show ?thesis
    unfolding expected_sha_def read bindR_simps strip using ne word low by (cases s) auto
qed

section \<open>Split and merge\<close>

text \<open>What a split that returns leaves in the directory.\<close>

lemma split_file_leaves:
  assumes "split_file E H d name mb fsize out_dir s = (Inr r, s')"
    and "st_files s (path_in d name) = Some content" and "length content = fsize"
  defines "b \<equiv> nat mb * (1024 * 1024)"
  defines "n \<equiv> (fsize + b - 1) div b"
  shows "0 < fsize" and "0 < n" and "n \<le> fsize" and "fsize \<le> n * b"
    and "sr_parts r = map (\<lambda>i. path_in out_dir (part_name name i n)) [1..<n + 1]" and "sr_sha1 r = H content"
    and "\<forall>i < n. st_files s' (path_in out_dir (part_name name (i + 1) n)) = Some (take b (drop (i * b) content))"
    and "st_files s' (path_in out_dir (sha_name name)) = Some (utf8 (H content @ [CHR 0x0A]))"
    and "\<forall>p. p \<notin> set (sr_parts r) \<and> p \<noteq> path_in out_dir (sha_name name) \<longrightarrow> st_files s' p = st_files s p"
proof -
  let ?parts = "map (\<lambda>i. path_in out_dir (part_name name i n)) [1..<n + 1]"
  let ?sha = "path_in out_dir (sha_name name)"
  obtain s1 where mb: "0 < mb" and size: "0 < fsize"
    and parts: "write_parts E 0 b ?parts content s = (Inr (), s1)"
    and sha: "atomic_output (sp_out E n) ?sha (Inr (utf8 (H (take (n * b) content) @ [CHR 0x0A]))) s1 = (Inr (), s')"
    and r: "r = \<lparr>sr_parts = ?parts, sr_sha1 = H (take (n * b) content), sr_total = fsize\<rparr>"
    using assms(1,2) unfolding split_file_def b_def n_def
    by (auto simp: Let_def simp del: map_upt_Suc upt_Suc split: if_splits sum.splits prod.splits option.splits)
  have b: "0 < b" using mb by (simp add: b_def)
  show "0 < fsize" by (rule size)
  show n: "0 < n" using size b by (simp add: n_def div_greater_zero_iff)
  show le: "fsize \<le> n * b"
  proof -
    have "fsize + b - 1 < n * b + b"
      using b dividend_less_div_times [of b "fsize + b - 1"] by (simp add: n_def)
    then show ?thesis by simp
  qed
  show "n \<le> fsize"
  proof -
    have "fsize + b - 1 \<le> fsize * b" using size b by (cases fsize; cases b) auto
    then have "n \<le> fsize * b div b" unfolding n_def by (rule div_le_mono)
    then show ?thesis using b by simp
  qed
  have all: "take (n * b) content = content" using le assms(3) by simp
  show "sr_parts r = ?parts" and "sr_sha1 r = H content" by (simp_all add: r all)
  have dist: "distinct ?parts" by (simp add: distinct_parts del: map_upt_Suc upt_Suc)
  note w = write_parts_writes [OF parts dist]
  have s': "st_files s' = (st_files s1)(?sha \<mapsto> utf8 (H content @ [CHR 0x0A]))"
    using sha by (auto simp: atomic_output_iff all)
  show "st_files s' ?sha = Some (utf8 (H content @ [CHR 0x0A]))" by (simp add: s')
  show "\<forall>i < n. st_files s' (path_in out_dir (part_name name (i + 1) n)) = Some (take b (drop (i * b) content))"
  proof (intro allI impI)
    fix i assume i: "i < n"
    then have "?parts ! i = path_in out_dir (part_name name (i + 1) n)"
      by (simp del: map_upt_Suc upt_Suc)
    moreover have "st_files s1 (?parts ! i) = Some (take b (drop (i * b) content))" using w i by simp
    ultimately show "st_files s' (path_in out_dir (part_name name (i + 1) n)) = Some (take b (drop (i * b) content))"
      by (simp add: s' path_in_def part_not_sha)
  qed
  show "\<forall>p. p \<notin> set (sr_parts r) \<and> p \<noteq> ?sha \<longrightarrow> st_files s' p = st_files s p"
    using w by (simp add: s' r)
qed

lemma reject_aliases_iff:
  "reject_aliases E outs ins = Inr u \<longleftrightarrow> (\<forall>out \<in> set outs. \<forall>i \<in> set ins. \<not> sp_same E out i)"
  by (auto simp: reject_aliases_def list_ex_iff)

text \<open>The merge of the parts a split left, in whatever directory state follows it.\<close>

lemma merge_of_split:
  assumes split: "split_file E H d name mb fsize out_dir s = (Inr r, s1)"
    and content: "st_files s (path_in d name) = Some content" "length content = fsize"
    and name: "name \<noteq> []" "CHR 0x0A \<notin> set name" and small: "length (show_nat (length (sr_parts r))) \<le> max_str_digits"
    and digest: "hex_digest (H content)"
    and apart: "\<forall>p \<in> set (sr_parts r @ [path_in out_dir (sha_name name)]). \<not> sp_same E' target p \<and> p \<noteq> target"
    and out: "sp_out E' 0 = good_output"
  shows "\<exists>s2. merge_parts E' H out_dir (part_name name i (length (sr_parts r))) (Some target) True del s1 = (Inr target, s2)
    \<and> st_files s2 target = Some content"
proof -
  note L = split_file_leaves [OF split content]
  define b where "b = nat mb * (1024 * 1024)"
  define n where "n = (fsize + b - 1) div b"
  note L = L [folded b_def, folded n_def]
  have n: "length (sr_parts r) = n" by (simp add: L(5))
  let ?parts = "map (\<lambda>i. path_in out_dir (part_name name i n)) [1..<n + 1]"
  have held: "st_files s1 (path_in out_dir (part_name name (Suc i) n)) = Some (take b (drop (i * b) content))" if "i < n" for i
    using L(7) that by simp
  have idx: "[1..<n + 1] = map Suc [0..<n]" by (simp add: map_Suc_upt)
  have there: "\<not> list_ex (\<lambda>p. st_files s1 p = None) ?parts"
    unfolding idx by (auto simp: list_ex_iff held)
  have "map (\<lambda>p. the (st_files s1 p)) ?parts = map (\<lambda>i. take b (drop (i * b) content)) [0..<n]"
    unfolding idx by (simp add: held)
  then have body: "concat (map (\<lambda>p. the (st_files s1 p)) ?parts) = content"
    using L(4) content(2) by (simp add: concat_pieces)
  have free: "reject_aliases E' [target] (?parts @ [path_in out_dir (sha_name name)]) = Inr ()"
    using apart L(5) by (auto simp: reject_aliases_iff)
  have wanted: "wanted_sha True (st_files s1 (path_in out_dir (sha_name name))) = Inr (Some (H content))"
    by (simp add: wanted_sha_def L(8) expected_sha_digest [OF digest])
  have "lower (H content) = H content"
    using digest hex_digit_facts(3) unfolding hex_digest_def list_all_iff lower_def by (auto intro!: map_idI)
  then have ok: "merged_body H (Some (H content)) content = Inr content" by (simp add: merged_body_def)
  have num: "py_int (show_nat n) = Some (int n)" using small n by (simp add: py_int_total)
  let ?s2 = "s1\<lparr>st_files := (st_files s1)(target \<mapsto> content)\<rparr>"
  have "merge_parts E' H out_dir (part_name name i n) (Some target) True del s1
      = (Inr target, if del then unlink_all E' (?parts @ [path_in out_dir (sha_name name)]) ?s2 else ?s2)"
    unfolding merge_parts_def match_part_name [OF name] option.case prod.case num nat_int Let_def
    by (simp only: there free wanted body ok if_False sum.case out good_output_writes prod.case)
  moreover have "target \<notin> set (?parts @ [path_in out_dir (sha_name name)])"
    using apart L(5) by auto
  ultimately show ?thesis unfolding n by (auto simp: unlink_all_def simp del: map_upt_Suc upt_Suc)
qed

text \<open>
  C33: A file that is split and merged again, from any of its parts and whatever the part size, is the
  same file; the merge passes the checksum the split wrote.
\<close>

theorem split_merge_roundtrip:
  assumes "split_file E H d name mb (length content) out_dir s = (Inr r, s1)"
    and "st_files s (path_in d name) = Some content"
    and "name \<noteq> []" and "CHR 0x0A \<notin> set name" and "length (show_nat (length (sr_parts r))) \<le> max_str_digits"
    and "hex_digest (H content)"
    and "\<forall>p \<in> set (sr_parts r @ [path_in out_dir (sha_name name)]). \<not> sp_same E' target p \<and> p \<noteq> target"
    and "sp_out E' 0 = good_output"
  shows "\<exists>s2. merge_parts E' H out_dir (part_name name i (length (sr_parts r))) (Some target) True del s1 = (Inr target, s2)
    \<and> st_files s2 target = Some content"
  by (rule merge_of_split [OF assms(1,2) refl assms(3-8)])

definition demo_sha1 :: sha1 where
  "demo_sha1 b = (if even (length b) then ''0a'' else ''1b'')"

definition demo_split_env :: split_env where
  "demo_split_env = \<lparr>sp_same = (=), sp_mkdir = True, sp_out = \<lambda>_. good_output, sp_unlink = \<lambda>_. True\<rparr>"

definition demo_store :: store where
  "demo_store = \<lparr>st_files = [''in/a.zip'' \<mapsto> [7, 8, 9]], st_left = 0\<rparr>"

lemma demo_split:
  "split_file demo_split_env demo_sha1 ''in'' ''a.zip'' 1 3 ''out'' demo_store
    = (Inr \<lparr>sr_parts = [''out/a.zip.part1-1''], sr_sha1 = ''1b'', sr_total = 3\<rparr>,
       \<lparr>st_files = [''in/a.zip'' \<mapsto> [7, 8, 9], ''out/a.zip.part1-1'' \<mapsto> [7, 8, 9], ''out/a.zip.sha1'' \<mapsto> [49, 98, 10]], st_left = 0\<rparr>)"
proof -
  have n: "show_nat (Suc 0) = ''1''" by code_simp
  have bytes: "utf8 [CHR ''1'', CHR ''b'', CHR 0x0A] = [49, 98, 10]" by (simp add: utf8_def utf8_char_def)
  show ?thesis
    by (simp add: split_file_def demo_split_env_def demo_sha1_def demo_store_def path_in_def part_name_def sha_name_def
        reject_aliases_def good_output_writes n bytes upt_rec fun_eq_iff)
qed

theorem split_merge_roundtrip_witness:
  "\<exists>s2. merge_parts demo_split_env demo_sha1 ''out'' (part_name ''a.zip'' 1 1) (Some ''b.zip'') True True
      (snd (split_file demo_split_env demo_sha1 ''in'' ''a.zip'' 1 3 ''out'' demo_store)) = (Inr ''b.zip'', s2)
    \<and> st_files s2 ''b.zip'' = Some [7, 8, 9]"
proof -
  let ?r = "\<lparr>sr_parts = [''out/a.zip.part1-1''], sr_sha1 = ''1b'', sr_total = 3\<rparr>"
  let ?s1 = "snd (split_file demo_split_env demo_sha1 ''in'' ''a.zip'' 1 3 ''out'' demo_store)"
  have one: "length (sr_parts ?r) = 1" by simp
  have num: "length (show_nat 1) \<le> max_str_digits" by code_simp
  have three: "length [7, 8, 9 :: byte] = 3" by simp
  have split: "split_file demo_split_env demo_sha1 ''in'' ''a.zip'' 1 (length [7, 8, 9 :: byte]) ''out'' demo_store = (Inr ?r, ?s1)"
    unfolding three demo_split by simp
  show ?thesis
    using split_merge_roundtrip [OF split, of demo_split_env "''b.zip''" 1 True, unfolded one, OF _ _ _ num]
    by (simp add: demo_store_def demo_split_env_def demo_sha1_def path_in_def sha_name_def hex_digest_def)
qed

section \<open>A merge is all or nothing\<close>

text \<open>
  A merge that raises leaves every file as it was. One that returns found every part of the named
  total, left at the target the parts in order, and, where there is a checksum file, that content has
  the checksum.
\<close>

theorem merge_all_or_nothing:
  assumes "\<And>p. sp_same E p p"
    and "merge_parts E H d first out verify_sha1 del s = (res, s')"
  shows "case res of Inl e \<Rightarrow> st_files s' = st_files s
    | Inr target \<Rightarrow> \<exists>base num n content.
        match_part first = Some (base, num) \<and> py_int num = Some n
        \<and> mapR (\<lambda>i. case st_files s (path_in d (part_name base i (nat n))) of None \<Rightarrow> Inl i | Some b \<Rightarrow> Inr b) [1..<nat n + 1] = Inr content
        \<and> st_files s' target = Some (concat content)
        \<and> (verify_sha1 \<longrightarrow> (\<forall>b. st_files s (path_in d (sha_name base)) = Some b \<longrightarrow> expected_sha b = Inr (lower (H (concat content)))))"
proof (cases res)
  case (Inl e)
  then show ?thesis
    using assms(2) unfolding merge_parts_def
    by (auto simp: Let_def simp del: map_upt_Suc upt_Suc dest: atomic_output_fails split: option.splits sum.splits prod.splits if_splits)
next
  case (Inr target)
  obtain base num n expected s1 where m: "match_part first = Some (base, num)" "py_int num = Some n"
    and target: "target = (case out of Some t \<Rightarrow> t | None \<Rightarrow> path_in d base)"
    and there: "\<not> list_ex (\<lambda>p. st_files s p = None) (map (\<lambda>i. path_in d (part_name base i (nat n))) [1..<nat n + 1])"
    and free: "reject_aliases E [target] (map (\<lambda>i. path_in d (part_name base i (nat n))) [1..<nat n + 1] @ [path_in d (sha_name base)]) = Inr ()"
    and want: "wanted_sha verify_sha1 (st_files s (path_in d (sha_name base))) = Inr expected"
    and w: "atomic_output (sp_out E 0) target
      (merged_body H expected (concat (map (\<lambda>p. the (st_files s p)) (map (\<lambda>i. path_in d (part_name base i (nat n))) [1..<nat n + 1])))) s = (Inr (), s1)"
    and s': "s' = (if del then unlink_all E (map (\<lambda>i. path_in d (part_name base i (nat n))) [1..<nat n + 1] @ [path_in d (sha_name base)]) s1 else s1)"
    using assms(2) Inr unfolding merge_parts_def
    by (auto simp: Let_def simp del: map_upt_Suc upt_Suc split: option.splits sum.splits prod.splits if_splits)
  let ?paths = "map (\<lambda>i. path_in d (part_name base i (nat n))) [1..<nat n + 1]"
  let ?content = "map (\<lambda>p. the (st_files s p)) ?paths"
  have read: "mapR (\<lambda>i. case st_files s (path_in d (part_name base i (nat n))) of None \<Rightarrow> Inl i | Some b \<Rightarrow> Inr b) is
      = Inr (map (\<lambda>i. the (st_files s (path_in d (part_name base i (nat n))))) is)"
    if "\<not> list_ex (\<lambda>p. st_files s p = None) (map (\<lambda>i. path_in d (part_name base i (nat n))) is)" for "is"
    using that by (induction "is") auto
  have body: "merged_body H expected (concat ?content) = Inr (concat ?content)"
    and s1: "st_files s1 = (st_files s)(target \<mapsto> concat ?content)"
    using w by (auto simp: atomic_output_iff merged_body_def split: if_splits)
  have kept: "target \<notin> set (?paths @ [path_in d (sha_name base)])"
    using free assms(1) unfolding reject_aliases_iff by auto
  have sum: "verify_sha1 \<longrightarrow> (\<forall>b. st_files s (path_in d (sha_name base)) = Some b \<longrightarrow> expected_sha b = Inr (lower (H (concat ?content))))"
    using want body by (auto simp: wanted_sha_def merged_body_def bindR_Inr_iff split: if_splits)
  have "st_files s' target = Some (concat ?content)"
    using kept by (auto simp: s' s1 unlink_all_def simp del: map_upt_Suc upt_Suc)
  with m read [OF there] sum Inr show ?thesis
    by (auto simp: comp_def simp del: map_upt_Suc upt_Suc)
qed

theorem merge_all_or_nothing_witness:
  "\<exists>base num n content.
      match_part ''a.part1-1'' = Some (base, num) \<and> py_int num = Some n
      \<and> mapR (\<lambda>i. case [''d/a.part1-1'' \<mapsto> [7, 8 :: byte]] (path_in ''d'' (part_name base i (nat n))) of None \<Rightarrow> Inl i | Some b \<Rightarrow> Inr b)
          [1..<nat n + 1] = Inr content
      \<and> st_files (snd (merge_parts demo_split_env demo_sha1 ''d'' ''a.part1-1'' None True False
          \<lparr>st_files = [''d/a.part1-1'' \<mapsto> [7, 8]], st_left = 0\<rparr>)) ''d/a'' = Some (concat content)"
proof -
  let ?s = "\<lparr>st_files = [''d/a.part1-1'' \<mapsto> [7, 8 :: byte]], st_left = 0\<rparr>"
  have names: "match_part ''a.part1-1'' = Some (''a'', ''1'')" "py_int ''1'' = Some 1" "show_nat (Suc 0) = ''1''"
    by code_simp+
  have run: "merge_parts demo_split_env demo_sha1 ''d'' ''a.part1-1'' None True False ?s
      = (Inr ''d/a'', ?s\<lparr>st_files := (st_files ?s)(''d/a'' \<mapsto> [7, 8])\<rparr>)"
    by (simp add: merge_parts_def names demo_split_env_def path_in_def part_name_def sha_name_def
        reject_aliases_def wanted_sha_def merged_body_def good_output_writes Let_def)
  have refl: "\<And>p. sp_same demo_split_env p p" by (simp add: demo_split_env_def)
  note m = merge_all_or_nothing [OF refl run]
  show ?thesis
    using m by (simp only: run snd_conv sum.case store.simps simp_thms) blast
qed

text \<open>A name whose total is zero merges no part: the target is replaced by an empty file.\<close>

lemma merge_of_no_parts:
  "merge_parts demo_split_env H ''d'' ''a.part1-0'' None True False \<lparr>st_files = [''d/a'' \<mapsto> [7, 8]], st_left = 0\<rparr>
    = (Inr ''d/a'', \<lparr>st_files = [''d/a'' \<mapsto> []], st_left = 0\<rparr>)"
proof -
  have names: "match_part ''a.part1-0'' = Some (''a'', ''0'')" "py_int ''0'' = Some 0"
    by code_simp+
  show ?thesis
    by (simp add: merge_parts_def names demo_split_env_def path_in_def sha_name_def
        reject_aliases_def wanted_sha_def merged_body_def good_output_writes Let_def)
qed

text \<open>A blank checksum file raises an \<open>IndexError\<close>, which no caller expects of a merge.\<close>

lemma blank_checksum_leaks: "expected_sha [0x0A] = raise IndexError"
  by code_simp

end
