(* ===== verification/FolderTree.thy ===== *)
theory FolderTree
  imports Nodes Helpers
begin

text \<open>
  \<open>core/folder_downloader.py\<close>, the tree: what a public folder share lists, the walk up the parents
  that refuses a cycle, the order of depth, the local path of every file and the files below a folder.
  A path is the list of its components. Handles and parents are texts, as the service sends them.
\<close>

section \<open>Nodes of a share\<close>

type_synonym fpath = "string list"

record folder_node =
  fn_handle :: string
  fn_parent :: string
  fn_type :: json
  fn_size :: json
  fn_name :: json
  fn_key :: bytes
  fn_words :: "a32 option"

text \<open>\<open>node_type == 0\<close>, which \<open>False\<close> and \<open>0.0\<close> satisfy too.\<close>

definition is_zero :: "json \<Rightarrow> bool" where
  "is_zero v \<longleftrightarrow> (case v of JInt n \<Rightarrow> n = 0 | JBool b \<Rightarrow> \<not> b | JFloat n d \<Rightarrow> n = 0 | _ \<Rightarrow> False)"

definition fn_is_file :: "folder_node \<Rightarrow> bool" where
  "fn_is_file n \<longleftrightarrow> is_zero (fn_type n)"

text \<open>\<open>sanitize_filename\<close> of a name that the attributes of the node chose.\<close>

definition local_name :: "folder_node \<Rightarrow> string py" where
  "local_name n = (case fn_name n of JStr s \<Rightarrow> Inr (sanitize_filename s ''_'') | _ \<Rightarrow> raise TypeError)"

text \<open>A dictionary comprehension over the nodes: the last node of a handle is the one found.\<close>

definition by_handle :: "folder_node list \<Rightarrow> string \<Rightarrow> folder_node option" where
  "by_handle nodes h = map_of (rev (map (\<lambda>n. (fn_handle n, n)) nodes)) h"

lemma by_handle_Some: "by_handle nodes h = Some n \<Longrightarrow> n \<in> set nodes \<and> fn_handle n = h"
  by (auto simp: by_handle_def dest: map_of_SomeD)

lemma by_handle_self:
  assumes "distinct (map fn_handle nodes)" and "n \<in> set nodes"
  shows "by_handle nodes (fn_handle n) = Some n"
proof -
  have "distinct (map fst (rev (map (\<lambda>n. (fn_handle n, n)) nodes)))"
    using assms(1) by (simp add: rev_map [symmetric] comp_def)
  then show ?thesis using assms(2) unfolding by_handle_def by (intro map_of_is_SomeI) auto
qed

section \<open>Up the parents\<close>

datatype climb_end = Ran_out | Stopped_at folder_node | Cyclic

text \<open>
  \<open>_parent_chain\<close> as its consumers use it: the nodes they were handed before they stopped, and how the
  walk ended. A handle met twice is a cycle.
\<close>

function climb :: "folder_node list \<Rightarrow> (folder_node \<Rightarrow> bool) \<Rightarrow> string list \<Rightarrow> folder_node option \<Rightarrow> folder_node list \<times> climb_end" where
  "climb nodes stop seen None = ([], Ran_out)"
| "climb nodes stop seen (Some cur) =
    (if fn_handle cur \<in> set seen then ([], Cyclic)
     else if stop cur then ([], Stopped_at cur)
     else case climb nodes stop (fn_handle cur # seen) (by_handle nodes (fn_parent cur)) of
         (chain, e) \<Rightarrow> (cur # chain, e))"
  by pat_completeness auto
termination
proof (relation "measure (\<lambda>(nodes, stop, seen, cur).
    card ((fn_handle ` set nodes \<union> (case cur of None \<Rightarrow> {} | Some c \<Rightarrow> {fn_handle c})) - set seen))")
  fix nodes :: "folder_node list" and stop :: "folder_node \<Rightarrow> bool" and seen and cur :: folder_node
  assume new: "fn_handle cur \<notin> set seen"
  let ?next = "by_handle nodes (fn_parent cur)"
  have "(fn_handle ` set nodes \<union> (case ?next of None \<Rightarrow> {} | Some c \<Rightarrow> {fn_handle c})) - set (fn_handle cur # seen)
      \<subset> (fn_handle ` set nodes \<union> {fn_handle cur}) - set seen"
    using new by (auto split: option.splits dest: by_handle_Some)
  then have "card ((fn_handle ` set nodes \<union> (case ?next of None \<Rightarrow> {} | Some c \<Rightarrow> {fn_handle c})) - set (fn_handle cur # seen))
      < card ((fn_handle ` set nodes \<union> {fn_handle cur}) - set seen)"
    by (intro psubset_card_mono) auto
  then show "((nodes, stop, fn_handle cur # seen, by_handle nodes (fn_parent cur)), nodes, stop, seen, Some cur)
      \<in> measure (\<lambda>(nodes, stop, seen, cur).
        card ((fn_handle ` set nodes \<union> (case cur of None \<Rightarrow> {} | Some c \<Rightarrow> {fn_handle c})) - set seen))"
    by simp
qed simp

section \<open>The order of depth\<close>

fun number_from :: "nat \<Rightarrow> folder_node list \<Rightarrow> (string \<rightharpoonup> nat) \<Rightarrow> (string \<rightharpoonup> nat)" where
  "number_from base [] d = d"
| "number_from base (c # cs) d = number_from (base + 1) cs (d(fn_handle c \<mapsto> base + 1))"

definition depth_step :: "folder_node list \<Rightarrow> folder_node \<Rightarrow> (string \<rightharpoonup> nat) \<Rightarrow> exc + (string \<rightharpoonup> nat)" where
  "depth_step nodes n d =
    (if d (fn_handle n) \<noteq> None then Inr d
     else case climb nodes (\<lambda>a. d (fn_handle a) \<noteq> None) [] (Some n) of
         (chain, Cyclic) \<Rightarrow> raise NonRetryableTransferError
       | (chain, Stopped_at a) \<Rightarrow> Inr (number_from (the (d (fn_handle a))) (rev chain) d)
       | (chain, Ran_out) \<Rightarrow> Inr (number_from 0 (rev chain) d))"

definition sort_by_depth :: "folder_node list \<Rightarrow> string \<Rightarrow> folder_node list py" where
  "sort_by_depth nodes root =
    bindR (foldR (depth_step nodes) nodes [root \<mapsto> 0]) (\<lambda>d.
      Inr (sort_key (\<lambda>n. case d (fn_handle n) of None \<Rightarrow> 0 | Some k \<Rightarrow> k) nodes))"

section \<open>Local paths\<close>

text \<open>\<open>is_within_directory\<close> follows the links of the local file system.\<close>

type_synonym within = "fpath \<Rightarrow> fpath \<Rightarrow> bool"

definition ensure_within_directory :: "within \<Rightarrow> fpath \<Rightarrow> fpath \<Rightarrow> fpath py" where
  "ensure_within_directory W base target = (if W base target then Inr target else raise ValueError)"

type_synonym dir_paths = "(string \<times> fpath) list"

definition folder_root_path :: "folder_node list \<Rightarrow> fpath \<Rightarrow> string \<Rightarrow> fpath py" where
  "folder_root_path nodes out root =
    (case by_handle nodes root of
       None \<Rightarrow> Inr out
     | Some r \<Rightarrow> if fn_is_file r then Inr out else bindR (local_name r) (\<lambda>s. Inr (out @ [s])))"

definition dir_step :: "within \<Rightarrow> fpath \<Rightarrow> string \<Rightarrow> fpath \<Rightarrow> folder_node \<Rightarrow> dir_paths \<Rightarrow> dir_paths py" where
  "dir_step W out root root_path n m =
    (if fn_is_file n \<or> fn_handle n = root then Inr m
     else bindR (local_name n) (\<lambda>s.
       let p = (case map_of m (fn_parent n) of None \<Rightarrow> root_path | Some q \<Rightarrow> q) @ [s]
       in bindR (ensure_within_directory W out p) (\<lambda>_. Inr (dict_set (fn_handle n) p m))))"

definition build_directory_paths :: "within \<Rightarrow> folder_node list \<Rightarrow> fpath \<Rightarrow> string \<Rightarrow> dir_paths py" where
  "build_directory_paths W nodes out root =
    bindR (folder_root_path nodes out root) (\<lambda>root_path.
    bindR (ensure_within_directory W out root_path) (\<lambda>_.
    bindR (sort_by_depth nodes root) (\<lambda>ordered.
      foldR (dir_step W out root root_path) ordered [(root, root_path)])))"

definition file_job :: "within \<Rightarrow> fpath \<Rightarrow> dir_paths \<Rightarrow> folder_node \<Rightarrow> (folder_node \<times> fpath) py" where
  "file_job W out m n =
    bindR (local_name n) (\<lambda>s.
      let p = (case map_of m (fn_parent n) of None \<Rightarrow> out | Some q \<Rightarrow> q) @ [s]
      in bindR (ensure_within_directory W out p) (\<lambda>_. Inr (n, p)))"

definition plan_file_jobs :: "within \<Rightarrow> folder_node list \<Rightarrow> fpath \<Rightarrow> string \<Rightarrow> (folder_node \<times> fpath) list py" where
  "plan_file_jobs W nodes out root =
    bindR (build_directory_paths W nodes out root) (\<lambda>m.
      mapR (file_job W out m) (filter fn_is_file nodes))"

fun make_dirs :: "(fpath \<Rightarrow> bool) \<Rightarrow> fpath list \<Rightarrow> fpath list \<Rightarrow> unit py \<times> fpath list" where
  "make_dirs mk [] made = (Inr (), made)"
| "make_dirs mk (p # ps) made = (if mk p then make_dirs mk ps (made @ [p]) else (raise OSError, made))"

text \<open>The plan, and the directories of the disk that were made for it.\<close>

definition build_file_jobs ::
  "within \<Rightarrow> (fpath \<Rightarrow> bool) \<Rightarrow> folder_node list \<Rightarrow> fpath \<Rightarrow> string \<Rightarrow> (folder_node \<times> fpath) list py \<times> fpath list" where
  "build_file_jobs W mk nodes out root =
    (case plan_file_jobs W nodes out root of
       Inl e \<Rightarrow> (Inl e, [])
     | Inr jobs \<Rightarrow>
        (case build_directory_paths W nodes out root of
           Inl e \<Rightarrow> (Inl e, [])
         | Inr m \<Rightarrow>
            (case make_dirs mk (map snd m @ map (\<lambda>(_, p). butlast p) jobs) [] of
               (Inl e, made) \<Rightarrow> (Inl e, made)
             | (Inr _, made) \<Rightarrow> (Inr jobs, made))))"

definition local_path_for_node :: "within \<Rightarrow> folder_node list \<Rightarrow> fpath \<Rightarrow> string \<Rightarrow> folder_node \<Rightarrow> fpath py" where
  "local_path_for_node W nodes out root n =
    bindR (local_name n) (\<lambda>s.
      case climb nodes (\<lambda>a. fn_handle a = root) [] (by_handle nodes (fn_parent n)) of
        (chain, e) \<Rightarrow>
          bindR (mapR local_name (chain @ (case e of Stopped_at a \<Rightarrow> [a] | _ \<Rightarrow> []))) (\<lambda>names.
            if e = Cyclic then raise NonRetryableTransferError
            else ensure_within_directory W out (out @ rev names @ [s])))"

section \<open>The root and what lies below\<close>

definition find_folder_root :: "folder_node list \<Rightarrow> string" where
  "find_folder_root nodes =
    (case find (\<lambda>n. fn_parent n \<notin> fn_handle ` set nodes) nodes of
       Some n \<Rightarrow> if fn_parent n \<noteq> [] then fn_parent n else fn_handle n
     | None \<Rightarrow> (case nodes of [] \<Rightarrow> [] | n # _ \<Rightarrow> fn_handle n))"

definition children_handles :: "folder_node list \<Rightarrow> string \<Rightarrow> string list" where
  "children_handles nodes h = map fn_handle (filter (\<lambda>n. fn_parent n = h) nodes)"

fun push_children :: "string list \<Rightarrow> string list \<Rightarrow> string list \<Rightarrow> string list \<times> string list" where
  "push_children [] keep stack = (keep, stack)"
| "push_children (c # cs) keep stack =
    (if c \<in> set keep then push_children cs keep stack else push_children cs (c # keep) (c # stack))"

lemma push_children_facts:
  assumes "push_children cs keep stack = (keep', stack')" and "set cs \<subseteq> H" and "finite H"
  shows "length stack' + card (H - set keep') \<le> length stack + card (H - set keep)
    \<and> set keep' = set keep \<union> set cs \<and> set stack' = set stack \<union> (set cs - set keep)"
  using assms
proof (induction cs keep stack rule: push_children.induct)
  case (2 c cs keep stack)
  show ?case
  proof (cases "c \<in> set keep")
    case False
    have "card (H - set (c # keep)) < card (H - set keep)"
      using 2(4,5) False by (intro psubset_card_mono) auto
    then show ?thesis using 2 False by auto
  qed (use 2 in auto)
qed auto

function subtree_from :: "folder_node list \<Rightarrow> string list \<Rightarrow> string list \<Rightarrow> string list" where
  "subtree_from nodes keep [] = keep"
| "subtree_from nodes keep (cur # stack) =
    (case push_children (children_handles nodes cur) keep stack of
       (keep', stack') \<Rightarrow> subtree_from nodes keep' stack')"
  by pat_completeness auto
termination
proof (relation "measure (\<lambda>(nodes, keep, stack). length stack + card (fn_handle ` set nodes - set keep))")
  fix nodes keep cur stack keep' stack'
  assume "(keep', stack') = push_children (children_handles nodes cur) keep stack"
  then have "push_children (children_handles nodes cur) keep stack = (keep', stack')" by simp
  moreover have "set (children_handles nodes cur) \<subseteq> fn_handle ` set nodes" by (auto simp: children_handles_def)
  ultimately have "length stack' + card (fn_handle ` set nodes - set keep') \<le> length stack + card (fn_handle ` set nodes - set keep)"
    by (intro push_children_facts [THEN conjunct1]) auto
  then show "((nodes, keep', stack'), nodes, keep, cur # stack)
      \<in> measure (\<lambda>(nodes, keep, stack). length stack + card (fn_handle ` set nodes - set keep))"
    by simp
qed simp

definition subtree_handles :: "folder_node list \<Rightarrow> string \<Rightarrow> string list" where
  "subtree_handles nodes root = subtree_from nodes [root] [root]"

section \<open>The subtree\<close>

definition child_rel :: "folder_node list \<Rightarrow> (string \<times> string) set" where
  "child_rel nodes = {(fn_parent n, fn_handle n) | n. n \<in> set nodes}"

lemma children_rel: "c \<in> set (children_handles nodes h) \<longleftrightarrow> (h, c) \<in> child_rel nodes"
  by (auto simp: children_handles_def child_rel_def)

text \<open>What is kept is reachable, and closed but for the handles still on the stack.\<close>

lemma subtree_from_exact:
  assumes "\<forall>h \<in> set keep. (root, h) \<in> (child_rel nodes)\<^sup>*" and "set stack \<subseteq> set keep"
    and "\<forall>h \<in> set keep - set stack. set (children_handles nodes h) \<subseteq> set keep"
  shows "(\<forall>h \<in> set (subtree_from nodes keep stack). (root, h) \<in> (child_rel nodes)\<^sup>*
      \<and> set (children_handles nodes h) \<subseteq> set (subtree_from nodes keep stack))
    \<and> set keep \<subseteq> set (subtree_from nodes keep stack)"
  using assms
proof (induction nodes keep stack rule: subtree_from.induct)
  case (2 nodes keep cur stack)
  obtain keep' stack' where p: "push_children (children_handles nodes cur) keep stack = (keep', stack')"
    by (metis surj_pair)
  have f: "set keep' = set keep \<union> set (children_handles nodes cur)"
    "set stack' = set stack \<union> (set (children_handles nodes cur) - set keep)"
    using push_children_facts [OF p subset_refl] by simp_all
  have cur: "(root, cur) \<in> (child_rel nodes)\<^sup>*" using 2(2,3) by simp
  have reach: "\<forall>h \<in> set keep'. (root, h) \<in> (child_rel nodes)\<^sup>*"
    unfolding f(1) using 2(2) cur by (auto simp: children_rel intro: rtrancl_into_rtrancl)
  have stack: "set stack' \<subseteq> set keep'" using 2(3) f by auto
  have closed: "\<forall>h \<in> set keep' - set stack'. set (children_handles nodes h) \<subseteq> set keep'"
    unfolding f using 2(4) by auto
  from "2.IH" [OF p [symmetric] reach stack closed] f(1) show ?case by (simp add: p)
qed simp

theorem subtree_exact: "set (subtree_handles nodes root) = {h. (root, h) \<in> (child_rel nodes)\<^sup>*}"
proof
  have inv: "(\<forall>h \<in> set (subtree_handles nodes root). (root, h) \<in> (child_rel nodes)\<^sup>*
      \<and> set (children_handles nodes h) \<subseteq> set (subtree_handles nodes root))
    \<and> set [root] \<subseteq> set (subtree_handles nodes root)"
    unfolding subtree_handles_def by (rule subtree_from_exact) auto
  then show "set (subtree_handles nodes root) \<subseteq> {h. (root, h) \<in> (child_rel nodes)\<^sup>*}" by auto
  show "{h. (root, h) \<in> (child_rel nodes)\<^sup>*} \<subseteq> set (subtree_handles nodes root)"
  proof
    fix h
    assume "h \<in> {h. (root, h) \<in> (child_rel nodes)\<^sup>*}"
    then have "(root, h) \<in> (child_rel nodes)\<^sup>*" by simp
    then show "h \<in> set (subtree_handles nodes root)"
      by (induction rule: rtrancl_induct) (use inv in \<open>auto simp: children_rel [symmetric]\<close>)
  qed
qed

section \<open>Depth\<close>

fun linked :: "folder_node list \<Rightarrow> folder_node option \<Rightarrow> folder_node list \<Rightarrow> climb_end \<Rightarrow> bool" where
  "linked nodes cur [] e = (case e of Ran_out \<Rightarrow> cur = None | Stopped_at a \<Rightarrow> cur = Some a | Cyclic \<Rightarrow> True)"
| "linked nodes cur (c # cs) e = (cur = Some c \<and> linked nodes (by_handle nodes (fn_parent c)) cs e)"

lemma climb_facts:
  assumes "climb nodes stop seen cur = (chain, e)"
  shows "linked nodes cur chain e \<and> (\<forall>c \<in> set chain. \<not> stop c) \<and> (\<forall>a. e = Stopped_at a \<longrightarrow> stop a)
    \<and> distinct (map fn_handle chain) \<and> fn_handle ` set chain \<inter> set seen = {}"
  using assms
proof (induction nodes stop seen cur arbitrary: chain rule: climb.induct)
  case (2 nodes stop seen cur)
  show ?case
  proof (cases "fn_handle cur \<in> set seen \<or> stop cur")
    case False
    obtain cs e' where c: "climb nodes stop (fn_handle cur # seen) (by_handle nodes (fn_parent cur)) = (cs, e')"
      by (metis surj_pair)
    then have "chain = cur # cs" "e' = e" using 2(2) False by auto
    with "2.IH" [of cs] c False show ?thesis by auto
  qed (use 2(2) in \<open>auto split: if_splits\<close>)
qed simp

lemma linked_nodes: "linked nodes cur chain e \<Longrightarrow> (\<And>c. cur = Some c \<Longrightarrow> c \<in> set nodes) \<Longrightarrow> set chain \<subseteq> set nodes"
proof (induction chain arbitrary: cur)
  case (Cons c cs)
  have "linked nodes (by_handle nodes (fn_parent c)) cs e" "cur = Some c" using Cons.prems(1) by simp_all
  with Cons.IH [OF this(1)] Cons.prems(2) show ?case by (auto dest: by_handle_Some)
qed simp

lemma number_from_append:
  "number_from base (xs @ [c]) d = (number_from base xs d)(fn_handle c \<mapsto> base + length xs + 1)"
  by (induction base xs d rule: number_from.induct) (simp_all del: fun_upd_apply)

lemma number_from_dom: "number_from base xs d h \<noteq> None \<longleftrightarrow> d h \<noteq> None \<or> h \<in> fn_handle ` set xs"
  by (induction xs rule: rev_induct) (auto simp: number_from_append)

text \<open>Every settled handle but the root is deeper than its parent, where the parent is listed.\<close>

definition settled :: "folder_node list \<Rightarrow> string \<Rightarrow> (string \<rightharpoonup> nat) \<Rightarrow> bool" where
  "settled nodes root d \<longleftrightarrow> (\<forall>h x k. d h = Some k \<longrightarrow> h \<noteq> root \<longrightarrow> by_handle nodes h = Some x \<longrightarrow>
     by_handle nodes (fn_parent x) \<noteq> None \<longrightarrow> (\<exists>j. d (fn_parent x) = Some j \<and> j < k))"

lemma number_chain_settled:
  assumes "linked nodes cur chain e" and "e \<noteq> Cyclic" and "\<And>a. e = Stopped_at a \<Longrightarrow> d (fn_handle a) = Some base"
    and "\<forall>c \<in> set chain. d (fn_handle c) = None \<and> by_handle nodes (fn_handle c) = Some c"
    and "distinct (map fn_handle chain)" and "settled nodes root d"
  shows "settled nodes root (number_from base (rev chain) d)
    \<and> (\<forall>c. cur = Some c \<longrightarrow> (\<exists>k \<le> base + length chain. number_from base (rev chain) d (fn_handle c) = Some k))"
  using assms
proof (induction chain arbitrary: cur)
  case (Cons c cs)
  define d1 where "d1 = number_from base (rev cs) d"
  have cur: "cur = Some c" and l: "linked nodes (by_handle nodes (fn_parent c)) cs e" using Cons.prems(1) by simp_all
  have cs: "\<forall>c \<in> set cs. d (fn_handle c) = None \<and> by_handle nodes (fn_handle c) = Some c" "distinct (map fn_handle cs)"
    using Cons.prems(4,5) by simp_all
  note IH = Cons.IH [OF l Cons.prems(2,3) cs Cons.prems(6), folded d1_def]
  have new: "number_from base (rev (c # cs)) d = d1(fn_handle c \<mapsto> base + length cs + 1)"
    by (simp add: d1_def number_from_append)
  have none: "d1 (fn_handle c) = None"
    using number_from_dom [of base "rev cs" d "fn_handle c"] Cons.prems(4,5) by (auto simp: d1_def)
  have "settled nodes root (d1(fn_handle c \<mapsto> base + length cs + 1))"
    unfolding settled_def
  proof (intro allI impI)
    fix h x k
    assume h: "(d1(fn_handle c \<mapsto> base + length cs + 1)) h = Some k" "h \<noteq> root" "by_handle nodes h = Some x"
      and "by_handle nodes (fn_parent x) \<noteq> None"
    then obtain y where y: "by_handle nodes (fn_parent x) = Some y" by auto
    then have hy: "fn_handle y = fn_parent x" by (auto dest: by_handle_Some)
    show "\<exists>j. (d1(fn_handle c \<mapsto> base + length cs + 1)) (fn_parent x) = Some j \<and> j < k"
    proof (cases "h = fn_handle c")
      case True
      then have x: "x = c" and k: "k = base + length cs + 1" using h Cons.prems(4) by auto
      obtain j where j: "j \<le> base + length cs" "d1 (fn_handle y) = Some j" using IH y x by auto
      have "fn_handle y \<noteq> fn_handle c" using j(2) none by auto
      then show ?thesis using j k hy by auto
    next
      case False
      then obtain j where j: "d1 (fn_parent x) = Some j" "j < k"
        using IH h y unfolding settled_def by fastforce
      then show ?thesis using none by auto
    qed
  qed
  moreover have "(d1(fn_handle c \<mapsto> base + length cs + 1)) (fn_handle c) = Some (base + length (c # cs))" by simp
  ultimately show ?case
    unfolding new cur by (intro conjI allI impI exI [of _ "base + length (c # cs)"]) (simp_all del: fun_upd_apply)
qed (cases e, auto)

lemma depth_step_settled:
  assumes "depth_step nodes n d = Inr d'" and "distinct (map fn_handle nodes)" and "n \<in> set nodes" and "settled nodes root d"
  shows "settled nodes root d' \<and> d' (fn_handle n) \<noteq> None \<and> (\<forall>h. d h \<noteq> None \<longrightarrow> d' h \<noteq> None)"
proof (cases "d (fn_handle n) \<noteq> None")
  case False
  obtain chain e where c: "climb nodes (\<lambda>a. d (fn_handle a) \<noteq> None) [] (Some n) = (chain, e)" by (metis surj_pair)
  note f = climb_facts [OF c]
  have ne: "e \<noteq> Cyclic" using assms(1) False c by (auto simp: depth_step_def)
  define base where "base = (case e of Stopped_at a \<Rightarrow> the (d (fn_handle a)) | _ \<Rightarrow> 0)"
  have d': "d' = number_from base (rev chain) d"
    using assms(1) False c ne unfolding depth_step_def base_def by (cases e) simp_all
  have sub: "set chain \<subseteq> set nodes" using linked_nodes [OF f [THEN conjunct1]] assms(3) by simp
  have ch: "\<forall>c \<in> set chain. d (fn_handle c) = None \<and> by_handle nodes (fn_handle c) = Some c"
    using f sub by_handle_self [OF assms(2)] by auto
  have st: "d (fn_handle a) = Some base" if "e = Stopped_at a" for a using f that by (auto simp: base_def)
  have "settled nodes root d' \<and> (\<forall>c. Some n = Some c \<longrightarrow> (\<exists>k \<le> base + length chain. d' (fn_handle c) = Some k))"
    unfolding d' using f by (intro number_chain_settled [OF _ ne st ch _ assms(4)]) auto
  then have "settled nodes root d'" "d' (fn_handle n) \<noteq> None" by auto
  moreover have "\<forall>h. d h \<noteq> None \<longrightarrow> d' h \<noteq> None"
    using number_from_dom [of base "rev chain" d] unfolding d' by simp
  ultimately show ?thesis by blast
qed (use assms in \<open>auto simp: depth_step_def\<close>)

lemma sort_by_depth_facts:
  assumes "sort_by_depth nodes root = Inr ordered" and "distinct (map fn_handle nodes)"
  shows "set ordered = set nodes \<and> distinct (map fn_handle ordered)
    \<and> sorted_wrt (\<lambda>x y. fn_handle x = root \<or> fn_handle y \<noteq> fn_parent x) ordered
    \<and> (\<forall>x \<in> set nodes. fn_handle x = root \<or> fn_parent x \<noteq> fn_handle x)
    \<and> (\<exists>f :: string \<Rightarrow> nat. \<forall>x \<in> set nodes. \<forall>y \<in> set nodes.
        fn_handle x \<noteq> root \<longrightarrow> fn_handle y = fn_parent x \<longrightarrow> f (fn_handle y) < f (fn_handle x))"
proof -
  obtain d where d: "foldR (depth_step nodes) nodes [root \<mapsto> 0] = Inr d"
    and s: "ordered = sort_key (\<lambda>n. case d (fn_handle n) of None \<Rightarrow> 0 | Some k \<Rightarrow> k) nodes" (is "_ = sort_key ?k nodes")
    using assms(1) by (auto simp: sort_by_depth_def bindR_Inr_iff)
  have start: "settled nodes root [root \<mapsto> 0]" by (simp add: settled_def)
  have all: "settled nodes root d' \<and> (\<forall>x \<in> set ns. d' (fn_handle x) \<noteq> None)"
    if "foldR (depth_step nodes) ns d = Inr d'" "set ns \<subseteq> set nodes" "settled nodes root d" for ns d d'
    using that
  proof (induction ns arbitrary: d' rule: rev_induct)
    case (snoc n ns)
    obtain d1 where d1: "foldR (depth_step nodes) ns d = Inr d1" "depth_step nodes n d1 = Inr d'"
      using snoc.prems(1) by (auto simp: foldR_append bindR_Inr_iff)
    have "settled nodes root d1 \<and> (\<forall>x \<in> set ns. d1 (fn_handle x) \<noteq> None)"
      using snoc.IH [OF d1(1)] snoc.prems(2,3) by simp
    moreover have "n \<in> set nodes" using snoc.prems(2) by simp
    ultimately show ?case using depth_step_settled [OF d1(2) assms(2)] by auto
  qed simp
  note all = all [OF d subset_refl start]
  have deeper: "?k y < ?k x" if "x \<in> set nodes" "y \<in> set nodes" "fn_handle x \<noteq> root" "fn_handle y = fn_parent x" for x y
  proof -
    have x: "by_handle nodes (fn_handle x) = Some x" and p: "by_handle nodes (fn_parent x) \<noteq> None"
      using by_handle_self [OF assms(2) that(1)] by_handle_self [OF assms(2) that(2)] that(4) by simp_all
    have "d (fn_handle x) \<noteq> None" using all [THEN conjunct2] that(1) by (rule bspec)
    then obtain k where k: "d (fn_handle x) = Some k" by auto
    have "settled nodes root d" using all by (rule conjunct1)
    then have "\<exists>j. d (fn_parent x) = Some j \<and> j < k"
      using k that(3) x p unfolding settled_def by (elim allE impE) assumption+
    then obtain j where "d (fn_parent x) = Some j" "j < k" by (elim exE conjE)
    then show ?thesis using k that(4) by simp
  qed
  have "sorted_wrt (\<lambda>x y. ?k x \<le> ?k y) ordered" using sorted_sort_key [of ?k nodes] unfolding s sorted_map .
  then have "sorted_wrt (\<lambda>x y. fn_handle x = root \<or> fn_handle y \<noteq> fn_parent x) ordered"
  proof (rule sorted_wrt_mono_rel [rotated])
    fix x y
    assume "x \<in> set ordered" "y \<in> set ordered" and le: "?k x \<le> ?k y"
    then have "x \<in> set nodes" "y \<in> set nodes" by (simp_all add: s)
    with le show "fn_handle x = root \<or> fn_handle y \<noteq> fn_parent x" using deeper [of x y] by (meson leD)
  qed
  moreover have "distinct (map fn_handle ordered)"
    using assms(2) unfolding s by (simp add: distinct_map)
  moreover have "\<forall>x \<in> set nodes. fn_handle x = root \<or> fn_parent x \<noteq> fn_handle x"
    using deeper by (metis less_irrefl)
  moreover have "\<exists>f :: string \<Rightarrow> nat. \<forall>x \<in> set nodes. \<forall>y \<in> set nodes.
      fn_handle x \<noteq> root \<longrightarrow> fn_handle y = fn_parent x \<longrightarrow> f (fn_handle y) < f (fn_handle x)"
    using deeper by (intro exI [of _ "\<lambda>h. case d h of None \<Rightarrow> 0 | Some k \<Rightarrow> k"]) blast
  ultimately show ?thesis by (simp add: s)
qed

section \<open>The paths of the folders\<close>

lemma dir_step_facts:
  assumes "dir_step W out root rp n m = Inr m'"
  shows "if fn_is_file n \<or> fn_handle n = root then m' = m
    else \<exists>s. local_name n = Inr s
      \<and> m' = dict_set (fn_handle n) ((case map_of m (fn_parent n) of None \<Rightarrow> rp | Some q \<Rightarrow> q) @ [s]) m
      \<and> W out ((case map_of m (fn_parent n) of None \<Rightarrow> rp | Some q \<Rightarrow> q) @ [s])"
  using assms by (auto simp: dir_step_def bindR_Inr_iff Let_def ensure_within_directory_def split: if_splits)

text \<open>Parents come first, so the path of a folder is that of its parent with its own name behind.\<close>

lemma dirs_fixed:
  assumes "foldR (dir_step W out root rp) ys [(root, rp)] = Inr m" and "distinct (map fn_handle ys)"
    and "sorted_wrt (\<lambda>x y. fn_handle x = root \<or> fn_handle y \<noteq> fn_parent x) ys"
    and "\<forall>x \<in> set ys. fn_handle x = root \<or> fn_parent x \<noteq> fn_handle x"
  shows "map_of m root = Some rp
    \<and> (\<forall>x \<in> set ys. \<not> fn_is_file x \<longrightarrow> fn_handle x \<noteq> root \<longrightarrow> (\<exists>s. local_name x = Inr s
        \<and> map_of m (fn_handle x) = Some ((case map_of m (fn_parent x) of None \<Rightarrow> rp | Some q \<Rightarrow> q) @ [s])))"
  using assms
proof (induction ys arbitrary: m rule: rev_induct)
  case (snoc y ys)
  obtain m1 where m1: "foldR (dir_step W out root rp) ys [(root, rp)] = Inr m1" "dir_step W out root rp y m1 = Inr m"
    using snoc.prems(1) by (auto simp: foldR_append bindR_Inr_iff)
  have sw: "sorted_wrt (\<lambda>x y. fn_handle x = root \<or> fn_handle y \<noteq> fn_parent x) ys"
    and before: "\<forall>x \<in> set ys. fn_handle x = root \<or> fn_handle y \<noteq> fn_parent x"
    using snoc.prems(3) by (auto simp: sorted_wrt_append)
  have IH: "map_of m1 root = Some rp" "\<forall>x \<in> set ys. \<not> fn_is_file x \<longrightarrow> fn_handle x \<noteq> root \<longrightarrow> (\<exists>s. local_name x = Inr s
        \<and> map_of m1 (fn_handle x) = Some ((case map_of m1 (fn_parent x) of None \<Rightarrow> rp | Some q \<Rightarrow> q) @ [s]))"
    using snoc.IH [OF m1(1) _ sw] snoc.prems(2,4) by simp_all
  show ?case
  proof (cases "fn_is_file y \<or> fn_handle y = root")
    case True
    then show ?thesis using IH dir_step_facts [OF m1(2)] by auto
  next
    case False
    obtain s where s: "local_name y = Inr s"
      and m: "map_of m = (map_of m1)(fn_handle y \<mapsto> (case map_of m1 (fn_parent y) of None \<Rightarrow> rp | Some q \<Rightarrow> q) @ [s])"
      using dir_step_facts [OF m1(2)] False by auto
    have old: "map_of m h = map_of m1 h" if "h \<noteq> fn_handle y" for h using that by (simp add: m)
    have self: "fn_parent y \<noteq> fn_handle y" using snoc.prems(4) False by auto
    have "\<exists>s. local_name x = Inr s
        \<and> map_of m (fn_handle x) = Some ((case map_of m (fn_parent x) of None \<Rightarrow> rp | Some q \<Rightarrow> q) @ [s])"
      if x: "x \<in> set (ys @ [y])" "\<not> fn_is_file x" "fn_handle x \<noteq> root" for x
    proof (cases "x = y")
      case True
      then show ?thesis unfolding True old [OF self] using s by (simp add: m)
    next
      case other: False
      then have "x \<in> set ys" "fn_handle x \<noteq> fn_handle y" "fn_parent x \<noteq> fn_handle y"
        using x before snoc.prems(2) by (auto simp: image_iff)
      then show ?thesis using IH(2) x(2,3) old by simp
    qed
    moreover have "map_of m root = Some rp" using IH(1) old [of root] False by auto
    ultimately show ?thesis by blast
  qed
qed simp

lemma build_directory_paths_facts:
  assumes "build_directory_paths W nodes out root = Inr m" and "distinct (map fn_handle nodes)"
  shows "\<exists>rp. folder_root_path nodes out root = Inr rp \<and> map_of m root = Some rp
    \<and> (\<forall>x \<in> set nodes. \<not> fn_is_file x \<longrightarrow> fn_handle x \<noteq> root \<longrightarrow> (\<exists>s. local_name x = Inr s
        \<and> map_of m (fn_handle x) = Some ((case map_of m (fn_parent x) of None \<Rightarrow> rp | Some q \<Rightarrow> q) @ [s])))"
proof -
  obtain rp ordered where rp: "folder_root_path nodes out root = Inr rp" and s: "sort_by_depth nodes root = Inr ordered"
    and f: "foldR (dir_step W out root rp) ordered [(root, rp)] = Inr m"
    using assms(1) by (auto simp: build_directory_paths_def bindR_Inr_iff)
  note sd = sort_by_depth_facts [OF s assms(2)]
  show ?thesis using dirs_fixed [OF f] sd rp by auto
qed

section \<open>The plan\<close>

definition safe_component :: "string \<Rightarrow> bool" where
  "safe_component c \<longleftrightarrow> c \<noteq> [] \<and> c \<noteq> ''.'' \<and> c \<noteq> ''..'' \<and> list_all component_char c"

lemma local_name_safe: "local_name n = Inr s \<Longrightarrow> safe_component s"
proof -
  assume "local_name n = Inr s"
  then obtain t where s: "s = sanitize_filename t ''_''" by (auto simp: local_name_def split: json.splits)
  have u: "list_all component_char ''_''" by code_simp
  show "safe_component s"
    using sanitize_filename_facts [OF u, of t] unfolding s safe_component_def by (auto simp: Let_def dot_or_space_def)
qed

definition inside :: "within \<Rightarrow> fpath \<Rightarrow> fpath \<Rightarrow> bool" where
  "inside W out p \<longleftrightarrow> W out p \<and> (\<exists>cs. p = out @ cs \<and> list_all safe_component cs)"

lemma inside_child:
  assumes "(\<exists>cs. q = out @ cs \<and> list_all safe_component cs)" and "local_name n = Inr s" and "W out (q @ [s])"
  shows "inside W out (q @ [s])"
  using assms local_name_safe by (auto simp: inside_def)

lemma directory_paths_inside:
  assumes "build_directory_paths W nodes out root = Inr m"
  shows "\<forall>(h, p) \<in> set m. inside W out p"
proof -
  obtain rp ordered where rp: "folder_root_path nodes out root = Inr rp" "W out rp"
    and f: "foldR (dir_step W out root rp) ordered [(root, rp)] = Inr m"
    using assms by (auto simp: build_directory_paths_def bindR_Inr_iff ensure_within_directory_def split: if_splits)
  have rp_in: "inside W out rp"
    using rp local_name_safe by (auto simp: folder_root_path_def inside_def bindR_Inr_iff split: option.splits if_splits)
  show ?thesis
    using f
  proof (rule foldR_invariant)
    show "\<forall>(h, p) \<in> set [(root, rp)]. inside W out p" using rp_in by simp
    fix n s s'
    assume inv: "\<forall>(h, p) \<in> set s. inside W out p" and "dir_step W out root rp n s = Inr s'"
    note st = dir_step_facts [OF this(2)]
    show "\<forall>(h, p) \<in> set s'. inside W out p"
    proof (cases "fn_is_file n \<or> fn_handle n = root")
      case True
      then show ?thesis using st inv by simp
    next
      case False
      let ?q = "case map_of s (fn_parent n) of None \<Rightarrow> rp | Some q \<Rightarrow> q"
      obtain t where t: "local_name n = Inr t" "s' = dict_set (fn_handle n) (?q @ [t]) s" "W out (?q @ [t])"
        using st False by auto
      have "\<exists>cs. ?q = out @ cs \<and> list_all safe_component cs"
        using inv rp_in by (auto simp: inside_def split: option.splits dest!: map_of_SomeD)
      then have "inside W out (?q @ [t])" using t inside_child by blast
      then show ?thesis using inv using set_dict_set [of "fn_handle n" "?q @ [t]" s] unfolding t(2) by blast
    qed
  qed
qed

lemma file_job_facts:
  assumes "file_job W out m n = Inr (n', p)"
  shows "n' = n \<and> W out p \<and> (\<exists>s. local_name n = Inr s
    \<and> p = (case map_of m (fn_parent n) of None \<Rightarrow> out | Some q \<Rightarrow> q) @ [s])"
  using assms by (auto simp: file_job_def bindR_Inr_iff Let_def ensure_within_directory_def split: if_splits)

lemma plan_facts:
  assumes "plan_file_jobs W nodes out root = Inr jobs"
  shows "\<exists>m. build_directory_paths W nodes out root = Inr m
    \<and> list_all2 (\<lambda>n job. file_job W out m n = Inr job) (filter fn_is_file nodes) jobs"
  using assms by (auto simp: plan_file_jobs_def bindR_Inr_iff dest: mapR_all)

text \<open>
  C31: a folder share writes where it was told to. Whatever handles, parents and names the share chose,
  a plan has one job for each file of the listing, in order, and every destination is the output
  directory followed by one or more safe components, inside it also as the file system resolves links.
\<close>

theorem folder_jobs_inside:
  assumes "plan_file_jobs W nodes out root = Inr jobs"
  shows "map fst jobs = filter fn_is_file nodes
    \<and> (\<forall>(n, p) \<in> set jobs. W out p \<and> (\<exists>cs. p = out @ cs \<and> cs \<noteq> [] \<and> list_all safe_component cs))"
proof -
  obtain m where m: "build_directory_paths W nodes out root = Inr m"
    and l: "list_all2 (\<lambda>n job. file_job W out m n = Inr job) (filter fn_is_file nodes) jobs"
    using plan_facts [OF assms] by blast
  have "map fst jobs = filter fn_is_file nodes"
    using l by (induction rule: list_all2_induct) (auto dest!: file_job_facts)
  moreover have "W out p \<and> (\<exists>cs. p = out @ cs \<and> cs \<noteq> [] \<and> list_all safe_component cs)" if job: "(n, p) \<in> set jobs" for n p
  proof -
    obtain i where i: "i < length jobs" "jobs ! i = (n, p)" using job by (auto simp: in_set_conv_nth)
    define k where "k = filter fn_is_file nodes ! i"
    have "file_job W out m k = Inr (n, p)" using list_all2_nthD2 [OF l i(1)] by (simp add: i(2) k_def)
    from file_job_facts [OF this] obtain s where s: "n = k" "W out p" "local_name n = Inr s"
      "p = (case map_of m (fn_parent n) of None \<Rightarrow> out | Some q \<Rightarrow> q) @ [s]" by auto
    then show ?thesis
      using directory_paths_inside [OF m] local_name_safe [OF s(3)]
      by (force simp: inside_def split: option.splits dest!: map_of_SomeD)
  qed
  ultimately show ?thesis by blast
qed

text \<open>
  A file is below the root when its parents lead there through folders: to the listed root, or to a
  parent that is the root and is not listed.
\<close>

definition below_root :: "folder_node list \<Rightarrow> string \<Rightarrow> folder_node \<Rightarrow> bool" where
  "below_root nodes root n \<longleftrightarrow>
    (case climb nodes (\<lambda>a. fn_handle a = root) [] (by_handle nodes (fn_parent n)) of
       (chain, e) \<Rightarrow> list_all (\<lambda>c. \<not> fn_is_file c) chain
         \<and> (case e of Cyclic \<Rightarrow> False | Stopped_at r \<Rightarrow> \<not> fn_is_file r | Ran_out \<Rightarrow> fn_parent (last (n # chain)) = root))"

lemma folder_path_names:
  assumes "linked nodes (by_handle nodes h) chain e" and "list_all (\<lambda>c. \<not> fn_is_file c) chain"
    and "\<forall>c \<in> set chain. fn_handle c \<noteq> root" and "e \<noteq> Cyclic"
    and "\<And>r. e = Stopped_at r \<Longrightarrow> fn_handle r = root \<and> \<not> fn_is_file r"
    and "e = Ran_out \<Longrightarrow> (if chain = [] then h else fn_parent (last chain)) = root"
    and "build_directory_paths W nodes out root = Inr m" and "distinct (map fn_handle nodes)"
  shows "\<exists>names. mapR local_name (chain @ (case e of Stopped_at a \<Rightarrow> [a] | _ \<Rightarrow> [])) = Inr names
    \<and> map_of m h = Some (out @ rev names)"
  using assms(1,2,3,6)
proof (induction chain arbitrary: h)
  case Nil
  obtain rp where rp: "folder_root_path nodes out root = Inr rp" "map_of m root = Some rp"
    using build_directory_paths_facts [OF assms(7,8)] by blast
  show ?case
  proof (cases e)
    case Ran_out
    then have "h = root" "by_handle nodes root = None" using Nil by auto
    then show ?thesis using rp Ran_out by (simp add: folder_root_path_def)
  next
    case (Stopped_at r)
    then have r: "by_handle nodes h = Some r" "fn_handle r = root" "\<not> fn_is_file r" using Nil(1) assms(5) by auto
    then have "h = root" by (auto dest: by_handle_Some)
    then show ?thesis using rp r Stopped_at by (auto simp: folder_root_path_def bindR_Inr_iff)
  qed (use assms(4) in simp)
next
  case (Cons c cs)
  have c: "by_handle nodes h = Some c" and l: "linked nodes (by_handle nodes (fn_parent c)) cs e" using Cons.prems(1) by simp_all
  have h: "fn_handle c = h" "c \<in> set nodes" using by_handle_Some [OF c] by simp_all
  have k: "\<not> fn_is_file c" "fn_handle c \<noteq> root" using Cons.prems(2,3) by simp_all
  have "e = Ran_out \<Longrightarrow> (if cs = [] then fn_parent c else fn_parent (last cs)) = root" using Cons.prems(4) by auto
  then obtain names where n: "mapR local_name (cs @ (case e of Stopped_at a \<Rightarrow> [a] | _ \<Rightarrow> [])) = Inr names"
    "map_of m (fn_parent c) = Some (out @ rev names)"
    using Cons.IH [OF l] Cons.prems(2,3) by auto
  obtain s where "local_name c = Inr s" "map_of m (fn_handle c) = Some (out @ rev names @ [s])"
    using build_directory_paths_facts [OF assms(7,8)] h(2) k n(2) by force
  then show ?case using n(1) h(1) by simp
qed

text \<open>
  C32: the two ways to a destination agree. In a share whose handles are distinct, every file below the
  root is planned, by the walk down in the order of depth, for exactly the path that the walk up from
  the file computes: the output directory, the names of the folders from the root down, its own name.
\<close>

theorem folder_paths_agree:
  assumes "plan_file_jobs W nodes out root = Inr jobs" and "distinct (map fn_handle nodes)"
    and "(n, p) \<in> set jobs" and "below_root nodes root n"
  shows "local_path_for_node W nodes out root n = Inr p"
proof -
  obtain m where m: "build_directory_paths W nodes out root = Inr m"
    and l: "list_all2 (\<lambda>n job. file_job W out m n = Inr job) (filter fn_is_file nodes) jobs"
    using plan_facts [OF assms(1)] by blast
  obtain i where i: "i < length jobs" "jobs ! i = (n, p)" using assms(3) by (auto simp: in_set_conv_nth)
  have "file_job W out m (filter fn_is_file nodes ! i) = Inr (n, p)" using list_all2_nthD2 [OF l i(1)] by (simp add: i(2))
  from file_job_facts [OF this] obtain s where s: "W out p" "local_name n = Inr s"
    "p = (case map_of m (fn_parent n) of None \<Rightarrow> out | Some q \<Rightarrow> q) @ [s]" by auto
  obtain chain e where c: "climb nodes (\<lambda>a. fn_handle a = root) [] (by_handle nodes (fn_parent n)) = (chain, e)" by (metis surj_pair)
  note f = climb_facts [OF c]
  have b: "list_all (\<lambda>c. \<not> fn_is_file c) chain" "e \<noteq> Cyclic" "\<And>r. e = Stopped_at r \<Longrightarrow> fn_handle r = root \<and> \<not> fn_is_file r"
    "e = Ran_out \<Longrightarrow> (if chain = [] then fn_parent n else fn_parent (last chain)) = root"
    using assms(4) f unfolding below_root_def c by (auto split: climb_end.splits if_splits)
  obtain names where names: "mapR local_name (chain @ (case e of Stopped_at a \<Rightarrow> [a] | _ \<Rightarrow> [])) = Inr names"
    "map_of m (fn_parent n) = Some (out @ rev names)"
    using folder_path_names [OF f [THEN conjunct1] b(1) _ b(2,3,4) m assms(2)] f by auto
  show ?thesis
    using s b(2) names(2) by (simp add: local_path_for_node_def c names(1) ensure_within_directory_def)
qed

text \<open>
  A share with a cycle is refused. When a plan is made, no folder is its own ancestor without
  passing the root; the walks up the parents and down the children end on every listing.
\<close>

theorem planned_share_acyclic:
  assumes "plan_file_jobs W nodes out root = Inr jobs" and "distinct (map fn_handle nodes)"
  shows "acyclic {(fn_parent n, fn_handle n) | n. n \<in> set nodes \<and> fn_handle n \<noteq> root}"
proof -
  obtain m where "build_directory_paths W nodes out root = Inr m" using plan_facts [OF assms(1)] by blast
  then obtain ordered where "sort_by_depth nodes root = Inr ordered" by (auto simp: build_directory_paths_def bindR_Inr_iff)
  from sort_by_depth_facts [OF this assms(2)] obtain f :: "string \<Rightarrow> nat" where
    f: "\<forall>x \<in> set nodes. \<forall>y \<in> set nodes. fn_handle x \<noteq> root \<longrightarrow> fn_handle y = fn_parent x \<longrightarrow> f (fn_handle y) < f (fn_handle x)"
    by blast
  let ?g = "\<lambda>h. if h \<in> fn_handle ` set nodes then Suc (f h) else 0"
  have "{(fn_parent n, fn_handle n) | n. n \<in> set nodes \<and> fn_handle n \<noteq> root} \<subseteq> measure ?g"
    using f by fastforce
  then show ?thesis using acyclic_subset [OF wf_acyclic [OF wf_measure]] by blast
qed

section \<open>A share for examples\<close>

definition demo_fnode :: "string \<Rightarrow> string \<Rightarrow> int \<Rightarrow> string \<Rightarrow> folder_node" where
  "demo_fnode h p t n = \<lparr>fn_handle = h, fn_parent = p, fn_type = JInt t, fn_size = JInt 1, fn_name = JStr n, fn_key = [], fn_words = None\<rparr>"

text \<open>A file that is listed before its folders, with names that would leave the directory.\<close>

definition demo_share :: "folder_node list" where
  "demo_share = [demo_fnode ''F'' ''D'' 0 ''../x'', demo_fnode ''D'' ''R'' 1 ''..'', demo_fnode ''R'' ''P'' 1 ''share'']"

definition demo_share_jobs :: "(folder_node \<times> fpath) list" where
  "demo_share_jobs = [(demo_fnode ''F'' ''D'' 0 ''../x'', [''out'', ''share'', ''unnamed'', ''.._x''])]"

lemma demo_share_plan: "plan_file_jobs (\<lambda>_ _. True) demo_share [''out''] ''R'' = Inr demo_share_jobs"
  by code_simp

lemma demo_share_distinct: "distinct (map fn_handle demo_share)"
  by code_simp

lemma folder_jobs_inside_witness:
  "map fst demo_share_jobs = filter fn_is_file demo_share
    \<and> (\<exists>cs. [''out'', ''share'', ''unnamed'', ''.._x''] = [''out''] @ cs \<and> cs \<noteq> [] \<and> list_all safe_component cs)"
  using folder_jobs_inside [OF demo_share_plan] unfolding demo_share_jobs_def by simp

lemma folder_paths_agree_witness:
  "local_path_for_node (\<lambda>_ _. True) demo_share [''out''] ''R'' (demo_fnode ''F'' ''D'' 0 ''../x'') = Inr [''out'', ''share'', ''unnamed'', ''.._x'']"
proof -
  have "below_root demo_share ''R'' (demo_fnode ''F'' ''D'' 0 ''../x'')" by code_simp
  then show ?thesis
    by (intro folder_paths_agree [OF demo_share_plan demo_share_distinct]) (simp_all add: demo_share_jobs_def)
qed

lemma planned_share_acyclic_witness:
  "acyclic {(fn_parent n, fn_handle n) | n. n \<in> set demo_share \<and> fn_handle n \<noteq> ''R''}"
  by (rule planned_share_acyclic [OF demo_share_plan demo_share_distinct])

text \<open>
  Outside well-formed trees the two part: below a node that is a file, the plan puts a file at the top
  of the output directory, the walk up below a directory named after that file.
\<close>

lemma file_parent_diverges:
  "plan_file_jobs (\<lambda>_ _. True) [demo_fnode ''A'' ''P'' 0 ''a'', demo_fnode ''B'' ''A'' 0 ''b''] [''out''] ''P''
     = Inr [(demo_fnode ''A'' ''P'' 0 ''a'', [''out'', ''a'']), (demo_fnode ''B'' ''A'' 0 ''b'', [''out'', ''b''])]
   \<and> local_path_for_node (\<lambda>_ _. True) [demo_fnode ''A'' ''P'' 0 ''a'', demo_fnode ''B'' ''A'' 0 ''b''] [''out''] ''P''
       (demo_fnode ''B'' ''A'' 0 ''b'') = Inr [''out'', ''a'', ''b'']"
  by code_simp

text \<open>Two folders that name each other as parent are refused.\<close>

lemma cycle_refused:
  "plan_file_jobs (\<lambda>_ _. True) [demo_fnode ''A'' ''B'' 1 ''a'', demo_fnode ''B'' ''A'' 1 ''b''] [''out''] ''P''
    = raise NonRetryableTransferError"
  by code_simp

end
