(* ===== verification/Links.thy ===== *)
theory Links
  imports Keys
begin

text \<open>
  \<open>core/links.py\<close>: the spellings of a link, the checks on its key and the modern form. The network
  location that \<open>urlparse\<close> finds is a parameter. The decryption of \<open>mega://enc\<close> containers, whose
  text may leave the model's characters, is left out.
\<close>

section \<open>Links\<close>

datatype link_type =
    LFile | LFolder | LFile_in_folder | LFolder_in_folder | LPassword_protected | LMegacrypter
  | LEncrypted_container | LElc_container

record parsed_link =
  lk_type :: link_type
  lk_id :: string
  lk_key :: "string option"
  lk_subpath :: "string option"
  lk_blob :: "string option"
  lk_server :: "string option"
  lk_token :: "string option"
  lk_variant :: "string option"
  lk_container :: "string option"
  lk_elc :: "string option"

definition link :: "link_type \<Rightarrow> string \<Rightarrow> parsed_link" where
  "link t i = \<lparr>lk_type = t, lk_id = i, lk_key = None, lk_subpath = None, lk_blob = None, lk_server = None,
     lk_token = None, lk_variant = None, lk_container = None, lk_elc = None\<rparr>"

section \<open>Patterns\<close>

definition MEGA_HOST :: rx where
  "MEGA_HOST = rx_seq [lit ''http'', Opt (lit ''s''), lit ''://mega'', Opt (lit ''.co''), lit ''.nz/'']"

definition RE_MODERN_FILE :: rx where
  "RE_MODERN_FILE = rx_seq [MEGA_HOST, lit ''file/'', Grp ''1'' (many1 (not_in ''#?/'')),
     Opt (rx_seq [lit ''#'', Grp ''2'' (many1 (not_in ''!?/''))]), Opt (rx_seq [lit ''!'', Grp ''3'' (many1 any_char)]), Dollar]"

definition RE_MODERN_FOLDER :: rx where
  "RE_MODERN_FOLDER = rx_seq [MEGA_HOST, lit ''folder/'', Grp ''1'' (many1 (not_in ''#?/'')),
     Opt (rx_seq [lit ''#'', Grp ''2'' (many1 (not_in ''!?/''))]),
     Opt (rx_seq [lit ''/'', Grp ''kind'' (Alt (lit ''file'') (lit ''folder'')), lit ''/'', Grp ''inner'' (many1 (not_in ''#?/''))]),
     Dollar]"

definition RE_PASSWORD :: rx where
  "RE_PASSWORD = rx_seq [MEGA_HOST, lit ''#P!'', Grp ''1'' (many1 any_char), Dollar]"

definition RE_LEGACY_FILE :: rx where
  "RE_LEGACY_FILE = rx_seq [MEGA_HOST, lit ''#!'', Grp ''1'' (many1 (not_in ''!'')), lit ''!'', Grp ''2'' (many1 any_char), Dollar]"

definition RE_LEGACY_FOLDER :: rx where
  "RE_LEGACY_FOLDER = rx_seq [MEGA_HOST, lit ''#F!'', Grp ''id'' (many1 (not_in ''!@'')),
     Opt (rx_seq [lit ''@'', Grp ''sub'' (many1 (not_in ''!''))]), lit ''!'', Grp ''key'' (many1 (not_in ''!'')),
     Opt (rx_seq [lit ''!'', Grp ''trailer'' (many1 any_char)]), Dollar]"

definition RE_LEGACY_FOLDER_FILE_COMPACT :: rx where
  "RE_LEGACY_FOLDER_FILE_COMPACT = rx_seq [MEGA_HOST, lit ''#F*'', Grp ''file'' (many1 (not_in ''!'')), lit ''!'',
     Grp ''folder'' (many1 (not_in ''!'')), lit ''!'', Grp ''key'' (many1 any_char), Dollar]"

definition RE_LEGACY_NODE :: rx where
  "RE_LEGACY_NODE = rx_seq [MEGA_HOST, lit ''#N!'', Grp ''file'' (many1 (not_in ''!'')), lit ''!'',
     Grp ''folder'' (many1 (not_in ''!'')), lit ''!'', Grp ''key'' (many1 any_char), Dollar]"

definition RE_MC_SCHEME :: rx where
  "RE_MC_SCHEME = rx_seq [lit ''mc://'', Grp ''1'' (many1 (not_in ''/'')), lit ''/'', Grp ''2'' (many1 any_char), Dollar]"

definition url_word_char :: "char \<Rightarrow> bool" where
  "url_word_char c \<longleftrightarrow> is_alnum c \<or> c = CHR ''_'' \<or> c = CHR ''-''"

definition RE_MC_HTTP :: rx where
  "RE_MC_HTTP = rx_seq [lit ''http'', Opt (lit ''s''), lit ''://'', Grp ''1'' (many1 (not_in ''/'')), lit ''/!'',
     Grp ''2'' (many1 url_word_char), Dollar]"

definition enc_char :: "char \<Rightarrow> bool" where
  "enc_char c \<longleftrightarrow> url_word_char c \<or> c \<in> set ''+/=''"

definition RE_ENC_CONTAINER :: rx where
  "RE_ENC_CONTAINER = rx_seq [liti ''mega://'', Grp ''variant'' (rx_seq [Opt (liti ''f''), liti ''enc'', Opt (Cls is_digit)]),
     lit ''?'', Grp ''blob'' (many1 enc_char), Many is_ws, Dollar]"

definition RE_ELC_CONTAINER :: rx where
  "RE_ELC_CONTAINER = rx_seq [liti ''mega://elc'', lit ''?'', Grp ''blob'' (many1 (\<lambda>c. enc_char c \<or> c = CHR '','')),
     Many is_ws, Dollar]"

section \<open>Parsing\<close>

type_synonym netloc = "string \<Rightarrow> string py"

definition mega_host :: "string \<Rightarrow> bool" where
  "mega_host host \<longleftrightarrow> ends_with ''mega.nz'' (lower host) \<or> ends_with ''mega.co.nz'' (lower host)"

text \<open>A location that \<open>urlparse\<close> refuses leaves the text as it is.\<close>

definition trim_url :: "netloc \<Rightarrow> string \<Rightarrow> string" where
  "trim_url N url =
    (let url = strip url
     in case N url of
          Inl _ \<Rightarrow> url
        | Inr host \<Rightarrow> if mega_host host then rstrip_by (\<lambda>c. c = CHR ''/'') url else url)"

definition modern_folder_link :: "groups \<Rightarrow> parsed_link" where
  "modern_folder_link g =
    (let i = the (group ''1'' g); key = group ''2'' g; inner = group ''inner'' g
     in if group ''kind'' g = Some ''file'' \<and> inner \<noteq> None \<and> inner \<noteq> Some []
        then (link LFile_in_folder i)\<lparr>lk_key := key, lk_subpath := inner\<rparr>
        else if group ''kind'' g = Some ''folder'' \<and> inner \<noteq> None \<and> inner \<noteq> Some []
        then (link LFolder_in_folder i)\<lparr>lk_key := key, lk_subpath := inner\<rparr>
        else (link LFolder i)\<lparr>lk_key := key\<rparr>)"

definition node_link :: "groups \<Rightarrow> parsed_link" where
  "node_link g = (link LFile_in_folder (the (group ''folder'' g)))\<lparr>lk_key := group ''key'' g, lk_subpath := group ''file'' g\<rparr>"

definition legacy_folder_link :: "groups \<Rightarrow> parsed_link" where
  "legacy_folder_link g =
    (let i = the (group ''id'' g); key = group ''key'' g; sub = group ''sub'' g; trailer = group ''trailer'' g
     in if trailer \<noteq> None \<and> trailer \<noteq> Some [] then (link LFile_in_folder i)\<lparr>lk_key := key, lk_subpath := trailer\<rparr>
        else if sub \<noteq> None \<and> sub \<noteq> Some [] then (link LFolder_in_folder i)\<lparr>lk_key := key, lk_subpath := sub\<rparr>
        else (link LFolder i)\<lparr>lk_key := key\<rparr>)"

text \<open>The patterns in the order they are tried, each with the link it makes of its groups.\<close>

definition link_patterns :: "(rx \<times> (groups \<Rightarrow> parsed_link)) list" where
  "link_patterns =
    [(RE_PASSWORD, \<lambda>g. (link LPassword_protected [])\<lparr>lk_blob := group ''1'' g\<rparr>),
     (RE_ENC_CONTAINER, \<lambda>g. (link LEncrypted_container [])\<lparr>lk_variant := map_option lower (group ''variant'' g), lk_container := group ''blob'' g\<rparr>),
     (RE_ELC_CONTAINER, \<lambda>g. (link LElc_container [])\<lparr>lk_elc := group ''blob'' g\<rparr>),
     (RE_MC_SCHEME, \<lambda>g. (link LMegacrypter [])\<lparr>lk_server := group ''1'' g, lk_token := group ''2'' g\<rparr>),
     (RE_MODERN_FOLDER, modern_folder_link),
     (RE_MODERN_FILE, \<lambda>g. (link LFile (the (group ''1'' g)))\<lparr>lk_key := group ''2'' g, lk_subpath := group ''3'' g\<rparr>),
     (RE_LEGACY_FOLDER_FILE_COMPACT, node_link),
     (RE_LEGACY_NODE, node_link),
     (RE_LEGACY_FOLDER, legacy_folder_link),
     (RE_LEGACY_FILE, \<lambda>g. (link LFile (the (group ''1'' g)))\<lparr>lk_key := group ''2'' g\<rparr>)]"

fun first_pattern :: "(rx \<times> (groups \<Rightarrow> parsed_link)) list \<Rightarrow> string \<Rightarrow> parsed_link option" where
  "first_pattern [] url = None"
| "first_pattern ((r, f) # ps) url =
    (case rx_match r url of Some g \<Rightarrow> Some (f g) | None \<Rightarrow> first_pattern ps url)"

definition parse_link :: "netloc \<Rightarrow> string \<Rightarrow> parsed_link py" where
  "parse_link N url =
    (let url = trim_url N url
     in case first_pattern link_patterns url of
          Some l \<Rightarrow> Inr l
        | None \<Rightarrow>
           (case rx_match RE_MC_HTTP url of
              Some g \<Rightarrow> if contains ''mega.nz'' url \<or> contains ''mega.co.nz'' url then raise ValueError
                        else Inr ((link LMegacrypter [])\<lparr>lk_server := group ''1'' g, lk_token := group ''2'' g\<rparr>)
            | None \<Rightarrow> raise ValueError))"

definition is_mega_url :: "netloc \<Rightarrow> string \<Rightarrow> bool" where
  "is_mega_url N url =
    (case N url of
       Inl _ \<Rightarrow> False
     | Inr host \<Rightarrow> mega_host host \<or> starts_with ''mc://'' (lower url) \<or> starts_with ''mega://enc'' (lower url)
         \<or> starts_with ''mega://fenc'' (lower url) \<or> starts_with ''mega://elc'' (lower url))"

section \<open>Keys and the modern form\<close>

definition is_folder_link :: "parsed_link \<Rightarrow> bool" where
  "is_folder_link l \<longleftrightarrow> lk_type l = LFolder \<or> lk_type l = LFolder_in_folder"

definition needs_password :: "parsed_link \<Rightarrow> bool" where
  "needs_password l \<longleftrightarrow> lk_type l = LPassword_protected"

definition expected_key_bytes :: "link_type \<Rightarrow> nat option" where
  "expected_key_bytes t =
    (case t of LFile \<Rightarrow> Some 32 | LFile_in_folder \<Rightarrow> Some 16 | LFolder \<Rightarrow> Some 16 | LFolder_in_folder \<Rightarrow> Some 16 | _ \<Rightarrow> None)"

definition RAW_KEY_RE :: "string \<Rightarrow> bool" where
  "RAW_KEY_RE s \<longleftrightarrow> s \<noteq> [] \<and> list_all url_word_char s"

definition require_link_key :: "parsed_link \<Rightarrow> string py" where
  "require_link_key l =
    (case lk_key l of
       None \<Rightarrow> raise MegaError
     | Some key \<Rightarrow>
         if key = [] then raise MegaError
         else case expected_key_bytes (lk_type l) of
             None \<Rightarrow> Inr key
           | Some n \<Rightarrow>
               if \<not> RAW_KEY_RE key then raise MegaError
               else case b64_url_decode key of
                   Inl e \<Rightarrow> if isinstance e ValueError \<or> isinstance e BinasciiError then raise MegaError else Inl e
                 | Inr raw \<Rightarrow> if length raw \<noteq> n then raise MegaError else Inr key)"

definition resolve_password_link :: "prims \<Rightarrow> parsed_link \<Rightarrow> string \<Rightarrow> parsed_link py" where
  "resolve_password_link P l password =
    (if lk_type l \<noteq> LPassword_protected \<or> lk_blob l = None \<or> lk_blob l = Some [] then raise ValueError
     else bindR (decrypt_password_link P (the (lk_blob l)) password) (\<lambda>(node_type, handle, raw_key).
       Inr ((link (if node_type = 0 then LFile else LFolder) (b64_url_encode handle))\<lparr>lk_key := Some (b64_url_encode raw_key)\<rparr>)))"

text \<open>An f-string prints an absent key or handle as \<open>None\<close>.\<close>

definition show_opt :: "string option \<Rightarrow> string" where
  "show_opt s = (case s of None \<Rightarrow> ''None'' | Some t \<Rightarrow> t)"

definition with_key :: "string \<Rightarrow> string option \<Rightarrow> string" where
  "with_key base key = (case key of None \<Rightarrow> base | Some k \<Rightarrow> if k = [] then base else base @ ''#'' @ k)"

definition normalize_link :: "netloc \<Rightarrow> string \<Rightarrow> string py" where
  "normalize_link N url =
    bindR (parse_link N url) (\<lambda>p.
      Inr (case lk_type p of
             LFile \<Rightarrow> with_key (''https://mega.nz/file/'' @ lk_id p) (lk_key p)
           | LFolder \<Rightarrow> with_key (''https://mega.nz/folder/'' @ lk_id p) (lk_key p)
           | LFile_in_folder \<Rightarrow> ''https://mega.nz/folder/'' @ lk_id p @ ''#'' @ show_opt (lk_key p) @ ''/file/'' @ show_opt (lk_subpath p)
           | LFolder_in_folder \<Rightarrow> ''https://mega.nz/folder/'' @ lk_id p @ ''#'' @ show_opt (lk_key p) @ ''/folder/'' @ show_opt (lk_subpath p)
           | _ \<Rightarrow> url))"

section \<open>How the patterns match\<close>

lemma results_lit: "rx_results (lit p) s = (if starts_with p s then [([], drop (length p) s)] else [])"
proof (induction p arbitrary: s)
  case (Cons c p)
  have "rx_results (lit (c # p)) s = (case s of [] \<Rightarrow> [] | d # t \<Rightarrow> if d = c then rx_results (lit p) t else [])"
    by (cases s) (simp_all add: lit_def rx_seq_simps case_prod_beta)
  then show ?case using Cons by (cases s) (simp_all add: starts_with_def)
qed (simp add: lit_def rx_seq_simps starts_with_def)

lemma first_lit: "rx_first (Seq (lit p) r) (p @ s) = rx_first r s"
  by (simp add: rx_first_def results_lit starts_with_append case_prod_beta split: list.split)

lemma first_other: "\<not> starts_with p s \<Longrightarrow> rx_first (Seq (lit p) r) s = None"
  by (simp add: rx_first_def results_lit)

lemma first_Opt: "rx_first a s = Some x \<Longrightarrow> rx_first (Opt a) s = Some x"
  by (auto simp: rx_first_iff)

lemma first_skip: "rx_first a s = None \<Longrightarrow> rx_first (Opt a) s = Some ([], s)"
  by (simp add: rx_first_def split: list.splits)

lemma host_results: "rx_results MEGA_HOST (''https://mega.nz/'' @ s) = [([], s)]"
  by (simp add: MEGA_HOST_def rx_seq_simps results_lit starts_with_def)

lemma first_host: "rx_first (Seq MEGA_HOST r) (''https://mega.nz/'' @ s) = rx_first r s"
  unfolding rx_first_def rx_results.simps(4) host_results by (simp add: case_prod_beta split: list.split)

text \<open>Handles and keys: nonempty texts of the URL alphabet of base64.\<close>

lemma word_chars:
  "\<forall>c. url_word_char c \<longrightarrow> not_in ''#?/'' c" "\<forall>c. url_word_char c \<longrightarrow> not_in ''!?/'' c"
  "\<forall>c. url_word_char c \<longrightarrow> not_in ''!'' c" "\<forall>c. url_word_char c \<longrightarrow> not_in ''!@'' c"
  "\<forall>c. url_word_char c \<longrightarrow> any_char c" "\<forall>c. url_word_char c \<longrightarrow> \<not> is_ws c \<and> c \<noteq> CHR ''/''"
  by (auto simp: url_word_char_def is_alnum_def is_digit_def is_upper_def is_lower_def not_in_def any_char_def is_ws_def Let_def)

lemma word_field:
  assumes "RAW_KEY_RE w" and "\<forall>c. url_word_char c \<longrightarrow> p c" and "s = [] \<or> \<not> p (hd s)"
  shows "rx_first (Grp n (many1 p)) (w @ s) = Some ([(n, w)], s)"
proof -
  have "rx_first (many1 p) (w @ s) = Some ([], s)"
    using assms by (intro rx_first_many1) (auto simp: RAW_KEY_RE_def list_all_iff)
  from rx_first_Grp [OF this] show ?thesis by simp
qed

text \<open>A field followed by more, the optional field that is there, and the one that is not.\<close>

lemma end_of_link: "rx_first (Seq Dollar Eps) [] = Some ([], [])"
  using rx_first_Seq [OF rx_first_Dollar rx_first_Eps] by simp

lemma next_field:
  assumes "RAW_KEY_RE w" and "\<forall>c. url_word_char c \<longrightarrow> p c" and "s = [] \<or> \<not> p (hd s)" and "rx_first r s = Some (g, t)"
  shows "rx_first (Seq (Grp n (many1 p)) r) (w @ s) = Some ((n, w) # g, t)"
  using rx_first_Seq [OF word_field [OF assms(1-3), of n] assms(4)] by simp

lemma last_field:
  assumes "RAW_KEY_RE w" and "\<forall>c. url_word_char c \<longrightarrow> p c"
  shows "rx_first (Seq (Grp n (many1 p)) (Seq Dollar Eps)) w = Some ([(n, w)], [])"
  using next_field [where n = n and s = "[]", OF assms _ end_of_link] by simp

lemma given_field:
  assumes "RAW_KEY_RE w" and "\<forall>c. url_word_char c \<longrightarrow> p c" and "s = [] \<or> \<not> p (hd s)" and "rx_first r s = Some (g, t)"
  shows "rx_first (Seq (Opt (Seq (lit l) (Seq (Grp n (many1 p)) Eps))) r) (l @ w @ s) = Some ((n, w) # g, t)"
proof -
  have "rx_first (Seq (lit l) (Seq (Grp n (many1 p)) Eps)) (l @ w @ s) = Some ([(n, w)], s)"
    unfolding first_lit by (rule next_field [OF assms(1-3) rx_first_Eps])
  from rx_first_Seq [OF first_Opt [OF this] assms(4)] show ?thesis by simp
qed

lemma absent_field:
  assumes "\<not> starts_with l s" and "rx_first r s = Some (g, t)"
  shows "rx_first (Seq (Opt (Seq (lit l) q)) r) s = Some (g, t)"
  using rx_first_Seq [OF first_skip [OF first_other [OF assms(1)]] assms(2)] by simp

lemma modern_file_match:
  assumes "RAW_KEY_RE i" and "RAW_KEY_RE k"
  shows "rx_first RE_MODERN_FILE (''https://mega.nz/'' @ ''file/'' @ i @ ''#'' @ k) = Some ([(''1'', i), (''2'', k)], [])"
  unfolding RE_MODERN_FILE_def rx_seq_simps first_host first_lit
proof (rule next_field [OF assms(1) word_chars(1)])
  show "''#'' @ k = [] \<or> \<not> not_in ''#?/'' (hd (''#'' @ k))" by (simp add: not_in_def)
  have e: "rx_first (Seq (Opt (Seq (lit ''!'') (Seq (Grp ''3'' (many1 any_char)) Eps))) (Seq Dollar Eps)) [] = Some ([], [])"
    by (rule absent_field [OF _ end_of_link]) (simp add: starts_with_def)
  show "rx_first (Seq (Opt (Seq (lit ''#'') (Seq (Grp ''2'' (many1 (not_in ''!?/''))) Eps)))
      (Seq (Opt (Seq (lit ''!'') (Seq (Grp ''3'' (many1 any_char)) Eps))) (Seq Dollar Eps))) (''#'' @ k) = Some ([(''2'', k)], [])"
    using given_field [where l = "''#''" and n = "''2''", OF assms(2) word_chars(2) _ e] by simp
qed

definition inner_rx :: rx where
  "inner_rx = Seq (lit ''/'') (Seq (Grp ''kind'' (Alt (lit ''file'') (lit ''folder'')))
     (Seq (lit ''/'') (Seq (Grp ''inner'' (many1 (not_in ''#?/''))) Eps)))"

lemma inner_match:
  assumes "RAW_KEY_RE s" and "kind = ''file'' \<or> kind = ''folder''"
  shows "rx_first (Seq (Opt inner_rx) (Seq Dollar Eps)) (''/'' @ kind @ ''/'' @ s) = Some ([(''kind'', kind), (''inner'', s)], [])"
proof -
  have "rx_first (Alt (lit ''file'') (lit ''folder'')) (kind @ ''/'' @ s) = Some ([], ''/'' @ s)"
    using assms(2) by (auto simp: rx_first_def results_lit starts_with_def)
  from rx_first_Grp [OF this, of "''kind''"]
  have k: "rx_first (Grp ''kind'' (Alt (lit ''file'') (lit ''folder''))) (kind @ ''/'' @ s) = Some ([(''kind'', kind)], ''/'' @ s)"
    by simp
  have "rx_first (Seq (lit ''/'') (Seq (Grp ''inner'' (many1 (not_in ''#?/''))) Eps)) (''/'' @ s) = Some ([(''inner'', s)], [])"
    unfolding first_lit using next_field [where n = "''inner''" and s = "[]", OF assms(1) word_chars(1) _ rx_first_Eps] by simp
  from rx_first_Seq [OF k this]
  have "rx_first inner_rx (''/'' @ kind @ ''/'' @ s) = Some ([(''kind'', kind), (''inner'', s)], [])"
    unfolding inner_rx_def first_lit by simp
  from rx_first_Seq [OF first_Opt [OF this] end_of_link] show ?thesis by simp
qed

lemma modern_folder_match:
  assumes "RAW_KEY_RE i" and "RAW_KEY_RE k" and "rx_first (Seq (Opt inner_rx) (Seq Dollar Eps)) s = Some (g, [])"
    and "s = [] \<or> hd s = CHR ''/''"
  shows "rx_first RE_MODERN_FOLDER (''https://mega.nz/'' @ ''folder/'' @ i @ ''#'' @ k @ s) = Some ((''1'', i) # (''2'', k) # g, [])"
  unfolding RE_MODERN_FOLDER_def rx_seq_simps first_host first_lit
proof (rule next_field [OF assms(1) word_chars(1)])
  show "''#'' @ k @ s = [] \<or> \<not> not_in ''#?/'' (hd (''#'' @ k @ s))" by (simp add: not_in_def)
  show "rx_first (Seq (Opt (Seq (lit ''#'') (Seq (Grp ''2'' (many1 (not_in ''!?/''))) Eps)))
      (Seq (Opt (Seq (lit ''/'') (Seq (Grp ''kind'' (Alt (lit ''file'') (lit ''folder'')))
        (Seq (lit ''/'') (Seq (Grp ''inner'' (many1 (not_in ''#?/''))) Eps))))) (Seq Dollar Eps))) (''#'' @ k @ s)
    = Some ((''2'', k) # g, [])"
    using assms(4) by (intro given_field [OF assms(2) word_chars(2) _ assms(3) [unfolded inner_rx_def]]) (auto simp: not_in_def)
qed

lemma bare_folder_end: "rx_first (Seq (Opt inner_rx) (Seq Dollar Eps)) [] = Some ([], [])"
  unfolding inner_rx_def by (rule absent_field [OF _ end_of_link]) (simp add: starts_with_def)

lemma legacy_file_match:
  assumes "RAW_KEY_RE i" and "RAW_KEY_RE k"
  shows "rx_first RE_LEGACY_FILE (''https://mega.nz/'' @ ''#!'' @ i @ ''!'' @ k) = Some ([(''1'', i), (''2'', k)], [])"
  unfolding RE_LEGACY_FILE_def rx_seq_simps first_host first_lit
  by (rule next_field [OF assms(1) word_chars(3)]) (simp_all add: not_in_def first_lit last_field [OF assms(2) word_chars(5)] del: append.simps)

lemma node_match:
  assumes "RAW_KEY_RE s" and "RAW_KEY_RE i" and "RAW_KEY_RE k"
  shows "rx_first RE_LEGACY_FOLDER_FILE_COMPACT (''https://mega.nz/'' @ ''#F*'' @ s @ ''!'' @ i @ ''!'' @ k)
      = Some ([(''file'', s), (''folder'', i), (''key'', k)], [])"
    and "rx_first RE_LEGACY_NODE (''https://mega.nz/'' @ ''#N!'' @ s @ ''!'' @ i @ ''!'' @ k)
      = Some ([(''file'', s), (''folder'', i), (''key'', k)], [])"
proof -
  have "rx_first (Seq (lit ''!'') (Seq (Grp ''key'' (many1 any_char)) (Seq Dollar Eps))) (''!'' @ k) = Some ([(''key'', k)], [])"
    unfolding first_lit by (rule last_field [OF assms(3) word_chars(5)])
  then have folder: "rx_first (Seq (Grp ''folder'' (many1 (not_in ''!''))) (Seq (lit ''!'') (Seq (Grp ''key'' (many1 any_char)) (Seq Dollar Eps)))) (i @ ''!'' @ k)
      = Some ([(''folder'', i), (''key'', k)], [])"
    by (intro next_field [OF assms(2) word_chars(3)]) (simp_all add: not_in_def)
  have f: "rx_first (Seq (Grp ''file'' (many1 (not_in ''!''))) (Seq (lit ''!'') (Seq (Grp ''folder'' (many1 (not_in ''!'')))
      (Seq (lit ''!'') (Seq (Grp ''key'' (many1 any_char)) (Seq Dollar Eps)))))) (s @ ''!'' @ i @ ''!'' @ k)
      = Some ([(''file'', s), (''folder'', i), (''key'', k)], [])"
  proof (rule next_field [OF assms(1) word_chars(3)])
    show "''!'' @ i @ ''!'' @ k = [] \<or> \<not> not_in ''!'' (hd (''!'' @ i @ ''!'' @ k))" by (simp add: not_in_def)
    show "rx_first (Seq (lit ''!'') (Seq (Grp ''folder'' (many1 (not_in ''!'')))
      (Seq (lit ''!'') (Seq (Grp ''key'' (many1 any_char)) (Seq Dollar Eps))))) (''!'' @ i @ ''!'' @ k) = Some ([(''folder'', i), (''key'', k)], [])"
      unfolding first_lit by (rule folder)
  qed
  show "rx_first RE_LEGACY_FOLDER_FILE_COMPACT (''https://mega.nz/'' @ ''#F*'' @ s @ ''!'' @ i @ ''!'' @ k)
      = Some ([(''file'', s), (''folder'', i), (''key'', k)], [])"
    and "rx_first RE_LEGACY_NODE (''https://mega.nz/'' @ ''#N!'' @ s @ ''!'' @ i @ ''!'' @ k)
      = Some ([(''file'', s), (''folder'', i), (''key'', k)], [])"
    unfolding RE_LEGACY_FOLDER_FILE_COMPACT_def RE_LEGACY_NODE_def rx_seq_simps first_host first_lit by (rule f)+
qed

lemma legacy_folder_match:
  assumes "RAW_KEY_RE i" and "RAW_KEY_RE k" and "RAW_KEY_RE s"
  shows "rx_first RE_LEGACY_FOLDER (''https://mega.nz/'' @ ''#F!'' @ i @ ''!'' @ k) = Some ([(''id'', i), (''key'', k)], [])"
    and "rx_first RE_LEGACY_FOLDER (''https://mega.nz/'' @ ''#F!'' @ i @ ''!'' @ k @ ''!'' @ s)
      = Some ([(''id'', i), (''key'', k), (''trailer'', s)], [])"
    and "rx_first RE_LEGACY_FOLDER (''https://mega.nz/'' @ ''#F!'' @ i @ ''@'' @ s @ ''!'' @ k)
      = Some ([(''id'', i), (''sub'', s), (''key'', k)], [])"
proof -
  let ?trail = "Seq (Opt (Seq (lit ''!'') (Seq (Grp ''trailer'' (many1 any_char)) Eps))) (Seq Dollar Eps)"
  let ?key = "Seq (lit ''!'') (Seq (Grp ''key'' (many1 (not_in ''!''))) ?trail)"
  let ?sub = "Opt (Seq (lit ''@'') (Seq (Grp ''sub'' (many1 (not_in ''!''))) Eps))"
  have none: "rx_first ?trail [] = Some ([], [])" by (rule absent_field [OF _ end_of_link]) (simp add: starts_with_def)
  have some: "rx_first ?trail (''!'' @ s) = Some ([(''trailer'', s)], [])"
    using given_field [where l = "''!''" and n = "''trailer''" and s = "[]", OF assms(3) word_chars(5) _ end_of_link] by simp
  have key1: "rx_first ?key (''!'' @ k) = Some ([(''key'', k)], [])"
    unfolding first_lit using next_field [where n = "''key''" and s = "[]", OF assms(2) word_chars(3) _ none] by simp
  have key2: "rx_first ?key (''!'' @ k @ ''!'' @ s) = Some ([(''key'', k), (''trailer'', s)], [])"
    unfolding first_lit by (rule next_field [OF assms(2) word_chars(3) _ some]) (simp add: not_in_def)
  have at: "\<not> starts_with ''@'' (''!'' @ t)" for t by (simp add: starts_with_def)
  have id: "''!'' @ t = [] \<or> \<not> not_in ''!@'' (hd (''!'' @ t))" "''@'' @ t = [] \<or> \<not> not_in ''!@'' (hd (''@'' @ t))" for t
    by (simp_all add: not_in_def)
  have sub: "rx_first (Seq ?sub ?key) (''@'' @ s @ ''!'' @ k) = Some ([(''sub'', s), (''key'', k)], [])"
    by (rule given_field [OF assms(3) word_chars(3) _ key1]) (simp add: not_in_def)
  show "rx_first RE_LEGACY_FOLDER (''https://mega.nz/'' @ ''#F!'' @ i @ ''!'' @ k) = Some ([(''id'', i), (''key'', k)], [])"
    and "rx_first RE_LEGACY_FOLDER (''https://mega.nz/'' @ ''#F!'' @ i @ ''!'' @ k @ ''!'' @ s)
      = Some ([(''id'', i), (''key'', k), (''trailer'', s)], [])"
    and "rx_first RE_LEGACY_FOLDER (''https://mega.nz/'' @ ''#F!'' @ i @ ''@'' @ s @ ''!'' @ k)
      = Some ([(''id'', i), (''sub'', s), (''key'', k)], [])"
    unfolding RE_LEGACY_FOLDER_def rx_seq_simps first_host first_lit
    by (rule next_field [OF assms(1) word_chars(4) id(1) absent_field [OF at key1]]
        next_field [OF assms(1) word_chars(4) id(1) absent_field [OF at key2]]
        next_field [OF assms(1) word_chars(4) id(2) sub])+
qed

section \<open>One link, several spellings\<close>

text \<open>The spellings of a link of handles and keys, the modern one first.\<close>

definition spellings :: "link_type \<Rightarrow> string \<Rightarrow> string \<Rightarrow> string \<Rightarrow> string list" where
  "spellings t i k s =
    (let host = ''https://mega.nz/'' in
     case t of
       LFile \<Rightarrow> [host @ ''file/'' @ i @ ''#'' @ k, host @ ''#!'' @ i @ ''!'' @ k]
     | LFolder \<Rightarrow> [host @ ''folder/'' @ i @ ''#'' @ k, host @ ''#F!'' @ i @ ''!'' @ k]
     | LFile_in_folder \<Rightarrow> [host @ ''folder/'' @ i @ ''#'' @ k @ ''/file/'' @ s, host @ ''#F*'' @ s @ ''!'' @ i @ ''!'' @ k,
         host @ ''#N!'' @ s @ ''!'' @ i @ ''!'' @ k, host @ ''#F!'' @ i @ ''!'' @ k @ ''!'' @ s]
     | LFolder_in_folder \<Rightarrow> [host @ ''folder/'' @ i @ ''#'' @ k @ ''/folder/'' @ s, host @ ''#F!'' @ i @ ''@'' @ s @ ''!'' @ k]
     | _ \<Rightarrow> [])"

definition word_link :: "link_type \<Rightarrow> string \<Rightarrow> string \<Rightarrow> string \<Rightarrow> parsed_link" where
  "word_link t i k s = (link t i)\<lparr>lk_key := Some k,
     lk_subpath := (if t = LFile_in_folder \<or> t = LFolder_in_folder then Some s else None)\<rparr>"

lemma trim_spelling:
  assumes "url_word_char (last u)" and "u = ''https://mega.nz/'' @ v"
  shows "trim_url N u = u"
proof -
  have "\<not> is_ws (last u)" "last u \<noteq> CHR ''/''" using word_chars(6) assms(1) by blast+
  moreover have "hd u = CHR ''h''" "u \<noteq> []" by (simp_all add: assms(2))
  moreover have "\<not> is_ws (CHR ''h'')" by code_simp
  ultimately have "strip u = u" and d: "dropWhile (\<lambda>c. c = CHR ''/'') (rev u) = rev u"
    using strip_ends [of u] by (simp_all add: dropWhile_eq_self_iff hd_rev)
  moreover have "rstrip_by (\<lambda>c. c = CHR ''/'') u = u" unfolding rstrip_by_def d by simp
  ultimately show ?thesis by (simp add: trim_url_def split: sum.split)
qed

lemma other_schemes:
  "rx_match RE_ENC_CONTAINER (''https://mega.nz/'' @ t) = None" "rx_match RE_ELC_CONTAINER (''https://mega.nz/'' @ t) = None"
  "rx_match RE_MC_SCHEME (''https://mega.nz/'' @ t) = None"
proof -
  have "rx_results (liti (CHR ''m'' # p)) (CHR ''h'' # u) = []" for p u
    by (simp add: liti_def rx_seq_simps lower_char_def)
  then show "rx_match RE_ENC_CONTAINER (''https://mega.nz/'' @ t) = None" "rx_match RE_ELC_CONTAINER (''https://mega.nz/'' @ t) = None"
    "rx_match RE_MC_SCHEME (''https://mega.nz/'' @ t) = None"
    by (simp_all add: rx_match_def RE_ENC_CONTAINER_def RE_ELC_CONTAINER_def RE_MC_SCHEME_def rx_seq_simps results_lit starts_with_def)
qed

lemma mismatch: "\<not> starts_with l t \<Longrightarrow> rx_match (rx_seq (MEGA_HOST # lit l # rs)) (''https://mega.nz/'' @ t) = None"
  unfolding rx_match_first rx_seq_simps first_host by (simp add: first_other)

lemma tails:
  "\<not> starts_with ''#P!'' (''file/'' @ x)" "\<not> starts_with ''folder/'' (''file/'' @ x)" "\<not> starts_with ''#P!'' (''folder/'' @ x)"
  "\<not> starts_with ''#P!'' (''#!'' @ x)" "\<not> starts_with ''folder/'' (''#!'' @ x)" "\<not> starts_with ''file/'' (''#!'' @ x)"
  "\<not> starts_with ''#F*'' (''#!'' @ x)" "\<not> starts_with ''#N!'' (''#!'' @ x)" "\<not> starts_with ''#F!'' (''#!'' @ x)"
  "\<not> starts_with ''#P!'' (''#F!'' @ x)" "\<not> starts_with ''folder/'' (''#F!'' @ x)" "\<not> starts_with ''file/'' (''#F!'' @ x)"
  "\<not> starts_with ''#F*'' (''#F!'' @ x)" "\<not> starts_with ''#N!'' (''#F!'' @ x)"
  "\<not> starts_with ''#P!'' (''#F*'' @ x)" "\<not> starts_with ''folder/'' (''#F*'' @ x)" "\<not> starts_with ''file/'' (''#F*'' @ x)"
  "\<not> starts_with ''#P!'' (''#N!'' @ x)" "\<not> starts_with ''folder/'' (''#N!'' @ x)" "\<not> starts_with ''file/'' (''#N!'' @ x)"
  "\<not> starts_with ''#F*'' (''#N!'' @ x)"
  by (simp_all add: starts_with_def)

lemma not_password: "\<not> starts_with ''#P!'' t \<Longrightarrow> rx_match RE_PASSWORD (''https://mega.nz/'' @ t) = None"
  unfolding RE_PASSWORD_def by (rule mismatch)

lemma not_modern:
  "\<not> starts_with ''folder/'' t \<Longrightarrow> rx_match RE_MODERN_FOLDER (''https://mega.nz/'' @ t) = None"
  "\<not> starts_with ''file/'' t \<Longrightarrow> rx_match RE_MODERN_FILE (''https://mega.nz/'' @ t) = None"
  unfolding RE_MODERN_FOLDER_def RE_MODERN_FILE_def by (rule mismatch, assumption)+

lemma not_legacy:
  "\<not> starts_with ''#F*'' t \<Longrightarrow> rx_match RE_LEGACY_FOLDER_FILE_COMPACT (''https://mega.nz/'' @ t) = None"
  "\<not> starts_with ''#N!'' t \<Longrightarrow> rx_match RE_LEGACY_NODE (''https://mega.nz/'' @ t) = None"
  "\<not> starts_with ''#F!'' t \<Longrightarrow> rx_match RE_LEGACY_FOLDER (''https://mega.nz/'' @ t) = None"
  unfolding RE_LEGACY_FOLDER_FILE_COMPACT_def RE_LEGACY_NODE_def RE_LEGACY_FOLDER_def by (rule mismatch, assumption)+

lemmas rejected = not_password not_modern not_legacy other_schemes tails simp_thms

text \<open>The pattern that takes each spelling.\<close>

lemma first_spellings:
  assumes "RAW_KEY_RE i" and "RAW_KEY_RE k" and "RAW_KEY_RE s"
  shows "first_pattern link_patterns (''https://mega.nz/'' @ ''file/'' @ i @ ''#'' @ k) = Some (word_link LFile i k s)"
    and "first_pattern link_patterns (''https://mega.nz/'' @ ''#!'' @ i @ ''!'' @ k) = Some (word_link LFile i k s)"
    and "first_pattern link_patterns (''https://mega.nz/'' @ ''folder/'' @ i @ ''#'' @ k) = Some (word_link LFolder i k s)"
    and "first_pattern link_patterns (''https://mega.nz/'' @ ''#F!'' @ i @ ''!'' @ k) = Some (word_link LFolder i k s)"
    and "first_pattern link_patterns (''https://mega.nz/'' @ ''folder/'' @ i @ ''#'' @ k @ ''/file/'' @ s) = Some (word_link LFile_in_folder i k s)"
    and "first_pattern link_patterns (''https://mega.nz/'' @ ''#F*'' @ s @ ''!'' @ i @ ''!'' @ k) = Some (word_link LFile_in_folder i k s)"
    and "first_pattern link_patterns (''https://mega.nz/'' @ ''#N!'' @ s @ ''!'' @ i @ ''!'' @ k) = Some (word_link LFile_in_folder i k s)"
    and "first_pattern link_patterns (''https://mega.nz/'' @ ''#F!'' @ i @ ''!'' @ k @ ''!'' @ s) = Some (word_link LFile_in_folder i k s)"
    and "first_pattern link_patterns (''https://mega.nz/'' @ ''folder/'' @ i @ ''#'' @ k @ ''/folder/'' @ s) = Some (word_link LFolder_in_folder i k s)"
    and "first_pattern link_patterns (''https://mega.nz/'' @ ''#F!'' @ i @ ''@'' @ s @ ''!'' @ k) = Some (word_link LFolder_in_folder i k s)"
proof -
  have ne: "s \<noteq> []" using assms(3) by (simp add: RAW_KEY_RE_def)
  have file_in: "rx_first RE_MODERN_FOLDER (''https://mega.nz/'' @ ''folder/'' @ i @ ''#'' @ k @ ''/file/'' @ s)
      = Some ([(''1'', i), (''2'', k), (''kind'', ''file''), (''inner'', s)], [])"
    using modern_folder_match [OF assms(1,2) inner_match [OF assms(3), of "''file''"]] by simp
  have folder_in: "rx_first RE_MODERN_FOLDER (''https://mega.nz/'' @ ''folder/'' @ i @ ''#'' @ k @ ''/folder/'' @ s)
      = Some ([(''1'', i), (''2'', k), (''kind'', ''folder''), (''inner'', s)], [])"
    using modern_folder_match [OF assms(1,2) inner_match [OF assms(3), of "''folder''"]] by simp
  have bare: "rx_first RE_MODERN_FOLDER (''https://mega.nz/'' @ ''folder/'' @ i @ ''#'' @ k) = Some ([(''1'', i), (''2'', k)], [])"
    using modern_folder_match [OF assms(1,2) bare_folder_end] by simp
  note rules = link_patterns_def first_pattern.simps rejected option.case option.map fst_conv
  note made = word_link_def link_def group_def modern_folder_link_def legacy_folder_link_def node_link_def Let_def ne
  show "first_pattern link_patterns (''https://mega.nz/'' @ ''file/'' @ i @ ''#'' @ k) = Some (word_link LFile i k s)"
    by (simp only: rules rx_match_first [of RE_MODERN_FILE] modern_file_match [OF assms(1,2)]) (simp add: made)
  show "first_pattern link_patterns (''https://mega.nz/'' @ ''#!'' @ i @ ''!'' @ k) = Some (word_link LFile i k s)"
    by (simp only: rules rx_match_first [of RE_LEGACY_FILE] legacy_file_match [OF assms(1,2)]) (simp add: made)
  show "first_pattern link_patterns (''https://mega.nz/'' @ ''folder/'' @ i @ ''#'' @ k) = Some (word_link LFolder i k s)"
    by (simp only: rules rx_match_first [of RE_MODERN_FOLDER] bare) (simp add: made)
  show "first_pattern link_patterns (''https://mega.nz/'' @ ''#F!'' @ i @ ''!'' @ k) = Some (word_link LFolder i k s)"
    by (simp only: rules rx_match_first [of RE_LEGACY_FOLDER] legacy_folder_match [OF assms]) (simp add: made)
  show "first_pattern link_patterns (''https://mega.nz/'' @ ''folder/'' @ i @ ''#'' @ k @ ''/file/'' @ s) = Some (word_link LFile_in_folder i k s)"
    by (simp only: rules rx_match_first [of RE_MODERN_FOLDER] file_in) (simp add: made)
  show "first_pattern link_patterns (''https://mega.nz/'' @ ''#F*'' @ s @ ''!'' @ i @ ''!'' @ k) = Some (word_link LFile_in_folder i k s)"
    by (simp only: rules rx_match_first [of RE_LEGACY_FOLDER_FILE_COMPACT] node_match [OF assms(3,1,2)]) (simp add: made)
  show "first_pattern link_patterns (''https://mega.nz/'' @ ''#N!'' @ s @ ''!'' @ i @ ''!'' @ k) = Some (word_link LFile_in_folder i k s)"
    by (simp only: rules rx_match_first [of RE_LEGACY_NODE] node_match [OF assms(3,1,2)]) (simp add: made)
  show "first_pattern link_patterns (''https://mega.nz/'' @ ''#F!'' @ i @ ''!'' @ k @ ''!'' @ s) = Some (word_link LFile_in_folder i k s)"
    by (simp only: rules rx_match_first [of RE_LEGACY_FOLDER] legacy_folder_match [OF assms]) (simp add: made)
  show "first_pattern link_patterns (''https://mega.nz/'' @ ''folder/'' @ i @ ''#'' @ k @ ''/folder/'' @ s) = Some (word_link LFolder_in_folder i k s)"
    by (simp only: rules rx_match_first [of RE_MODERN_FOLDER] folder_in) (simp add: made)
  show "first_pattern link_patterns (''https://mega.nz/'' @ ''#F!'' @ i @ ''@'' @ s @ ''!'' @ k) = Some (word_link LFolder_in_folder i k s)"
    by (simp only: rules rx_match_first [of RE_LEGACY_FOLDER] legacy_folder_match [OF assms]) (simp add: made)
qed

lemma spelling_parses:
  assumes "RAW_KEY_RE i" and "RAW_KEY_RE k" and "RAW_KEY_RE s" and "url \<in> set (spellings t i k s)"
  shows "parse_link N url = Inr (word_link t i k s)"
proof -
  have lasts: "url_word_char (last (x @ k))" "url_word_char (last (x @ s))" for x
    using assms(2,3) by (simp_all add: RAW_KEY_RE_def list_all_iff)
  have l: "url_word_char (last url)"
    using assms(4) lasts [of "_ @ _"] unfolding append_assoc
    by (cases t) (auto simp: spellings_def Let_def assms(2,3) [unfolded RAW_KEY_RE_def list_all_iff])
  obtain v where u: "url = ''https://mega.nz/'' @ v"
    using assms(4) by (cases t) (auto simp: spellings_def Let_def)
  have f: "first_pattern link_patterns url = Some (word_link t i k s)"
    using assms(4) first_spellings [OF assms(1-3)]
    by (cases t) (auto simp only: spellings_def Let_def link_type.case list.set insert_iff empty_iff)
  show ?thesis unfolding parse_link_def trim_spelling [OF l u] Let_def f by simp
qed

text \<open>
  One link, whatever its spelling. The modern address, the two legacy ones and the compact ones of
  the same handles and key are parsed to the same link, and each normalizes to the modern address,
  which parses to that link again.
\<close>

theorem spellings_agree:
  assumes "RAW_KEY_RE i" and "RAW_KEY_RE k" and "RAW_KEY_RE s" and "url \<in> set (spellings t i k s)"
  shows "parse_link N url = Inr (word_link t i k s)
    \<and> normalize_link N url = Inr (hd (spellings t i k s))
    \<and> parse_link N (hd (spellings t i k s)) = Inr (word_link t i k s)"
proof -
  have "hd (spellings t i k s) \<in> set (spellings t i k s)" using assms(4) by (intro list.set_sel(1)) auto
  note p = spelling_parses [OF assms] spelling_parses [OF assms(1-3) this]
  have "k \<noteq> []" using assms(2) by (simp add: RAW_KEY_RE_def)
  then have "normalize_link N url = Inr (hd (spellings t i k s))"
    using assms(4) unfolding normalize_link_def p bindR_simps
    by (cases t) (simp_all add: spellings_def word_link_def link_def with_key_def show_opt_def)
  with p show ?thesis by blast
qed

lemma spellings_agree_witness:
  "parse_link (\<lambda>_. Inr ''mega.nz'') ''https://mega.nz/#F!AbC@x!k-_1'' = Inr (word_link LFolder_in_folder ''AbC'' ''k-_1'' ''x'')
    \<and> normalize_link (\<lambda>_. Inr ''mega.nz'') ''https://mega.nz/#F!AbC@x!k-_1'' = Inr ''https://mega.nz/folder/AbC#k-_1/folder/x''"
proof -
  have w: "RAW_KEY_RE ''AbC''" "RAW_KEY_RE ''k-_1''" "RAW_KEY_RE ''x''" by code_simp+
  have u: "''https://mega.nz/#F!AbC@x!k-_1'' \<in> set (spellings LFolder_in_folder ''AbC'' ''k-_1'' ''x'')"
    and h: "hd (spellings LFolder_in_folder ''AbC'' ''k-_1'' ''x'') = ''https://mega.nz/folder/AbC#k-_1/folder/x''" by code_simp+
  show ?thesis using spellings_agree [OF w u, of "\<lambda>_. Inr ''mega.nz''"] unfolding h by blast
qed

section \<open>Keys\<close>

text \<open>A key that passes has exactly the bytes its kind of link needs, so no padding makes another key of it.\<close>

lemma link_key_exact:
  assumes "require_link_key l = Inr key" and "expected_key_bytes (lk_type l) = Some n"
  shows "\<exists>raw. b64_url_decode key = Inr raw \<and> length raw = n \<and> str_to_a32 key = Inr (bytes_to_a32 raw)
    \<and> a32_to_bytes (bytes_to_a32 raw) = raw"
proof -
  obtain raw where raw: "b64_url_decode key = Inr raw" "length raw = n"
    using assms by (auto simp: require_link_key_def split: option.splits sum.splits if_splits)
  have "n mod 4 = 0" using assms(2) by (auto simp: expected_key_bytes_def split: link_type.splits)
  then show ?thesis using raw by (simp add: str_to_a32_def a32_to_bytes_of_bytes dvd_eq_mod_eq_0)
qed

text \<open>A link to a node of a folder without its key is normalized to one with the key \<open>None\<close>.\<close>

lemma normalize_prints_none:
  "normalize_link (\<lambda>_. Inr ''mega.nz'') ''https://mega.nz/folder/I/file/S'' = Inr ''https://mega.nz/folder/I#None/file/S''"
  by code_simp

text \<open>The host test looks at the end of the name alone.\<close>

lemma foreign_host_is_mega: "is_mega_url (\<lambda>_. Inr ''notmega.nz'') ''https://notmega.nz/x''"
  by code_simp

end
