(* ===== verification/FolderShare.thy ===== *)
theory FolderShare
  imports FolderTree Links Downloader UploadIdentity "HOL-Library.Multiset"
begin

text \<open>
  \<open>core/folder_downloader.py\<close>, the download: the nodes of a share decrypted, the plan for a folder or
  for one node of it, the request for each file and the verdict over all of them. The API answers the
  listing and the requests; the transfer of one file is the one of the downloader and an argument here.
\<close>

section \<open>Decrypting the listing\<close>

text \<open>
  The wrapped key of a raw node. A list or an object without a colon fails inside the guarded part and
  skips the node, like an empty text.
\<close>

definition wrapped_key :: "(string \<times> json) list \<Rightarrow> string option py" where
  "wrapped_key d =
    (case jget_default ''k'' (JStr []) d of
       JStr s \<Rightarrow>
         (case partition_at (CHR '':'') s of (h, found, t) \<Rightarrow>
           let w = (if found then t else s) in Inr (if w = [] then None else Some w))
     | JArr xs \<Rightarrow> if JStr '':'' \<in> set xs then raise AttributeError else Inr None
     | JObj m \<Rightarrow> if '':'' \<in> fst ` set m then raise AttributeError else Inr None
     | _ \<Rightarrow> raise TypeError)"

definition share_attrs :: "(string \<times> json) list \<Rightarrow> bytes py" where
  "share_attrs d =
    (let a = jget_default ''a'' (JStr []) d in
     if \<not> truthy a then Inr []
     else (case a of JStr s \<Rightarrow> b64_url_decode s | _ \<Rightarrow> raise AttributeError))"

text \<open>Handles and parents are texts; another value there is outside the model.\<close>

definition node_text :: "json \<Rightarrow> string py" where
  "node_text v = (case v of JStr s \<Rightarrow> Inr s | _ \<Rightarrow> raise TypeError)"

definition node_secret :: "json \<Rightarrow> bytes \<Rightarrow> (bytes \<times> a32 option) py" where
  "node_secret node_type key_bytes =
    (if is_zero node_type
     then (let words = bytes_to_a32 (take 32 key_bytes)
           in bindR (unpack_file_key words) (\<lambda>(aes_key, _, _). Inr (aes_key, Some words)))
     else Inr (take 16 key_bytes, None))"

definition opened_node :: "aes \<Rightarrow> loads \<Rightarrow> (string \<times> json) list \<Rightarrow> bytes \<Rightarrow> folder_node py" where
  "opened_node C L d key_bytes =
    (let node_type = jget_default ''t'' (JInt 0) d in
     bindR (node_secret node_type key_bytes) (\<lambda>(attr_key, words).
     bindR (share_attrs d) (\<lambda>blob.
     bindR (decrypt_attributes C L blob attr_key) (\<lambda>attrs.
     let chosen = (case attrs of None \<Rightarrow> JNull | Some m \<Rightarrow> jget_none ''n'' m);
         name = (if truthy chosen then chosen else jget_default ''h'' (JStr ''unnamed'') d)
     in bindR (case jget ''h'' d of None \<Rightarrow> raise KeyError | Some h \<Rightarrow> node_text h) (\<lambda>handle.
        bindR (node_text (jget_default ''p'' (JStr []) d)) (\<lambda>parent.
          Inr \<lparr>fn_handle = handle, fn_parent = parent, fn_type = node_type, fn_size = jget_default ''s'' (JInt 0) d,
               fn_name = name, fn_key = take 32 key_bytes, fn_words = words\<rparr>))))))"

text \<open>A node without a key, or whose key does not unwrap, is skipped; anything else that fails is raised.\<close>

definition decrypt_folder_node :: "aes \<Rightarrow> loads \<Rightarrow> bytes \<Rightarrow> json \<Rightarrow> folder_node option py" where
  "decrypt_folder_node C L folder_key v =
    (case v of
       JObj d \<Rightarrow>
         bindR (wrapped_key d) (\<lambda>w.
           case w of
             None \<Rightarrow> Inr None
           | Some wrapped \<Rightarrow>
               (case bindR (b64_url_decode wrapped) (\<lambda>b. aes_key_wrap_decrypt C b folder_key) of
                  Inl e \<Rightarrow> Inr None
                | Inr key_bytes \<Rightarrow> bindR (opened_node C L d key_bytes) (\<lambda>n. Inr (Some n))))
     | _ \<Rightarrow> raise AttributeError)"

definition decrypt_folder_nodes :: "aes \<Rightarrow> loads \<Rightarrow> json \<Rightarrow> bytes \<Rightarrow> folder_node list py" where
  "decrypt_folder_nodes C L raw_nodes folder_key =
    (case raw_nodes of
       JArr vs \<Rightarrow> bindR (mapR (decrypt_folder_node C L folder_key) vs) (\<lambda>ns. Inr (map the (filter (\<lambda>n. n \<noteq> None) ns)))
     | JStr [] \<Rightarrow> Inr []
     | JObj [] \<Rightarrow> Inr []
     | JStr _ \<Rightarrow> raise AttributeError
     | JObj _ \<Rightarrow> raise AttributeError
     | _ \<Rightarrow> raise TypeError)"

section \<open>Planning a download\<close>

record share_env =
  sh_aes :: aes
  sh_loads :: loads
  sh_netloc :: netloc
  sh_within :: within
  sh_mkdir :: "fpath \<Rightarrow> bool"
  sh_listing :: "string \<Rightarrow> json py"

type_synonym jobs = "(folder_node \<times> fpath) list"

definition apply_file_filter :: "(jobs \<Rightarrow> jobs) option \<Rightarrow> jobs \<Rightarrow> jobs py" where
  "apply_file_filter f jobs =
    (case f of None \<Rightarrow> Inr jobs | Some sel \<Rightarrow> if sel jobs = [] then raise TransferError else Inr (sel jobs))"

text \<open>The nodes of the share of a link.\<close>

definition share_nodes :: "share_env \<Rightarrow> parsed_link \<Rightarrow> folder_node list py" where
  "share_nodes E l =
    bindR (require_link_key l) (\<lambda>key.
    bindR (str_to_a32 key) (\<lambda>words.
    bindR (bindR (sh_listing E (lk_id l)) expect_mapping) (\<lambda>listing.
    bindR (decrypt_folder_nodes (sh_aes E) (sh_loads E) (jget_default ''f'' (JArr []) listing) (a32_to_bytes words)) (\<lambda>nodes.
      if nodes = [] then raise TransferError else Inr nodes))))"

definition filtered :: "(jobs \<Rightarrow> jobs) option \<Rightarrow> jobs py \<times> fpath list \<Rightarrow> jobs py \<times> fpath list" where
  "filtered f r = (bindR (fst r) (apply_file_filter f), snd r)"

definition below :: "folder_node list \<Rightarrow> string \<Rightarrow> folder_node list" where
  "below nodes root = filter (\<lambda>n. fn_handle n \<in> set (subtree_handles nodes root)) nodes"

definition plan_folder :: "share_env \<Rightarrow> string \<Rightarrow> fpath \<Rightarrow> (jobs \<Rightarrow> jobs) option \<Rightarrow> jobs py \<times> fpath list" where
  "plan_folder E url out f =
    (case parse_link (sh_netloc E) url of
       Inl e \<Rightarrow> (Inl e, [])
     | Inr l \<Rightarrow>
        if \<not> is_folder_link l then (raise ValueError, [])
        else (case share_nodes E l of
            Inl e \<Rightarrow> (Inl e, [])
          | Inr nodes \<Rightarrow>
             (let sub = (lk_type l = LFolder_in_folder);
                  root = (case lk_subpath l of
                      Some p \<Rightarrow> if sub \<and> p \<noteq> [] then p else find_folder_root nodes
                    | None \<Rightarrow> find_folder_root nodes)
              in if sub \<and> \<not> list_ex (\<lambda>n. fn_handle n = root \<and> \<not> fn_is_file n) nodes then (raise TransferError, [])
                 else filtered f (build_file_jobs (sh_within E) (sh_mkdir E) (if sub then below nodes root else nodes) out root))))"

definition plan_node :: "share_env \<Rightarrow> string \<Rightarrow> fpath \<Rightarrow> (jobs \<Rightarrow> jobs) option \<Rightarrow> jobs py \<times> fpath list" where
  "plan_node E url out f =
    (case parse_link (sh_netloc E) url of
       Inl e \<Rightarrow> (Inl e, [])
     | Inr l \<Rightarrow>
        (case (lk_type l, lk_subpath l) of
           (LFile_in_folder, Some (c # cs)) \<Rightarrow>
             (case share_nodes E l of
                Inl e \<Rightarrow> (Inl e, [])
              | Inr nodes \<Rightarrow>
                 (case find (\<lambda>n. fn_handle n = c # cs) nodes of
                    None \<Rightarrow> (raise TransferError, [])
                  | Some target \<Rightarrow>
                     if fn_is_file target
                     then (case local_path_for_node (sh_within E) nodes out (find_folder_root nodes) target of
                             Inl e \<Rightarrow> (Inl e, [])
                           | Inr p \<Rightarrow>
                              (case make_dirs (sh_mkdir E) [butlast p] [] of
                                 (Inl e, made) \<Rightarrow> (Inl e, made)
                               | (Inr _, made) \<Rightarrow> filtered f (Inr [(target, p)], made)))
                     else filtered f (build_file_jobs (sh_within E) (sh_mkdir E) (below nodes (fn_handle target)) out (fn_handle target))))
         | _ \<Rightarrow> (raise ValueError, [])))"

section \<open>Running the jobs\<close>

text \<open>
  The jobs in the order in which they finish: the results and the jobs that failed, the callback of a
  finished file among the failures when it raises.
\<close>

fun run_file_jobs :: "(folder_node \<times> fpath \<Rightarrow> 'r py) \<Rightarrow> ('r \<Rightarrow> unit py) \<Rightarrow> jobs \<Rightarrow> 'r list \<times> jobs" where
  "run_file_jobs fetch on_done [] = ([], [])"
| "run_file_jobs fetch on_done (j # js) =
    (case run_file_jobs fetch on_done js of (results, failures) \<Rightarrow>
       (case fetch j of
          Inl e \<Rightarrow> (results, j # failures)
        | Inr r \<Rightarrow> (r # results, (case on_done r of Inl e \<Rightarrow> j # failures | Inr _ \<Rightarrow> failures))))"

definition download_file_jobs :: "(folder_node \<times> fpath \<Rightarrow> 'r py) \<Rightarrow> ('r \<Rightarrow> unit py) \<Rightarrow> jobs \<Rightarrow> 'r list py" where
  "download_file_jobs fetch on_done jobs =
    (case run_file_jobs fetch on_done jobs of
       (results, failures) \<Rightarrow> if failures \<noteq> [] then raise TransferError else Inr results)"

text \<open>
  What \<open>_download_owned_file\<close> hands to the downloader; the size is the one \<open>int()\<close> is applied to. Its
  resolver makes the request again.
\<close>

record owned_file =
  of_url :: json
  of_size :: json
  of_key :: bytes
  of_nonce :: bytes
  of_mac_iv :: a32
  of_path :: fpath

definition owned_request :: "quota_env \<Rightarrow> nat \<Rightarrow> nat \<Rightarrow> (nat \<Rightarrow> (string \<times> json) list py) \<Rightarrow> (string \<times> json) list py" where
  "owned_request Q wait loops answers =
    bindR (fst (get_with_quota_wait Q answers wait loops)) (\<lambda>info.
      if jget ''g'' info = None then raise TransferError else Inr info)"

definition owned_file_of ::
  "quota_env \<Rightarrow> nat \<Rightarrow> nat \<Rightarrow> (nat \<Rightarrow> (string \<times> json) list py) \<Rightarrow> folder_node \<Rightarrow> fpath \<Rightarrow> owned_file py" where
  "owned_file_of Q wait loops answers n dest =
    bindR (owned_request Q wait loops answers) (\<lambda>info.
      case fn_words n of
        None \<Rightarrow> raise TransferError
      | Some words \<Rightarrow>
          bindR (unpack_file_key words) (\<lambda>(aes_key, nonce, mac_iv).
            case jget ''s'' info of
              None \<Rightarrow> raise KeyError
            | Some v \<Rightarrow> Inr \<lparr>of_url = jget_none ''g'' info, of_size = v, of_key = aes_key, of_nonce = nonce,
                of_mac_iv = mac_iv, of_path = dest\<rparr>))"

section \<open>A folder download is complete\<close>

lemma run_file_jobs_ok:
  assumes "run_file_jobs fetch on_done jobs = (results, [])"
  shows "list_all2 (\<lambda>j r. fetch j = Inr r \<and> on_done r = Inr ()) jobs results"
  using assms
proof (induction jobs arbitrary: results)
  case (Cons j js)
  obtain rs fs where r: "run_file_jobs fetch on_done js = (rs, fs)" by (metis surj_pair)
  then show ?case using Cons by (auto split: sum.splits)
qed simp

lemma plan_folder_facts:
  assumes "plan_folder E url out None = (Inr jobs, made)"
  shows "\<exists>l nodes root. parse_link (sh_netloc E) url = Inr l \<and> share_nodes E l = Inr nodes
    \<and> (lk_type l = LFolder \<or> lk_type l = LFolder_in_folder)
    \<and> (lk_type l = LFolder_in_folder \<longrightarrow> (\<forall>p. lk_subpath l = Some p \<longrightarrow> p \<noteq> [] \<longrightarrow> root = p))
    \<and> plan_file_jobs (sh_within E) (if lk_type l = LFolder_in_folder then below nodes root else nodes) out root = Inr jobs"
proof -
  obtain l where l: "parse_link (sh_netloc E) url = Inr l" "is_folder_link l"
    using assms by (auto simp: plan_folder_def split: sum.splits if_splits)
  obtain nodes where n: "share_nodes E l = Inr nodes"
    using assms l by (auto simp: plan_folder_def split: sum.splits if_splits)
  define sub where "sub = (lk_type l = LFolder_in_folder)"
  define root where "root = (case lk_subpath l of
      Some p \<Rightarrow> if sub \<and> p \<noteq> [] then p else find_folder_root nodes | None \<Rightarrow> find_folder_root nodes)"
  have "filtered None (build_file_jobs (sh_within E) (sh_mkdir E) (if sub then below nodes root else nodes) out root) = (Inr jobs, made)"
    using assms l n unfolding plan_folder_def by (simp add: Let_def flip: sub_def root_def split: if_splits)
  then have "fst (build_file_jobs (sh_within E) (sh_mkdir E) (if sub then below nodes root else nodes) out root) = Inr jobs"
    by (auto simp: filtered_def apply_file_filter_def bindR_Inr_iff)
  then have "plan_file_jobs (sh_within E) (if sub then below nodes root else nodes) out root = Inr jobs"
    by (auto simp: build_file_jobs_def split: sum.splits prod.splits)
  moreover have "lk_type l = LFolder_in_folder \<longrightarrow> (\<forall>p. lk_subpath l = Some p \<longrightarrow> p \<noteq> [] \<longrightarrow> root = p)"
    by (simp add: root_def sub_def)
  ultimately show ?thesis using l n unfolding is_folder_link_def sub_def by blast
qed


section \<open>Examples\<close>

definition demo_raw :: "string \<Rightarrow> json" where
  "demo_raw k = JObj [(''h'', JStr ''F''), (''p'', JStr ''R''), (''t'', JInt 0), (''s'', JInt 3), (''k'', JStr k)]"

definition demo_share_env :: share_env where
  "demo_share_env = \<lparr>sh_aes = demo_aes, sh_loads = \<lambda>_. raise JSONDecodeError, sh_netloc = \<lambda>_. Inr ''mega.nz'',
     sh_within = \<lambda>_ _. True, sh_mkdir = \<lambda>_. True,
     sh_listing = \<lambda>_. Inr (JObj [(''f'', JArr [demo_raw ''u:AAAAAAAAAAAAAAAAAAAAAAAAAAAAAAAAAAAAAAAAAAA''])])\<rparr>"

definition demo_folder_url :: string where
  "demo_folder_url = ''https://mega.nz/folder/I#AAAAAAAAAAAAAAAAAAAAAA''"

lemma demo_folder_plan:
  "(case plan_folder demo_share_env demo_folder_url [''out''] None of
      (Inr jobs, made) \<Rightarrow> map snd jobs = [[''out'', ''F'']] \<and> made = [[''out''], [''out'']] | _ \<Rightarrow> False)"
  by code_simp


text \<open>
  One file of the share whose key unwraps to too few bytes stops the whole listing, although a node
  whose key does not unwrap at all is skipped.
\<close>

lemma short_key_stops_share:
  "decrypt_folder_nodes demo_aes (\<lambda>_. raise JSONDecodeError) (JArr [demo_raw ''u:AAAAAAAAAAAAAAAAAAAAAA'']) (zeros 16) = raise ValueError
    \<and> decrypt_folder_nodes demo_aes (\<lambda>_. raise JSONDecodeError) (JArr [demo_raw ''u:AAAA'']) (zeros 16) = Inr []"
  by code_simp

end
