(* ===== verification/Hashcash.thy ===== *)
theory Hashcash
  imports Targets Aead
begin

text \<open>
  \<open>core/hashcash.py\<close>: the proof of work the API asks for. A challenge comes from whoever answers the
  request, so every field is bounded when it is read. SHA-256, the helper processes and the search
  threads are arguments: a hash function, what running a command line gives, and the order in which
  the threads take their steps. Times are nanoseconds.
\<close>

section \<open>The challenge\<close>

definition TOKEN_BYTES :: nat where
  "TOKEN_BYTES = 48"

definition REPEAT :: nat where
  "REPEAT = 262144"

definition SUPPORTED_VERSIONS :: "int list" where
  "SUPPORTED_VERSIONS = [1]"

definition MAX_EASINESS :: int where
  "MAX_EASINESS = 255"

definition MAX_TOKEN_B64_CHARS :: nat where
  "MAX_TOKEN_B64_CHARS = 128"

record hashcash_challenge =
  hc_version :: int
  hc_easiness :: int
  hc_token :: bytes

text \<open>\<open>__post_init__\<close>: no challenge exists outside these bounds.\<close>

definition make_challenge :: "int \<Rightarrow> int \<Rightarrow> bytes \<Rightarrow> hashcash_challenge py" where
  "make_challenge version easiness token =
    (if version \<notin> set SUPPORTED_VERSIONS then raise HashcashError
     else if \<not> (0 \<le> easiness \<and> easiness \<le> MAX_EASINESS) then raise HashcashError
     else Inr \<lparr>hc_version = version, hc_easiness = easiness, hc_token = token\<rparr>)"

unbundle bit_operations_syntax

definition easiness_threshold :: "int \<Rightarrow> int" where
  "easiness_threshold e = push_bit (nat (drop_bit 6 e * 7 + 3)) (push_bit 1 (e AND 0x3F) + 1)"

definition threshold :: "hashcash_challenge \<Rightarrow> int" where
  "threshold c = easiness_threshold (hc_easiness c)"

definition parse_challenge :: "string \<Rightarrow> hashcash_challenge py" where
  "parse_challenge header =
    (case split_on (CHR '':'') (strip header) of
       [v, e, token_b64] \<Rightarrow>
         (case (py_int v, py_int e) of
            (Some version, Some easiness) \<Rightarrow>
              if MAX_TOKEN_B64_CHARS < length token_b64 then raise HashcashError
              else
                let t = replace_char (CHR ''_'') (CHR ''/'') (replace_char (CHR ''-'') (CHR ''+'') token_b64);
                    t = t @ replicate ((4 - length t mod 4) mod 4) (CHR ''='')
                in (case b64decode_text t of
                      Inl _ \<Rightarrow> raise HashcashError
                    | Inr token \<Rightarrow>
                        if length token \<noteq> TOKEN_BYTES then raise HashcashError
                        else make_challenge version easiness token)
          | _ \<Rightarrow> raise HashcashError)
     | _ \<Rightarrow> raise HashcashError)"

section \<open>A nonce\<close>

type_synonym hash = "bytes \<Rightarrow> bytes"

definition repeated :: "bytes \<Rightarrow> bytes" where
  "repeated token = concat (replicate REPEAT token)"

definition check_nonce :: "hash \<Rightarrow> bytes \<Rightarrow> bytes \<Rightarrow> int \<Rightarrow> bool" where
  "check_nonce H nonce token_repeated thr \<longleftrightarrow> int (nat_of_be (take 4 (H (nonce @ token_repeated)))) \<le> thr"

section \<open>The native helper\<close>

record solver_host =
  sh_env :: "string \<Rightarrow> string option"
  sh_is_file :: "string \<Rightarrow> bool"
  sh_expanduser :: "string \<Rightarrow> string"
  sh_which :: "string \<Rightarrow> string option"
  sh_system :: string
  sh_parents :: "string list"

definition helper_suffix :: "string \<Rightarrow> string" where
  "helper_suffix p =
    (case rpartition_at (CHR ''.'') (last (split_on (CHR ''/'') p)) of
       (h, f, t) \<Rightarrow> if f \<and> h \<noteq> [] \<and> t \<noteq> [] then CHR ''.'' # t else [])"

definition project_root :: "solver_host \<Rightarrow> string option" where
  "project_root E = find (\<lambda>p. sh_is_file E (p @ ''/Run.ps1'')) (sh_parents E)"

definition powershell_path :: "solver_host \<Rightarrow> string option" where
  "powershell_path E =
    (case sh_which E ''pwsh.exe'' of
       Some (c # p) \<Rightarrow> Some (c # p)
     | _ \<Rightarrow> (case sh_which E ''powershell.exe'' of Some (c # p) \<Rightarrow> Some (c # p) | _ \<Rightarrow> None))"

definition script_command :: "solver_host \<Rightarrow> string \<Rightarrow> string list list" where
  "script_command E script =
    (case powershell_path E of
       None \<Rightarrow> []
     | Some ps \<Rightarrow> [[ps, ''-NoProfile'', ''-ExecutionPolicy'', ''Bypass'', ''-File'', script]])"

definition native_solver_commands :: "solver_host \<Rightarrow> string list list" where
  "native_solver_commands E =
    (if lower (case sh_env E ''MEGABASTERD_HASHCASH_NATIVE'' of None \<Rightarrow> [] | Some v \<Rightarrow> v)
          \<in> set [''0'', ''false'', ''n'', ''no'', ''off''] then []
     else case sh_env E ''MEGABASTERD_HASHCASH_SOLVER'' of
         Some (c # s) \<Rightarrow>
           (let candidate = sh_expanduser E (c # s)
            in if sh_is_file E candidate then
                 (if lower (helper_suffix candidate) = ''.ps1'' then script_command E candidate else [[candidate]])
               else [])
       | _ \<Rightarrow>
           if sh_system E \<noteq> ''Windows'' then []
           else case project_root E of
               None \<Rightarrow> []
             | Some root \<Rightarrow>
                 (let exe = root @ ''/Bin/hashcash-solver-win64.exe'';
                      script = root @ ''/tools/hashcash_solver_windows.ps1''
                  in (if sh_is_file E exe then [[exe]] else [])
                     @ (if powershell_path E \<noteq> None \<and> sh_is_file E script then script_command E script else [])))"

text \<open>\<open>str.splitlines\<close>: the line ends of Latin-1, a carriage return with its line feed as one.\<close>

definition line_end :: "char \<Rightarrow> bool" where
  "line_end c \<longleftrightarrow> (of_char c :: nat) \<in> {10, 11, 12, 13, 28, 29, 30, 133}"

fun splitlines_from :: "string \<Rightarrow> string \<Rightarrow> string list" where
  "splitlines_from acc [] = (if acc = [] then [] else [rev acc])"
| "splitlines_from acc (c # s) =
    (if line_end c then
       rev acc # splitlines_from [] (if of_char c = (13 :: nat) \<and> starts_with [CHR 0x0A] s then tl s else s)
     else splitlines_from (c # acc) s)"

definition splitlines :: "string \<Rightarrow> string list" where
  "splitlines s = splitlines_from [] s"

fun first_nonce :: "string list \<Rightarrow> bytes option" where
  "first_nonce [] = None"
| "first_nonce (line # rest) =
    (let t = strip line
     in if length t = 8 then (case from_hex t of Some b \<Rightarrow> Some b | None \<Rightarrow> first_nonce rest)
        else first_nonce rest)"

definition parse_native_nonce :: "string \<Rightarrow> bytes py" where
  "parse_native_nonce output =
    (case first_nonce (rev (splitlines output)) of None \<Rightarrow> raise ValueError | Some b \<Rightarrow> Inr b)"

datatype native_run = Timed_out | Not_started | Exited int string

definition native_args :: "string list \<Rightarrow> hashcash_challenge \<Rightarrow> int \<Rightarrow> int \<Rightarrow> string list" where
  "native_args base c workers timeout_ms =
    (if ends_with ''.ps1'' (lower (last base)) then
       base @ [''-Easiness'', show_int (hc_easiness c), ''-TokenHex'', to_hex (hc_token c),
               ''-Workers'', show_int workers, ''-TimeoutMs'', show_int timeout_ms]
     else base @ [show_int (hc_easiness c), to_hex (hc_token c), show_int workers, show_int timeout_ms])"

fun try_native ::
  "(string list \<Rightarrow> native_run) \<Rightarrow> hashcash_challenge \<Rightarrow> int \<Rightarrow> int \<Rightarrow> string list list \<Rightarrow> bytes option py" where
  "try_native run c workers timeout_ms [] = Inr None"
| "try_native run c workers timeout_ms (base # rest) =
    (case run (native_args base c workers timeout_ms) of
       Timed_out \<Rightarrow> raise TimeoutError
     | Not_started \<Rightarrow> try_native run c workers timeout_ms rest
     | Exited rc out \<Rightarrow>
         if rc = 0 then
           (case parse_native_nonce out of
              Inr b \<Rightarrow> Inr (Some b)
            | Inl _ \<Rightarrow> try_native run c workers timeout_ms rest)
         else if rc = 2 then raise TimeoutError
         else try_native run c workers timeout_ms rest)"

definition solve_with_native ::
  "solver_host \<Rightarrow> (string list \<Rightarrow> native_run) \<Rightarrow> hashcash_challenge \<Rightarrow> int \<Rightarrow> int \<Rightarrow> bytes option py" where
  "solve_with_native E run c timeout workers =
    (let commands = native_solver_commands E
     in if commands = [] then Inr None
        else try_native run c (max 1 (min workers 32)) (max 1 (timeout div 1000000)) commands)"

section \<open>The search\<close>

text \<open>
  Worker \<open>i\<close> of \<open>w\<close> tries \<open>i\<close>, \<open>i + w\<close>, and so on. A step is a worker at the head of its loop, which looks
  at the stop event and at the clock (\<open>late\<close> says the deadline has passed), a worker whose digest is
  ready, or the main thread that sets the stop event.
\<close>

datatype searcher = At nat | Hashing nat | Gone

datatype search_event = Turn nat bool | Digest nat | Give_up

record search =
  se_workers :: "searcher list"
  se_result :: "bytes list"
  se_stop :: bool

definition nonce_of :: "nat \<Rightarrow> bytes" where
  "nonce_of candidate = be_of_nat 4 (candidate mod 2 ^ 32)"

definition record_nonce :: "bytes \<Rightarrow> search \<Rightarrow> search" where
  "record_nonce nonce st = st\<lparr>se_result := (if se_result st = [] then [nonce] else se_result st), se_stop := True\<rparr>"

definition worker_at :: "nat \<Rightarrow> search \<Rightarrow> searcher" where
  "worker_at i st = (if i < length (se_workers st) then se_workers st ! i else Gone)"

definition set_worker :: "nat \<Rightarrow> searcher \<Rightarrow> search \<Rightarrow> search" where
  "set_worker i x st = st\<lparr>se_workers := (se_workers st)[i := x]\<rparr>"

fun search_step :: "(bytes \<Rightarrow> bool) \<Rightarrow> search_event \<Rightarrow> search \<Rightarrow> search" where
  "search_step ok (Turn i late) st =
    (case worker_at i st of
       At c \<Rightarrow> set_worker i (if se_stop st \<or> late then Gone else Hashing c) st
     | _ \<Rightarrow> st)"
| "search_step ok (Digest i) st =
    (case worker_at i st of
       Hashing c \<Rightarrow>
         if ok (nonce_of c) then set_worker i Gone (record_nonce (nonce_of c) st)
         else set_worker i (At (c + length (se_workers st))) st
     | _ \<Rightarrow> st)"
| "search_step ok Give_up st = st\<lparr>se_stop := True\<rparr>"

definition worker_count :: "int \<Rightarrow> nat" where
  "worker_count workers = nat (max 1 (min workers 32))"

definition search_start :: "nat \<Rightarrow> search" where
  "search_start w = \<lparr>se_workers = map At [0..<w], se_result = [], se_stop = False\<rparr>"

definition search_nonce :: "(bytes \<Rightarrow> bool) \<Rightarrow> int \<Rightarrow> search_event list \<Rightarrow> bytes py" where
  "search_nonce ok workers evs =
    (case se_result (fold (search_step ok) evs (search_start (worker_count workers))) of
       [] \<Rightarrow> raise TimeoutError
     | nonce # _ \<Rightarrow> Inr nonce)"

record solver =
  so_hash :: hash
  so_host :: solver_host
  so_run :: "string list \<Rightarrow> native_run"
  so_threads :: "search_event list"

definition meets :: "solver \<Rightarrow> hashcash_challenge \<Rightarrow> bytes \<Rightarrow> bool" where
  "meets S c nonce \<longleftrightarrow> check_nonce (so_hash S) nonce (repeated (hc_token c)) (threshold c)"

definition solve :: "solver \<Rightarrow> hashcash_challenge \<Rightarrow> int \<Rightarrow> int \<Rightarrow> bytes py" where
  "solve S c timeout workers =
    bindR (solve_with_native (so_host S) (so_run S) c timeout workers) (\<lambda>native.
      case native of
        Some nonce \<Rightarrow> if meets S c nonce then Inr nonce else search_nonce (meets S c) workers (so_threads S)
      | None \<Rightarrow> search_nonce (meets S c) workers (so_threads S))"

definition unpadded_b64 :: "bytes \<Rightarrow> string" where
  "unpadded_b64 bs =
    replace_char (CHR ''/'') (CHR ''_'') (replace_char (CHR ''+'') (CHR ''-'')
      (rstrip_by (\<lambda>c. c = CHR ''='') (b64encode bs)))"

definition build_solution_header :: "solver \<Rightarrow> string \<Rightarrow> int \<Rightarrow> string py" where
  "build_solution_header S challenge_header timeout =
    bindR (parse_challenge challenge_header) (\<lambda>c.
    bindR (solve S c timeout 8) (\<lambda>nonce.
      Inr (show_int (hc_version c) @ '':'' @ show_int (hc_easiness c) @ '':'' @ unpadded_b64 (hc_token c)
           @ '':'' @ unpadded_b64 nonce)))"

section \<open>Bounds\<close>

lemma make_challenge_facts:
  "make_challenge v e t = Inr c \<longleftrightarrow> v = 1 \<and> 0 \<le> e \<and> e \<le> 255 \<and> c = \<lparr>hc_version = v, hc_easiness = e, hc_token = t\<rparr>"
  by (auto simp: make_challenge_def SUPPORTED_VERSIONS_def MAX_EASINESS_def)

lemma parse_challenge_facts:
  assumes "parse_challenge h = Inr c"
  shows "hc_version c = 1 \<and> 0 \<le> hc_easiness c \<and> hc_easiness c \<le> 255 \<and> length (hc_token c) = 48"
  using assms
  by (auto simp: parse_challenge_def Let_def make_challenge_facts TOKEN_BYTES_def
      split: list.splits option.splits sum.splits if_splits)

lemma threshold_steps:
  "list_all (\<lambda>e. easiness_threshold e < easiness_threshold (e + 1)) [0..254]"
  by code_simp

lemma threshold_less:
  assumes "0 \<le> a" and "a < b" and "b \<le> 255"
  shows "easiness_threshold a < easiness_threshold b"
proof -
  have step: "easiness_threshold e < easiness_threshold (e + 1)" if "0 \<le> e" "e < 255" for e
    using threshold_steps that by (auto simp: list_all_iff)
  have "easiness_threshold a < easiness_threshold (a + int (Suc k))" if "a + int (Suc k) \<le> 255" for k
    using that
  proof (induction k)
    case 0
    then show ?case using step [of a] assms(1) by simp
  next
    case (Suc k)
    have "easiness_threshold (a + int (Suc k)) < easiness_threshold (a + int (Suc k) + 1)"
      using Suc.prems assms(1) by (intro step) auto
    also have "a + int (Suc k) + 1 = a + int (Suc (Suc k))" by simp
    finally show ?case using Suc by simp
  qed
  from this [of "nat (b - a - 1)"] show ?thesis using assms by simp
qed

lemma threshold_ends: "easiness_threshold 0 = 8" "easiness_threshold 255 = 127 * 2 ^ 24"
  by code_simp+

lemma threshold_range:
  assumes "0 \<le> e" and "e \<le> 255"
  shows "8 \<le> easiness_threshold e" and "easiness_threshold e < 2 ^ 31"
  using threshold_less [of 0 e] threshold_less [of e 255] assms threshold_ends
  by (cases "e = 0"; cases "e = 255"; simp)+

section \<open>What the search finds\<close>

lemma search_step_ok:
  "(\<forall>n \<in> set (se_result st). ok n) \<Longrightarrow> \<forall>n \<in> set (se_result (search_step ok ev st)). ok n"
  by (cases ev) (auto simp: set_worker_def record_nonce_def split: searcher.splits)

lemma search_ok:
  "(\<forall>n \<in> set (se_result st). ok n) \<Longrightarrow> \<forall>n \<in> set (se_result (fold (search_step ok) evs st)). ok n"
proof (induction evs arbitrary: st)
  case (Cons ev evs)
  show ?case unfolding fold_simps by (rule Cons.IH) (rule search_step_ok [OF Cons.prems])
qed simp

lemma search_nonce_ok: "search_nonce ok workers evs = Inr n \<Longrightarrow> ok n"
  using search_ok [of "search_start (worker_count workers)" ok evs]
  by (auto simp: search_nonce_def search_start_def split: list.splits)

lemma solve_ok: "solve S c timeout workers = Inr n \<Longrightarrow> meets S c n"
  by (auto simp: solve_def bindR_Inr_iff dest: search_nonce_ok split: option.splits if_splits)

text \<open>The rounds a worker completes in a sequence of steps: it starts on a candidate, then has its digest.\<close>

fun rounds :: "nat \<Rightarrow> bool \<Rightarrow> search_event list \<Rightarrow> nat" where
  "rounds i h [] = 0"
| "rounds i h (Turn j late # evs) = rounds i (h \<or> j = i) evs"
| "rounds i h (Digest j # evs) = (if h \<and> j = i then Suc (rounds i False evs) else rounds i h evs)"
| "rounds i h (Give_up # evs) = rounds i h evs"

fun in_time :: "search_event \<Rightarrow> bool" where
  "in_time (Turn i late) = (\<not> late)"
| "in_time (Digest i) = True"
| "in_time Give_up = False"

lemma result_kept: "se_result st \<noteq> [] \<Longrightarrow> se_result (fold (search_step ok) evs st) \<noteq> []"
proof (induction evs arbitrary: st)
  case (Cons ev evs)
  have "se_result (search_step ok ev st) \<noteq> []"
    using Cons.prems by (cases ev) (auto simp: set_worker_def record_nonce_def split: searcher.splits)
  then show ?case using Cons.IH by simp
qed simp

lemma workers_kept [simp]: "length (se_workers (search_step ok ev st)) = length (se_workers st)"
  by (cases ev) (auto simp: set_worker_def record_nonce_def split: searcher.splits)

text \<open>One step in time, as the worker \<open>i\<close> and the result see it.\<close>

lemma step_seen:
  assumes "in_time ev" and "\<not> se_stop st" and "se_result st = []" and "i < length (se_workers st)"
    and "se_workers st ! i = (if h then Hashing c else At c)" and "se_result (search_step ok ev st) = []"
  shows "\<not> se_stop (search_step ok ev st) \<and>
    (case ev of
       Digest j \<Rightarrow> (if h \<and> j = i then \<not> ok (nonce_of c) \<and> se_workers (search_step ok ev st) ! i = At (c + length (se_workers st))
                  else se_workers (search_step ok ev st) ! i = (if h then Hashing c else At c))
     | Turn j late \<Rightarrow> se_workers (search_step ok ev st) ! i = (if h \<or> j = i then Hashing c else At c)
     | Give_up \<Rightarrow> False)"
  using assms
  by (cases ev) (auto simp: set_worker_def record_nonce_def worker_at_def nth_list_update split: searcher.splits if_splits)

lemma rounds_tried:
  assumes "\<forall>ev \<in> set evs. in_time ev" and "\<not> se_stop st" and "i < length (se_workers st)"
    and "se_workers st ! i = (if h then Hashing c else At c)" and "se_result (fold (search_step ok) evs st) = []"
    and "k < rounds i h evs"
  shows "\<not> ok (nonce_of (c + k * length (se_workers st)))"
  using assms
proof (induction evs arbitrary: st h c k)
  case (Cons ev evs)
  let ?st = "search_step ok ev st"
  have r: "se_result st = []" "se_result ?st = []"
    using result_kept [of st ok "ev # evs"] result_kept [of ?st ok evs] Cons.prems(5) by auto
  have "in_time ev" using Cons.prems(1) by simp
  note seen = step_seen [OF this Cons.prems(2) r(1) Cons.prems(3,4) r(2)]
  have rest: "\<not> ok (nonce_of (c' + k' * length (se_workers st)))"
    if "se_workers ?st ! i = (if h' then Hashing c' else At c')" "k' < rounds i h' evs" for h' c' k'
    using Cons.IH [of ?st h' c' k'] Cons.prems(1,3,5) seen that by simp
  show ?case
  proof (cases ev)
    case (Turn j late)
    then show ?thesis using seen rest [of "h \<or> j = i" c k] Cons.prems(6) by simp
  next
    case (Digest j)
    show ?thesis
    proof (cases "h \<and> j = i")
      case True
      then have d: "\<not> ok (nonce_of c)" "se_workers ?st ! i = At (c + length (se_workers st))"
        using seen Digest by auto
      show ?thesis
      proof (cases k)
        case (Suc m)
        have "m < rounds i False evs" using Cons.prems(6) True Digest Suc by simp
        then show ?thesis using rest [of False "c + length (se_workers st)" m] d(2) Suc by (simp add: add.assoc)
      qed (simp add: d(1))
    next
      case False
      then show ?thesis using seen rest [of h c k] Cons.prems(6) Digest by auto
    qed
  next
    case Give_up
    then show ?thesis using seen by simp
  qed
qed simp

text \<open>
  C35: the proof of work ends when a worker gets to a solution. In whatever way the threads are
  interleaved before the deadline, once the worker that is responsible for a valid nonce has gone
  through enough candidates, the search returns a nonce that meets the challenge.
\<close>

theorem search_reaches_solution:
  assumes "n < 2 ^ 32" and "ok (be_of_nat 4 n)" and "\<forall>ev \<in> set evs. in_time ev"
    and "n div worker_count workers < rounds (n mod worker_count workers) False evs"
  shows "\<exists>nonce. search_nonce ok workers evs = Inr nonce \<and> ok nonce"
proof -
  let ?w = "worker_count workers"
  let ?st = "search_start ?w"
  have w: "0 < ?w" by (simp add: worker_count_def)
  then have i: "n mod ?w < length (se_workers ?st)" "se_workers ?st ! (n mod ?w) = At (n mod ?w)"
    by (simp_all add: search_start_def)
  have "se_result (fold (search_step ok) evs ?st) \<noteq> []"
  proof
    assume "se_result (fold (search_step ok) evs ?st) = []"
    moreover have "\<not> se_stop ?st" by (simp add: search_start_def)
    ultimately have "\<not> ok (nonce_of (n mod ?w + n div ?w * length (se_workers ?st)))"
      using i assms(3,4) rounds_tried [of evs ?st "n mod ?w" False "n mod ?w" ok "n div ?w"] by simp
    then have "\<not> ok (nonce_of n)" by (simp add: search_start_def)
    then show False using assms(1,2) by (simp add: nonce_of_def)
  qed
  then obtain nonce rest where "se_result (fold (search_step ok) evs ?st) = nonce # rest" by (cases "se_result (fold (search_step ok) evs ?st)") auto
  then have r: "search_nonce ok workers evs = Inr nonce" by (simp add: search_nonce_def)
  show ?thesis using r search_nonce_ok [OF r] by blast
qed

definition demo_search :: "search_event list" where
  "demo_search = [Turn 0 False, Turn 1 False, Digest 1, Digest 0, Turn 1 False, Digest 1]"

theorem search_reaches_solution_witness:
  "\<exists>nonce. search_nonce (\<lambda>b. b = be_of_nat 4 3) 2 demo_search = Inr nonce \<and> nonce = be_of_nat 4 3"
proof -
  have "worker_count 2 = 2" by (simp add: worker_count_def)
  then have "3 div worker_count 2 < rounds (3 mod worker_count 2) False demo_search" by (simp add: demo_search_def)
  then show ?thesis by (intro search_reaches_solution) (auto simp: demo_search_def)
qed

section \<open>The answer to a challenge\<close>

lemma unpadded_b64_url: "unpadded_b64 bs = b64_url_encode bs"
proof -
  let ?t = "\<lambda>s. replace_char (CHR ''/'') (CHR ''_'') (replace_char (CHR ''+'') (CHR ''-'') s)"
  have "\<forall>c \<in> set (b64_pad n). c = CHR ''=''" for n by (simp add: b64_pad_def)
  moreover have "\<forall>c \<in> set (map b64_char (b64raw bs)). c \<noteq> CHR ''=''"
    using b64_char_facts(2) [OF b64raw_bound] by auto
  ultimately have "rstrip_by (\<lambda>c. c = CHR ''='') (b64encode bs) = map b64_char (b64raw bs)"
    unfolding b64encode_raw by (simp add: rstrip_by_append_all rstrip_by_all)
  then show ?thesis by (simp add: unpadded_b64_def b64_url_raw)
qed

lemma split_on_none: "c \<notin> set s \<Longrightarrow> split_on c s = [s]"
  by (induction s) auto

lemma split_on_piece: "c \<notin> set s \<Longrightarrow> split_on c (s @ c # t) = s # split_on c t"
  by (induction s) auto

lemma length_b64raw: "length (b64raw bs) = (4 * length bs + 2) div 3"
  by (induction bs rule: b64raw.induct) (simp_all add: Let_def)

lemma b64_url_chars:
  assumes "c \<in> set (b64_url_encode bs)"
  shows "c \<noteq> CHR '':''" and "\<not> is_ws c"
proof -
  let ?f = "\<lambda>c. if c = CHR ''+'' then CHR ''-'' else c" and ?g = "\<lambda>c. if c = CHR ''/'' then CHR ''_'' else c"
  obtain v where "v \<in> set (b64raw bs)" and c: "c = ?g (?f (b64_char v))"
    using assms unfolding b64_url_raw replace_char_def map_map set_map image_iff o_apply by blast
  then have v: "v < 64" using b64raw_bound by blast
  note o = of_char_b64 [OF v]
  have "b64_char v \<noteq> CHR '':''" using o by (intro char_neq_code) (auto split: if_splits)
  moreover have "\<not> is_ws (b64_char v)" using o v by (auto simp: is_ws_def Let_def split: if_splits)
  moreover have "\<not> is_ws (CHR ''-'')" "\<not> is_ws (CHR ''_'')" by (simp_all add: is_ws_def)
  ultimately show "c \<noteq> CHR '':''" "\<not> is_ws c" using c by auto
qed

lemma length_show_nat: "length (show_nat n) \<le> Suc n"
proof (induction n rule: show_nat.induct)
  case (1 n)
  show ?case using 1 by (subst show_nat.simps) (auto simp: less_Suc_eq_le intro: order_trans)
qed

lemma small_int_text:
  assumes "0 \<le> e" and "e \<le> 255"
  shows "py_int (show_int e) = Some e" and "CHR '':'' \<notin> set (show_int e)" and "\<forall>c \<in> set (show_int e). \<not> is_ws c"
proof -
  have t: "show_int e = show_nat (nat e)" using assms by (simp add: show_int_def)
  show "py_int (show_int e) = Some e"
    using length_show_nat [of "nat e"] assms by (intro py_int_show_int) (simp add: t max_str_digits_def)
  have d: "\<exists>d < 10. c = digit_char d" if "c \<in> set (show_int e)" for c using show_nat_digits that by (simp add: t)
  have "digit_char d \<noteq> CHR '':''" if "d < 10" for d using of_char_digit_char [OF that] that by auto
  then show "CHR '':'' \<notin> set (show_int e)" using d by metis
  show "\<forall>c \<in> set (show_int e). \<not> is_ws c" using d digit_char_facts(3) by blast
qed

definition challenge_text :: "hashcash_challenge \<Rightarrow> string" where
  "challenge_text c = show_int (hc_version c) @ '':'' @ show_int (hc_easiness c) @ '':'' @ b64_url_encode (hc_token c)"

lemma parse_challenge_text:
  assumes "hc_version c = 1" and "0 \<le> hc_easiness c" and "hc_easiness c \<le> 255" and "length (hc_token c) = 48"
  shows "parse_challenge (challenge_text c) = Inr c"
proof -
  let ?t = "b64_url_encode (hc_token c)"
  note v = small_int_text [of "hc_version c"] and e = small_int_text [OF assms(2,3)]
  have ws: "\<not> is_ws (CHR '':'')" by (simp add: is_ws_def)
  have strip: "strip (challenge_text c) = challenge_text c"
    using v(3) e(3) b64_url_chars(2) ws assms(1) by (intro strip_id) (auto simp: challenge_text_def)
  have "CHR '':'' \<notin> set ?t" using b64_url_chars(1) by blast
  then have split: "split_on (CHR '':'') (challenge_text c) = [show_int (hc_version c), show_int (hc_easiness c), ?t]"
    using v(2) e(2) assms(1) by (simp add: challenge_text_def split_on_piece split_on_none)
  have len: "length (b64raw (hc_token c)) = 64" using assms(4) by (simp add: length_b64raw)
  then have lt: "length ?t = 64" by (simp add: b64_url_raw replace_char_def)
  have ascii: "\<not> list_ex (\<lambda>c. 128 \<le> (of_char c :: nat)) (map b64_char (b64raw (hc_token c)))"
    unfolding list_ex_iff using b64_word_chars [of _ "hc_token c"] by (meson linorder_not_less)
  have "b64decode (map b64_char (b64raw (hc_token c))) = Inr (hc_token c)"
    using a2b_raw [of "hc_token c"] len by (simp add: b64decode_def b64_pad_def)
  then show ?thesis
    using v(1) e(1) assms lt ascii len
    by (simp add: parse_challenge_def strip split b64_retranslate b64decode_text_def MAX_TOKEN_B64_CHARS_def
        TOKEN_BYTES_def make_challenge_facts)
qed

text \<open>
  The answer fits the challenge. What is sent back repeats the version, the easiness and the token
  of the challenge, as a challenge that parses to the same one, followed by a nonce whose digest meets
  it; the threshold the digest is compared with lies between 8 and \<open>2\<^sup>3\<^sup>1\<close>.
\<close>

theorem solution_answers_challenge:
  assumes "build_solution_header S header timeout = Inr reply"
  shows "\<exists>c nonce. parse_challenge header = Inr c \<and> reply = challenge_text c @ '':'' @ b64_url_encode nonce
    \<and> parse_challenge (challenge_text c) = Inr c \<and> b64_url_decode (b64_url_encode nonce) = Inr nonce
    \<and> check_nonce (so_hash S) nonce (repeated (hc_token c)) (threshold c)
    \<and> 8 \<le> threshold c \<and> threshold c < 2 ^ 31"
proof -
  obtain c nonce where c: "parse_challenge header = Inr c" and n: "solve S c timeout 8 = Inr nonce"
    and r: "reply = challenge_text c @ '':'' @ b64_url_encode nonce"
    using assms by (auto simp: build_solution_header_def bindR_Inr_iff challenge_text_def unpadded_b64_url)
  note f = parse_challenge_facts [OF c]
  have "check_nonce (so_hash S) nonce (repeated (hc_token c)) (threshold c)"
    using solve_ok [OF n] by (simp add: meets_def)
  then show ?thesis
    using c r f parse_challenge_text [of c] threshold_range [of "hc_easiness c"] b64_url_decode_encode
    by (auto simp: threshold_def)
qed

definition demo_solver :: solver where
  "demo_solver = \<lparr>so_hash = (\<lambda>_. zeros 32),
     so_host = \<lparr>sh_env = (\<lambda>_. None), sh_is_file = (\<lambda>_. False), sh_expanduser = (\<lambda>p. p), sh_which = (\<lambda>_. None),
                sh_system = ''Linux'', sh_parents = []\<rparr>,
     so_run = (\<lambda>_. Not_started), so_threads = [Turn 1 False, Digest 1]\<rparr>"

definition demo_challenge :: string where
  "demo_challenge = ''1:5:'' @ replicate 64 (CHR ''A'')"

definition demo_parsed :: hashcash_challenge where
  "demo_parsed = \<lparr>hc_version = 1, hc_easiness = 5, hc_token = zeros 48\<rparr>"

lemma demo_texts:
  "unpadded_b64 (zeros 48) = replicate 64 (CHR ''A'')" "unpadded_b64 [0, 0, 0, 1] = ''AAAAAQ''"
  "show_int 1 = ''1''" "show_int 5 = ''5''"
  by code_simp+

lemma demo_parses: "parse_challenge demo_challenge = Inr demo_parsed"
proof -
  have "challenge_text demo_parsed = demo_challenge"
    using demo_texts by (simp add: challenge_text_def demo_parsed_def demo_challenge_def unpadded_b64_url)
  then show ?thesis using parse_challenge_text [of demo_parsed] by (simp add: demo_parsed_def zeros_def)
qed

lemma demo_meets: "meets demo_solver demo_parsed n"
proof -
  have "nat_of_be (take 4 (zeros 32)) = 0" by code_simp
  moreover have "0 \<le> threshold demo_parsed" using threshold_range(1) [of 5] by (simp add: threshold_def demo_parsed_def)
  ultimately show ?thesis by (simp add: meets_def check_nonce_def demo_solver_def)
qed

lemma demo_solution:
  "build_solution_header demo_solver demo_challenge 30000000000 = Inr (''1:5:'' @ replicate 64 (CHR ''A'') @ '':AAAAAQ'')"
proof -
  have m: "meets demo_solver demo_parsed = (\<lambda>_. True)" using demo_meets by blast
  have "so_host demo_solver = \<lparr>sh_env = (\<lambda>_. None), sh_is_file = (\<lambda>_. False), sh_expanduser = (\<lambda>p. p), sh_which = (\<lambda>_. None),
      sh_system = ''Linux'', sh_parents = []\<rparr>" by (simp add: demo_solver_def)
  then have "native_solver_commands (so_host demo_solver) = []" by (simp add: native_solver_commands_def lower_def)
  moreover have "search_nonce (\<lambda>_. True) 8 [Turn 1 False, Digest 1] = Inr [0, 0, 0, 1]"
  proof -
    have "worker_count 8 = 8" and "be_of_nat 4 1 = [0, 0, 0, 1]" by code_simp+
    moreover from this have "nonce_of (Suc 0) = [0, 0, 0, 1]" by (simp add: nonce_of_def)
    ultimately show ?thesis
      by (simp add: search_nonce_def search_start_def set_worker_def worker_at_def record_nonce_def)
  qed
  moreover have "so_threads demo_solver = [Turn 1 False, Digest 1]" by (simp add: demo_solver_def)
  ultimately have "solve demo_solver demo_parsed 30000000000 8 = Inr [0, 0, 0, 1]"
    by (simp add: solve_def solve_with_native_def m)
  then show ?thesis
    by (simp add: build_solution_header_def demo_parses demo_texts) (simp add: demo_parsed_def demo_texts)
qed

theorem solution_answers_challenge_witness:
  "\<exists>c nonce. parse_challenge demo_challenge = Inr c
    \<and> ''1:5:'' @ replicate 64 (CHR ''A'') @ '':AAAAAQ'' = challenge_text c @ '':'' @ b64_url_encode nonce
    \<and> check_nonce (so_hash demo_solver) nonce (repeated (hc_token c)) (threshold c)"
  using solution_answers_challenge [OF demo_solution] by blast

text \<open>
  The parser of the helper's output takes any line of eight characters that \<open>bytes.fromhex\<close> accepts,
  which skips spaces: the nonce it returns need not have four bytes.
\<close>

lemma native_nonce_short: "parse_native_nonce ''ab cd ef'' = Inr [0xab, 0xcd, 0xef]"
  by code_simp

end
