(* ===== verification/ApiClient.thy ===== *)
theory ApiClient
  imports ProxyPool Responses Hashcash
begin

text \<open>
  \<open>core/api.py\<close>, the client of the JSON interface: which commands may be sent again after a failure,
  one request with its proof of work and its proxy, what of an answer is usable, and the methods the
  rest of the program calls. The other end is a function of what has been posted so far; the clock, the
  draw of a proxy, the solver, \<open>bytes.decode\<close> and \<open>json.loads\<close> are arguments too. The log of posts is
  kept in the client for the theorems; the code has it on the wire. Waits between attempts are left out.
\<close>

section \<open>Which commands change something\<close>

definition READ_ONLY_ACTIONS :: "string list" where
  "READ_ONLY_ACTIONS = [''ug'', ''uq'', ''g'', ''f'', ''us0'', ''us'']"

definition is_list :: "json \<Rightarrow> bool" where
  "is_list v \<longleftrightarrow> (case v of JArr _ \<Rightarrow> True | _ \<Rightarrow> False)"

definition payload_of :: "json \<Rightarrow> json list" where
  "payload_of commands = (case commands of JArr cs \<Rightarrow> cs | c \<Rightarrow> [c])"

definition action_of :: "json \<Rightarrow> string" where
  "action_of command =
    (case command of
       JObj d \<Rightarrow> (case jget ''a'' d of Some (JStr a) \<Rightarrow> a | _ \<Rightarrow> ''<unknown>'')
     | _ \<Rightarrow> ''<unknown>'')"

definition actions_of :: "json \<Rightarrow> string list" where
  "actions_of commands = map action_of (payload_of commands)"

definition is_mutating :: "json \<Rightarrow> bool" where
  "is_mutating commands \<longleftrightarrow> \<not> set (actions_of commands) \<subseteq> set READ_ONLY_ACTIONS"

section \<open>Answers\<close>

definition MAX_RESPONSE_BYTES :: nat where
  "MAX_RESPONSE_BYTES = 64 * 1024 * 1024"

definition HASHCASH_TOTAL_BUDGET :: int where
  "HASHCASH_TOTAL_BUDGET = 30 * 1000000000"

definition PROXY_FAULT_STATUSES :: "int list" where
  "PROXY_FAULT_STATUSES = [407]"

definition DEFAULT_APP_KEY :: string where
  "DEFAULT_APP_KEY = ''BdARkQSQ''"

text \<open>The blocks \<open>iter_content\<close> yields, and the exception it ends with when the body breaks.\<close>

record api_reply =
  ar_status :: int
  ar_length :: "string option"
  ar_type :: "string option"
  ar_hashcash :: "string option"
  ar_encoding :: "string option"
  ar_blocks :: "bytes list"
  ar_tail :: "exc option"

datatype api_answer = No_answer exc | Answered api_reply

record api_post =
  ap_url :: string
  ap_payload :: "json list"
  ap_hashcash :: "string option"

record api_env =
  ae_net :: "api_post list \<Rightarrow> api_post \<Rightarrow> api_answer"
  ae_now :: "api_post list \<Rightarrow> int"
  ae_draw :: "api_post list \<Rightarrow> nat"
  ae_solve :: "api_post list \<Rightarrow> string \<Rightarrow> int \<Rightarrow> string py"
  ae_decode :: "string \<Rightarrow> bytes \<Rightarrow> string py"
  ae_loads :: "string \<Rightarrow> json py"

record api_client =
  ac_base :: string
  ac_sid :: "string option"
  ac_seq :: int
  ac_selector :: selector
  ac_log :: "api_post list"

text \<open>\<open>MegaAPIClient.__init__\<close>, with the random number the sequence starts from.\<close>

definition make_client :: "string \<Rightarrow> proxies option \<Rightarrow> pool option \<Rightarrow> bool \<Rightarrow> int \<Rightarrow> api_client" where
  "make_client base proxies pool force seq =
    \<lparr>ac_base = rstrip_by (\<lambda>c. c = CHR ''/'') base, ac_sid = None, ac_seq = seq,
     ac_selector = make_selector pool proxies force, ac_log = []\<rparr>"

definition set_session :: "string option \<Rightarrow> api_client \<Rightarrow> api_client" where
  "set_session sid c = c\<lparr>ac_sid := sid\<rparr>"

definition clear_session :: "api_client \<Rightarrow> api_client" where
  "clear_session c = c\<lparr>ac_sid := None\<rparr>"

definition or_empty :: "string option \<Rightarrow> string" where
  "or_empty v = (case v of None \<Rightarrow> [] | Some s \<Rightarrow> s)"

text \<open>\<open>read_bounded_text\<close>: the declared encoding, UTF-8 when there is none.\<close>

definition read_bounded_text :: "api_env \<Rightarrow> api_reply \<Rightarrow> nat \<Rightarrow> string py" where
  "read_bounded_text E r limit =
    bindR (read_bounded_bytes (ar_blocks r) limit) (\<lambda>raw.
      case ar_tail r of
        Some e \<Rightarrow> Inl e
      | None \<Rightarrow> ae_decode E (if or_empty (ar_encoding r) = [] then ''utf-8'' else or_empty (ar_encoding r)) raw)"

definition read_bounded_answer :: "api_env \<Rightarrow> api_reply \<Rightarrow> string py" where
  "read_bounded_answer E r =
    (case read_bounded_text E r MAX_RESPONSE_BYTES of
       Inl e \<Rightarrow> if isinstance e PayloadTooLargeError then raise MegaError else Inl e
     | Inr t \<Rightarrow> Inr t)"

definition check_declared :: "api_reply \<Rightarrow> unit py" where
  "check_declared r =
    (let declared = or_empty (ar_length r)
     in if declared \<noteq> [] \<and> list_all is_digit declared then
          (case py_int declared of
             None \<Rightarrow> raise ValueError
           | Some n \<Rightarrow> if int MAX_RESPONSE_BYTES < n then raise MegaError else Inr ())
        else Inr ())"

definition parse_body :: "api_env \<Rightarrow> api_reply \<Rightarrow> json py" where
  "parse_body E r =
    bindR (check_declared r) (\<lambda>_.
      if or_empty (ar_type r) \<noteq> [] \<and> \<not> contains ''json'' (lower (or_empty (ar_type r))) then raise MegaError
      else case bindR (read_bounded_answer E r) (ae_loads E) of
          Inl e \<Rightarrow> if isinstance e ValueError then raise MegaError else Inl e
        | Inr v \<Rightarrow> Inr v)"

section \<open>One request\<close>

fun join_by :: "string \<Rightarrow> string list \<Rightarrow> string" where
  "join_by sep [] = []"
| "join_by sep [s] = s"
| "join_by sep (s # t # ts) = s @ sep @ join_by sep (t # ts)"

definition build_url :: "(string \<times> string) list \<Rightarrow> api_client \<Rightarrow> string \<times> api_client" where
  "build_url extra c =
    (let c = c\<lparr>ac_seq := ac_seq c + 1\<rparr>;
         params = [''id='' @ show_int (ac_seq c), ''ak='' @ DEFAULT_APP_KEY]
           @ (if or_empty (ac_sid c) \<noteq> [] then [''sid='' @ or_empty (ac_sid c)] else [])
           @ map (\<lambda>(k, v). k @ ''='' @ v) extra
     in (ac_base c @ ''/cs?'' @ join_by ''&'' params, c))"

definition wants_hashcash :: "api_reply \<Rightarrow> string option" where
  "wants_hashcash r = (if ar_status r = 402 then ar_hashcash r else None)"

text \<open>The loop of \<open>_send\<close>, by the attempts left; it is entered with three.\<close>

fun post_attempts ::
  "api_env \<Rightarrow> string \<Rightarrow> json list \<Rightarrow> int \<Rightarrow> nat \<Rightarrow> string option \<Rightarrow> api_post list \<Rightarrow> api_reply py \<times> api_post list" where
  "post_attempts E url payload deadline 0 hc log = (raise RuntimeError, log)"
| "post_attempts E url payload deadline (Suc n) hc log =
    (let p = \<lparr>ap_url = url, ap_payload = payload, ap_hashcash = hc\<rparr>; log' = log @ [p]
     in case ae_net E log p of
          No_answer e \<Rightarrow> (Inl e, log')
        | Answered r \<Rightarrow>
            (case wants_hashcash r of
               None \<Rightarrow> (Inr r, log')
             | Some challenge \<Rightarrow>
                 let remaining = deadline - ae_now E log'
                 in if remaining \<le> 0 then (raise HashcashBudgetExceededError, log')
                    else case ae_solve E log' challenge remaining of
                        Inl e \<Rightarrow> (if isinstance e TimeoutError then raise HashcashBudgetExceededError else Inl e, log')
                      | Inr h \<Rightarrow> if n = 0 then (Inr r, log') else post_attempts E url payload deadline n (Some h) log'))"

definition blame_proxy :: "api_env \<Rightarrow> string option \<Rightarrow> api_client \<Rightarrow> api_client" where
  "blame_proxy E picked c =
    c\<lparr>ac_selector := selector_report_failure (ae_now E (ac_log c)) picked (ac_selector c)\<rparr>"

definition credit_proxy :: "string option \<Rightarrow> api_client \<Rightarrow> api_client" where
  "credit_proxy picked c = c\<lparr>ac_selector := selector_report_success picked (ac_selector c)\<rparr>"

definition link_failure :: "exc \<Rightarrow> bool" where
  "link_failure e \<longleftrightarrow> isinstance e ConnectionError \<or> isinstance e RequestsTimeout"

fun check_items :: "json list \<Rightarrow> unit py" where
  "check_items [] = Inr ()"
| "check_items (v # vs) =
    (case v of
       JInt n \<Rightarrow> if n < 0 then bindR (raise_for_code n) (\<lambda>_. check_items vs) else check_items vs
     | _ \<Rightarrow> check_items vs)"

definition results_of :: "bool \<Rightarrow> json \<Rightarrow> json py" where
  "results_of single data =
    (case data of
       JInt n \<Rightarrow> bindR (raise_for_code n) (\<lambda>_. Inl (Exc MegaError (Some n)))
     | JArr items \<Rightarrow>
         bindR (check_items items) (\<lambda>_.
           if single then (case items of [] \<Rightarrow> raise MegaError | v # _ \<Rightarrow> Inr v) else Inr (JArr items))
     | _ \<Rightarrow> raise MegaError)"

definition is_http_error :: "int \<Rightarrow> bool" where
  "is_http_error status \<longleftrightarrow> 400 \<le> status \<and> status < 600"

definition finish_send :: "api_env \<Rightarrow> bool \<Rightarrow> string option \<Rightarrow> api_reply \<Rightarrow> api_client \<Rightarrow> json py \<times> api_client" where
  "finish_send E single picked r c =
    (if is_http_error (ar_status r)
     then (raise HTTPError, if ar_status r \<in> set PROXY_FAULT_STATUSES then blame_proxy E picked c else c)
     else case parse_body E r of
         Inl e \<Rightarrow> (Inl e, if isinstance e MegaError then blame_proxy E picked c else c)
       | Inr data \<Rightarrow> (results_of single data, credit_proxy picked c))"

definition send :: "api_env \<Rightarrow> json \<Rightarrow> (string \<times> string) list \<Rightarrow> api_client \<Rightarrow> json py \<times> api_client" where
  "send E commands extra c0 =
    (case build_url extra c0 of (url, c) \<Rightarrow>
       (case selector_select (ae_now E (ac_log c)) (ae_draw E (ac_log c)) (ac_selector c) of
          (Inl e, sel) \<Rightarrow> (Inl e, c\<lparr>ac_selector := sel\<rparr>)
        | (Inr (_, picked), sel) \<Rightarrow>
            (case post_attempts E url (payload_of commands) (ae_now E (ac_log c) + HASHCASH_TOTAL_BUDGET) 3 None (ac_log c) of
               (Inl e, log) \<Rightarrow>
                 (let c = c\<lparr>ac_selector := sel, ac_log := log\<rparr>
                  in (Inl e, if link_failure e then blame_proxy E picked c else c))
             | (Inr r, log) \<Rightarrow>
                 finish_send E (\<not> is_list commands) picked r (c\<lparr>ac_selector := sel, ac_log := log\<rparr>))))"

section \<open>Retries\<close>

definition RETRY_ATTEMPTS :: nat where
  "RETRY_ATTEMPTS = 5"

fun retrying :: "nat \<Rightarrow> (exc \<Rightarrow> bool) \<Rightarrow> ('s \<Rightarrow> 'a py \<times> 's) \<Rightarrow> 's \<Rightarrow> 'a py \<times> 's" where
  "retrying 0 again f s = f s"
| "retrying (Suc n) again f s =
    (case f s of
       (Inl e, s') \<Rightarrow> if again e \<and> n \<noteq> 0 then retrying n again f s' else (Inl e, s')
     | r \<Rightarrow> r)"

definition send_mutating :: "api_env \<Rightarrow> json \<Rightarrow> (string \<times> string) list \<Rightarrow> api_client \<Rightarrow> json py \<times> api_client" where
  "send_mutating E commands extra c =
    (case retrying RETRY_ATTEMPTS (\<lambda>e. isinstance e RateLimitError \<or> isinstance e ConnectTimeout) (send E commands extra) c of
       (Inl e, c) \<Rightarrow>
         (if isinstance e ConnectTimeout then Inl e
          else if isinstance e ConnectionError \<or> isinstance e RequestsTimeout then raise AmbiguousMutationError
          else Inl e, c)
     | r \<Rightarrow> r)"

definition send_retrying :: "api_env \<Rightarrow> json \<Rightarrow> (string \<times> string) list \<Rightarrow> api_client \<Rightarrow> json py \<times> api_client" where
  "send_retrying E commands extra =
    retrying RETRY_ATTEMPTS
      (\<lambda>e. isinstance e RateLimitError \<or> isinstance e ConnectionError \<or> isinstance e RequestsTimeout)
      (send E commands extra)"

definition request :: "api_env \<Rightarrow> json \<Rightarrow> (string \<times> string) list \<Rightarrow> api_client \<Rightarrow> json py \<times> api_client" where
  "request E commands extra c =
    (if is_mutating commands then send_mutating E commands extra c else send_retrying E commands extra c)"

section \<open>The methods\<close>

definition expect_answer :: "json py \<times> api_client \<Rightarrow> (string \<times> json) list py \<times> api_client" where
  "expect_answer r = (bindR (fst r) expect_mapping, snd r)"

definition command :: "string \<Rightarrow> (string \<times> json) list \<Rightarrow> json" where
  "command a extra = JObj ((''a'', JStr a) # extra)"

definition new_node :: "string \<Rightarrow> int \<Rightarrow> string \<Rightarrow> string \<Rightarrow> json" where
  "new_node h t attrs key = JArr [JObj [(''h'', JStr h), (''t'', JInt t), (''a'', JStr attrs), (''k'', JStr key)]]"

definition get_user_info :: "api_env \<Rightarrow> api_client \<Rightarrow> (string \<times> json) list py \<times> api_client" where
  "get_user_info E c = expect_answer (request E (command ''ug'' []) [] c)"

definition get_account_quota :: "api_env \<Rightarrow> api_client \<Rightarrow> (string \<times> json) list py \<times> api_client" where
  "get_account_quota E c =
    expect_answer (request E (command ''uq'' [(''strg'', JInt 1), (''xfer'', JInt 1), (''pro'', JInt 1)]) [] c)"

definition get_public_file_info :: "api_env \<Rightarrow> string \<Rightarrow> api_client \<Rightarrow> (string \<times> json) list py \<times> api_client" where
  "get_public_file_info E public_id c =
    expect_answer (request E (command ''g'' [(''g'', JInt 1), (''p'', JStr public_id)]) [] c)"

definition get_public_folder_listing :: "api_env \<Rightarrow> string \<Rightarrow> api_client \<Rightarrow> (string \<times> json) list py \<times> api_client" where
  "get_public_folder_listing E public_id c =
    expect_answer (request E (command ''f'' [(''c'', JInt 1), (''r'', JInt 1), (''ca'', JInt 1)]) [(''n'', public_id)] c)"

definition get_download_url :: "api_env \<Rightarrow> string \<Rightarrow> api_client \<Rightarrow> (string \<times> json) list py \<times> api_client" where
  "get_download_url E handle c =
    expect_answer (request E (command ''g'' [(''g'', JInt 1), (''n'', JStr handle)]) [] c)"

definition request_upload :: "api_env \<Rightarrow> int \<Rightarrow> api_client \<Rightarrow> (string \<times> json) list py \<times> api_client" where
  "request_upload E n c = expect_answer (request E (command ''u'' [(''s'', JInt n)]) [] c)"

definition complete_upload ::
  "api_env \<Rightarrow> string \<Rightarrow> string \<Rightarrow> string \<Rightarrow> string \<Rightarrow> api_client \<Rightarrow> (string \<times> json) list py \<times> api_client" where
  "complete_upload E target upload_token attrs key c =
    expect_answer (request E (command ''p'' [(''t'', JStr target), (''n'', new_node upload_token 0 attrs key)]) [] c)"

definition create_folder ::
  "api_env \<Rightarrow> string \<Rightarrow> string \<Rightarrow> string \<Rightarrow> api_client \<Rightarrow> (string \<times> json) list py \<times> api_client" where
  "create_folder E parent attrs key c =
    expect_answer (request E (command ''p'' [(''t'', JStr parent), (''n'', new_node ''xxxxxxxx'' 1 attrs key)]) [] c)"

definition api_delete_node :: "api_env \<Rightarrow> string \<Rightarrow> api_client \<Rightarrow> json py \<times> api_client" where
  "api_delete_node E handle c = request E (command ''d'' [(''n'', JStr handle)]) [] c"

definition api_move_node :: "api_env \<Rightarrow> string \<Rightarrow> string \<Rightarrow> api_client \<Rightarrow> json py \<times> api_client" where
  "api_move_node E handle parent c = request E (command ''m'' [(''n'', JStr handle), (''t'', JStr parent)]) [] c"

definition api_rename_node :: "api_env \<Rightarrow> string \<Rightarrow> string \<Rightarrow> string \<Rightarrow> api_client \<Rightarrow> json py \<times> api_client" where
  "api_rename_node E handle attrs key c =
    request E (command ''a'' [(''n'', JStr handle), (''attr'', JStr attrs), (''key'', JStr key)]) [] c"

definition export_node :: "api_env \<Rightarrow> string \<Rightarrow> api_client \<Rightarrow> json py \<times> api_client" where
  "export_node E handle c = request E (command ''l'' [(''n'', JStr handle)]) [] c"

definition remove_export :: "api_env \<Rightarrow> string \<Rightarrow> api_client \<Rightarrow> json py \<times> api_client" where
  "remove_export E handle c = request E (command ''l'' [(''n'', JStr handle), (''d'', JInt 1)]) [] c"

definition import_node_from_share ::
  "api_env \<Rightarrow> string \<Rightarrow> string \<Rightarrow> string \<Rightarrow> string \<Rightarrow> string \<Rightarrow> int \<Rightarrow> api_client
   \<Rightarrow> (string \<times> json) list py \<times> api_client" where
  "import_node_from_share E target_parent source_handle attrs key share_handle node_type c =
    (if node_type \<notin> set [0, 1] then (raise ValueError, c)
     else expect_answer
       (request E (command ''p'' [(''t'', JStr target_parent), (''n'', new_node source_handle node_type attrs key), (''sm'', JInt 1)])
         [(''n'', share_handle)] c))"

definition login_with_mfa ::
  "api_env \<Rightarrow> string \<Rightarrow> string \<Rightarrow> string \<Rightarrow> api_client \<Rightarrow> (string \<times> json) list py \<times> api_client" where
  "login_with_mfa E email password_hash mfa c =
    expect_answer (request E (command ''us'' [(''user'', JStr (lower email)), (''uh'', JStr password_hash), (''mfa'', JStr mfa)]) [] c)"

section \<open>What is posted\<close>

text \<open>All posts but the last were answered in the way \<open>P\<close> says; \<open>log\<close> is what was posted before them.\<close>

fun all_but_last :: "(api_answer \<Rightarrow> bool) \<Rightarrow> api_env \<Rightarrow> api_post list \<Rightarrow> api_post list \<Rightarrow> bool" where
  "all_but_last P E log [] = True"
| "all_but_last P E log [p] = True"
| "all_but_last P E log (p # q # ps) = (P (ae_net E log p) \<and> all_but_last P E (log @ [p]) (q # ps))"

definition final_answer :: "api_env \<Rightarrow> api_post list \<Rightarrow> api_post list \<Rightarrow> api_answer" where
  "final_answer E log posts = ae_net E (log @ butlast posts) (last posts)"

lemma final_answer_simps [simp]:
  "final_answer E log [p] = ae_net E log p"
  "final_answer E log (p # q # ps) = final_answer E (log @ [p]) (q # ps)"
  by (simp_all add: final_answer_def)

lemma final_answer_append: "b \<noteq> [] \<Longrightarrow> final_answer E log (a @ b) = final_answer E (log @ a) b"
  by (simp add: final_answer_def butlast_append)

lemma all_but_last_append:
  assumes "all_but_last P E log a" and "a \<noteq> []" and "b \<noteq> []" and "P (final_answer E log a)"
    and "all_but_last P E (log @ a) b"
  shows "all_but_last P E log (a @ b)"
  using assms
proof (induction P E log a rule: all_but_last.induct)
  case (2 P E log p)
  then show ?case by (cases b) auto
qed auto

lemma all_but_last_mono:
  "all_but_last P E log ps \<Longrightarrow> (\<And>x. P x \<Longrightarrow> Q x) \<Longrightarrow> all_but_last Q E log ps"
  by (induction P E log ps rule: all_but_last.induct) auto

text \<open>An answer with a challenge was not processed: the command is repeated with the solution.\<close>

definition challenged :: "api_answer \<Rightarrow> bool" where
  "challenged a \<longleftrightarrow> (case a of Answered r \<Rightarrow> ar_status r = 402 \<and> ar_hashcash r \<noteq> None | No_answer _ \<Rightarrow> False)"

lemma post_attempts_facts:
  assumes "post_attempts E url payload deadline n hc log = (res, log')" and "0 < n"
  shows "\<exists>posts. log' = log @ posts \<and> posts \<noteq> [] \<and> length posts \<le> n \<and> all_but_last challenged E log posts
    \<and> (case final_answer E log posts of
         No_answer e \<Rightarrow> res = Inl e
       | Answered r \<Rightarrow> res = Inr r \<or> (\<exists>e. res = Inl e \<and> (e = Exc HashcashBudgetExceededError None
            \<or> (\<exists>l ch t. ae_solve E l ch t = Inl e))))"
  using assms
proof (induction n arbitrary: hc log)
  case (Suc n)
  let ?p = "\<lparr>ap_url = url, ap_payload = payload, ap_hashcash = hc\<rparr>"
  show ?case
  proof (cases "ae_net E log ?p")
    case (No_answer e)
    then show ?thesis using Suc.prems(1) by (intro exI [of _ "[?p]"]) (auto simp: Let_def)
  next
    case (Answered r)
    show ?thesis
    proof (cases "\<exists>hc'. n \<noteq> 0 \<and> challenged (Answered r)
        \<and> post_attempts E url payload deadline n (Some hc') (log @ [?p]) = (res, log')")
      case True
      then obtain hc' where n: "n \<noteq> 0" and c: "challenged (Answered r)"
        and e: "post_attempts E url payload deadline n (Some hc') (log @ [?p]) = (res, log')"
        by blast
      from Suc.IH [OF e] n obtain posts where
        posts: "log' = (log @ [?p]) @ posts" "posts \<noteq> []" "length posts \<le> n" "all_but_last challenged E (log @ [?p]) posts"
        "case final_answer E (log @ [?p]) posts of
           No_answer e \<Rightarrow> res = Inl e
         | Answered r \<Rightarrow> res = Inr r \<or> (\<exists>e. res = Inl e \<and> (e = Exc HashcashBudgetExceededError None
              \<or> (\<exists>l ch t. ae_solve E l ch t = Inl e)))" by blast
      then obtain q qs where "posts = q # qs" by (cases posts) auto
      then show ?thesis using posts c Answered by (intro exI [of _ "?p # posts"]) auto
    next
      case False
      then show ?thesis using Suc.prems(1) Answered
        by (intro exI [of _ "[?p]"])
          (auto simp: Let_def wants_hashcash_def challenged_def split: option.splits if_splits sum.splits)
    qed
  qed
qed simp

text \<open>
  What the libraries promise of their exceptions: only an attempt to connect raises \<open>ConnectTimeout\<close>,
  and none of them raises the program's own \<open>RateLimitError\<close>.
\<close>

definition declines :: "exc \<Rightarrow> bool" where
  "declines e \<longleftrightarrow> isinstance e RateLimitError \<or> isinstance e ConnectTimeout"

definition transport_ok :: "api_env \<Rightarrow> bool" where
  "transport_ok E \<longleftrightarrow>
     (\<forall>log p e. ae_net E log p = No_answer e \<longrightarrow> \<not> isinstance e RateLimitError)
   \<and> (\<forall>log p r e. ae_net E log p = Answered r \<longrightarrow> ar_tail r = Some e \<longrightarrow> \<not> declines e)
   \<and> (\<forall>log ch t e. ae_solve E log ch t = Inl e \<longrightarrow> \<not> declines e)
   \<and> (\<forall>enc raw e. ae_decode E enc raw = Inl e \<longrightarrow> \<not> declines e)
   \<and> (\<forall>text e. ae_loads E text = Inl e \<longrightarrow> \<not> declines e)"

text \<open>The first negative result of an answer is the one that is raised.\<close>

fun first_negative :: "json list \<Rightarrow> int option" where
  "first_negative [] = None"
| "first_negative (v # vs) = (case v of JInt n \<Rightarrow> if n < 0 then Some n else first_negative vs | _ \<Rightarrow> first_negative vs)"

definition rate_limited :: "json \<Rightarrow> bool" where
  "rate_limited data \<longleftrightarrow>
    (case data of JInt n \<Rightarrow> n = - 4 | JArr items \<Rightarrow> first_negative items = Some (- 4) | _ \<Rightarrow> False)"

text \<open>
  The answers after which a command is known not to have been processed: no connection was made, a
  proof of work is asked for first, or the result is the rate limit.
\<close>

definition declined :: "api_env \<Rightarrow> api_answer \<Rightarrow> bool" where
  "declined E a \<longleftrightarrow>
    (case a of
       No_answer e \<Rightarrow> isinstance e ConnectTimeout
     | Answered r \<Rightarrow> challenged a \<or> (\<exists>data. parse_body E r = Inr data \<and> rate_limited data))"

lemma simple_classes [simp]:
  "isinstance (Exc RateLimitError n) RateLimitError" "\<not> declines (Exc MegaError n)" "\<not> declines (Exc HTTPError n)"
  "\<not> declines (Exc HashcashBudgetExceededError n)" "\<not> declines (Exc ValueError n)" "\<not> declines (Exc PayloadTooLargeError n)"
  "\<not> declines (Exc ProxyRequiredError n)" "\<not> declines (Exc RuntimeError n)"
  by (simp_all add: declines_def isinstance_def ancestors_5)

lemma raise_for_code_rate: "raise_for_code n = Inl e \<Longrightarrow> declines e \<Longrightarrow> n = - 4"
  by (auto simp: raise_for_code_def declines_def isinstance_def ancestors_5 split: if_splits)

lemma check_items_rate: "check_items vs = Inl e \<Longrightarrow> declines e \<Longrightarrow> first_negative vs = Some (- 4)"
proof (induction vs)
  case (Cons v vs)
  then show ?case
    by (cases v) (auto simp: bindR_Inl_iff raise_for_code_iff dest: raise_for_code_rate split: if_splits)
qed simp

lemma results_rate:
  assumes "results_of single data = Inl e" and "declines e"
  shows "rate_limited data"
  using assms
  by (cases data)
    (auto simp: results_of_def rate_limited_def bindR_Inl_iff simp del: check_items.simps first_negative.simps
      dest: raise_for_code_rate check_items_rate split: if_splits list.splits)

lemma parse_body_honest:
  assumes "transport_ok E" and "ae_net E log p = Answered r" and "parse_body E r = Inl e"
  shows "\<not> declines e"
proof -
  have d: "\<not> declines x" if "check_declared r = Inl x" for x
    using that by (auto simp: check_declared_def Let_def split: if_splits option.splits)
  have a: "\<not> declines x" if "read_bounded_answer E r = Inl x" for x
  proof -
    have "\<not> declines x \<or> isinstance x PayloadTooLargeError" if "read_bounded_text E r n = Inl x" for n
      using that assms(1,2) unfolding read_bounded_text_def read_bounded_exact transport_ok_def
      by (auto simp: bindR_Inl_iff split: if_splits option.splits)
    then show ?thesis using that by (auto simp: read_bounded_answer_def split: sum.splits if_splits)
  qed
  have l: "\<not> declines x" if "ae_loads E t = Inl x" for t x using assms(1) that by (auto simp: transport_ok_def)
  show ?thesis using assms(3) d a l
    by (auto simp: parse_body_def bindR_Inl_iff split: if_splits sum.splits)
qed

text \<open>One request: what it posts, and why it may end in an exception that allows another one.\<close>

definition sent_by :: "api_env \<Rightarrow> nat \<Rightarrow> api_client \<Rightarrow> json py \<times> api_client \<Rightarrow> api_post list \<Rightarrow> bool" where
  "sent_by E n c res posts \<longleftrightarrow> ac_log (snd res) = ac_log c @ posts \<and> length posts \<le> n
    \<and> all_but_last (declined E) E (ac_log c) posts
    \<and> (\<forall>e. posts \<noteq> [] \<longrightarrow> final_answer E (ac_log c) posts = No_answer e \<longrightarrow> \<not> declines e \<longrightarrow> fst res = Inl e)"

lemma select_error: "fst (selector_select now draw sel) = Inl e \<Longrightarrow> e = Exc ProxyRequiredError None"
  by (auto simp: selector_select_def Let_def split: option.splits prod.splits if_splits)

lemma log_kept [simp]: "ac_log (blame_proxy E picked c) = ac_log c" "ac_log (credit_proxy picked c) = ac_log c"
  by (simp_all add: blame_proxy_def credit_proxy_def)

lemma finish_send_facts:
  assumes "transport_ok E" and "ae_net E log p = Answered r"
  shows "ac_log (snd (finish_send E single picked r c)) = ac_log c"
    and "fst (finish_send E single picked r c) = Inl e \<Longrightarrow> declines e \<Longrightarrow> declined E (Answered r)"
  using parse_body_honest [OF assms] results_rate
  by (auto simp: finish_send_def declined_def split: sum.splits if_splits)

lemma challenged_declined: "challenged a \<Longrightarrow> declined E a"
  by (cases a) (simp_all add: challenged_def declined_def)

lemma send_sent:
  assumes "transport_ok E"
  shows "\<exists>posts. sent_by E 3 c (send E commands extra c) posts
    \<and> (\<forall>e. fst (send E commands extra c) = Inl e \<longrightarrow> declines e \<longrightarrow> posts \<noteq> [] \<and> declined E (final_answer E (ac_log c) posts))"
proof -
  obtain url c1 where b: "build_url extra c = (url, c1)" by (cases "build_url extra c")
  then have log: "ac_log c1 = ac_log c" by (auto simp: build_url_def Let_def)
  obtain d sel where s: "selector_select (ae_now E (ac_log c1)) (ae_draw E (ac_log c1)) (ac_selector c1) = (d, sel)" by fastforce
  show ?thesis
  proof (cases d)
    case (Inl e)
    then have "e = Exc ProxyRequiredError None" using select_error [of _ _ _ e] s by (metis fst_conv)
    then show ?thesis using b s Inl log by (intro exI [of _ "[]"]) (simp add: send_def sent_by_def)
  next
    case (Inr route)
    obtain ps picked where route: "route = (ps, picked)" by (cases route)
    obtain res log' where pa: "post_attempts E url (payload_of commands) (ae_now E (ac_log c1) + HASHCASH_TOTAL_BUDGET) 3 None (ac_log c) = (res, log')"
      by fastforce
    from post_attempts_facts [OF this] obtain posts where
      posts: "log' = ac_log c @ posts" "posts \<noteq> []" "length posts \<le> 3" "all_but_last challenged E (ac_log c) posts"
      "case final_answer E (ac_log c) posts of
         No_answer e \<Rightarrow> res = Inl e
       | Answered r \<Rightarrow> res = Inr r \<or> (\<exists>e. res = Inl e \<and> (e = Exc HashcashBudgetExceededError None
            \<or> (\<exists>l ch t. ae_solve E l ch t = Inl e)))" by auto
    have chain: "all_but_last (declined E) E (ac_log c) posts"
      using posts(4) challenged_declined by (rule all_but_last_mono)
    let ?c = "c1\<lparr>ac_selector := sel, ac_log := log'\<rparr>"
    show ?thesis
    proof (cases res)
      case (Inl e)
      have r: "send E commands extra c = (Inl e, if link_failure e then blame_proxy E picked ?c else ?c)"
        using b s Inr route pa Inl log by (simp add: send_def Let_def)
      have "declined E (final_answer E (ac_log c) posts)" if "declines e"
      proof (cases "final_answer E (ac_log c) posts")
        case (No_answer e')
        then have "e' = e" "\<not> isinstance e RateLimitError"
          using posts(5) Inl assms by (auto simp: transport_ok_def final_answer_def)
        then show ?thesis using that No_answer by (simp add: declined_def declines_def)
      next
        case (Answered r)
        then have "e = Exc HashcashBudgetExceededError None \<or> (\<exists>l ch t. ae_solve E l ch t = Inl e)" using posts(5) Inl by simp
        then show ?thesis using that assms by (auto simp: transport_ok_def)
      qed
      then show ?thesis
        using r posts chain Inl by (intro exI [of _ posts]) (auto simp: sent_by_def split: api_answer.splits)
    next
      case (Inr r)
      then have a: "final_answer E (ac_log c) posts = Answered r" using posts(5) by (auto split: api_answer.splits)
      then obtain l p where net: "ae_net E l p = Answered r" by (auto simp: final_answer_def)
      have "send E commands extra c = finish_send E (\<not> is_list commands) picked r ?c"
        using b s \<open>d = Inr route\<close> route pa Inr log by (simp add: send_def Let_def)
      then show ?thesis
        using finish_send_facts [OF assms net] posts chain a by (intro exI [of _ posts]) (auto simp: sent_by_def)
    qed
  qed
qed

lemma retrying_sent:
  assumes "transport_ok E" and "\<And>e. again e \<Longrightarrow> declines e" and "0 < n"
  shows "\<exists>posts. sent_by E (3 * n) c (retrying n again (send E commands extra) c) posts"
  using assms(3)
proof (induction n arbitrary: c)
  case (Suc n)
  obtain posts where p: "sent_by E 3 c (send E commands extra c) posts"
    and d: "\<And>e. fst (send E commands extra c) = Inl e \<Longrightarrow> declines e \<Longrightarrow> posts \<noteq> [] \<and> declined E (final_answer E (ac_log c) posts)"
    using send_sent [OF assms(1)] by blast
  obtain r c' where r: "send E commands extra c = (r, c')" by fastforce
  show ?case
  proof (cases "\<exists>e. r = Inl e \<and> again e \<and> n \<noteq> 0")
    case True
    then obtain e where e: "r = Inl e" "again e" "n \<noteq> 0" by blast
    then obtain rest where q: "sent_by E (3 * n) c' (retrying n again (send E commands extra) c') rest" using Suc.IH by blast
    have l: "ac_log c' = ac_log c @ posts" using p r by (simp add: sent_by_def)
    have dec: "posts \<noteq> []" "declined E (final_answer E (ac_log c) posts)" using d [of e] r e assms(2) by auto
    have again: "retrying (Suc n) again (send E commands extra) c = retrying n again (send E commands extra) c'"
      using r e by simp
    have step: "\<not> declines x \<Longrightarrow> final_answer E (ac_log c) posts = No_answer x \<Longrightarrow> False" for x
      using dec(2) by (auto simp: declined_def declines_def)
    have "sent_by E (3 * Suc n) c (retrying n again (send E commands extra) c') (posts @ rest)"
    proof (cases "rest = []")
      case True
      then show ?thesis using p q l r step unfolding sent_by_def by auto
    next
      case False
      have "all_but_last (declined E) E (ac_log c) (posts @ rest)"
        using p q dec False l by (intro all_but_last_append) (simp_all add: sent_by_def)
      then show ?thesis using p q l False unfolding sent_by_def by (auto simp: final_answer_append)
    qed
    then show ?thesis using again by auto
  next
    case False
    then have "retrying (Suc n) again (send E commands extra) c = send E commands extra c"
      using r by (auto split: sum.splits)
    then show ?thesis using p by (intro exI [of _ posts]) (auto simp: sent_by_def)
  qed
qed simp

text \<open>
  C10: a command that changes something is never replayed blindly. Every time it is posted again, the
  answer before shows that it was not processed: no connection was made, a proof of work was asked for,
  or the account is rate limited; it is posted fifteen times at most. When the connection fails after a
  post may have been applied, that post is the last one, and the caller is told that the outcome is open.
\<close>

theorem no_blind_replay:
  assumes "transport_ok E" and "is_mutating commands" and "request E commands extra c = (r, c')"
  shows "\<exists>posts. ac_log c' = ac_log c @ posts \<and> length posts \<le> 15
    \<and> all_but_last (declined E) E (ac_log c) posts
    \<and> (\<forall>e. posts \<noteq> [] \<longrightarrow> final_answer E (ac_log c) posts = No_answer e \<longrightarrow> link_failure e
         \<longrightarrow> \<not> isinstance e ConnectTimeout \<longrightarrow> r = raise AmbiguousMutationError)"
proof -
  let ?again = "\<lambda>e. isinstance e RateLimitError \<or> isinstance e ConnectTimeout"
  obtain r0 c0 where run: "retrying RETRY_ATTEMPTS ?again (send E commands extra) c = (r0, c0)" by fastforce
  obtain posts where p: "sent_by E 15 c (r0, c0) posts"
    using retrying_sent [OF assms(1), of ?again RETRY_ATTEMPTS c commands extra] run
    by (auto simp: declines_def RETRY_ATTEMPTS_def)
  have res: "c' = c0" "r = (case r0 of Inl e \<Rightarrow> if isinstance e ConnectTimeout then Inl e
      else if link_failure e then raise AmbiguousMutationError else Inl e | Inr v \<Rightarrow> Inr v)"
    using assms(2,3) run by (auto simp: request_def send_mutating_def link_failure_def split: sum.splits if_splits)
  have "r = raise AmbiguousMutationError"
    if "posts \<noteq> []" "final_answer E (ac_log c) posts = No_answer e" "link_failure e" "\<not> isinstance e ConnectTimeout" for e
  proof -
    have "\<not> declines e" using assms(1) that by (auto simp: transport_ok_def final_answer_def declines_def)
    then have "r0 = Inl e" using p that by (simp add: sent_by_def)
    then show ?thesis using res that by simp
  qed
  then show ?thesis using p res by (intro exI [of _ posts]) (auto simp: sent_by_def)
qed

definition demo_api_net :: "api_post list \<Rightarrow> api_post \<Rightarrow> api_answer" where
  "demo_api_net log p = (if log = [] then No_answer (Exc ConnectTimeout None) else No_answer (Exc ConnectionError None))"

definition demo_api :: api_env where
  "demo_api = \<lparr>ae_net = demo_api_net, ae_now = (\<lambda>_. 0), ae_draw = (\<lambda>_. 0), ae_solve = (\<lambda>_ _ _. raise HashcashError),
     ae_decode = (\<lambda>_ _. Inr ''[]''), ae_loads = (\<lambda>_. raise JSONDecodeError)\<rparr>"

definition demo_client :: api_client where
  "demo_client = \<lparr>ac_base = ''https://g.api.mega.co.nz'', ac_sid = None, ac_seq = 0,
     ac_selector = make_selector None None False, ac_log = []\<rparr>"

definition demo_delete :: json where
  "demo_delete = command ''d'' [(''n'', JStr ''AAAAAAAA'')]"

lemma demo_api_ok: "transport_ok demo_api"
  by (auto simp: transport_ok_def demo_api_def demo_api_net_def declines_def isinstance_def ancestors_5 split: if_splits)

lemma demo_delete_run:
  "fst (request demo_api demo_delete [] demo_client) = raise AmbiguousMutationError
   \<and> length (ac_log (snd (request demo_api demo_delete [] demo_client))) = 2"
  by code_simp

theorem no_blind_replay_witness:
  "\<exists>posts. ac_log (snd (request demo_api demo_delete [] demo_client)) = posts \<and> length posts = 2
    \<and> all_but_last (declined demo_api) demo_api [] posts"
proof -
  have m: "is_mutating demo_delete" by code_simp
  obtain r c' where run: "request demo_api demo_delete [] demo_client = (r, c')" by fastforce
  have "ac_log demo_client = []" by (simp add: demo_client_def)
  then show ?thesis using no_blind_replay [OF demo_api_ok m run] demo_delete_run run by auto
qed

section \<open>The proxy's reward\<close>

definition successes :: "selector \<Rightarrow> int list option" where
  "successes sel = map_option (map px_successes) (sel_pool sel)"

definition usable :: "api_env \<Rightarrow> api_answer \<Rightarrow> bool" where
  "usable E a \<longleftrightarrow> (case a of
     Answered r \<Rightarrow> \<not> is_http_error (ar_status r) \<and> (\<exists>data. parse_body E r = Inr data) | No_answer _ \<Rightarrow> False)"

lemma pick_keeps_successes: "pool_pick now draw p = (e, q) \<Longrightarrow> map px_successes q = map px_successes p"
proof -
  assume "pool_pick now draw p = (e, q)"
  then have "q = p \<or> (\<exists>i. q = p[i := (p ! i)\<lparr>px_last_used := now\<rparr>])"
    by (auto simp: pool_pick_def Let_def split: if_splits)
  moreover have "map px_successes (p[i := (p ! i)\<lparr>px_last_used := now\<rparr>]) = map px_successes p" for i
    by (cases "i < length p") (auto intro!: nth_equalityI simp: nth_list_update list_update_beyond)
  ultimately show ?thesis by blast
qed

lemma select_keeps_successes: "successes (snd (selector_select now draw sel)) = successes sel"
  using pick_keeps_successes
  by (auto simp: selector_select_def successes_def Let_def split: option.splits prod.splits if_splits)

lemma update_first_successes:
  "(\<And>e. px_successes (f e) = px_successes e) \<Longrightarrow> map px_successes (update_first url f p) = map px_successes p"
  by (induction url f p rule: update_first.induct) auto

lemma blame_keeps_successes: "successes (ac_selector (blame_proxy E picked c)) = successes (ac_selector c)"
  by (auto simp: blame_proxy_def selector_report_failure_def successes_def pool_report_failure_def Let_def
      intro!: update_first_successes split: option.splits)

text \<open>
  A proxy is rewarded only for an answer that could be used. When a request raises the success
  count of any proxy, its last post was answered without an HTTP error by a body of bounded size that
  parses as JSON; a login page in place of the answer earns nothing.
\<close>

theorem credit_only_usable:
  assumes "send E commands extra c = (r, c')" and "successes (ac_selector c') \<noteq> successes (ac_selector c)"
  shows "\<exists>posts. ac_log c' = ac_log c @ posts \<and> posts \<noteq> [] \<and> length posts \<le> 3 \<and> usable E (final_answer E (ac_log c) posts)"
proof -
  obtain url c1 where b: "build_url extra c = (url, c1)" by (cases "build_url extra c")
  then have c1: "ac_log c1 = ac_log c" "ac_selector c1 = ac_selector c" by (auto simp: build_url_def Let_def)
  obtain d sel where s: "selector_select (ae_now E (ac_log c1)) (ae_draw E (ac_log c1)) (ac_selector c1) = (d, sel)" by fastforce
  have sel: "successes sel = successes (ac_selector c)" using select_keeps_successes s c1 by (metis snd_conv)
  then obtain ps picked where d: "d = Inr (ps, picked)"
    using assms b s by (cases d) (auto simp: send_def)
  obtain res log' where pa: "post_attempts E url (payload_of commands) (ae_now E (ac_log c1) + HASHCASH_TOTAL_BUDGET) 3 None (ac_log c) = (res, log')"
    by fastforce
  let ?c = "c1\<lparr>ac_selector := sel, ac_log := log'\<rparr>"
  obtain rep where rep: "res = Inr rep"
    using assms b s d pa c1 sel blame_keeps_successes [of E picked ?c] by (cases res) (auto simp: send_def Let_def split: if_splits)
  have run: "finish_send E (\<not> is_list commands) picked rep ?c = (r, c')"
    using assms(1) b s d pa c1 rep by (simp add: send_def Let_def)
  have ok: "usable E (Answered rep)"
    using run assms(2) sel blame_keeps_successes [of E picked ?c]
    by (auto simp: finish_send_def usable_def split: if_splits sum.splits)
  have "ac_log c' = log'" using run by (auto simp: finish_send_def split: if_splits sum.splits)
  moreover obtain posts where "log' = ac_log c @ posts" "posts \<noteq> []" "length posts \<le> 3"
    and "case final_answer E (ac_log c) posts of No_answer e \<Rightarrow> res = Inl e
      | Answered r \<Rightarrow> res = Inr r \<or> (\<exists>e. res = Inl e \<and> (e = Exc HashcashBudgetExceededError None \<or> (\<exists>l ch t. ae_solve E l ch t = Inl e)))"
    using post_attempts_facts [OF pa] by auto
  ultimately show ?thesis using rep ok by (intro exI [of _ posts]) (auto split: api_answer.splits)
qed

definition demo_page :: api_reply where
  "demo_page = \<lparr>ar_status = 200, ar_length = None, ar_type = Some ''application/json'', ar_hashcash = None, ar_encoding = None,
     ar_blocks = [], ar_tail = None\<rparr>"

definition demo_ok_api :: api_env where
  "demo_ok_api = demo_api\<lparr>ae_net := (\<lambda>_ _. Answered demo_page), ae_loads := (\<lambda>_. Inr (JArr [JInt 0]))\<rparr>"

definition demo_proxied :: api_client where
  "demo_proxied = demo_client\<lparr>ac_selector := make_selector (Some (pool_init [''p''])) None True\<rparr>"

lemma demo_page_parses: "parse_body demo_ok_api demo_page = Inr (JArr [JInt 0])"
proof -
  have "contains ''json'' (lower ''application/json'')" by code_simp
  then show ?thesis
    by (simp add: parse_body_def check_declared_def or_empty_def demo_page_def read_bounded_answer_def read_bounded_text_def
        read_bounded_exact demo_ok_api_def demo_api_def)
qed

lemma demo_credit:
  "successes (ac_selector (snd (send demo_ok_api demo_delete [] demo_proxied))) = Some [1]"
  "successes (ac_selector demo_proxied) = Some [0]"
proof -
  show "successes (ac_selector demo_proxied) = Some [0]" by code_simp
  obtain url c where b: "build_url [] demo_proxied = (url, c)" by (cases "build_url [] demo_proxied")
  then have c: "ac_log c = []" "ac_selector c = make_selector (Some (pool_init [''p''])) None True"
    by (auto simp: build_url_def Let_def demo_proxied_def demo_client_def)
  have n: "ae_now demo_ok_api l = 0" "ae_draw demo_ok_api l = 0" "ae_net demo_ok_api l p = Answered demo_page" for l p
    by (simp_all add: demo_ok_api_def demo_api_def)
  have s: "selector_select 0 0 (make_selector (Some (pool_init [''p''])) None True)
      = (Inr (Some (proxies_for ''p''), Some ''p''), make_selector (Some (pool_init [''p''])) None True)" by code_simp
  have w: "wants_hashcash demo_page = None" "\<not> is_http_error (ar_status demo_page)"
    by (simp_all add: wants_hashcash_def demo_page_def is_http_error_def)
  have "successes (selector_report_success (Some ''p'') (make_selector (Some (pool_init [''p''])) None True)) = Some [1]" by code_simp
  then show "successes (ac_selector (snd (send demo_ok_api demo_delete [] demo_proxied))) = Some [1]"
    by (simp add: send_def b c n s numeral_3_eq_3 w Let_def finish_send_def demo_page_parses credit_proxy_def)
qed

theorem credit_only_usable_witness:
  "\<exists>posts. posts \<noteq> [] \<and> length posts \<le> 3 \<and> usable demo_ok_api (final_answer demo_ok_api [] posts)"
proof -
  have "ac_log demo_proxied = []" by (simp add: demo_proxied_def demo_client_def)
  then show ?thesis
    using credit_only_usable [of demo_ok_api demo_delete "[]" demo_proxied, OF surjective_pairing] demo_credit by auto
qed

section \<open>What gets past the guards\<close>

text \<open>
  \<open>isdecimal\<close> lets every row of digits through to \<open>int\<close>, which refuses more than 4300 of them: the
  guard itself raises \<open>ValueError\<close>.
\<close>

lemma long_length_escapes:
  assumes "ar_length r = Some (replicate 4301 (CHR ''9''))"
  shows "parse_body E r = raise ValueError"
proof -
  let ?s = "replicate 4301 (CHR ''9'')"
  have d: "is_digit (CHR ''9'')" "\<not> is_ws (CHR ''9'')" by code_simp+
  have strip: "strip ?s = ?s" using d by (intro strip_id) simp
  have "int_digits False ?s = Some ?s" using d by (intro int_digits_all) simp_all
  then have "py_nat ?s = None" by (simp add: py_nat_def max_str_digits_def)
  moreover have "?s = CHR ''9'' # replicate 4300 (CHR ''9'')" using replicate_Suc [of 4300 "CHR ''9''"] by (simp del: replicate_Suc)
  ultimately have "py_int ?s = None" unfolding py_int_def strip by (simp split: list.splits)
  then show ?thesis using d assms
    by (simp add: parse_body_def check_declared_def or_empty_def list_all_iff)
qed

text \<open>A charset nobody knows makes \<open>bytes.decode\<close> raise \<open>LookupError\<close>, which no handler of the client names.\<close>

lemma unknown_charset_escapes:
  assumes "ar_length r = None" and "ar_type r = None" and "ar_tail r = None" and "ar_blocks r = []"
    and "\<And>enc raw. ae_decode E enc raw = raise LookupError"
  shows "parse_body E r = raise LookupError"
  using assms
  by (simp add: parse_body_def check_declared_def or_empty_def read_bounded_answer_def read_bounded_text_def
      read_bounded_exact isinstance_def ancestors_5)

text \<open>
  A connection that is cut while the answer is read is a \<open>ChunkedEncodingError\<close>, which is neither a
  \<open>ConnectionError\<close> nor a \<open>Timeout\<close>: a command that may have been applied ends in that exception and
  not in \<open>AmbiguousMutationError\<close>.
\<close>

lemma cut_answer_not_ambiguous:
  assumes "is_mutating commands" and "send E commands extra c = (raise ChunkedEncodingError, c')"
  shows "request E commands extra c = (raise ChunkedEncodingError, c')"
  using assms by (simp add: request_def send_mutating_def RETRY_ATTEMPTS_def numeral_eq_Suc isinstance_def ancestors_5)

text \<open>
  In an answer to several commands a rate limit after a success counts as a refusal of them all, and
  the one that was applied is posted again.
\<close>

lemma partial_batch_declined:
  "results_of False (JArr [JInt 0, JInt (- 4)]) = Inl (Exc RateLimitError (Some (- 4)))"
  by (simp add: results_of_def raise_for_code_def)

end
