(* ===== verification/Selection.thy ===== *)
theory Selection
  imports FolderShare ApiClient
begin

text \<open>
  \<open>utils/selection.py\<close>: which files of a folder share are downloaded, by glob patterns and by the
  numbers typed into the picker. \<open>fnmatchcase\<close> of the standard library is written out.
\<close>

section \<open>Glob patterns\<close>

text \<open>\<open>str.casefold\<close> on Latin-1, where the sharp s alone is spelt out.\<close>

definition casefold :: "string \<Rightarrow> string" where
  "casefold s = concat (map (\<lambda>c. if (of_char c :: nat) = 223 then ''ss'' else [lower_char c]) s)"

text \<open>The body of a bracket: ranges, and single characters as ranges of one.\<close>

fun class_items :: "string \<Rightarrow> (nat \<times> nat) list" where
  "class_items (x # d # y # r) =
    (if d = CHR ''-'' then (of_char x, of_char y) # class_items r else (of_char x, of_char x) # class_items (d # y # r))"
| "class_items (x # r) = (of_char x, of_char x) # class_items r"
| "class_items [] = []"

text \<open>What follows an opening bracket: whether it is negated, its body, the rest; a bracket that is not closed is none.\<close>

definition glob_class :: "string \<Rightarrow> (bool \<times> string \<times> string) option" where
  "glob_class p0 =
    (let neg = starts_with ''!'' p0; p = (if neg then tl p0 else p0);
         first = (if starts_with '']'' p then '']'' else []); p = drop (length first) p;
         rest = dropWhile (\<lambda>c. c \<noteq> CHR '']'') p
     in if rest = [] then None else Some (neg, first @ takeWhile (\<lambda>c. c \<noteq> CHR '']'') p, tl rest))"

lemma glob_class_shorter: "glob_class p = Some (neg, body, rest) \<Longrightarrow> length rest < length p"
proof -
  assume a: "glob_class p = Some (neg, body, rest)"
  let ?p = "if starts_with ''!'' p then tl p else p"
  let ?q = "drop (length (if starts_with '']'' ?p then '']'' else [])) ?p"
  let ?r = "dropWhile (\<lambda>c. c \<noteq> CHR '']'') ?q"
  have "?r \<noteq> []" "rest = tl ?r" using a by (auto simp: glob_class_def Let_def split: if_splits)
  then have "length rest < length ?r" by (cases ?r) simp_all
  also have "\<dots> \<le> length ?q" by (rule length_dropWhile_le)
  also have "\<dots> \<le> length ?p" by simp
  also have "\<dots> \<le> length p" by simp
  finally show ?thesis .
qed

definition in_class :: "bool \<Rightarrow> string \<Rightarrow> char \<Rightarrow> bool" where
  "in_class neg body c = (list_ex (\<lambda>(lo, hi). lo \<le> of_char c \<and> of_char c \<le> hi) (class_items body) \<noteq> neg)"

function fnmatchcase :: "string \<Rightarrow> string \<Rightarrow> bool" where
  "fnmatchcase s [] = (s = [])"
| "fnmatchcase s (c # p) =
    (if c = CHR ''*'' then fnmatchcase s p \<or> (if s = [] then False else fnmatchcase (tl s) (c # p))
     else if c = CHR ''?'' then s \<noteq> [] \<and> fnmatchcase (tl s) p
     else case (if c = CHR ''['' then glob_class p else None) of
         Some (neg, body, rest) \<Rightarrow> s \<noteq> [] \<and> in_class neg body (hd s) \<and> fnmatchcase (tl s) rest
       | None \<Rightarrow> s \<noteq> [] \<and> hd s = c \<and> fnmatchcase (tl s) p)"
  by pat_completeness auto

termination
  by (relation "measure (\<lambda>(s, p). length s + length p)")
    (auto simp: neq_Nil_conv split: if_splits dest: glob_class_shorter)

definition normalize_pattern :: "string \<Rightarrow> string" where
  "normalize_pattern p = casefold (replace_char (CHR 0x5C) (CHR ''/'') p)"

text \<open>
  The path below the root when it is below it, else the last name; and the two names. A name that is no
  string never gets a destination.
\<close>

definition match_subjects :: "folder_node \<Rightarrow> fpath \<Rightarrow> fpath \<Rightarrow> string list" where
  "match_subjects node target root =
    (let relative = (if starts_with root target then join_by ''/'' (drop (length root) target) else last target);
         name = (case fn_name node of JStr n \<Rightarrow> if n = [] then last target else n | _ \<Rightarrow> last target)
     in [casefold relative, casefold (last target), casefold name])"

definition matches_any :: "string list \<Rightarrow> string list \<Rightarrow> bool" where
  "matches_any patterns subjects = list_ex (\<lambda>p. list_ex (\<lambda>s. fnmatchcase s p) subjects) patterns"

definition pattern_variants :: "string list \<Rightarrow> string list" where
  "pattern_variants ps = concat (map (\<lambda>p. [normalize_pattern p, ''*/'' @ normalize_pattern p]) (filter (\<lambda>p. p \<noteq> []) ps))"

definition passes :: "string list \<Rightarrow> string list \<Rightarrow> fpath \<Rightarrow> folder_node \<times> fpath \<Rightarrow> bool" where
  "passes include_patterns exclude_patterns root job =
    (let subjects = match_subjects (fst job) (snd job) root
     in (include_patterns = [] \<or> matches_any include_patterns subjects)
        \<and> \<not> (exclude_patterns \<noteq> [] \<and> matches_any exclude_patterns subjects))"

definition build_folder_file_filter :: "string list \<Rightarrow> string list \<Rightarrow> fpath \<Rightarrow> (jobs \<Rightarrow> jobs) option" where
  "build_folder_file_filter incl excl root =
    (let include_patterns = pattern_variants incl; exclude_patterns = pattern_variants excl
     in if include_patterns = [] \<and> exclude_patterns = [] then None
        else Some (filter (passes include_patterns exclude_patterns root)))"

definition run_filters :: "(jobs \<Rightarrow> jobs) list \<Rightarrow> jobs \<Rightarrow> jobs" where
  "run_filters = fold (\<lambda>f jobs. if jobs = [] then [] else f jobs)"

definition compose_file_filters :: "(jobs \<Rightarrow> jobs) option list \<Rightarrow> (jobs \<Rightarrow> jobs) option" where
  "compose_file_filters filters =
    (let active = concat (map (\<lambda>f. case f of None \<Rightarrow> [] | Some g \<Rightarrow> [g]) filters)
     in if active = [] then None else Some (run_filters active))"

section \<open>Numbers\<close>

text \<open>\<open>s.split()\<close>: the runs of characters without \<open>p\<close>.\<close>

function words_by :: "(char \<Rightarrow> bool) \<Rightarrow> string \<Rightarrow> string list" where
  "words_by p s =
    (case dropWhile p s of
       [] \<Rightarrow> []
     | c # t \<Rightarrow> takeWhile (\<lambda>c. \<not> p c) (c # t) # words_by p (dropWhile (\<lambda>c. \<not> p c) (c # t)))"
  by pat_completeness auto

termination
proof (relation "measure (\<lambda>(p, s). length s)")
  fix p :: "char \<Rightarrow> bool" and s c t
  assume "dropWhile p s = c # t"
  then have "\<not> p c" "length (c # t) \<le> length s" using hd_dropWhile [of p s] length_dropWhile_le [of p s] by simp_all
  then show "((p, dropWhile (\<lambda>c. \<not> p c) (c # t)), p, s) \<in> measure (\<lambda>(p, s). length s)"
    using length_dropWhile_le [of "\<lambda>c. \<not> p c" t] by simp
qed simp

declare words_by.simps [simp del]

definition selection_token :: "int \<Rightarrow> string \<Rightarrow> int list py" where
  "selection_token shown token =
    (case partition_at (CHR ''-'') token of (first, is_range, tail) \<Rightarrow>
       (case (py_int first, if is_range then py_int tail else py_int first) of
          (Some low, Some high) \<Rightarrow> if low < 1 \<or> shown < high \<or> high < low then raise ValueError else Inr [low..high]
        | _ \<Rightarrow> raise ValueError))"

definition parse_selection_tokens :: "string \<Rightarrow> int \<Rightarrow> int list py" where
  "parse_selection_tokens text shown =
    (let cleaned = casefold (strip text)
     in if cleaned \<in> set [[], ''all'', ''a'', ''*''] then Inr [1..shown]
        else if cleaned \<in> set [''none'', ''n''] then Inr []
        else foldR (\<lambda>token chosen. bindR (selection_token shown token) (\<lambda>xs. Inr (chosen @ xs)))
               (words_by is_ws (replace_char (CHR '','') (CHR '' '') cleaned)) [])"

text \<open>Only files that are offered can be chosen.\<close>

lemma selection_in_range:
  assumes "parse_selection_tokens text shown = Inr chosen"
  shows "set chosen \<subseteq> {1..shown}"
proof -
  have t: "set xs \<subseteq> {1..shown}" if "selection_token shown token = Inr xs" for token xs
    using that by (auto simp: selection_token_def split: prod.splits option.splits if_splits)
  have "set chosen \<subseteq> {1..shown}"
    if "foldR (\<lambda>token chosen. bindR (selection_token shown token) (\<lambda>xs. Inr (chosen @ xs))) ts acc = Inr chosen" "set acc \<subseteq> {1..shown}" for ts acc
    using that by (induction ts arbitrary: acc) (use t in \<open>fastforce simp: bindR_Inr_iff\<close>)+
  then show ?thesis using assms by (auto simp: parse_selection_tokens_def Let_def split: if_splits)
qed

text \<open>A filter keeps exactly the jobs that pass, in their order, and an exclusion wins.\<close>

lemma filter_exact:
  assumes "build_folder_file_filter incl excl root = Some f"
  shows "f jobs = filter (passes (pattern_variants incl) (pattern_variants excl) root) jobs"
    and "matches_any (pattern_variants excl) (match_subjects (fst job) (snd job) root) \<Longrightarrow> job \<notin> set (f jobs)"
  using assms by (auto simp: build_folder_file_filter_def passes_def matches_any_def Let_def split: if_splits)

lemma run_filters_subset:
  "(\<And>f js. f \<in> set fs \<Longrightarrow> set (f js) \<subseteq> set js) \<Longrightarrow> set (run_filters fs jobs) \<subseteq> set jobs"
proof (induction fs arbitrary: jobs)
  case (Cons f fs)
  let ?js = "if jobs = [] then [] else f jobs"
  have "set (run_filters fs ?js) \<subseteq> set ?js" using Cons by simp
  moreover have "set ?js \<subseteq> set jobs" using Cons.prems [of f jobs] by simp
  ultimately show ?case unfolding run_filters_def fold_simps comp_def by blast
qed (simp add: run_filters_def)

end
