(* ===== verification/Vault.thy ===== *)
theory Vault
  imports StateFile Responses
begin

text \<open>
  \<open>accounts/storage.py\<close>: the credential vault, the validation of the account file, and its loading and
  saving. A file is parsed JSON or bytes that do not parse; AES-GCM, scrypt and the random bytes are
  arguments. The permissions of the file leave no trace.
\<close>

section \<open>Credentials\<close>

definition VAULT_VERSION :: nat where
  "VAULT_VERSION = 2"

definition SCRYPT_LOG2N :: nat where
  "SCRYPT_LOG2N = 15"

definition SCRYPT_R :: nat where
  "SCRYPT_R = 8"

definition SCRYPT_P :: nat where
  "SCRYPT_P = 1"

definition VAULT_HEADER_LEN :: nat where
  "VAULT_HEADER_LEN = 4"

definition VAULT_MIN_LEN :: nat where
  "VAULT_MIN_LEN = VAULT_HEADER_LEN + 16 + 12 + 16"

definition MIN_LOG2_N :: nat where
  "MIN_LOG2_N = 10"

definition MAX_LOG2_N :: nat where
  "MAX_LOG2_N = 22"

text \<open>Salt, cost, block size and parallelism: what a key is derived from besides the passphrase.\<close>

type_synonym kdf_params = "bytes \<times> nat \<times> nat \<times> nat"

record vault_lib =
  vl_aead :: aead
  vl_scrypt :: "kdf_params \<Rightarrow> bytes \<Rightarrow> bytes"

record vault =
  va_passphrase :: bytes
  va_keys :: "(kdf_params \<times> bytes) list"

definition open_vault :: "string \<Rightarrow> vault" where
  "open_vault passphrase = \<lparr>va_passphrase = utf8 passphrase, va_keys = []\<rparr>"

definition vault_derive :: "vault_lib \<Rightarrow> kdf_params \<Rightarrow> vault \<Rightarrow> bytes \<times> vault" where
  "vault_derive L params V =
    (case map_of (va_keys V) params of
       Some key \<Rightarrow> (key, V)
     | None \<Rightarrow> (let key = vl_scrypt L params (va_passphrase V)
               in (key, V\<lparr>va_keys := (params, key) # va_keys V\<rparr>)))"

definition vault_header :: bytes where
  "vault_header = map of_nat [VAULT_VERSION, SCRYPT_LOG2N, SCRYPT_R, SCRYPT_P]"

definition vault_encrypt :: "vault_lib \<Rightarrow> bytes \<Rightarrow> bytes \<Rightarrow> string \<Rightarrow> vault \<Rightarrow> string \<times> vault" where
  "vault_encrypt L salt nonce plaintext V =
    (case vault_derive L (salt, 2 ^ SCRYPT_LOG2N, SCRYPT_R, SCRYPT_P) V of (key, V) \<Rightarrow>
       (let ct = gcm_seal (vl_aead L) key nonce (utf8 plaintext) [];
            header = vault_header
        in (b64encode (header @ salt @ nonce @ ct), V)))"

definition header_is_plausible :: "bytes \<Rightarrow> bool" where
  "header_is_plausible raw \<longleftrightarrow>
     unat (raw ! 0) = VAULT_VERSION
     \<and> MIN_LOG2_N \<le> unat (raw ! 1) \<and> unat (raw ! 1) \<le> MAX_LOG2_N
     \<and> 1 \<le> unat (raw ! 2) \<and> unat (raw ! 2) \<le> 32
     \<and> 1 \<le> unat (raw ! 3) \<and> unat (raw ! 3) \<le> 16"

definition is_readable_format :: "string \<Rightarrow> bool" where
  "is_readable_format encoded =
    (case b64decode_text encoded of
       Inl _ \<Rightarrow> False
     | Inr raw \<Rightarrow> VAULT_MIN_LEN \<le> length raw \<and> header_is_plausible raw)"

definition vault_unpack :: "string \<Rightarrow> (kdf_params \<times> bytes \<times> bytes) py" where
  "vault_unpack encoded =
    bindR (b64decode_text encoded) (\<lambda>raw.
      if length raw < VAULT_MIN_LEN then raise ValueError
      else if \<not> header_is_plausible raw then raise VaultFormatError
      else let body = drop VAULT_HEADER_LEN raw
           in Inr ((take 16 body, 2 ^ unat (raw ! 1), unat (raw ! 2), unat (raw ! 3)), slice 16 28 body, drop 28 body))"

definition vault_decrypt :: "vault_lib \<Rightarrow> string \<Rightarrow> vault \<Rightarrow> string py \<times> vault" where
  "vault_decrypt L encoded V =
    (case vault_unpack encoded of
       Inl e \<Rightarrow> (Inl e, V)
     | Inr (params, nonce, ct) \<Rightarrow>
         (case vault_derive L params V of (key, V) \<Rightarrow>
            (case gcm_open (vl_aead L) key nonce ct [] of
               None \<Rightarrow> (raise VaultUnlockError, V)
             | Some p \<Rightarrow>
                 (case utf8_decode p of
                    None \<Rightarrow> (raise VaultUnlockError, V)
                  | Some s \<Rightarrow> (Inr s, V)))))"

section \<open>The account file\<close>

record account =
  a_email :: string
  a_enc_password :: string
  a_label :: "string option"
  a_quota_total :: "int option"
  a_quota_used :: "int option"
  a_last_used :: "string option"
  a_notes :: "string option"

record account_store =
  as_accounts :: "account list"
  as_default :: "string option"
  as_version :: int

definition empty_accounts :: account_store where
  "empty_accounts = \<lparr>as_accounts = [], as_default = None, as_version = 1\<rparr>"

definition ACCOUNT_FIELDS :: "string list" where
  "ACCOUNT_FIELDS = [''email'', ''enc_password'', ''label'', ''quota_total'', ''quota_used'', ''last_used_iso'', ''notes'']"

definition MAX_QUOTA_BYTES :: int where
  "MAX_QUOTA_BYTES = 2 ^ 60"

definition acc_require :: "bool \<Rightarrow> unit py" where
  "acc_require c = require c (Exc AccountCorruptionError None)"

definition json_str_opt :: "json \<Rightarrow> string option" where
  "json_str_opt v = (case v of JStr s \<Rightarrow> Some s | _ \<Rightarrow> None)"

definition json_int_opt :: "json \<Rightarrow> int option" where
  "json_int_opt v = (case v of JInt n \<Rightarrow> Some n | _ \<Rightarrow> None)"

definition is_str_or_null :: "json \<Rightarrow> bool" where
  "is_str_or_null v = (case v of JNull \<Rightarrow> True | JStr _ \<Rightarrow> True | _ \<Rightarrow> False)"

definition quota_ok :: "json \<Rightarrow> bool" where
  "quota_ok v = (case v of JNull \<Rightarrow> True | JInt n \<Rightarrow> 0 \<le> n \<and> n \<le> MAX_QUOTA_BYTES | _ \<Rightarrow> False)"

definition blob_ok :: "json \<Rightarrow> bool" where
  "blob_ok v =
    (case v of
       JStr enc \<Rightarrow> enc \<noteq> [] \<and> (case b64decode_strict enc of Inl _ \<Rightarrow> False | Inr blob \<Rightarrow> VAULT_MIN_LEN \<le> length blob)
     | _ \<Rightarrow> False)"

definition email_ok :: "json \<Rightarrow> bool" where
  "email_ok v = (case v of JStr s \<Rightarrow> strip s \<noteq> [] | _ \<Rightarrow> False)"

definition canonical :: "string \<Rightarrow> string" where
  "canonical s = lower (strip s)"

text \<open>The e-mail addresses and the labels seen so far.\<close>

type_synonym seen = "string list \<times> string list"

definition validate_account :: "json \<Rightarrow> seen \<Rightarrow> (account \<times> seen) py" where
  "validate_account entry seen =
    (case entry of
       JObj d \<Rightarrow>
         let email = str_value (jget_none ''email'' d); enc = jget_none ''enc_password'' d; label = jget_none ''label'' d;
             key = canonical (str_value label); labelled = strip (str_value label) \<noteq> []
         in bindR (acc_require (set (map fst d) \<subseteq> set ACCOUNT_FIELDS)) (\<lambda>_.
            bindR (acc_require (email_ok (jget_none ''email'' d))) (\<lambda>_.
            bindR (acc_require (canonical email \<notin> set (fst seen))) (\<lambda>_.
            bindR (acc_require (blob_ok enc)) (\<lambda>_.
            bindR (acc_require (is_str_or_null label)) (\<lambda>_.
            bindR (acc_require (\<not> (labelled \<and> key \<in> set (snd seen)))) (\<lambda>_.
            bindR (acc_require (quota_ok (jget_none ''quota_total'' d) \<and> quota_ok (jget_none ''quota_used'' d))) (\<lambda>_.
            bindR (acc_require (is_str_or_null (jget_none ''last_used_iso'' d) \<and> is_str_or_null (jget_none ''notes'' d))) (\<lambda>_.
              Inr (\<lparr>a_email = email, a_enc_password = str_value enc, a_label = json_str_opt label,
                    a_quota_total = json_int_opt (jget_none ''quota_total'' d), a_quota_used = json_int_opt (jget_none ''quota_used'' d),
                    a_last_used = json_str_opt (jget_none ''last_used_iso'' d), a_notes = json_str_opt (jget_none ''notes'' d)\<rparr>,
                   canonical email # fst seen, if labelled then key # snd seen else snd seen)))))))))
     | _ \<Rightarrow> raise AccountCorruptionError)"

fun validate_accounts :: "json list \<Rightarrow> seen \<Rightarrow> (account list \<times> seen) py" where
  "validate_accounts [] seen = Inr ([], seen)"
| "validate_accounts (e # es) seen =
    bindR (validate_account e seen) (\<lambda>(a, seen).
    bindR (validate_accounts es seen) (\<lambda>(rest, seen). Inr (a # rest, seen)))"

definition validate_account_document :: "json \<Rightarrow> account_store py" where
  "validate_account_document data =
    (case data of
       JObj d \<Rightarrow>
         let version = jget_default ''version'' (JInt 1) d; raw = jget_default ''accounts'' (JArr []) d;
             dflt = jget_none ''default_email'' d
         in bindR (acc_require (is_plain_int version)) (\<lambda>_.
            bindR (acc_require (has_kind KList raw)) (\<lambda>_.
            bindR (validate_accounts (arr_value raw) ([], [])) (\<lambda>(accounts, emails, _).
            bindR (acc_require (is_str_or_null dflt)) (\<lambda>_.
            bindR (acc_require (strip (str_value dflt) \<noteq> [] \<longrightarrow> canonical (str_value dflt) \<in> set emails)) (\<lambda>_.
              Inr \<lparr>as_accounts = accounts, as_default = json_str_opt dflt, as_version = (case version of JInt n \<Rightarrow> n | _ \<Rightarrow> 0)\<rparr>)))))
     | _ \<Rightarrow> raise AccountCorruptionError)"

definition str_json :: "string option \<Rightarrow> json" where
  "str_json v = (case v of None \<Rightarrow> JNull | Some s \<Rightarrow> JStr s)"

definition int_json :: "int option \<Rightarrow> json" where
  "int_json v = (case v of None \<Rightarrow> JNull | Some n \<Rightarrow> JInt n)"

definition account_json :: "account \<Rightarrow> json" where
  "account_json a = JObj
    [(''email'', JStr (a_email a)), (''enc_password'', JStr (a_enc_password a)), (''label'', str_json (a_label a)),
     (''quota_total'', int_json (a_quota_total a)), (''quota_used'', int_json (a_quota_used a)),
     (''last_used_iso'', str_json (a_last_used a)), (''notes'', str_json (a_notes a))]"

definition store_json :: "account_store \<Rightarrow> json" where
  "store_json s = JObj [(''version'', JInt (as_version s)), (''default_email'', str_json (as_default s)),
     (''accounts'', JArr (map account_json (as_accounts s)))]"

section \<open>Loading and saving\<close>

record account_disk =
  ad_file :: "content option"
  ad_siblings :: "(string \<times> content) list"

record account_env =
  ae_name :: string
  ae_read :: bool
  ae_mkdir :: bool
  ae_replace :: bool
  ae_backup :: "content backup_io"

record account_storage =
  ag_corrupt :: bool
  ag_backup :: "string option"

definition mark_accounts_corrupt ::
  "account_env \<Rightarrow> content option \<Rightarrow> account_disk \<Rightarrow> account_storage \<times> account_disk" where
  "mark_accounts_corrupt E data d =
    (case data of
       None \<Rightarrow> (\<lparr>ag_corrupt = True, ag_backup = None\<rparr>, d)
     | Some c \<Rightarrow>
         (case preserve_corrupt_file (ae_backup E) (ae_name E) c (ad_siblings d) of
            (b, sibs) \<Rightarrow> (\<lparr>ag_corrupt = True, ag_backup = b\<rparr>, d\<lparr>ad_siblings := sibs\<rparr>)))"

definition load_accounts :: "account_env \<Rightarrow> account_disk \<Rightarrow> account_store py \<times> account_storage \<times> account_disk" where
  "load_accounts E d =
    (let clean = \<lparr>ag_corrupt = False, ag_backup = None\<rparr>
     in case ad_file d of
          None \<Rightarrow> (Inr empty_accounts, clean, d)
        | Some c \<Rightarrow>
            if \<not> ae_read E then (Inr empty_accounts, mark_accounts_corrupt E None d)
            else (case c of
                Raw b \<Rightarrow> (Inr empty_accounts, mark_accounts_corrupt E (Some c) d)
              | Doc j \<Rightarrow>
                  (case validate_account_document j of
                     Inr s \<Rightarrow> (Inr s, clean, d)
                   | Inl e \<Rightarrow> if isinstance e AccountCorruptionError then (Inr empty_accounts, mark_accounts_corrupt E (Some c) d)
                             else (Inl e, clean, d))))"

definition save_accounts :: "account_env \<Rightarrow> account_store \<Rightarrow> account_disk \<Rightarrow> unit py \<times> account_storage \<times> account_disk" where
  "save_accounts E s d =
    (case load_accounts E d of
       (Inl e, g, d) \<Rightarrow> (Inl e, g, d)
     | (Inr _, g, d) \<Rightarrow>
         if ag_corrupt g then (raise AccountCorruptionError, g, d)
         else if \<not> ae_mkdir E \<or> \<not> ae_replace E then (raise OSError, g, d)
         else (Inr (), g, d\<lparr>ad_file := Some (Doc (store_json s))\<rparr>))"

section \<open>A credential reads back\<close>

text \<open>A cached key is the one scrypt would derive again.\<close>

definition vault_ok :: "vault_lib \<Rightarrow> vault \<Rightarrow> bool" where
  "vault_ok L V \<longleftrightarrow> (\<forall>params key. map_of (va_keys V) params = Some key \<longrightarrow> key = vl_scrypt L params (va_passphrase V))"

lemma vault_derive_facts:
  assumes "vault_ok L V"
  shows "fst (vault_derive L params V) = vl_scrypt L params (va_passphrase V)"
    and "vault_ok L (snd (vault_derive L params V))"
    and "va_passphrase (snd (vault_derive L params V)) = va_passphrase V"
    and "params' \<in> fst ` set (va_keys (snd (vault_derive L params V))) \<Longrightarrow> params' \<in> insert params (fst ` set (va_keys V))"
  using assms by (cases params; auto simp: vault_derive_def vault_ok_def Let_def split: option.splits if_splits)+

lemma open_vault_ok: "vault_ok L (open_vault passphrase)"
  by (simp add: vault_ok_def open_vault_def)

lemma vault_header_facts:
  "length vault_header = 4" "vault_header ! 0 = 2" "vault_header ! Suc 0 = 15" "vault_header ! 2 = 8" "vault_header ! 3 = 1"
  by (simp_all add: vault_header_def VAULT_VERSION_def SCRYPT_LOG2N_def SCRYPT_R_def SCRYPT_P_def)

lemma header_units:
  "unat (2 :: byte) = 2" "unat (15 :: byte) = 15" "unat (8 :: byte) = 8" "unat (1 :: byte) = 1"
  by simp_all

lemma vault_header_plausible: "header_is_plausible (vault_header @ rest)"
  by (simp add: header_is_plausible_def nth_append vault_header_facts header_units VAULT_VERSION_def MIN_LOG2_N_def MAX_LOG2_N_def)

lemma vault_unpack_encrypted:
  assumes "length salt = 16" and "length nonce = 12" and "16 \<le> length ct"
  shows "vault_unpack (b64encode (vault_header @ salt @ nonce @ ct))
      = Inr ((salt, 2 ^ SCRYPT_LOG2N, SCRYPT_R, SCRYPT_P), nonce, ct)"
  using assms vault_header_plausible [of "salt @ nonce @ ct"]
  by (simp add: vault_unpack_def VAULT_MIN_LEN_def VAULT_HEADER_LEN_def slice_def Let_def vault_header_facts header_units
      nth_append SCRYPT_LOG2N_def SCRYPT_R_def SCRYPT_P_def)

lemma vault_reads_back:
  assumes "aead_ok (vl_aead L)" and "vault_ok L V" and "vault_ok L W" and "va_passphrase W = va_passphrase V"
    and "length salt = 16" and "length nonce = 12" and "vault_encrypt L salt nonce s V = (token, V')"
  shows "is_readable_format token \<and> fst (vault_decrypt L token W) = Inr s
    \<and> vault_ok L V' \<and> vault_ok L (snd (vault_decrypt L token W))"
proof -
  let ?params = "(salt, 2 ^ SCRYPT_LOG2N, SCRYPT_R, SCRYPT_P)"
  let ?key = "vl_scrypt L ?params (va_passphrase V)"
  let ?ct = "gcm_seal (vl_aead L) ?key nonce (utf8 s) []"
  let ?h = vault_header
  have ct: "16 \<le> length ?ct" using length_gcm_seal [OF assms(1)] by simp
  have e: "token = b64encode (?h @ salt @ nonce @ ?ct)" "V' = snd (vault_derive L ?params V)"
    using assms(7) vault_derive_facts(1) [OF assms(2), of ?params]
    by (auto simp: vault_encrypt_def Let_def split: prod.splits)
  have u: "vault_unpack token = Inr (?params, nonce, ?ct)"
    unfolding e by (rule vault_unpack_encrypted [OF assms(5,6) ct])
  obtain key W' where d: "vault_derive L ?params W = (key, W')" by fastforce
  then have key: "key = ?key" "vault_ok L W'" using vault_derive_facts [OF assms(3), of ?params] assms(4) by auto
  have "is_readable_format token"
    using assms(5,6) ct vault_header_plausible [of "salt @ nonce @ ?ct"] unfolding e
    by (simp add: is_readable_format_def VAULT_MIN_LEN_def VAULT_HEADER_LEN_def vault_header_facts)
  moreover have "vault_decrypt L token W = (Inr s, W')"
    using u d key gcm_open_seal [OF assms(1)] by (simp add: vault_decrypt_def)
  ultimately show ?thesis using key e vault_derive_facts(2) [OF assms(2)] by simp
qed

text \<open>
  A credential reads back. Whatever salt and nonce are drawn, what the vault encrypts is in the
  readable format, and every vault opened with the same passphrase decrypts it to the same text,
  whichever keys either has cached.
\<close>

theorem vault_roundtrip:
  assumes "aead_ok (vl_aead L)" and "vault_ok L V" and "vault_ok L W" and "va_passphrase W = va_passphrase V"
    and "length salt = 16" and "length nonce = 12" and "vault_encrypt L salt nonce s V = (token, V')"
  shows "is_readable_format token \<and> fst (vault_decrypt L token W) = Inr s
    \<and> vault_ok L V' \<and> vault_ok L (snd (vault_decrypt L token W))"
  using assms by (rule vault_reads_back)

definition demo_vault_lib :: vault_lib where
  "demo_vault_lib = \<lparr>vl_aead = demo_aead, vl_scrypt = (\<lambda>params pass. take 32 (pass @ zeros 32))\<rparr>"

theorem vault_roundtrip_witness:
  "let token = fst (vault_encrypt demo_vault_lib (zeros 16) (zeros 12) ''secret'' (open_vault ''pp''))
   in is_readable_format token \<and> fst (vault_decrypt demo_vault_lib token (open_vault ''pp'')) = Inr ''secret''"
proof -
  obtain token V' where e: "vault_encrypt demo_vault_lib (zeros 16) (zeros 12) ''secret'' (open_vault ''pp'') = (token, V')"
    by fastforce
  have "aead_ok (vl_aead demo_vault_lib)" using demo_aead_ok by (simp add: demo_vault_lib_def)
  from vault_roundtrip [OF this open_vault_ok open_vault_ok refl _ _ e] show ?thesis by (simp add: e Let_def)
qed

text \<open>
  Whatever text is given as a credential, the keys that are derived for it have a cost between \<open>2\<^sup>1\<^sup>0\<close> and
  \<open>2\<^sup>2\<^sup>2\<close>: a file cannot make the process allocate without bound.
\<close>

lemma vault_cost_bounded:
  assumes "vault_ok L V" and "(salt, n, r, p) \<in> fst ` set (va_keys (snd (vault_decrypt L encoded V)))"
  shows "(salt, n, r, p) \<in> fst ` set (va_keys V) \<or> 2 ^ 10 \<le> n \<and> n \<le> 2 ^ 22 \<and> 1 \<le> r \<and> r \<le> 32 \<and> 1 \<le> p \<and> p \<le> 16"
proof (cases "vault_unpack encoded")
  case (Inl e)
  then show ?thesis using assms(2) by (simp add: vault_decrypt_def)
next
  case (Inr x)
  obtain params nonce ct where x: "x = (params, nonce, ct)" by (cases x)
  obtain salt' n' r' p' where params: "params = (salt', n', r', p')" by (cases params)
  have "\<exists>k. 10 \<le> k \<and> k \<le> 22 \<and> n' = 2 ^ k \<and> 1 \<le> r' \<and> r' \<le> 32 \<and> 1 \<le> p' \<and> p' \<le> 16"
    using Inr unfolding x params
    by (auto simp: vault_unpack_def bindR_Inr_iff header_is_plausible_def MIN_LOG2_N_def MAX_LOG2_N_def Let_def
        split: if_splits)
  then have "2 ^ 10 \<le> n' \<and> n' \<le> 2 ^ 22 \<and> 1 \<le> r' \<and> r' \<le> 32 \<and> 1 \<le> p' \<and> p' \<le> 16"
    using power_increasing [of _ _ "2 :: nat"] by (elim exE conjE) (simp only: simp_thms one_le_numeral)
  moreover have "snd (vault_decrypt L encoded V) = snd (vault_derive L params V)"
    using Inr x by (auto simp: vault_decrypt_def split: prod.splits option.splits)
  ultimately show ?thesis using assms(2) vault_derive_facts(4) [OF assms(1)] params by (metis insertE prod.inject)
qed

section \<open>The account file is well typed\<close>

definition account_ok :: "account \<Rightarrow> bool" where
  "account_ok a \<longleftrightarrow> strip (a_email a) \<noteq> [] \<and> blob_ok (JStr (a_enc_password a))
    \<and> quota_ok (int_json (a_quota_total a)) \<and> quota_ok (int_json (a_quota_used a))"

definition email_keys :: "account list \<Rightarrow> string list" where
  "email_keys as = map (\<lambda>a. canonical (a_email a)) as"

definition label_keys_of :: "account \<Rightarrow> string list" where
  "label_keys_of a = (case a_label a of Some l \<Rightarrow> if strip l \<noteq> [] then [canonical l] else [] | None \<Rightarrow> [])"

definition label_keys :: "account list \<Rightarrow> string list" where
  "label_keys as = concat (map label_keys_of as)"

text \<open>
  Well-typed accounts, no two of one address or of one label, and a default that is one of them.
\<close>

definition store_ok :: "account_store \<Rightarrow> bool" where
  "store_ok s \<longleftrightarrow> list_all account_ok (as_accounts s) \<and> distinct (email_keys (as_accounts s))
    \<and> distinct (label_keys (as_accounts s))
    \<and> (\<forall>e. as_default s = Some e \<longrightarrow> strip e \<noteq> [] \<longrightarrow> canonical e \<in> set (email_keys (as_accounts s)))"

definition add_seen :: "account \<Rightarrow> seen \<Rightarrow> seen" where
  "add_seen a seen = (canonical (a_email a) # fst seen, label_keys_of a @ snd seen)"

definition fresh_account :: "account \<Rightarrow> seen \<Rightarrow> bool" where
  "fresh_account a seen \<longleftrightarrow> canonical (a_email a) \<notin> set (fst seen) \<and> set (label_keys_of a) \<inter> set (snd seen) = {}"

lemma acc_require_iff [simp]: "acc_require c = Inr u \<longleftrightarrow> c" "acc_require True = Inr ()"
  by (simp_all add: acc_require_def require_def)

lemma opt_json_back [simp]:
  "json_str_opt (str_json o1) = o1" "json_int_opt (int_json o2) = o2" "is_str_or_null (str_json o1)"
  by (auto simp: json_str_opt_def str_json_def json_int_opt_def int_json_def is_str_or_null_def split: option.splits)

lemma quota_ok_back: "quota_ok v \<Longrightarrow> int_json (json_int_opt v) = v"
  by (auto simp: quota_ok_def int_json_def json_int_opt_def split: json.splits)

lemma label_keys_json:
  "is_str_or_null v \<Longrightarrow> (case json_str_opt v of Some l \<Rightarrow> if strip l \<noteq> [] then [canonical l] else [] | None \<Rightarrow> [])
    = (if strip (str_value v) \<noteq> [] then [canonical (str_value v)] else [])"
  by (cases v) (auto simp: is_str_or_null_def json_str_opt_def strip_def rstrip_by_def lstrip_by_def)

lemma validate_account_facts:
  assumes "validate_account entry seen = Inr (a, seen')"
  shows "account_ok a" and "fresh_account a seen" and "seen' = add_seen a seen"
proof -
  obtain d where d: "entry = JObj d" using assms by (cases entry) (auto simp: validate_account_def)
  let ?email = "jget_none ''email'' d" and ?enc = "jget_none ''enc_password'' d" and ?label = "jget_none ''label'' d"
  have v: "email_ok ?email" "canonical (str_value ?email) \<notin> set (fst seen)" "blob_ok ?enc" "is_str_or_null ?label"
    "\<not> (strip (str_value ?label) \<noteq> [] \<and> canonical (str_value ?label) \<in> set (snd seen))"
    "quota_ok (jget_none ''quota_total'' d)" "quota_ok (jget_none ''quota_used'' d)"
    and a: "a = \<lparr>a_email = str_value ?email, a_enc_password = str_value ?enc, a_label = json_str_opt ?label,
      a_quota_total = json_int_opt (jget_none ''quota_total'' d), a_quota_used = json_int_opt (jget_none ''quota_used'' d),
      a_last_used = json_str_opt (jget_none ''last_used_iso'' d), a_notes = json_str_opt (jget_none ''notes'' d)\<rparr>"
    and s: "seen' = (canonical (str_value ?email) # fst seen,
      if strip (str_value ?label) \<noteq> [] then canonical (str_value ?label) # snd seen else snd seen)"
    using assms unfolding d validate_account_def Let_def by (auto simp: bindR_Inr_iff)
  have keys: "label_keys_of a = (if strip (str_value ?label) \<noteq> [] then [canonical (str_value ?label)] else [])"
    using label_keys_json [OF v(4)] a by (simp add: label_keys_of_def)
  have "strip (str_value ?email) \<noteq> []" using v(1) by (auto simp: email_ok_def split: json.splits)
  moreover have "?enc = JStr (str_value ?enc)" using v(3) by (auto simp: blob_ok_def split: json.splits)
  ultimately show "account_ok a" using v(3,6,7) a by (simp add: account_ok_def quota_ok_back)
  show "fresh_account a seen" using v(2,5) a keys by (auto simp: fresh_account_def)
  show "seen' = add_seen a seen" using s a keys by (simp add: add_seen_def)
qed

lemma validate_account_json:
  assumes "account_ok a" and "fresh_account a seen"
  shows "validate_account (account_json a) seen = Inr (a, add_seen a seen)"
proof -
  let ?v = "str_json (a_label a)"
  have keys: "label_keys_of a = (if strip (str_value ?v) \<noteq> [] then [canonical (str_value ?v)] else [])"
    using label_keys_json [of ?v] by (simp add: label_keys_of_def)
  have fields: "set (map fst [(''email'', JStr (a_email a)), (''enc_password'', JStr (a_enc_password a)), (''label'', str_json (a_label a)),
     (''quota_total'', int_json (a_quota_total a)), (''quota_used'', int_json (a_quota_used a)),
     (''last_used_iso'', str_json (a_last_used a)), (''notes'', str_json (a_notes a))]) \<subseteq> set ACCOUNT_FIELDS"
    by (simp add: ACCOUNT_FIELDS_def)
  show ?thesis
    using assms fields keys
    by (auto simp: validate_account_def account_json_def jget_default_def jget_def Let_def email_ok_def account_ok_def
        fresh_account_def add_seen_def split: if_splits)
qed

fun all_fresh :: "account list \<Rightarrow> seen \<Rightarrow> bool" where
  "all_fresh [] seen = True"
| "all_fresh (a # as) seen = (fresh_account a seen \<and> all_fresh as (add_seen a seen))"

lemma all_fresh_iff:
  "all_fresh as seen \<longleftrightarrow> distinct (email_keys as) \<and> set (email_keys as) \<inter> set (fst seen) = {}
     \<and> distinct (label_keys as) \<and> set (label_keys as) \<inter> set (snd seen) = {}"
proof (induction as arbitrary: seen)
  case (Cons a as)
  have "distinct (label_keys_of a)" by (simp add: label_keys_of_def split: option.splits)
  then show ?case using Cons by (auto simp: email_keys_def label_keys_def fresh_account_def add_seen_def)
qed (simp add: email_keys_def label_keys_def)

lemma fold_seen_emails: "set (fst (fold add_seen as seen)) = set (email_keys as) \<union> set (fst seen)"
  by (induction as arbitrary: seen) (auto simp: email_keys_def add_seen_def)

lemma validate_accounts_facts:
  "validate_accounts es seen = Inr (as, seen') \<Longrightarrow> list_all account_ok as \<and> all_fresh as seen \<and> seen' = fold add_seen as seen"
proof (induction es arbitrary: seen as)
  case (Cons e es)
  then obtain a seen1 rest where a: "validate_account e seen = Inr (a, seen1)"
    and r: "validate_accounts es seen1 = Inr (rest, seen')" "as = a # rest"
    by (auto simp: bindR_Inr_iff)
  show ?case using validate_account_facts [OF a] Cons.IH [OF r(1)] r(2) by simp
qed simp

lemma validate_accounts_json:
  "list_all account_ok as \<Longrightarrow> all_fresh as seen
     \<Longrightarrow> validate_accounts (map account_json as) seen = Inr (as, fold add_seen as seen)"
  by (induction as arbitrary: seen) (simp_all add: validate_account_json)

lemma validate_account_json_back:
  "validate_account (account_json a) seen = Inr (b, seen') \<Longrightarrow> b = a"
  by (auto simp: validate_account_def account_json_def jget_default_def jget_def Let_def bindR_Inr_iff)

text \<open>A written store with a repeated address or label is refused.\<close>

lemma validate_accounts_back:
  "validate_accounts (map account_json as) seen = Inr (bs, seen') \<Longrightarrow> bs = as \<and> all_fresh as seen"
proof (induction as arbitrary: seen bs)
  case (Cons a as)
  then obtain b seen1 rest where b: "validate_account (account_json a) seen = Inr (b, seen1)"
    and r: "validate_accounts (map account_json as) seen1 = Inr (rest, seen')" "bs = b # rest"
    by (auto simp: bindR_Inr_iff)
  then show ?case
    using validate_account_json_back [OF b] validate_account_facts(2,3) [OF b] Cons.IH [OF r(1)] by simp
qed simp

lemma written_duplicates_refused:
  assumes "\<not> distinct (email_keys (as_accounts s)) \<or> \<not> distinct (label_keys (as_accounts s))"
  shows "\<not> (\<exists>s'. validate_account_document (store_json s) = Inr s')"
proof
  assume "\<exists>s'. validate_account_document (store_json s) = Inr s'"
  then obtain bs seen' where "validate_accounts (map account_json (as_accounts s)) ([], []) = Inr (bs, seen')"
    by (auto simp: validate_account_document_def store_json_def jget_default_def jget_def Let_def bindR_Inr_iff)
  from validate_accounts_back [OF this] show False using assms by (simp add: all_fresh_iff)
qed

lemma store_json_validates:
  assumes "store_ok s"
  shows "validate_account_document (store_json s) = Inr s"
proof -
  let ?seen = "fold add_seen (as_accounts s) ([], [])"
  have fresh: "all_fresh (as_accounts s) ([], [])" using assms by (simp add: all_fresh_iff store_ok_def)
  have v: "validate_accounts (map account_json (as_accounts s)) ([], []) = Inr (as_accounts s, ?seen)"
    using assms fresh by (intro validate_accounts_json) (simp_all add: store_ok_def)
  have "strip (str_value (str_json (as_default s))) \<noteq> [] \<longrightarrow> canonical (str_value (str_json (as_default s))) \<in> set (fst ?seen)"
    using assms by (cases "as_default s") (simp_all add: fold_seen_emails store_ok_def str_json_def strip_def rstrip_by_def lstrip_by_def)
  then show ?thesis
    by (simp add: validate_account_document_def store_json_def jget_default_def jget_def v Let_def case_prod_beta)
qed

text \<open>
  C20: what the validator accepts is well typed. Every account has an address, a password that is base64
  of sufficient length and quotas in range, no two share an address or a label, and the default is one
  of them; and such a store is written to a document that validates to it again.
\<close>

theorem accounts_well_typed:
  assumes "validate_account_document data = Inr s"
  shows "store_ok s \<and> validate_account_document (store_json s) = Inr s"
proof -
  obtain d where d: "data = JObj d" using assms by (cases data) (auto simp: validate_account_document_def)
  let ?raw = "jget_default ''accounts'' (JArr []) d" and ?dflt = "jget_none ''default_email'' d"
  obtain as emails labels where v: "validate_accounts (arr_value ?raw) ([], []) = Inr (as, emails, labels)"
    and dflt: "is_str_or_null ?dflt" "strip (str_value ?dflt) \<noteq> [] \<longrightarrow> canonical (str_value ?dflt) \<in> set emails"
    and s: "as_accounts s = as" "as_default s = json_str_opt ?dflt"
    using assms unfolding d validate_account_document_def Let_def by (auto simp: bindR_Inr_iff)
  note f = validate_accounts_facts [OF v]
  then have "set emails = set (email_keys as)" using fold_seen_emails [of as "([], [])"] by (metis fst_conv set_empty sup_bot_right empty_set)
  then have "store_ok s"
    using f dflt s by (auto simp: store_ok_def all_fresh_iff json_str_opt_def split: json.splits)
  then show ?thesis using store_json_validates by blast
qed

definition demo_accounts :: account_store where
  "demo_accounts = \<lparr>as_accounts = [\<lparr>a_email = ''a@b.c'', a_enc_password = b64encode (zeros 48), a_label = Some ''me'',
       a_quota_total = Some 9, a_quota_used = None, a_last_used = None, a_notes = None\<rparr>],
     as_default = Some '' A@b.c'', as_version = 1\<rparr>"

theorem accounts_well_typed_witness:
  "store_ok demo_accounts \<and> validate_account_document (store_json demo_accounts) = Inr demo_accounts"
proof -
  have "validate_account_document (store_json demo_accounts) = Inr demo_accounts" by code_simp
  from accounts_well_typed [OF this] show ?thesis .
qed

end
