(* ===== verification/Accounts.thy ===== *)
theory Accounts
  imports Vault
begin

text \<open>
  \<open>accounts/manager.py\<close>: adding, removing and picking stored accounts, over the vault and the file of
  \<open>Vault\<close>. Every change saves the whole store. The random bytes and the time are arguments; the lock of
  \<open>update_quota\<close> is the atomicity of its step.
\<close>

record account_manager =
  am_store :: account_store
  am_vault :: "vault option"
  am_storage :: account_storage
  am_disk :: account_disk

definition open_accounts :: "account_env \<Rightarrow> account_disk \<Rightarrow> account_manager py" where
  "open_accounts E d =
    (case load_accounts E d of (r, g, d) \<Rightarrow>
       bindR r (\<lambda>s. Inr \<lparr>am_store = s, am_vault = None, am_storage = g, am_disk = d\<rparr>))"

definition unlock :: "string \<Rightarrow> account_manager \<Rightarrow> account_manager" where
  "unlock passphrase m = m\<lparr>am_vault := Some (open_vault passphrase)\<rparr>"

definition non_empty :: "string option \<Rightarrow> bool" where
  "non_empty v \<longleftrightarrow> (case v of None \<Rightarrow> False | Some s \<Rightarrow> s \<noteq> [])"

definition same_name :: "string \<Rightarrow> string \<Rightarrow> bool" where
  "same_name s t \<longleftrightarrow> lower s = lower t"

text \<open>\<open>resolve_account_id\<close>; its warning about two defaults leaves no trace.\<close>

definition resolve_account_id :: "account_store \<Rightarrow> string option \<Rightarrow> string option \<Rightarrow> string option" where
  "resolve_account_id s config_default explicit =
    (if non_empty explicit then explicit
     else if non_empty (as_default s) then as_default s else config_default)"

definition names_account :: "string \<Rightarrow> account \<Rightarrow> bool" where
  "names_account key a \<longleftrightarrow> same_name (a_email a) key
     \<or> (case a_label a of None \<Rightarrow> False | Some l \<Rightarrow> l \<noteq> [] \<and> same_name l key)"

definition get_account :: "string \<Rightarrow> account_store \<Rightarrow> account py" where
  "get_account key s =
    (case find (names_account key) (as_accounts s) of None \<Rightarrow> raise AccountNotFound | Some a \<Rightarrow> Inr a)"

definition save_store :: "account_env \<Rightarrow> account_manager \<Rightarrow> unit py \<times> account_manager" where
  "save_store E m =
    (case save_accounts E (am_store m) (am_disk m) of (r, g, d) \<Rightarrow> (r, m\<lparr>am_storage := g, am_disk := d\<rparr>))"

text \<open>The passphrase is tried on the readable credentials until one of them answers.\<close>

fun check_passphrase :: "vault_lib \<Rightarrow> account list \<Rightarrow> vault \<Rightarrow> unit py \<times> vault" where
  "check_passphrase L [] V = (Inr (), V)"
| "check_passphrase L (a # as) V =
    (case vault_decrypt L (a_enc_password a) V of
       (Inr _, V) \<Rightarrow> (Inr (), V)
     | (Inl e, V) \<Rightarrow>
         if isinstance e VaultFormatError \<or> isinstance e ValueError then check_passphrase L as V
         else if isinstance e VaultUnlockError then (raise VaultUnlockError, V)
         else (Inl e, V))"

definition is_readable :: "account \<Rightarrow> bool" where
  "is_readable a \<longleftrightarrow> is_readable_format (a_enc_password a)"

text \<open>A duplicate whose credential is dead is taken out, with its label; a readable one is refused.\<close>

fun take_dead :: "string \<Rightarrow> account list \<Rightarrow> (account option \<times> account list) py" where
  "take_dead email [] = Inr (None, [])"
| "take_dead email (a # as) =
    (if same_name (a_email a) email then (if is_readable a then raise ValueError else Inr (Some a, as))
     else bindR (take_dead email as) (\<lambda>(dead, rest). Inr (dead, a # rest)))"

definition add_account ::
  "vault_lib \<Rightarrow> account_env \<Rightarrow> bytes \<Rightarrow> bytes \<Rightarrow> string \<Rightarrow> string \<Rightarrow> string option \<Rightarrow> bool \<Rightarrow> account_manager
   \<Rightarrow> account py \<times> account_manager" where
  "add_account L E salt nonce email password label make_default m =
    (case am_vault m of
       None \<Rightarrow> (raise RuntimeError, m)
     | Some V \<Rightarrow>
         (case check_passphrase L (filter is_readable (as_accounts (am_store m))) V of
            (Inl e, V) \<Rightarrow> (Inl e, m\<lparr>am_vault := Some V\<rparr>)
          | (Inr _, V) \<Rightarrow>
              (case take_dead email (as_accounts (am_store m)) of
                 Inl e \<Rightarrow> (Inl e, m\<lparr>am_vault := Some V\<rparr>)
               | Inr (dead, kept) \<Rightarrow>
                   (case vault_encrypt L salt nonce password V of (enc, V) \<Rightarrow>
                      let label = (case dead of None \<Rightarrow> label | Some a \<Rightarrow> if non_empty label then label else a_label a);
                          account = \<lparr>a_email = email, a_enc_password = enc, a_label = label, a_quota_total = None,
                            a_quota_used = None, a_last_used = None, a_notes = None\<rparr>;
                          s = (am_store m)\<lparr>as_accounts := kept @ [account]\<rparr>;
                          s = (if make_default \<or> \<not> non_empty (as_default s) then s\<lparr>as_default := Some email\<rparr> else s)
                      in (case save_store E (m\<lparr>am_store := s, am_vault := Some V\<rparr>) of
                            (Inl e, m) \<Rightarrow> (Inl e, m)
                          | (Inr _, m) \<Rightarrow> (Inr account, m))))))"

definition remove_account :: "account_env \<Rightarrow> string \<Rightarrow> account_manager \<Rightarrow> unit py \<times> account_manager" where
  "remove_account E key m =
    (case get_account key (am_store m) of
       Inl e \<Rightarrow> (Inl e, m)
     | Inr a \<Rightarrow>
         let rest = filter (\<lambda>b. a_email b \<noteq> a_email a) (as_accounts (am_store m));
             s = (am_store m)\<lparr>as_accounts := rest\<rparr>;
             s = (if as_default s = Some (a_email a)
                  then s\<lparr>as_default := (case rest of [] \<Rightarrow> None | b # _ \<Rightarrow> Some (a_email b))\<rparr> else s)
         in save_store E (m\<lparr>am_store := s\<rparr>))"

definition get_password :: "vault_lib \<Rightarrow> string \<Rightarrow> account_manager \<Rightarrow> string py \<times> account_manager" where
  "get_password L key m =
    (case am_vault m of
       None \<Rightarrow> (raise RuntimeError, m)
     | Some V \<Rightarrow>
         (case get_account key (am_store m) of
            Inl e \<Rightarrow> (Inl e, m)
          | Inr a \<Rightarrow> (case vault_decrypt L (a_enc_password a) V of (r, V) \<Rightarrow> (r, m\<lparr>am_vault := Some V\<rparr>))))"

definition set_default :: "account_env \<Rightarrow> string \<Rightarrow> account_manager \<Rightarrow> unit py \<times> account_manager" where
  "set_default E key m =
    (case get_account key (am_store m) of
       Inl e \<Rightarrow> (Inl e, m)
     | Inr a \<Rightarrow> save_store E (m\<lparr>am_store := (am_store m)\<lparr>as_default := Some (a_email a)\<rparr>\<rparr>))"

fun refresh_quota :: "string \<Rightarrow> int \<Rightarrow> int \<Rightarrow> string \<Rightarrow> account list \<Rightarrow> account list" where
  "refresh_quota email used quota now [] = []"
| "refresh_quota email used quota now (a # as) =
    (if a_email a = email then a\<lparr>a_quota_used := Some used, a_quota_total := Some quota, a_last_used := Some now\<rparr> # as
     else a # refresh_quota email used quota now as)"

definition update_quota :: "account_env \<Rightarrow> string \<Rightarrow> int \<Rightarrow> int \<Rightarrow> string \<Rightarrow> account_manager \<Rightarrow> unit py \<times> account_manager" where
  "update_quota E email used quota now m =
    (let s = am_store m
     in save_store E (m\<lparr>am_store := s\<lparr>as_accounts := refresh_quota email used quota now (as_accounts s)\<rparr>\<rparr>))"

definition free_space :: "account \<Rightarrow> int option" where
  "free_space a = (case (a_quota_total a, a_quota_used a) of (Some t, Some u) \<Rightarrow> Some (t - u) | _ \<Rightarrow> None)"

text \<open>The candidates in the order of their free space, largest first, equal ones as they are stored.\<close>

definition pick_account_with_space :: "int \<Rightarrow> account_store \<Rightarrow> account option" where
  "pick_account_with_space required s =
    (let candidates = filter (\<lambda>a. case free_space a of None \<Rightarrow> False | Some f \<Rightarrow> required \<le> f) (as_accounts s)
     in case sort_key (\<lambda>a. - the (free_space a)) candidates of [] \<Rightarrow> None | a # _ \<Rightarrow> Some a)"

section \<open>The account that is picked\<close>

text \<open>It has room for the file, and no account has more.\<close>

lemma pick_account_best:
  assumes "pick_account_with_space required s = Some a"
  shows "a \<in> set (as_accounts s) \<and> (\<exists>f. free_space a = Some f \<and> required \<le> f
    \<and> (\<forall>b \<in> set (as_accounts s). \<forall>g. free_space b = Some g \<longrightarrow> g \<le> f \<or> g < required))"
proof -
  let ?ok = "\<lambda>a. case free_space a of None \<Rightarrow> False | Some f \<Rightarrow> required \<le> f"
  let ?xs = "sort_key (\<lambda>a. - the (free_space a)) (filter ?ok (as_accounts s))"
  obtain rest where xs: "?xs = a # rest" using assms by (auto simp: pick_account_with_space_def Let_def split: list.splits)
  have set: "set ?xs = {b \<in> set (as_accounts s). ?ok b}" by simp
  have "sorted (map (\<lambda>a. - the (free_space a)) ?xs)" by simp
  then have top: "\<forall>b \<in> set ?xs. the (free_space b) \<le> the (free_space a)" unfolding xs by auto
  have "a \<in> set ?xs" by (simp add: xs)
  then have a: "a \<in> set (as_accounts s)" "?ok a" unfolding set by auto
  then obtain f where f: "free_space a = Some f" "required \<le> f" by (auto split: option.splits)
  have "g \<le> f \<or> g < required" if "b \<in> set (as_accounts s)" "free_space b = Some g" for b g
    using top that f unfolding set by force
  then show ?thesis using a f by blast
qed

section \<open>A corrupt file stays\<close>

datatype account_command =
    Add bytes bytes string string "string option" bool
  | Remove string
  | Set_default string
  | Quota string int int string

fun run_command :: "vault_lib \<Rightarrow> account_env \<Rightarrow> account_command \<Rightarrow> account_manager \<Rightarrow> unit py \<times> account_manager" where
  "run_command L E (Add salt nonce email password label dflt) m =
    (case add_account L E salt nonce email password label dflt m of (r, m) \<Rightarrow> (bindR r (\<lambda>_. Inr ()), m))"
| "run_command L E (Remove key) m = remove_account E key m"
| "run_command L E (Set_default key) m = set_default E key m"
| "run_command L E (Quota email used quota now) m = update_quota E email used quota now m"

text \<open>What the loader accepts: nothing there, or a document of the right shape.\<close>

definition readable_file :: "account_disk \<Rightarrow> bool" where
  "readable_file d \<longleftrightarrow> (case ad_file d of None \<Rightarrow> True | Some (Raw _) \<Rightarrow> False
     | Some (Doc j) \<Rightarrow> (\<exists>s. validate_account_document j = Inr s))"

text \<open>The file is as it was, the operation failed, and a backup that is named holds the file's content.\<close>

definition kept_corrupt :: "account_disk \<Rightarrow> unit py \<times> account_manager \<Rightarrow> bool" where
  "kept_corrupt d res \<longleftrightarrow> ad_file (am_disk (snd res)) = ad_file d \<and> (\<exists>e. fst res = Inl e)
    \<and> set (ad_siblings d) \<subseteq> set (ad_siblings (am_disk (snd res)))
    \<and> (\<forall>b. am_disk (snd res) \<noteq> d \<longrightarrow> ag_backup (am_storage (snd res)) = Some b
         \<longrightarrow> (b, the (ad_file d)) \<in> set (ad_siblings (am_disk (snd res))))"

lemma preserve_keeps:
  assumes "preserve_corrupt_file io name data dir = (r, dir')"
  shows "set dir \<subseteq> set dir'" and "r = Some b \<Longrightarrow> (b, data) \<in> set dir'"
proof -
  have "set dir \<subseteq> set dir' \<and> (r = Some b \<longrightarrow> (b, data) \<in> set dir')"
  proof (cases "existing_backup_for dir name (bk_digest io data) data")
    case None
    then have t: "try_backups io name (bk_digest io data) data [0..<100] dir = (r, dir')"
      using assms by (simp add: preserve_corrupt_file_def Let_def)
    show ?thesis using try_backups_facts [OF t] by (auto dest: map_of_SomeD)
  next
    case (Some f)
    then show ?thesis using assms find_backup [OF Some] by (auto simp: preserve_corrupt_file_def Let_def)
  qed
  then show "set dir \<subseteq> set dir'" "r = Some b \<Longrightarrow> (b, data) \<in> set dir'" by auto
qed

lemma acc_errors:
  "acc_require c = Inl e \<Longrightarrow> e = Exc AccountCorruptionError None"
  by (auto simp: acc_require_def require_def split: if_splits)

lemma validate_account_error: "validate_account x seen = Inl e \<Longrightarrow> e = Exc AccountCorruptionError None"
  by (auto simp: validate_account_def bindR_Inl_iff Let_def dest: acc_errors split: json.splits)

lemma validate_accounts_error: "validate_accounts es seen = Inl e \<Longrightarrow> e = Exc AccountCorruptionError None"
proof (induction es arbitrary: seen)
  case (Cons x es)
  then show ?case by (auto simp: bindR_Inl_iff dest: validate_account_error)
qed simp

lemma validate_document_error:
  "validate_account_document data = Inl e \<Longrightarrow> e = Exc AccountCorruptionError None"
  by (auto simp: validate_account_document_def bindR_Inl_iff Let_def dest: acc_errors validate_accounts_error split: json.splits)

lemma save_on_corrupt:
  assumes "\<not> readable_file d" and "save_accounts E s d = (r, g, d')"
  shows "(\<exists>e. r = Inl e) \<and> ad_file d' = ad_file d \<and> set (ad_siblings d) \<subseteq> set (ad_siblings d')
    \<and> (\<forall>b. d' \<noteq> d \<longrightarrow> ag_backup g = Some b \<longrightarrow> (b, the (ad_file d)) \<in> set (ad_siblings d'))"
proof -
  obtain c where c: "ad_file d = Some c" using assms(1) by (auto simp: readable_file_def split: option.splits)
  obtain data where load: "load_accounts E d = (Inr empty_accounts, mark_accounts_corrupt E data d)" and data: "data = None \<or> data = Some c"
  proof (cases "ae_read E")
    case True
    show ?thesis
    proof (cases c)
      case (Raw b)
      then show ?thesis using that [of "Some c"] True c by (simp add: load_accounts_def)
    next
      case (Doc j)
      then obtain e where e: "validate_account_document j = Inl e"
        using assms(1) c by (cases "validate_account_document j") (auto simp: readable_file_def)
      then have "isinstance e AccountCorruptionError" using validate_document_error [OF e] by simp
      then show ?thesis using that [of "Some c"] True c Doc e by (simp add: load_accounts_def)
    qed
  next
    case False
    then show ?thesis using that [of None] c by (simp add: load_accounts_def)
  qed
  obtain g' d1 where m: "mark_accounts_corrupt E data d = (g', d1)" by fastforce
  then have "ag_corrupt g'" by (auto simp: mark_accounts_corrupt_def split: option.splits prod.splits)
  then have r: "r = raise AccountCorruptionError" "g = g'" "d' = d1" using assms(2) load m by (auto simp: save_accounts_def)
  have "ad_file d1 = ad_file d \<and> set (ad_siblings d) \<subseteq> set (ad_siblings d1)
      \<and> (\<forall>b. d1 \<noteq> d \<longrightarrow> ag_backup g' = Some b \<longrightarrow> (b, c) \<in> set (ad_siblings d1))"
  proof (cases data)
    case (Some x)
    obtain b sibs where p: "preserve_corrupt_file (ae_backup E) (ae_name E) c (ad_siblings d) = (b, sibs)" by fastforce
    then show ?thesis using m data Some preserve_keeps [OF p] by (auto simp: mark_accounts_corrupt_def)
  qed (use m in \<open>auto simp: mark_accounts_corrupt_def\<close>)
  then show ?thesis using r c by simp
qed

lemma save_store_corrupt: "\<not> readable_file (am_disk m) \<Longrightarrow> kept_corrupt (am_disk m) (save_store E m)"
  by (cases "save_accounts E (am_store m) (am_disk m)") (auto simp: save_store_def kept_corrupt_def dest: save_on_corrupt)

lemma unchanged_kept: "am_disk m' = am_disk m \<Longrightarrow> kept_corrupt (am_disk m) (Inl e, m')"
  by (simp add: kept_corrupt_def)

lemma add_account_saves:
  obtains (refused) e where "fst (add_account L E salt nonce email password label dflt m) = Inl e"
      and "am_disk (snd (add_account L E salt nonce email password label dflt m)) = am_disk m"
  | (saved) m1 a where "am_disk m1 = am_disk m"
      and "add_account L E salt nonce email password label dflt m
        = (case save_store E m1 of (Inl e, m) \<Rightarrow> (Inl e, m) | (Inr _, m) \<Rightarrow> (Inr a, m))"
proof (cases "am_vault m")
  case None
  then show thesis using refused by (simp add: add_account_def)
next
  case (Some V)
  obtain r1 V1 where c: "check_passphrase L (filter is_readable (as_accounts (am_store m))) V = (r1, V1)" by fastforce
  show thesis
  proof (cases r1)
    case (Inl e)
    then show thesis using refused Some c by (simp add: add_account_def)
  next
    case (Inr u)
    show thesis
    proof (cases "take_dead email (as_accounts (am_store m))")
      case (Inl e)
      then show thesis using refused Some c \<open>r1 = Inr u\<close> by (simp add: add_account_def)
    next
      case (Inr x)
      obtain dead kept where x: "x = (dead, kept)" by (cases x)
      obtain enc V2 where e: "vault_encrypt L salt nonce password V1 = (enc, V2)" by fastforce
      show thesis
        by (rule saved [rotated]) (unfold add_account_def Some, simp add: c \<open>r1 = Inr u\<close> Inr x e Let_def, simp)
    qed
  qed
qed

text \<open>
  C18: a vault that cannot be read is never overwritten. Whatever the manager has in memory, every change
  fails when the file on disk is not a valid store, leaves its bytes and every backup in place, and a
  backup that the manager names holds exactly the refused content.
\<close>

theorem corrupt_vault_untouched:
  assumes "\<not> readable_file (am_disk m)"
  shows "kept_corrupt (am_disk m) (run_command L E c m)"
proof (cases c)
  case (Add salt nonce email password label dflt)
  show ?thesis
  proof (cases rule: add_account_saves [of L E salt nonce email password label dflt m])
    case (refused e)
    then show ?thesis by (cases "add_account L E salt nonce email password label dflt m") (simp add: Add unchanged_kept)
  next
    case (saved m1 a)
    have k: "kept_corrupt (am_disk m) (save_store E m1)" using save_store_corrupt [of m1 E] assms saved(1) by simp
    obtain r m2 where sv: "save_store E m1 = (r, m2)" by fastforce
    then obtain e where "r = Inl e" using k by (auto simp: kept_corrupt_def)
    then show ?thesis using k sv saved(2) by (simp add: Add)
  qed
next
  case (Remove key)
  then show ?thesis
    using assms save_store_corrupt [of "m\<lparr>am_store := _\<rparr>" E] unchanged_kept [OF refl]
    by (auto simp: remove_account_def Let_def split: sum.splits)
next
  case (Set_default key)
  then show ?thesis
    using assms save_store_corrupt [of "m\<lparr>am_store := _\<rparr>" E] unchanged_kept [OF refl]
    by (auto simp: set_default_def split: sum.splits)
next
  case (Quota email used quota now)
  then show ?thesis
    using assms save_store_corrupt [of "m\<lparr>am_store := _\<rparr>" E] by (auto simp: update_quota_def Let_def)
qed

definition demo_account_env :: account_env where
  "demo_account_env = \<lparr>ae_name = ''accounts.json'', ae_read = True, ae_mkdir = True, ae_replace = True,
     ae_backup = \<lparr>bk_digest = (\<lambda>_. ''d''), bk_stamp = ''0'', bk_open = (\<lambda>_. True), bk_write = (\<lambda>_. True)\<rparr>\<rparr>"

definition demo_manager :: account_manager where
  "demo_manager = \<lparr>am_store = empty_accounts, am_vault = Some (open_vault ''pp''),
     am_storage = \<lparr>ag_corrupt = False, ag_backup = None\<rparr>, am_disk = \<lparr>ad_file = Some (Raw [123]), ad_siblings = []\<rparr>\<rparr>"

theorem corrupt_vault_untouched_witness:
  "kept_corrupt (am_disk demo_manager) (run_command demo_vault_lib demo_account_env (Quota ''a'' 1 2 ''now'') demo_manager)"
  by (rule corrupt_vault_untouched) (simp add: readable_file_def demo_manager_def)

section \<open>Adding an account\<close>

lemma take_dead_facts:
  "take_dead email as = Inr (dead, kept) \<Longrightarrow>
     (\<forall>a \<in> set kept. a \<in> set as) \<and> (\<forall>a \<in> set as. \<not> same_name (a_email a) email \<longrightarrow> a \<in> set kept)"
proof (induction as arbitrary: kept)
  case (Cons a as)
  then show ?case by (cases "same_name (a_email a) email") (auto simp: bindR_Inr_iff split: if_splits)
qed simp

lemma check_passphrase_ok:
  assumes "vault_ok L V"
  shows "vault_ok L (snd (check_passphrase L as V)) \<and> va_passphrase (snd (check_passphrase L as V)) = va_passphrase V"
  using assms
proof (induction L as V rule: check_passphrase.induct)
  case (2 L a as V)
  obtain r V' where d: "vault_decrypt L (a_enc_password a) V = (r, V')" by fastforce
  then have "vault_ok L V' \<and> va_passphrase V' = va_passphrase V"
    using vault_derive_facts(2,3) [OF 2(2)] 2(2)
    by (auto simp: vault_decrypt_def split: sum.splits prod.splits option.splits) (metis snd_conv)+
  then show ?case using 2(1) d by (auto split: sum.splits)
qed simp

lemma saved_file:
  assumes "save_store E m = (Inr u, m')"
  shows "ad_file (am_disk m') = Some (Doc (store_json (am_store m)))" and "am_store m' = am_store m" and "am_vault m' = am_vault m"
  using assms by (auto simp: save_store_def save_accounts_def split: prod.splits sum.splits if_splits)

text \<open>What an account that was added leaves: the new last row, the rows kept, the file.\<close>

lemma add_account_facts:
  assumes "add_account L E salt nonce email password label dflt m = (Inr a, m')" and "am_vault m = Some V" and "vault_ok L V"
  obtains dead kept V1 enc where "take_dead email (as_accounts (am_store m)) = Inr (dead, kept)"
    and "as_accounts (am_store m') = kept @ [a]" and "a_email a = email" and "a_enc_password a = enc"
    and "a_label a = (case dead of None \<Rightarrow> label | Some d \<Rightarrow> if non_empty label then label else a_label d)"
    and "vault_ok L V1" and "va_passphrase V1 = va_passphrase V" and "vault_encrypt L salt nonce password V1 = (enc, the (am_vault m'))"
    and "ad_file (am_disk m') = Some (Doc (store_json (am_store m')))" and "am_vault m' \<noteq> None"
proof -
  obtain r1 V1 where c: "check_passphrase L (filter is_readable (as_accounts (am_store m))) V = (r1, V1)" by fastforce
  then obtain dead kept where t: "take_dead email (as_accounts (am_store m)) = Inr (dead, kept)" and r1: "r1 = Inr ()"
    using assms(1,2) by (auto simp: add_account_def split: sum.splits prod.splits)
  obtain enc V2 where e: "vault_encrypt L salt nonce password V1 = (enc, V2)" by fastforce
  let ?label = "case dead of None \<Rightarrow> label | Some d \<Rightarrow> if non_empty label then label else a_label d"
  let ?a = "\<lparr>a_email = email, a_enc_password = enc, a_label = ?label, a_quota_total = None, a_quota_used = None,
    a_last_used = None, a_notes = None\<rparr>"
  let ?s = "(am_store m)\<lparr>as_accounts := kept @ [?a]\<rparr>"
  let ?t = "if dflt \<or> \<not> non_empty (as_default ?s) then ?s\<lparr>as_default := Some email\<rparr> else ?s"
  let ?m = "m\<lparr>am_store := ?t, am_vault := Some V2\<rparr>"
  have run: "add_account L E salt nonce email password label dflt m
      = (case save_store E ?m of (Inl e, m) \<Rightarrow> (Inl e, m) | (Inr _, m) \<Rightarrow> (Inr ?a, m))"
    unfolding add_account_def assms(2) by (simp add: c r1 t e Let_def)
  obtain r2 m2 where sv: "save_store E ?m = (r2, m2)" by fastforce
  then have r2: "r2 = Inr ()" "m2 = m'" "a = ?a" using run assms(1) by (auto split: sum.splits)
  have f: "ad_file (am_disk m') = Some (Doc (store_json ?t))" "am_store m' = ?t" "am_vault m' = Some V2"
    using saved_file [of E ?m "()" m'] sv r2 by simp_all
  have "as_accounts ?t = kept @ [?a]" by simp
  then have accounts: "as_accounts (am_store m') = kept @ [a]" using f(2) r2(3) by simp
  have v: "vault_ok L V1" "va_passphrase V1 = va_passphrase V" using check_passphrase_ok [OF assms(3)] c by (metis snd_conv)+
  show thesis using that [OF t accounts, of enc V1] v e f r2(3) by simp
qed

lemma take_dead_distinct:
  "take_dead email as = Inr (dead, kept) \<Longrightarrow> distinct (map (\<lambda>b. lower (a_email b)) as)
     \<Longrightarrow> \<forall>b \<in> set kept. \<not> same_name (a_email b) email"
proof (induction as arbitrary: kept)
  case (Cons a as)
  then show ?case
    by (cases "same_name (a_email a) email") (force simp: bindR_Inr_iff same_name_def split: if_splits)+
qed simp

lemma find_last: "(\<forall>b \<in> set xs. \<not> P b) \<Longrightarrow> P a \<Longrightarrow> find P (xs @ [a]) = Some a"
  by (induction xs) auto


definition empty_manager :: account_manager where
  "empty_manager = \<lparr>am_store = empty_accounts, am_vault = Some (open_vault ''pp''),
     am_storage = \<lparr>ag_corrupt = False, ag_backup = None\<rparr>, am_disk = \<lparr>ad_file = None, ad_siblings = []\<rparr>\<rparr>"

lemma demo_added:
  "\<exists>a m'. add_account demo_vault_lib demo_account_env (zeros 16) (zeros 12) ''a@b'' ''secret'' None False empty_manager = (Inr a, m')"
proof -
  obtain enc V where e: "vault_encrypt demo_vault_lib (zeros 16) (zeros 12) ''secret'' (open_vault ''pp'') = (enc, V)" by fastforce
  show ?thesis
    by (simp add: add_account_def empty_manager_def empty_accounts_def e Let_def save_store_def save_accounts_def load_accounts_def
        demo_account_env_def non_empty_def)
qed


section \<open>Two ways to lose accounts\<close>

text \<open>
  \<open>add_account\<close> does not compare labels and the loader does: an account added under a label that another
  one has is saved, and the file it is saved to is refused as corrupt from then on.
\<close>

lemma same_label_locks_vault:
  assumes "add_account L E salt nonce email password (Some l) dflt m = (Inr a, m')" and "am_vault m = Some V" and "vault_ok L V"
    and "strip l \<noteq> []" and "b \<in> set (as_accounts (am_store m))" and "\<not> same_name (a_email b) email"
    and "a_label b = Some l'" and "canonical l' = canonical l"
  shows "\<not> readable_file (am_disk m')"
proof -
  obtain dead kept where t: "take_dead email (as_accounts (am_store m)) = Inr (dead, kept)"
    and accounts: "as_accounts (am_store m') = kept @ [a]"
    and label: "a_label a = (case dead of None \<Rightarrow> Some l | Some d \<Rightarrow> if non_empty (Some l) then Some l else a_label d)"
    and f: "ad_file (am_disk m') = Some (Doc (store_json (am_store m')))"
    using add_account_facts [OF assms(1-3)] by metis
  have "l \<noteq> []" using assms(4) by (auto simp: strip_def lstrip_by_def rstrip_by_def)
  then have "a_label a = Some l" using label by (simp add: non_empty_def split: option.splits)
  then have "label_keys_of a = [canonical l]" using assms(4) by (simp add: label_keys_of_def)
  moreover have "canonical l \<in> set (label_keys kept)"
  proof -
    have "strip l' \<noteq> []" using assms(4,8) by (auto simp: canonical_def lower_def)
    then have "canonical l \<in> set (label_keys_of b)" using assms(7,8) by (simp add: label_keys_of_def)
    then show ?thesis using take_dead_facts [OF t] assms(5,6) by (auto simp: label_keys_def)
  qed
  ultimately have "\<not> distinct (label_keys (as_accounts (am_store m')))" by (simp add: accounts label_keys_def)
  then show ?thesis using written_duplicates_refused f by (simp add: readable_file_def)
qed

text \<open>
  A save writes what this process has in memory: an account that another process added since it loaded
  the file is gone.
\<close>

lemma save_forgets_others:
  assumes "save_store E m = (Inr u, m')"
  shows "ad_file (am_disk m') = Some (Doc (store_json (am_store m)))"
  by (rule saved_file(1) [OF assms])

end
