(* ===== verification/Auth.thy ===== *)
theory Auth
  imports ApiClient Keys
begin

text \<open>
  \<open>core/auth.py\<close>: login with and without an account, the second factor, the session id under the RSA key
  of the account, and the end of a session. It works on the API client of \<open>ApiClient\<close>. The block cipher
  and the key derivation are arguments, and so are the random master key and what the prompt for a code
  returns.
\<close>

section \<open>Multi-precision integers\<close>

text \<open>\<open>int.bit_length\<close>\<close>

fun bit_length :: "nat \<Rightarrow> nat" where
  "bit_length n = (if n = 0 then 0 else Suc (bit_length (n div 2)))"

declare bit_length.simps [simp del]

definition read_mpi :: "bytes \<Rightarrow> nat \<Rightarrow> nat \<times> nat" where
  "read_mpi blob offset =
    (let bit_len = nat_of_be (slice offset (offset + 2) blob); byte_len = (bit_len + 7) div 8
     in (nat_of_be (slice (offset + 2) (offset + 2 + byte_len) blob), 2 + byte_len))"

fun read_factors :: "nat \<Rightarrow> bytes \<Rightarrow> nat \<Rightarrow> nat list" where
  "read_factors 0 blob cursor = []"
| "read_factors (Suc k) blob cursor =
    (if length blob < cursor + 2 then []
     else case read_mpi blob cursor of (v, width) \<Rightarrow> v # read_factors k blob (cursor + width))"

definition minimal_bytes :: "nat \<Rightarrow> bytes" where
  "minimal_bytes n = be_of_nat ((bit_length n + 7) div 8) n"

text \<open>\<open>pow\<close> refuses the modulus zero.\<close>

definition py_pow :: "nat \<Rightarrow> nat \<Rightarrow> nat \<Rightarrow> nat py" where
  "py_pow b e n = (if n = 0 then raise ValueError else Inr (b ^ e mod n))"

definition decode_session_id :: "bytes \<Rightarrow> bytes \<Rightarrow> string py" where
  "decode_session_id csid_encrypted rsa_priv_blob =
    (case read_factors 4 rsa_priv_blob 0 of
       [p, q, d, u] \<Rightarrow>
         bindR (py_pow (fst (read_mpi csid_encrypted 0)) d (p * q)) (\<lambda>decrypted.
           let decrypted_bytes = minimal_bytes decrypted
           in if length decrypted_bytes < 43 then raise AuthError
              else Inr (b64_url_encode (take 43 decrypted_bytes)))
     | _ \<Rightarrow> raise AuthError)"

section \<open>Sessions\<close>

record mega_session =
  ms_sid :: string
  ms_master_key :: bytes
  ms_rsa_private_key :: "bytes option"
  ms_user_handle :: string
  ms_email :: string

text \<open>The client: its transport, whether that is open, its session, and whether a listing is cached.\<close>

record auth_client =
  ax_api :: api_client
  ax_open :: bool
  ax_session :: "mega_session option"
  ax_cached :: bool

definition start_session :: "mega_session \<Rightarrow> auth_client \<Rightarrow> auth_client" where
  "start_session s c = c\<lparr>ax_session := Some s, ax_api := set_session (Some (ms_sid s)) (ax_api c)\<rparr>"

definition login_anonymous :: "api_env \<Rightarrow> bytes \<Rightarrow> auth_client \<Rightarrow> mega_session py \<times> auth_client" where
  "login_anonymous E master_key c =
    (case request E (command ''us0'' []) [] (ax_api c) of (r, api) \<Rightarrow>
       let c = c\<lparr>ax_api := api\<rparr>;
           sid = bindR r (\<lambda>v. bindR (expect_mapping v) (\<lambda>result.
                 bindR (expect_field result ''tsid'' KStr (Some (JStr []))) (\<lambda>t.
                   if str_value t \<noteq> [] then Inr (str_value t)
                   else bindR (expect_field result ''csid'' KStr (Some (JStr []))) (\<lambda>s. Inr (str_value s)))))
       in case sid of
            Inl e \<Rightarrow> (Inl e, c)
          | Inr sid \<Rightarrow>
              (let s = \<lparr>ms_sid = sid, ms_master_key = master_key, ms_rsa_private_key = None, ms_user_handle = [], ms_email = []\<rparr>
               in (Inr s, start_session s c)))"

text \<open>The key that opens the login response and the hash that is sent, by the version of the account.\<close>

definition login_secret :: "aes \<Rightarrow> prims \<Rightarrow> string \<Rightarrow> string \<Rightarrow> (string \<times> json) list \<Rightarrow> (bytes \<times> string) py" where
  "login_secret C P email password prelogin =
    bindR (expect_field prelogin ''v'' KInt (Some (JInt 1))) (\<lambda>version.
    bindR (expect_field prelogin ''s'' KStr (Some (JStr []))) (\<lambda>salt_b64.
      if version = JInt 2 then
        bindR (b64_url_decode (str_value salt_b64)) (\<lambda>salt.
          let derived = derive_key_v2 P password salt
          in Inr (take 16 derived, b64_url_encode (drop 16 derived)))
      else
        bindR (derive_key_legacy C password) (\<lambda>derived.
        bindR (stringhash C (lower email) derived) (\<lambda>h. Inr (a32_to_bytes derived, h)))))"

text \<open>The code that was given, else the one the prompt returns.\<close>

definition second_factor :: "string option \<Rightarrow> string option \<Rightarrow> string" where
  "second_factor mfa_code prompted = (if or_empty mfa_code \<noteq> [] then or_empty mfa_code else or_empty prompted)"

definition REJECTED_CODES :: "int list" where
  "REJECTED_CODES = [-5, -9, -26]"

definition mfa_error :: "exc \<Rightarrow> exc" where
  "mfa_error e =
    (if isinstance e MegaError \<and> (\<exists>n \<in> set REJECTED_CODES. exc_code e = Some n) then Exc AuthError (exc_code e) else e)"

definition submit_login ::
  "api_env \<Rightarrow> string \<Rightarrow> string \<Rightarrow> string option \<Rightarrow> string option \<Rightarrow> api_client \<Rightarrow> (string \<times> json) list py \<times> api_client" where
  "submit_login E email password_hash mfa_code prompted api =
    (case request E (command ''us'' [(''user'', JStr (lower email)), (''uh'', JStr password_hash)]) [] api of
       (Inr v, api) \<Rightarrow> (expect_mapping v, api)
     | (Inl e, api) \<Rightarrow>
         if isinstance e MegaError \<and> exc_code e = Some (- 26) then
           (let code = second_factor mfa_code prompted
            in if code = [] then (Inl (Exc AuthError (Some (- 26))), api)
               else case login_with_mfa E email password_hash code api of
                   (Inr d, api) \<Rightarrow> (Inr d, api)
                 | (Inl x, api) \<Rightarrow> (Inl (mfa_error x), api))
         else (Inl e, api))"

definition open_login :: "aes \<Rightarrow> bytes \<Rightarrow> (string \<times> json) list \<Rightarrow> (string \<times> bytes \<times> bytes option) py" where
  "open_login C login_key result =
    bindR (expect_field result ''k'' KStr None) (\<lambda>k.
    bindR (str_to_a32 (str_value k)) (\<lambda>encrypted.
    bindR (aes_cbc_decrypt_a32 C encrypted (bytes_to_a32 login_key)) (\<lambda>master.
      let master_key = a32_to_bytes master
      in if jget ''tsid'' result \<noteq> None then
           bindR (expect_field result ''tsid'' KStr None) (\<lambda>t. Inr (str_value t, master_key, None))
         else
           bindR (expect_field result ''privk'' KStr None) (\<lambda>privk.
           bindR (b64_url_decode (str_value privk)) (\<lambda>encrypted_rsa.
           bindR (expect_field result ''csid'' KStr None) (\<lambda>csid.
           bindR (b64_url_decode (str_value csid)) (\<lambda>csid_encrypted.
           bindR (aes_key_wrap_decrypt C encrypted_rsa master_key) (\<lambda>rsa.
           bindR (decode_session_id csid_encrypted rsa) (\<lambda>sid. Inr (sid, master_key, Some rsa))))))))))"

definition typed_key_error :: "'a py \<Rightarrow> 'a py" where
  "typed_key_error r =
    (case r of
       Inl e \<Rightarrow>
         if isinstance e MegaError then Inl e
         else if isinstance e ValueError \<or> isinstance e TypeError \<or> isinstance e IndexError then raise AuthError
         else Inl e
     | Inr v \<Rightarrow> Inr v)"

definition login ::
  "api_env \<Rightarrow> aes \<Rightarrow> prims \<Rightarrow> string \<Rightarrow> string \<Rightarrow> string option \<Rightarrow> string option \<Rightarrow> auth_client
   \<Rightarrow> mega_session py \<times> auth_client" where
  "login E C P email password mfa_code prompted c =
    (case request E (command ''us0'' [(''user'', JStr (lower email))]) [] (ax_api c) of (r, api) \<Rightarrow>
       (case bindR r (\<lambda>v. bindR (expect_mapping v) (login_secret C P email password)) of
          Inl e \<Rightarrow> (Inl e, c\<lparr>ax_api := api\<rparr>)
        | Inr (login_key, password_hash) \<Rightarrow>
            (case submit_login E email password_hash mfa_code prompted api of
               (Inl e, api) \<Rightarrow> (Inl e, c\<lparr>ax_api := api\<rparr>)
             | (Inr result, api) \<Rightarrow>
                 (case bindR (typed_key_error (open_login C login_key result)) (\<lambda>x.
                       bindR (expect_field result ''u'' KStr (Some (JStr []))) (\<lambda>u. Inr (x, str_value u))) of
                    Inl e \<Rightarrow> (Inl e, c\<lparr>ax_api := api\<rparr>)
                  | Inr ((sid, master_key, rsa), u) \<Rightarrow>
                      (let s = \<lparr>ms_sid = sid, ms_master_key = master_key, ms_rsa_private_key = rsa, ms_user_handle = u, ms_email = email\<rparr>
                       in (Inr s, start_session s (c\<lparr>ax_api := api\<rparr>)))))))"

definition close_client :: "auth_client \<Rightarrow> auth_client" where
  "close_client c = c\<lparr>ax_open := False, ax_session := None, ax_cached := False\<rparr>"

definition logout :: "api_env \<Rightarrow> auth_client \<Rightarrow> unit py \<times> auth_client" where
  "logout E c =
    (case (if ax_session c = None then (Inr JNull, ax_api c) else request E (command ''sml'' []) [] (ax_api c)) of (r, api) \<Rightarrow>
       (case r of Inl e \<Rightarrow> if isinstance e MegaError then Inr () else Inl e | Inr _ \<Rightarrow> Inr (),
        close_client (c\<lparr>ax_api := clear_session api\<rparr>)))"

definition with_api :: "('a \<times> api_client) \<Rightarrow> auth_client \<Rightarrow> 'a \<times> auth_client" where
  "with_api r c = (fst r, c\<lparr>ax_api := snd r\<rparr>)"

definition get_quota :: "api_env \<Rightarrow> auth_client \<Rightarrow> (string \<times> json) list py \<times> auth_client" where
  "get_quota E c =
    (if ax_session c = None then (raise AuthError, c) else with_api (get_account_quota E (ax_api c)) c)"

definition session_user_info :: "api_env \<Rightarrow> auth_client \<Rightarrow> (string \<times> json) list py \<times> auth_client" where
  "session_user_info E c =
    (if ax_session c = None then (raise AuthError, c) else with_api (get_user_info E (ax_api c)) c)"

definition restore_known_session :: "api_env \<Rightarrow> mega_session \<Rightarrow> auth_client \<Rightarrow> bool py \<times> auth_client" where
  "restore_known_session E s c0 =
    (let c = start_session s c0
     in case get_user_info E (ax_api c) of
          (Inr _, api) \<Rightarrow> (Inr True, c\<lparr>ax_api := api\<rparr>)
        | (Inl e, api) \<Rightarrow>
            if isinstance e MegaError then (Inr False, c\<lparr>ax_api := clear_session api, ax_session := None\<rparr>)
            else (Inl e, c\<lparr>ax_api := api\<rparr>))"

section \<open>The session of a client\<close>

lemma blame_credit_sid [simp]: "ac_sid (blame_proxy E p c) = ac_sid c" "ac_sid (credit_proxy p c) = ac_sid c"
  by (simp_all add: blame_proxy_def credit_proxy_def)

lemma finish_send_sid: "ac_sid (snd (finish_send E single p r c)) = ac_sid c"
  by (simp add: finish_send_def split: sum.split)

lemma send_sid: "ac_sid (snd (send E v extra c)) = ac_sid c"
  by (simp add: send_def build_url_def Let_def finish_send_sid split: prod.split sum.split)

lemma retrying_keeps:
  assumes "\<And>s. h (snd (f s)) = h s"
  shows "h (snd (retrying n again f s)) = h s"
proof (induction n arbitrary: s)
  case (Suc n)
  then show ?case using assms [of s] by (simp split: prod.split sum.split) (metis snd_conv)
qed (simp add: assms)

lemma request_sid: "ac_sid (snd (request E v extra c)) = ac_sid c"
proof -
  have "ac_sid (snd (send_mutating E v extra c)) = ac_sid c"
    using retrying_keeps [of ac_sid "send E v extra", OF send_sid]
    by (simp add: send_mutating_def split: prod.split sum.split) (metis snd_conv)
  then show ?thesis by (simp add: request_def send_retrying_def retrying_keeps [of ac_sid, OF send_sid])
qed

lemma request_sidE: "request E v extra c = (r, d) \<Longrightarrow> ac_sid d = ac_sid c"
  using request_sid [of E v extra c] by simp

lemma login_with_mfa_sid: "login_with_mfa E email h code c = (r, d) \<Longrightarrow> ac_sid d = ac_sid c"
  by (auto simp: login_with_mfa_def expect_answer_def request_sid)

lemma submit_login_sid: "submit_login E email h m p c = (r, d) \<Longrightarrow> ac_sid d = ac_sid c"
  by (auto simp: submit_login_def Let_def split: prod.splits sum.splits if_splits dest!: request_sidE login_with_mfa_sid)

text \<open>
  C17: a login is all or nothing. It either fails, with an exception, and leaves the session of the client
  and the session id that its requests carry as they were, or it succeeds and both are those of the
  session it returns.
\<close>

theorem login_all_or_nothing:
  "case login E C P email password mfa prompted c of
     (Inl _, d) \<Rightarrow> ax_session d = ax_session c \<and> ac_sid (ax_api d) = ac_sid (ax_api c)
   | (Inr s, d) \<Rightarrow> ax_session d = Some s \<and> ac_sid (ax_api d) = Some (ms_sid s) \<and> ms_email s = email"
  by (auto simp: login_def start_session_def set_session_def Let_def split: prod.splits sum.splits
      dest!: request_sidE submit_login_sid)

lemma logout_releases:
  "logout E c = (r, d) \<Longrightarrow> ac_sid (ax_api d) = None \<and> ax_session d = None \<and> \<not> ax_open d \<and> \<not> ax_cached d"
  by (auto simp: logout_def close_client_def clear_session_def split: prod.splits)

text \<open>\<open>restore_session\<close> answers True only with the saved session in force, False only without one.\<close>

lemma restore_known_session_sound:
  "restore_known_session E s c = (Inr b, d) \<Longrightarrow>
    if b then ax_session d = Some s \<and> ac_sid (ax_api d) = Some (ms_sid s) else ax_session d = None \<and> ac_sid (ax_api d) = None"
  by (auto simp: restore_known_session_def get_user_info_def expect_answer_def start_session_def set_session_def
      clear_session_def Let_def request_sid split: prod.splits sum.splits if_splits dest: request_sidE)

text \<open>The salt is decoded before the guarded part: a bad one of a version 2 account is not an \<open>AuthError\<close>.\<close>

lemma bad_salt_escapes:
  "login_secret C P email password [(''v'', JInt 2), (''s'', JStr ''a'')] = raise BinasciiError \<and> \<not> isinstance (Exc BinasciiError None) MegaError"
proof -
  have "b64_url_decode ''a'' = raise BinasciiError" by code_simp
  moreover have "\<not> isinstance (Exc BinasciiError None) MegaError" by code_simp
  ultimately show ?thesis by (simp add: login_secret_def expect_field_def jget_def)
qed

section \<open>The session id\<close>

lemma bit_length_bounds: "0 < n \<Longrightarrow> 2 ^ (bit_length n - 1) \<le> n \<and> n < 2 ^ bit_length n \<and> 0 < bit_length n"
proof (induction n rule: bit_length.induct)
  case (1 n)
  show ?case
  proof (cases "n div 2 = 0")
    case True
    then have "n = 1" using "1.prems" by simp
    moreover have "bit_length (Suc 0) = 1" by (simp add: bit_length.simps [of "Suc 0"] bit_length.simps [of 0])
    ultimately show ?thesis by simp
  next
    case False
    then have ih: "2 ^ (bit_length (n div 2) - 1) \<le> n div 2" "n div 2 < 2 ^ bit_length (n div 2)" "0 < bit_length (n div 2)"
      using "1.IH" "1.prems" by auto
    have b: "bit_length n = Suc (bit_length (n div 2))" using "1.prems" by (simp add: bit_length.simps [of n])
    have "2 ^ bit_length (n div 2) = 2 * (2 :: nat) ^ (bit_length (n div 2) - 1)" using ih(3) by (cases "bit_length (n div 2)") simp_all
    moreover have "n = 2 * (n div 2) + n mod 2" "n mod 2 < 2" by simp_all
    ultimately have "2 ^ bit_length (n div 2) \<le> n" "n < 2 * 2 ^ bit_length (n div 2)" using ih by linarith+
    then show ?thesis using b by simp
  qed
qed

lemma bit_length_le: "n < 2 ^ k \<Longrightarrow> bit_length n \<le> k"
proof (cases "n = 0")
  case False
  assume "n < 2 ^ k"
  then have "2 ^ (bit_length n - 1) < (2 :: nat) ^ k" using bit_length_bounds [of n] False by linarith
  then show ?thesis using bit_length_bounds [of n] False by simp
qed (simp add: bit_length.simps)

text \<open>The shape every integer of the key material has.\<close>

definition mpi :: "nat \<Rightarrow> bytes" where
  "mpi v = be_of_nat 2 (bit_length v) @ minimal_bytes v"

lemma nat_of_minimal: "nat_of_be (minimal_bytes v) = v"
proof -
  have "v < 2 ^ bit_length v" using bit_length_bounds [of v] by (cases "v = 0") auto
  also have "\<dots> \<le> 2 ^ (8 * ((bit_length v + 7) div 8))" by (intro power_increasing) auto
  finally have "v < 256 ^ ((bit_length v + 7) div 8)" by (simp add: power_mult)
  then show ?thesis by (simp add: minimal_bytes_def nat_of_be_be_of_nat)
qed

lemma read_mpi_at:
  assumes "bit_length v < 65536"
  shows "read_mpi (pre @ mpi v @ rest) (length pre) = (v, length (mpi v))"
proof -
  let ?b = "be_of_nat 2 (bit_length v)"
  have "slice (length pre) (length pre + 2) (pre @ mpi v @ rest) = ?b" by (simp add: slice_def mpi_def)
  moreover have "nat_of_be ?b = bit_length v" using assms by (intro nat_of_be_be_of_nat) simp
  moreover have "slice (length pre + 2) (length pre + 2 + (bit_length v + 7) div 8) (pre @ mpi v @ rest) = minimal_bytes v"
    by (simp add: slice_def mpi_def minimal_bytes_def)
  ultimately show ?thesis using nat_of_minimal by (simp add: read_mpi_def Let_def mpi_def minimal_bytes_def)
qed

lemma minimal_bytes_back:
  assumes "plain \<noteq> []" and "hd plain \<noteq> 0"
  shows "minimal_bytes (nat_of_be plain) = plain"
proof -
  obtain a bs where p: "plain = a # bs" "a \<noteq> 0" using assms by (cases plain) auto
  let ?v = "nat_of_be plain" and ?k = "length bs"
  have v: "?v = unat a * 256 ^ ?k + nat_of_be bs"
  proof -
    have "nat_of_be (a # bs) = unat a * 256 ^ length bs + nat_of_be bs" for bs :: bytes
      by (induction bs rule: rev_induct) (simp_all add: nat_of_be_snoc [where bs = "a # _", simplified] algebra_simps nat_of_be_def)
    then show ?thesis by (simp add: p)
  qed
  have "0 < unat a" using p(2) by (simp add: unat_gt_0)
  then have "256 ^ ?k \<le> unat a * 256 ^ ?k" by simp
  then have lo: "2 ^ (8 * ?k) \<le> ?v" unfolding v by (simp add: power_mult trans_le_add1)
  have "?v < 256 ^ length plain" by (rule nat_of_be_less)
  then have hi: "?v < 2 ^ (8 * Suc ?k)" using power_mult [of "2 :: nat" 8 "Suc ?k"] by (simp add: p)
  have "0 < ?v" using lo by (metis less_le_trans zero_less_numeral zero_less_power)
  then have b: "2 ^ (bit_length ?v - 1) \<le> ?v" "?v < 2 ^ bit_length ?v" "0 < bit_length ?v" using bit_length_bounds by blast+
  have "(2 :: nat) ^ (8 * ?k) < 2 ^ bit_length ?v" using lo b(2) by linarith
  then have "8 * ?k < bit_length ?v" by simp
  moreover have "bit_length ?v \<le> 8 * Suc ?k" using bit_length_le [OF hi] .
  ultimately have "(bit_length ?v + 7) div 8 = length plain" by (simp add: p)
  then show ?thesis by (simp add: minimal_bytes_def be_of_nat_nat_of_be)
qed

text \<open>
  C27: the session id is the one the server encrypted. When the private key blob holds the four factors of
  a key pair and \<open>csid\<close> is the session id under the public exponent, the id that is decoded is the first
  43 bytes of what was encrypted, whatever padding follows either of them.
\<close>

theorem session_id_decodes:
  assumes "\<forall>v \<in> set [p, q, d, u, nat_of_be plain ^ e mod (p * q)]. bit_length v < 65536"
    and "\<forall>m < p * q. (m ^ e mod (p * q)) ^ d mod (p * q) = m"
    and "hd plain \<noteq> 0" and "43 \<le> length plain" and "nat_of_be plain < p * q"
  shows "decode_session_id (mpi (nat_of_be plain ^ e mod (p * q)) @ t) (mpi p @ mpi q @ mpi d @ mpi u @ padding)
    = Inr (b64_url_encode (take 43 plain))"
proof -
  let ?n = "p * q" let ?c = "nat_of_be plain ^ e mod ?n"
  let ?blob = "mpi p @ mpi q @ mpi d @ mpi u @ padding"
  have b: "bit_length p < 65536" "bit_length q < 65536" "bit_length d < 65536" "bit_length u < 65536" "bit_length ?c < 65536"
    using assms(1) by auto
  have len: "2 \<le> length (mpi v)" for v by (simp add: mpi_def)
  have r: "read_mpi ?blob 0 = (p, length (mpi p))" "read_mpi ?blob (length (mpi p)) = (q, length (mpi q))"
    "read_mpi ?blob (length (mpi p) + length (mpi q)) = (d, length (mpi d))"
    "read_mpi ?blob (length (mpi p) + length (mpi q) + length (mpi d)) = (u, length (mpi u))"
    using read_mpi_at [OF b(1), of "[]" "mpi q @ mpi d @ mpi u @ padding"] read_mpi_at [OF b(2), of "mpi p" "mpi d @ mpi u @ padding"]
      read_mpi_at [OF b(3), of "mpi p @ mpi q" "mpi u @ padding"] read_mpi_at [OF b(4), of "mpi p @ mpi q @ mpi d" padding]
    by (simp_all add: add.assoc)
  have f: "read_factors 4 ?blob 0 = [p, q, d, u]"
    using len [of p] len [of q] len [of d] len [of u] by (simp add: numeral_eq_Suc r [unfolded numeral_eq_Suc])
  have c: "fst (read_mpi (mpi ?c @ t) 0) = ?c" using read_mpi_at [OF b(5), of "[]" t] by simp
  have "?n \<noteq> 0" using assms(5) by linarith
  then have "py_pow ?c d ?n = Inr (nat_of_be plain)" using assms(2,5) by (simp add: py_pow_def)
  moreover have "minimal_bytes (nat_of_be plain) = plain" using assms(3,4) by (intro minimal_bytes_back) auto
  ultimately show ?thesis using assms(4) by (simp add: decode_session_id_def f c Let_def)
qed

lemma bit_length_power: "bit_length (2 ^ k) = Suc k"
  by (induction k) (simp_all add: bit_length.simps [of "2 * _"] bit_length.simps [of 1] bit_length.simps [of "Suc 0"] bit_length.simps [of 0])

theorem session_id_decodes_witness:
  "decode_session_id (mpi (nat_of_be (1 # replicate 42 0) ^ 1 mod (2 ^ 352 * 1)) @ [0]) (mpi (2 ^ 352) @ mpi 1 @ mpi 1 @ mpi 0 @ [])
    = Inr (b64_url_encode (take 43 (1 # replicate 42 0)))"
proof (rule session_id_decodes)
  let ?x = "nat_of_be (1 # replicate 42 0) ^ 1 mod (2 ^ 352 * 1)"
  have "?x < 2 ^ 352" by (simp add: mod_less_divisor)
  then have "bit_length ?x \<le> 352" by (rule bit_length_le)
  moreover have "bit_length 1 = 1" "bit_length 0 = 0" using bit_length_power [of 0] by (simp_all add: bit_length.simps)
  ultimately show "\<forall>v \<in> set [2 ^ 352, 1, 1, 0, ?x]. bit_length v < 65536" using bit_length_power [of 352] by simp
  have "nat_of_be (1 # replicate 42 0) < 256 ^ 43" using nat_of_be_less [of "1 # replicate 42 0"] by simp
  then show "nat_of_be (1 # replicate 42 0) < 2 ^ 352 * 1" by (simp add: order_less_trans)
qed simp_all

end
