(* ===== verification/SessionStore.thy ===== *)
theory SessionStore
  imports Auth Vault
begin

text \<open>
  \<open>core/session_store.py\<close>: the session of an account kept on disk between two commands, encrypted by the
  vault under its passphrase. The files are a map from paths; a file is parsed JSON or bytes that do not
  parse. SHA-256, the JSON texts of a payload and the fate of each file operation are arguments.
\<close>

section \<open>Files\<close>

type_synonym session_files = "string \<Rightarrow> content option"

record session_lib =
  sl_vault :: vault_lib
  sl_sha :: "bytes \<Rightarrow> bytes"
  sl_dumps :: "json \<Rightarrow> string"
  sl_loads :: "string \<Rightarrow> json py"
  sl_allow_plain :: bool

text \<open>
  What the operating system does: the error of each operation, \<open>None\<close> when it works. A write that fails
  leaves what it wrote; the temporary file is named by the process.
\<close>

record session_io =
  si_dir :: string
  si_pid :: string
  si_read :: "exc option"
  si_mkdir :: "exc option"
  si_create :: "exc option"
  si_write :: "(exc \<times> content) option"
  si_replace :: "exc option"
  si_unlink_temp :: bool
  si_unlink :: "exc option"

definition session_path :: "session_lib \<Rightarrow> session_io \<Rightarrow> string \<Rightarrow> string" where
  "session_path L IO account_id =
    si_dir IO @ ''/'' @ take 32 (to_hex (sl_sha L (utf8 (lower account_id)))) @ ''.session''"

text \<open>The answer of \<open>forget_session\<close>; a file it cannot remove stays.\<close>

definition forget_session :: "session_lib \<Rightarrow> session_io \<Rightarrow> string \<Rightarrow> session_files \<Rightarrow> bool py \<times> session_files" where
  "forget_session L IO account_id fs =
    (let path = session_path L IO account_id
     in case (if fs path = None then Some (Exc FileNotFoundError None) else si_unlink IO) of
          None \<Rightarrow> (Inr True, fs(path := None))
        | Some e \<Rightarrow> (if isinstance e FileNotFoundError \<or> isinstance e OSError then Inr False else Inl e, fs))"

definition temp_name :: "session_io \<Rightarrow> string \<Rightarrow> string" where
  "temp_name IO path = path @ ''.'' @ si_pid IO @ ''.tmp''"

definition atomic_write_private :: "session_io \<Rightarrow> string \<Rightarrow> content \<Rightarrow> session_files \<Rightarrow> unit py \<times> session_files" where
  "atomic_write_private IO path data fs =
    (let tmp = temp_name IO path;
         cleanup = (\<lambda>fs. if si_unlink_temp IO then fs(tmp := None) else fs)
     in case (if fs tmp \<noteq> None then Some (Exc FileExistsError None) else si_create IO) of
          Some e \<Rightarrow> (Inl e, cleanup fs)
        | None \<Rightarrow>
            (case si_write IO of
               Some (e, partial) \<Rightarrow> (Inl e, cleanup (fs(tmp \<mapsto> partial)))
             | None \<Rightarrow>
                 (case si_replace IO of
                    Some e \<Rightarrow> (Inl e, cleanup (fs(tmp \<mapsto> data)))
                  | None \<Rightarrow> (Inr (), fs(path \<mapsto> data, tmp := None)))))"

section \<open>Saving and loading\<close>

definition session_payload :: "mega_session \<Rightarrow> json" where
  "session_payload s = JObj
    [(''sid'', JStr (ms_sid s)), (''master_key'', JStr (to_hex (ms_master_key s))),
     (''rsa_private_key'', case ms_rsa_private_key s of None \<Rightarrow> JNull | Some k \<Rightarrow> if k = [] then JNull else JStr (to_hex k)),
     (''user_handle'', JStr (ms_user_handle s)), (''email'', JStr (ms_email s))]"

definition save_session ::
  "session_lib \<Rightarrow> session_io \<Rightarrow> bytes \<Rightarrow> bytes \<Rightarrow> string \<Rightarrow> string option \<Rightarrow> auth_client \<Rightarrow> session_files
   \<Rightarrow> unit py \<times> session_files" where
  "save_session L IO salt nonce path passphrase c fs =
    (case ax_session c of
       None \<Rightarrow> (raise AuthError, fs)
     | Some s \<Rightarrow>
         if or_empty passphrase = [] then (raise AuthError, fs)
         else let token = fst (vault_encrypt (sl_vault L) salt nonce (sl_dumps L (session_payload s)) (open_vault (or_empty passphrase)));
                  data = Doc (JObj [(''version'', JInt 2), (''encrypted'', JStr token)])
              in case si_mkdir IO of
                   Some e \<Rightarrow> (Inl e, fs)
                 | None \<Rightarrow> atomic_write_private IO path data fs)"

definition hex_bytes :: "string \<Rightarrow> bytes py" where
  "hex_bytes s = (case from_hex s of None \<Rightarrow> raise ValueError | Some b \<Rightarrow> Inr b)"

definition rsa_field :: "json \<Rightarrow> bytes option py" where
  "rsa_field rsa =
    (case rsa of
       JStr s \<Rightarrow> if s = [] then Inr None else bindR (hex_bytes s) (\<lambda>b. Inr (Some b))
     | _ \<Rightarrow> Inr None)"

definition session_of :: "(string \<times> json) list \<Rightarrow> mega_session py" where
  "session_of d =
    bindR (expect_field d ''sid'' KStr None) (\<lambda>sid.
    bindR (expect_field d ''master_key'' KStr None) (\<lambda>mk.
    bindR (hex_bytes (str_value mk)) (\<lambda>master.
    bindR (rsa_field (jget_none ''rsa_private_key'' d)) (\<lambda>rsa.
    bindR (expect_field d ''user_handle'' KStr (Some (JStr []))) (\<lambda>u.
    bindR (expect_field d ''email'' KStr (Some (JStr []))) (\<lambda>e.
      Inr \<lparr>ms_sid = str_value sid, ms_master_key = master, ms_rsa_private_key = rsa,
           ms_user_handle = str_value u, ms_email = str_value e\<rparr>))))))"

text \<open>The version the reader knows; \<open>2.0\<close> compares equal to it.\<close>

definition version_two :: "json \<Rightarrow> bool" where
  "version_two v = (case v of JInt n \<Rightarrow> n = 2 | JFloat p q \<Rightarrow> p = 2 * q | _ \<Rightarrow> False)"

text \<open>What the guarded part computes: \<open>Inr None\<close> is a return of nothing.\<close>

definition read_session :: "session_lib \<Rightarrow> string option \<Rightarrow> json \<Rightarrow> mega_session option py" where
  "read_session L passphrase data =
    (case data of
       JObj d \<Rightarrow>
         (case jget ''encrypted'' d of
            Some blob \<Rightarrow>
              if \<not> version_two (jget_none ''version'' d) \<or> or_empty passphrase = [] then Inr None
              else (case blob of
                  JStr token \<Rightarrow>
                    bindR (fst (vault_decrypt (sl_vault L) token (open_vault (or_empty passphrase)))) (\<lambda>t.
                    bindR (sl_loads L t) (\<lambda>inner.
                      case inner of JObj d \<Rightarrow> bindR (session_of d) (\<lambda>s. Inr (Some s)) | _ \<Rightarrow> Inr None))
                | _ \<Rightarrow> Inr None)
          | None \<Rightarrow> if sl_allow_plain L then bindR (session_of d) (\<lambda>s. Inr (Some s)) else Inr None)
     | _ \<Rightarrow> Inr None)"

definition unusable_session :: "exc \<Rightarrow> bool" where
  "unusable_session e \<longleftrightarrow> isinstance e JSONDecodeError \<or> isinstance e KeyError \<or> isinstance e ValueError \<or> isinstance e OSError
     \<or> isinstance e InvalidTag \<or> isinstance e MegaError"

definition load_session :: "session_lib \<Rightarrow> session_io \<Rightarrow> string \<Rightarrow> string option \<Rightarrow> session_files \<Rightarrow> mega_session option py" where
  "load_session L IO path passphrase fs =
    (case fs path of
       None \<Rightarrow> Inr None
     | Some c \<Rightarrow>
         (case (case si_read IO of
                  Some e \<Rightarrow> Inl e
                | None \<Rightarrow> (case c of Raw _ \<Rightarrow> raise JSONDecodeError | Doc j \<Rightarrow> read_session L passphrase j)) of
            Inl e \<Rightarrow> if unusable_session e then Inr None else Inl e
          | Inr s \<Rightarrow> Inr s))"

section \<open>Reuse\<close>

definition drop_session :: "auth_client \<Rightarrow> auth_client" where
  "drop_session c = c\<lparr>ax_session := None, ax_cached := False, ax_api := clear_session (ax_api c)\<rparr>"

definition restore_session ::
  "session_lib \<Rightarrow> session_io \<Rightarrow> api_env \<Rightarrow> string \<Rightarrow> string \<Rightarrow> auth_client \<times> session_files
   \<Rightarrow> bool py \<times> auth_client \<times> session_files" where
  "restore_session L IO E account_id passphrase = (\<lambda>(c, fs).
    let path = session_path L IO account_id
    in if fs path = None then (Inr False, c, fs)
       else case load_session L IO path (Some passphrase) fs of
           Inl e \<Rightarrow> (Inl e, c, fs)
         | Inr None \<Rightarrow> (Inr False, c, fs)
         | Inr (Some s) \<Rightarrow>
             (case request E (command ''ug'' []) [] (ax_api (start_session s c)) of
                (Inr _, api) \<Rightarrow> (Inr True, (start_session s c)\<lparr>ax_api := api\<rparr>, fs)
              | (Inl e, api) \<Rightarrow>
                  (let c = drop_session (c\<lparr>ax_api := api\<rparr>)
                   in if isinstance e RequestException then (Inr False, c, fs)
                      else case forget_session L IO account_id fs of
                          (Inl x, fs) \<Rightarrow> (Inl x, c, fs)
                        | (Inr _, fs) \<Rightarrow> (Inr False, c, fs))))"

definition remember_session ::
  "session_lib \<Rightarrow> session_io \<Rightarrow> bytes \<Rightarrow> bytes \<Rightarrow> string \<Rightarrow> string \<Rightarrow> auth_client \<Rightarrow> session_files \<Rightarrow> unit py \<times> session_files" where
  "remember_session L IO salt nonce account_id passphrase c fs =
    (case (case si_mkdir IO of
             Some e \<Rightarrow> (Inl e, fs)
           | None \<Rightarrow> save_session L IO salt nonce (session_path L IO account_id) (Some passphrase) c fs) of
       (Inl e, fs) \<Rightarrow> (if isinstance e OSError \<or> isinstance e MegaError then Inr () else Inl e, fs)
     | (Inr _, fs) \<Rightarrow> (Inr (), fs))"

section \<open>A session that was remembered is restored\<close>

text \<open>An empty key is written as none.\<close>

definition storable_session :: "mega_session \<Rightarrow> bool" where
  "storable_session s \<longleftrightarrow> ms_rsa_private_key s \<noteq> Some []"

lemma to_hex_Nil [simp]: "to_hex b = [] \<longleftrightarrow> b = []"
  by (cases b) simp_all

lemma session_of_payload:
  assumes "storable_session s" and "session_payload s = JObj d"
  shows "session_of d = Inr s"
proof -
  have "rsa_field (case ms_rsa_private_key s of None \<Rightarrow> JNull | Some k \<Rightarrow> if k = [] then JNull else JStr (to_hex k)) = Inr (ms_rsa_private_key s)"
    using assms(1) by (simp add: storable_session_def rsa_field_def hex_bytes_def from_hex_to_hex split: option.split)
  then show ?thesis using assms(2)
    by (auto simp: session_payload_def session_of_def expect_field_def jget_def jget_default_def hex_bytes_def from_hex_to_hex)
qed

lemma read_session_saved:
  assumes "aead_ok (vl_aead (sl_vault L))" and "sl_loads L (sl_dumps L (session_payload s)) = Inr (session_payload s)"
    and "length salt = 16" and "length nonce = 12" and "storable_session s" and "pw \<noteq> []"
  shows "read_session L (Some pw) (JObj [(''version'', JInt 2),
      (''encrypted'', JStr (fst (vault_encrypt (sl_vault L) salt nonce (sl_dumps L (session_payload s)) (open_vault pw))))])
    = Inr (Some s)"
proof -
  obtain token V where e: "vault_encrypt (sl_vault L) salt nonce (sl_dumps L (session_payload s)) (open_vault pw) = (token, V)" by fastforce
  have d: "fst (vault_decrypt (sl_vault L) token (open_vault pw)) = Inr (sl_dumps L (session_payload s))"
    using vault_reads_back [OF assms(1) open_vault_ok open_vault_ok refl assms(3,4) e] by simp
  obtain p where p: "session_payload s = JObj p" by (simp add: session_payload_def)
  show ?thesis
    using d assms(2,6) session_of_payload [OF assms(5) p] e [unfolded p] unfolding p
    by (simp add: read_session_def version_two_def jget_def jget_default_def or_empty_def)
qed

lemma restore_nothing:
  "fs (session_path L IO aid) = None \<or> load_session L IO (session_path L IO aid) (Some pw) fs = Inr None
     \<Longrightarrow> restore_session L IO E aid pw (c, fs) = (Inr False, c, fs)"
  by (cases "fs (session_path L IO aid)") (simp_all add: restore_session_def)

lemma restore_found:
  "load_session L IO (session_path L IO aid) (Some pw) fs = Inr (Some s)
     \<Longrightarrow> restore_session L IO E aid pw (c, fs) =
       (case request E (command ''ug'' []) [] (ax_api (start_session s c)) of
          (Inr _, api) \<Rightarrow> (Inr True, (start_session s c)\<lparr>ax_api := api\<rparr>, fs)
        | (Inl e, api) \<Rightarrow>
            (let c = drop_session (c\<lparr>ax_api := api\<rparr>)
             in if isinstance e RequestException then (Inr False, c, fs)
                else case forget_session L IO aid fs of (Inl x, fs) \<Rightarrow> (Inl x, c, fs) | (Inr _, fs) \<Rightarrow> (Inr False, c, fs)))"
  by (cases "fs (session_path L IO aid)") (simp_all add: restore_session_def load_session_def)

text \<open>The file operations of one save that meets no fault.\<close>

definition io_works :: "session_io \<Rightarrow> bool" where
  "io_works IO \<longleftrightarrow> si_mkdir IO = None \<and> si_create IO = None \<and> si_write IO = None \<and> si_replace IO = None"

text \<open>
  C16: a remembered session is restored. When the session of a client has been remembered and the file
  operations worked, another client with the same passphrase takes exactly that session from the file,
  provided that the server still accepts it: it asks for no second login, its requests carry the stored
  session id, and the file stays.
\<close>

theorem remembered_session_restores:
  assumes "aead_ok (vl_aead (sl_vault L))" and "sl_loads L (sl_dumps L (session_payload s)) = Inr (session_payload s)"
    and "length salt = 16" and "length nonce = 12" and "storable_session s" and "pw \<noteq> []"
    and "ax_session c = Some s" and "io_works IO" and "fs (temp_name IO (session_path L IO account_id)) = None"
    and "si_dir IO' = si_dir IO" and "si_read IO' = None"
    and "fst (request E (command ''ug'' []) [] (ax_api (start_session s c'))) = Inr v"
  shows "\<exists>fs' d. remember_session L IO salt nonce account_id pw c fs = (Inr (), fs')
    \<and> restore_session L IO' E account_id pw (c', fs') = (Inr True, d, fs')
    \<and> ax_session d = Some s \<and> ac_sid (ax_api d) = Some (ms_sid s)"
proof -
  let ?path = "session_path L IO account_id"
  let ?doc = "JObj [(''version'', JInt 2),
      (''encrypted'', JStr (fst (vault_encrypt (sl_vault L) salt nonce (sl_dumps L (session_payload s)) (open_vault pw))))]"
  let ?fs = "fs(?path \<mapsto> Doc ?doc, temp_name IO ?path := None)"
  have p: "session_path L IO' account_id = ?path" using assms(10) by (simp add: session_path_def)
  have w: "remember_session L IO salt nonce account_id pw c fs = (Inr (), ?fs)"
    using assms(6,7,8,9)
    by (simp add: remember_session_def save_session_def io_works_def or_empty_def Let_def atomic_write_private_def)
  have f: "?fs ?path = Some (Doc ?doc)" by (simp add: temp_name_def)
  then have l: "load_session L IO' ?path (Some pw) ?fs = Inr (Some s)"
    using assms(11) read_session_saved [OF assms(1-6)] by (simp add: load_session_def)
  obtain api where r: "request E (command ''ug'' []) [] (ax_api (start_session s c')) = (Inr v, api)"
    using assms(12) by (metis prod.collapse)
  have "ac_sid api = Some (ms_sid s)" using request_sidE [OF r] by (simp add: start_session_def set_session_def)
  moreover have "restore_session L IO' E account_id pw (c', ?fs) = (Inr True, (start_session s c')\<lparr>ax_api := api\<rparr>, ?fs)"
    using restore_found [of L IO' account_id pw ?fs s E c'] l r unfolding p by simp
  ultimately show ?thesis using w by (simp add: start_session_def)
qed

text \<open>
  C15: no session is used that the server has not just confirmed. \<open>restore_session\<close> answers True only when
  the stored session was accepted by an authenticated request, with that session in force; otherwise no
  session id is left on the transport, and the file is given up only after an answer that is not a
  transport fault.
\<close>

theorem restore_never_unproven:
  assumes "restore_session L IO E account_id pw (c, fs) = (Inr b, d, fs')"
  shows "if b then \<exists>s v. load_session L IO (session_path L IO account_id) (Some pw) fs = Inr (Some s)
           \<and> fst (request E (command ''ug'' []) [] (ax_api (start_session s c))) = Inr v
           \<and> ax_session d = Some s \<and> ac_sid (ax_api d) = Some (ms_sid s) \<and> fs' = fs
         else d = c \<and> fs' = fs
           \<or> (\<exists>s e. fst (request E (command ''ug'' []) [] (ax_api (start_session s c))) = Inl e
               \<and> ax_session d = None \<and> ac_sid (ax_api d) = None
               \<and> (fs' = fs \<or> \<not> isinstance e RequestException \<and> fs' = fs(session_path L IO account_id := None)))"
proof (cases "fs (session_path L IO account_id) = None \<or> load_session L IO (session_path L IO account_id) (Some pw) fs = Inr None")
  case True
  then show ?thesis using assms restore_nothing by auto
next
  case False
  then obtain s where l: "load_session L IO (session_path L IO account_id) (Some pw) fs = Inr (Some s)"
    using assms by (cases "load_session L IO (session_path L IO account_id) (Some pw) fs") (auto simp: restore_session_def Let_def)
  note res = assms [unfolded restore_found [OF l]]
  obtain r api where q: "request E (command ''ug'' []) [] (ax_api (start_session s c)) = (r, api)" by fastforce
  show ?thesis
  proof (cases r)
    case (Inr v)
    then have "b" "d = (start_session s c)\<lparr>ax_api := api\<rparr>" "fs' = fs" using res q by simp_all
    then show ?thesis using l q Inr request_sidE [OF q] by (simp add: start_session_def set_session_def)
  next
    case (Inl e)
    obtain y fs2 where g: "forget_session L IO account_id fs = (y, fs2)" by fastforce
    then have "fs2 = fs \<or> fs2 = fs(session_path L IO account_id := None)"
      by (auto simp: forget_session_def Let_def split: option.splits if_splits)
    moreover have "\<not> b" "d = drop_session (c\<lparr>ax_api := api\<rparr>)" "fs' = (if isinstance e RequestException then fs else fs2)"
      using res q Inl g by (simp_all add: Let_def split: if_splits sum.splits)
    ultimately have "\<not> b \<and> fst (request E (command ''ug'' []) [] (ax_api (start_session s c))) = Inl e
      \<and> ax_session d = None \<and> ac_sid (ax_api d) = None
      \<and> (fs' = fs \<or> \<not> isinstance e RequestException \<and> fs' = fs(session_path L IO account_id := None))"
      using q Inl by (auto simp: drop_session_def clear_session_def)
    then show ?thesis by auto
  qed
qed

section \<open>Concrete runs\<close>

definition demo_session :: mega_session where
  "demo_session = \<lparr>ms_sid = ''sid'', ms_master_key = [1, 2], ms_rsa_private_key = Some [3], ms_user_handle = ''u'', ms_email = ''a@b.c''\<rparr>"

definition demo_sessions :: session_lib where
  "demo_sessions = \<lparr>sl_vault = demo_vault_lib, sl_sha = (\<lambda>b. take 32 (b @ zeros 32)), sl_dumps = (\<lambda>_. ''{}''),
     sl_loads = (\<lambda>_. Inr (session_payload demo_session)), sl_allow_plain = False\<rparr>"

definition demo_io :: session_io where
  "demo_io = \<lparr>si_dir = ''/data/sessions'', si_pid = ''7'', si_read = None, si_mkdir = None, si_create = None, si_write = None,
     si_replace = None, si_unlink_temp = True, si_unlink = None\<rparr>"

definition demo_auth :: auth_client where
  "demo_auth = \<lparr>ax_api = demo_client, ax_open = True, ax_session = None, ax_cached = False\<rparr>"

lemma demo_probe: "fst (request demo_ok_api (command ''ug'' []) [] (ax_api (start_session demo_session demo_auth))) = Inr (JInt 0)"
proof -
  let ?c = "ax_api (start_session demo_session demo_auth)"
  obtain url c where b: "build_url [] ?c = (url, c)" by (cases "build_url [] ?c")
  then have c: "ac_log c = []" "ac_selector c = make_selector None None False"
    by (auto simp: build_url_def Let_def start_session_def set_session_def demo_auth_def demo_client_def)
  have n: "ae_now demo_ok_api l = 0" "ae_draw demo_ok_api l = 0" "ae_net demo_ok_api l p = Answered demo_page" for l p
    by (simp_all add: demo_ok_api_def demo_api_def)
  have s: "selector_select 0 0 (make_selector None None False) = (Inr (None, None), make_selector None None False)" by code_simp
  have w: "wants_hashcash demo_page = None" "\<not> is_http_error (ar_status demo_page)" "\<not> is_mutating (command ''ug'' [])"
      "is_list (command ''ug'' []) = False"
    by (simp add: wants_hashcash_def demo_page_def is_http_error_def | code_simp)+
  show ?thesis
    by (simp add: request_def w send_retrying_def RETRY_ATTEMPTS_def numeral_eq_Suc send_def b c n s Let_def finish_send_def
        demo_page_parses results_of_def)
qed

theorem remembered_session_restores_witness:
  "\<exists>fs' d. remember_session demo_sessions demo_io (zeros 16) (zeros 12) ''me'' ''pp'' (start_session demo_session demo_auth) (\<lambda>_. None)
      = (Inr (), fs')
    \<and> restore_session demo_sessions demo_io demo_ok_api ''me'' ''pp'' (demo_auth, fs') = (Inr True, d, fs')
    \<and> ax_session d = Some demo_session \<and> ac_sid (ax_api d) = Some (ms_sid demo_session)"
proof (rule remembered_session_restores)
  show "aead_ok (vl_aead (sl_vault demo_sessions))" using demo_aead_ok by (simp add: demo_sessions_def demo_vault_lib_def)
  show "fst (request demo_ok_api (command ''ug'' []) [] (ax_api (start_session demo_session demo_auth))) = Inr (JInt 0)" by (rule demo_probe)
qed (simp_all add: demo_sessions_def demo_io_def io_works_def storable_session_def demo_session_def start_session_def)

definition demo_plain :: session_lib where
  "demo_plain = demo_sessions\<lparr>sl_allow_plain := True\<rparr>"

definition demo_plain_files :: session_files where
  "demo_plain_files = (\<lambda>_. Some (Doc (session_payload demo_session)))"

theorem restore_never_unproven_witness:
  "\<exists>d. restore_session demo_plain demo_io demo_ok_api ''me'' ''pp'' (demo_auth, demo_plain_files) = (Inr True, d, demo_plain_files)
    \<and> ax_session d = Some demo_session"
proof -
  let ?path = "session_path demo_plain demo_io ''me''" and ?q = "request demo_ok_api (command ''ug'' []) []"
  obtain p where p: "session_payload demo_session = JObj p" by (simp add: session_payload_def)
  have "session_of p = Inr demo_session" using session_of_payload [OF _ p] by (simp add: storable_session_def demo_session_def)
  moreover have "jget ''encrypted'' p = None" using p by (auto simp: session_payload_def jget_def)
  ultimately have l: "load_session demo_plain demo_io ?path (Some ''pp'') demo_plain_files = Inr (Some demo_session)"
    by (simp add: load_session_def demo_plain_files_def demo_io_def read_session_def p demo_plain_def)
  obtain api where q: "?q (ax_api (start_session demo_session demo_auth)) = (Inr (JInt 0), api)"
    using demo_probe by (metis prod.collapse)
  then have r: "restore_session demo_plain demo_io demo_ok_api ''me'' ''pp'' (demo_auth, demo_plain_files)
      = (Inr True, (start_session demo_session demo_auth)\<lparr>ax_api := api\<rparr>, demo_plain_files)"
    by (simp add: restore_found [OF l])
  from restore_never_unproven [OF r] show ?thesis using l by (simp add: r)
qed

section \<open>An outage of the proxies\<close>

text \<open>
  When proxies are required and none is usable nothing is sent, yet the exception is not one of \<open>requests\<close>:
  the file of a session that may well be alive is removed.
\<close>

lemma proxy_outage_forgets_session:
  assumes "load_session L IO (session_path L IO aid) (Some pw) fs = Inr (Some s)" and "si_unlink IO = None"
    and "\<And>now draw. \<exists>e. fst (selector_select now draw (ac_selector (ax_api c))) = Inl e"
  shows "\<exists>d. restore_session L IO E aid pw (c, fs) = (Inr False, d, fs(session_path L IO aid := None))
    \<and> ac_log (ax_api d) = ac_log (ax_api c)"
proof -
  let ?c = "ax_api (start_session s c)"
  have u: "ac_log (snd (build_url [] ?c)) = ac_log (ax_api c)" "ac_selector (snd (build_url [] ?c)) = ac_selector (ax_api c)"
    by (simp_all add: build_url_def Let_def start_session_def set_session_def)
  obtain url c1 where b: "build_url [] ?c = (url, c1)" by (cases "build_url [] ?c")
  obtain r sel where sl: "selector_select (ae_now E (ac_log c1)) (ae_draw E (ac_log c1)) (ac_selector c1) = (r, sel)" by fastforce
  then have r: "r = Inl (Exc ProxyRequiredError None)"
    using assms(3) select_error u b by (metis fst_conv snd_conv)
  have "send E (command ''ug'' []) [] ?c = (raise ProxyRequiredError, c1\<lparr>ac_selector := sel\<rparr>)"
    by (simp add: send_def b sl r)
  moreover have "\<not> is_mutating (command ''ug'' [])" by code_simp
  ultimately have q: "request E (command ''ug'' []) [] ?c = (raise ProxyRequiredError, c1\<lparr>ac_selector := sel\<rparr>)"
    by (simp add: request_def send_retrying_def RETRY_ATTEMPTS_def numeral_eq_Suc isinstance_def ancestors_5)
  have "fs (session_path L IO aid) \<noteq> None" using assms(1) by (cases "fs (session_path L IO aid)") (simp_all add: load_session_def)
  then have "forget_session L IO aid fs = (Inr True, fs(session_path L IO aid := None))"
    using assms(2) by (auto simp: forget_session_def Let_def)
  moreover have "\<not> isinstance (Exc ProxyRequiredError None) RequestException" by code_simp
  ultimately show ?thesis using u b
    by (simp add: restore_found [OF assms(1)] q Let_def drop_session_def clear_session_def)
qed

end
