(* ===== verification/ConfigStore.thy ===== *)
theory ConfigStore
  imports UploadIdentity Accounts
begin

text \<open>
  \<open>config.py\<close>: the settings, their validation, and the file they are kept in. A \<open>Config\<close> is the
  dictionary of its attributes, since a file may put a value of any type into each; the float fields have
  integer defaults, so every default is one of JSON. The output directory and what the operating system
  answers are arguments; warnings and the environment variables leave no trace.
\<close>

section \<open>The settings\<close>

type_synonym config = "(string \<times> json) list"

text \<open>The fields of the dataclass with their defaults.\<close>

definition config_fields :: config where
  "config_fields =
    [(''download_path'', JStr []), (''max_workers'', JInt 8), (''upload_workers'', JInt 4), (''max_parallel_downloads'', JInt 6),
     (''max_parallel_uploads'', JInt 1), (''speed_limit_kbps'', JInt 0), (''upload_speed_limit_kbps'', JInt 0),
     (''verify_integrity'', JBool True), (''smart_proxy_enabled'', JBool False), (''smart_proxy_url'', JNull),
     (''timeout_seconds'', JInt 60), (''auto_resume'', JBool True), (''keep_state_files_on_error'', JBool True),
     (''default_account'', JNull), (''streaming_port'', JInt 8080), (''streaming_host'', JStr ''127.0.0.1''),
     (''log_level'', JStr ''WARNING''), (''log_to_file'', JBool True), (''log_max_bytes'', JInt 5000000),
     (''log_backups'', JInt 5), (''user_agent'', JStr []), (''megacrypter_server'', JNull), (''elc_accounts'', JObj []),
     (''quota_wait_seconds'', JInt 3600), (''quota_max_wait_loops'', JInt 24), (''run_command'', JNull),
     (''all_finished_command'', JNull), (''upload_log_path'', JNull), (''force_smart_proxy'', JBool False),
     (''connect_proxy_port'', JInt 9999), (''connect_proxy_password'', JNull), (''connect_proxy_allow_any_port'', JBool False)]"

definition DEPRECATED_CONFIG_KEYS :: "string list" where
  "DEPRECATED_CONFIG_KEYS =
    [''chunk_size_kb'', ''smart_proxy_autorefresh_minutes'', ''smart_proxy_timeout_seconds'', ''smart_proxy_random'']"

definition OPTIONAL_STR_KEYS :: "string list" where
  "OPTIONAL_STR_KEYS =
    [''default_account'', ''smart_proxy_url'', ''run_command'', ''all_finished_command'', ''upload_log_path'',
     ''connect_proxy_password'', ''megacrypter_server'']"

definition NULL_TOKENS :: "string list" where
  "NULL_TOKENS = [''null'', ''none'']"

definition valid_elc_accounts :: "json \<Rightarrow> bool" where
  "valid_elc_accounts v =
    (case v of
       JObj hosts \<Rightarrow> list_all (\<lambda>(_, entry). case entry of JObj d \<Rightarrow> list_all (\<lambda>(_, x). is_JStr x) d | _ \<Rightarrow> False) hosts
     | _ \<Rightarrow> False)"

section \<open>Validation\<close>

datatype rule = Between int int | At_least int | Above int | Log_level

definition LOG_LEVELS :: "string list" where
  "LOG_LEVELS = [''DEBUG'', ''INFO'', ''WARNING'', ''ERROR'', ''CRITICAL'']"

definition VALIDATORS :: "(string \<times> rule) list" where
  "VALIDATORS =
    [(''max_workers'', Between 1 64), (''upload_workers'', Between 1 64), (''max_parallel_downloads'', Between 1 32),
     (''max_parallel_uploads'', Between 1 32), (''speed_limit_kbps'', At_least 0), (''upload_speed_limit_kbps'', At_least 0),
     (''timeout_seconds'', Above 0), (''quota_wait_seconds'', At_least 0), (''quota_max_wait_loops'', At_least 0),
     (''streaming_port'', Between 1 65535), (''connect_proxy_port'', Between 1 65535), (''log_max_bytes'', At_least 0),
     (''log_backups'', At_least 0), (''log_level'', Log_level)]"

text \<open>A comparison with something that is no number raises \<open>TypeError\<close>, which counts as a refusal.\<close>

fun meets_rule :: "rule \<Rightarrow> json \<Rightarrow> bool" where
  "meets_rule (Between lo hi) v = (case json_num v of None \<Rightarrow> False | Some (p, q) \<Rightarrow> lo * q \<le> p \<and> p \<le> hi * q)"
| "meets_rule (At_least lo) v = (case json_num v of None \<Rightarrow> False | Some (p, q) \<Rightarrow> lo * q \<le> p)"
| "meets_rule (Above lo) v = (case json_num v of None \<Rightarrow> False | Some (p, q) \<Rightarrow> lo * q < p)"
| "meets_rule Log_level v = (case v of JStr s \<Rightarrow> ascii_upper s \<in> set LOG_LEVELS | _ \<Rightarrow> False)"

definition validate_config_value :: "string \<Rightarrow> json \<Rightarrow> unit py" where
  "validate_config_value key v =
    (if key \<in> set OPTIONAL_STR_KEYS \<and> \<not> is_str_or_null v then raise ValueError
     else if key = ''elc_accounts'' \<and> \<not> valid_elc_accounts v then raise ValueError
     else case map_of VALIDATORS key of
         None \<Rightarrow> Inr ()
       | Some r \<Rightarrow> if meets_rule r v then Inr () else raise ValueError)"

text \<open>The value when it has the type of the default; \<open>bool\<close> is not taken for a number.\<close>

definition typed_like :: "json \<Rightarrow> json \<Rightarrow> json option" where
  "typed_like dflt v =
    (case (dflt, v) of
       (JFloat _ _, JInt n) \<Rightarrow> Some (JFloat n 1)
     | (JFloat _ _, JFloat _ _) \<Rightarrow> Some v
     | (JBool _, JBool _) \<Rightarrow> Some v
     | (JInt _, JInt _) \<Rightarrow> Some v
     | (JStr _, JStr _) \<Rightarrow> Some v
     | (JArr _, JArr _) \<Rightarrow> Some v
     | (JObj _, JObj _) \<Rightarrow> Some v
     | _ \<Rightarrow> None)"

text \<open>One turn of \<open>validate_config\<close>; the turns do not depend on each other.\<close>

definition check_field :: "string \<Rightarrow> json \<Rightarrow> json \<Rightarrow> json" where
  "check_field key dflt current =
    (if key \<in> set OPTIONAL_STR_KEYS then (if is_str_or_null current then current else dflt)
     else if key = ''elc_accounts'' then (if valid_elc_accounts current then current else JObj [])
     else case (if dflt \<noteq> JNull \<and> current \<noteq> JNull then typed_like dflt current else Some current) of
         None \<Rightarrow> dflt
       | Some v \<Rightarrow> (case validate_config_value key v of Inl _ \<Rightarrow> dflt | Inr _ \<Rightarrow> v))"

definition validate_config :: "config \<Rightarrow> config" where
  "validate_config cfg = map (\<lambda>(key, dflt). (key, check_field key dflt (jget_none key cfg))) config_fields"

section \<open>The file\<close>

text \<open>
  What Python answers for a name that is no field: whether an instance has such an attribute, whether its
  value is a dictionary, and what setting it raises. \<open>__dict__\<close> itself, whose replacement changes the
  fields, is outside the model.
\<close>

record attribute =
  at_dict :: bool
  at_set :: "exc option"

record config_env =
  cf_name :: string
  cf_output :: string
  cf_attr :: "string \<Rightarrow> attribute option"
  cf_loads :: "string \<Rightarrow> json py"
  cf_float :: "string \<Rightarrow> json py"
  cf_utf8 :: "bytes \<Rightarrow> bool"
  cf_read :: bool
  cf_lock :: bool
  cf_mkdir :: bool
  cf_replace :: bool
  cf_backup :: "content backup_io"

text \<open>The store with the file and its siblings.\<close>

record config_store =
  cs_config :: "config option"
  cs_corrupt :: bool
  cs_backup :: "string option"
  cs_file :: "content option"
  cs_siblings :: "(string \<times> content) list"

definition with_default :: "config_env \<Rightarrow> config \<Rightarrow> config" where
  "with_default E cfg = dict_set ''download_path'' (JStr (cf_output E)) cfg"

definition config_defaults :: "config_env \<Rightarrow> config" where
  "config_defaults E = with_default E config_fields"

definition mark_config_corrupt :: "config_env \<Rightarrow> bool \<Rightarrow> content option \<Rightarrow> config_store \<Rightarrow> config_store" where
  "mark_config_corrupt E held data s =
    (case data of
       None \<Rightarrow> s\<lparr>cs_corrupt := True, cs_backup := None\<rparr>
     | Some c \<Rightarrow>
         if held \<or> cf_lock E
         then (case preserve_corrupt_file (cf_backup E) (cf_name E) c (cs_siblings s) of
             (b, sibs) \<Rightarrow> s\<lparr>cs_corrupt := True, cs_backup := b, cs_siblings := sibs\<rparr>)
         else s\<lparr>cs_corrupt := True,
                cs_backup := existing_backup_for (cs_siblings s) (cf_name E) (bk_digest (cf_backup E) c) c\<rparr>)"

definition set_member :: "config_env \<Rightarrow> string \<Rightarrow> json \<Rightarrow> config \<Rightarrow> config py" where
  "set_member E key v cfg =
    (if key \<in> fst ` set config_fields then Inr (dict_set key v cfg)
     else case cf_attr E key of
         None \<Rightarrow> Inr cfg
       | Some a \<Rightarrow> (case at_set a of None \<Rightarrow> Inr cfg | Some e \<Rightarrow> Inl e))"

definition take_member :: "config_env \<Rightarrow> string \<times> json \<Rightarrow> config \<Rightarrow> config py" where
  "take_member E m cfg = (if fst m \<in> set DEPRECATED_CONFIG_KEYS then Inr cfg else set_member E (fst m) (snd m) cfg)"

definition settle :: "config_env \<Rightarrow> config \<Rightarrow> config" where
  "settle E cfg0 =
    (let cfg = validate_config cfg0;
         cfg = (if jget_none ''user_agent'' cfg = JStr ''MegaBasterd-CLI/1.0'' then dict_set ''user_agent'' (JStr []) cfg else cfg)
     in if truthy (jget_none ''download_path'' cfg) then cfg else with_default E cfg)"

definition load_config :: "config_env \<Rightarrow> bool \<Rightarrow> config_store \<Rightarrow> config py \<times> config_store" where
  "load_config E held s0 =
    (let s = s0\<lparr>cs_corrupt := False, cs_backup := None\<rparr>
     in case cs_file s of
          None \<Rightarrow> (Inr (config_defaults E), s)
        | Some c \<Rightarrow>
            if \<not> cf_read E then (Inr (config_defaults E), mark_config_corrupt E held None s)
            else (case c of
                Doc (JObj d) \<Rightarrow> (bindR (foldR (take_member E) d config_fields) (\<lambda>cfg. Inr (settle E cfg)), s)
              | _ \<Rightarrow> (Inr (config_defaults E), mark_config_corrupt E held (Some c) s)))"

definition config_of :: "config_env \<Rightarrow> bool \<Rightarrow> config_store \<Rightarrow> config py \<times> config_store" where
  "config_of E held s =
    (case cs_config s of
       Some cfg \<Rightarrow> (Inr cfg, s)
     | None \<Rightarrow>
         (case load_config E held s of
            (Inl e, s) \<Rightarrow> (Inl e, s)
          | (Inr cfg, s) \<Rightarrow> (Inr cfg, s\<lparr>cs_config := Some cfg\<rparr>)))"

definition write_locked :: "config_env \<Rightarrow> config_store \<Rightarrow> unit py \<times> config_store" where
  "write_locked E s =
    (case config_of E True s of
       (Inl e, s) \<Rightarrow> (Inl e, s)
     | (Inr cfg, s) \<Rightarrow>
         if \<not> cf_mkdir E \<or> \<not> cf_replace E then (raise OSError, s)
         else (Inr (), s\<lparr>cs_file := Some (Doc (JObj cfg))\<rparr>))"

text \<open>An operation under the file lock; the lock of a store is taken once and nests.\<close>

definition config_locked :: "config_env \<Rightarrow> (config_store \<Rightarrow> 'a py \<times> config_store) \<Rightarrow> config_store \<Rightarrow> 'a py \<times> config_store" where
  "config_locked E f s = (if cf_lock E then f s else (raise ConfigLockError, s))"

definition save_held :: "config_env \<Rightarrow> config_store \<Rightarrow> unit py \<times> config_store" where
  "save_held E s =
    (case load_config E True s of
       (Inl e, s) \<Rightarrow> (Inl e, s)
     | (Inr _, s) \<Rightarrow> if cs_corrupt s then (raise ConfigCorruptionError, s) else write_locked E s)"

definition save_config :: "config_env \<Rightarrow> config_store \<Rightarrow> unit py \<times> config_store" where
  "save_config E = config_locked E (save_held E)"

text \<open>\<open>self._config = self.load()\<close> and what follows it.\<close>

definition with_newest ::
  "config_env \<Rightarrow> (config \<Rightarrow> config_store \<Rightarrow> 'a py \<times> config_store) \<Rightarrow> config_store \<Rightarrow> 'a py \<times> config_store" where
  "with_newest E f s =
    (case load_config E True s of
       (Inl e, s) \<Rightarrow> (Inl e, s)
     | (Inr cfg, s) \<Rightarrow> f cfg (s\<lparr>cs_config := Some cfg\<rparr>))"

section \<open>Changes\<close>

definition parse_dict :: "config_env \<Rightarrow> string \<Rightarrow> json py" where
  "parse_dict E text = bindR (cf_loads E text) (\<lambda>v. if is_JObj v then Inr v else raise ValueError)"

text \<open>The text of the command line as a value of the field.\<close>

definition coerce :: "config_env \<Rightarrow> config \<Rightarrow> string \<Rightarrow> string \<Rightarrow> json py" where
  "coerce E cfg key text =
    (if key \<in> set DEPRECATED_CONFIG_KEYS then raise ValueError
     else if key \<notin> fst ` set config_fields then
       (case cf_attr E key of
          None \<Rightarrow> raise KeyError
        | Some a \<Rightarrow> if at_dict a then parse_dict E text else Inr (JStr text))
     else if key \<in> set OPTIONAL_STR_KEYS then
       Inr (if lower (strip text) \<in> set NULL_TOKENS then JNull else JStr text)
     else case jget_none key cfg of
         JBool _ \<Rightarrow>
           (let low = lower (strip text)
            in if low \<in> set [''1'', ''true'', ''yes'', ''y'', ''on''] then Inr (JBool True)
               else if low \<in> set [''0'', ''false'', ''no'', ''n'', ''off''] then Inr (JBool False)
               else raise ValueError)
       | JObj _ \<Rightarrow> parse_dict E text
       | JInt _ \<Rightarrow> (case py_int text of None \<Rightarrow> raise ValueError | Some n \<Rightarrow> Inr (JInt n))
       | JFloat _ _ \<Rightarrow> cf_float E text
       | _ \<Rightarrow> Inr (JStr text))"

definition change_member :: "config_env \<Rightarrow> string \<Rightarrow> json \<Rightarrow> config \<Rightarrow> config_store \<Rightarrow> unit py \<times> config_store" where
  "change_member E key v cfg s =
    (case set_member E key v cfg of
       Inl e \<Rightarrow> (Inl e, s)
     | Inr cfg \<Rightarrow> save_held E (s\<lparr>cs_config := Some cfg\<rparr>))"

definition set_config :: "config_env \<Rightarrow> string \<Rightarrow> string \<Rightarrow> config_store \<Rightarrow> unit py \<times> config_store" where
  "set_config E key text =
    config_locked E (with_newest E (\<lambda>cfg s.
      case bindR (coerce E cfg key text) (\<lambda>v. bindR (validate_config_value key v) (\<lambda>_. Inr v)) of
        Inl e \<Rightarrow> (Inl e, s)
      | Inr v \<Rightarrow> change_member E key v cfg s))"

definition unset_config :: "config_env \<Rightarrow> string \<Rightarrow> config_store \<Rightarrow> unit py \<times> config_store" where
  "unset_config E key =
    config_locked E (with_newest E (\<lambda>cfg s.
      if key \<in> set DEPRECATED_CONFIG_KEYS then (raise ValueError, s)
      else if key \<notin> fst ` set config_fields \<and> cf_attr E key = None then (raise KeyError, s)
      else if key \<notin> set OPTIONAL_STR_KEYS then (raise ValueError, s)
      else change_member E key JNull cfg s))"

text \<open>Bytes that are no UTF-8 raise past the handler.\<close>

definition raw_keys :: "config_env \<Rightarrow> config_store \<Rightarrow> string list py" where
  "raw_keys E s =
    (if \<not> cf_read E then Inr []
     else case cs_file s of
         Some (Doc (JObj d)) \<Rightarrow> Inr (map fst d)
       | Some (Raw b) \<Rightarrow> if cf_utf8 E b then Inr [] else raise UnicodeError
       | _ \<Rightarrow> Inr [])"

definition migrate_config :: "config_env \<Rightarrow> config_store \<Rightarrow> string list py \<times> config_store" where
  "migrate_config E =
    config_locked E (with_newest E (\<lambda>_ s.
      if cs_corrupt s then (raise ConfigCorruptionError, s)
      else case raw_keys E s of
          Inl e \<Rightarrow> (Inl e, s)
        | Inr keys \<Rightarrow>
            (let stale = sorted_strs (filter (\<lambda>key. key \<in> set DEPRECATED_CONFIG_KEYS
                   \<or> key \<notin> fst ` set config_fields \<and> cf_attr E key = None) keys)
             in case save_held E s of (r, s) \<Rightarrow> (bindR r (\<lambda>_. Inr stale), s))))"

definition reset_config :: "config_env \<Rightarrow> config_store \<Rightarrow> unit py \<times> config_store" where
  "reset_config E =
    config_locked E (\<lambda>s. case load_config E True s of
      (Inl e, s) \<Rightarrow> (Inl e, s)
    | (Inr _, s) \<Rightarrow>
        if cs_corrupt s then (raise ConfigCorruptionError, s)
        else save_held E (s\<lparr>cs_config := Some (config_defaults E)\<rparr>))"

definition recover_config :: "config_env \<Rightarrow> config_store \<Rightarrow> string option py \<times> config_store" where
  "recover_config E =
    config_locked E (\<lambda>s. case load_config E True s of
      (Inl e, s) \<Rightarrow> (Inl e, s)
    | (Inr _, s) \<Rightarrow>
        (case write_locked E (s\<lparr>cs_corrupt := False, cs_config := Some (config_defaults E)\<rparr>) of
           (r, s') \<Rightarrow> (bindR r (\<lambda>_. Inr (cs_backup s)), s')))"

section \<open>What a validated configuration is\<close>

definition same_type :: "json \<Rightarrow> json \<Rightarrow> bool" where
  "same_type dflt v \<longleftrightarrow> typed_like dflt v = Some v"

text \<open>The values a field can have after loading: null is let through for every field without a rule.\<close>

definition field_ok :: "string \<Rightarrow> json \<Rightarrow> json \<Rightarrow> bool" where
  "field_ok key dflt v \<longleftrightarrow> validate_config_value key v = Inr ()
    \<and> (key \<in> set OPTIONAL_STR_KEYS \<or> key = ''elc_accounts'' \<or> v = JNull \<or> same_type dflt v)"

lemma config_fields_facts:
  "distinct (map fst config_fields)" "list_all (\<lambda>(k, d). field_ok k d d \<and> check_field k d d = d) config_fields"
  "list_all (\<lambda>k. k \<notin> fst ` set config_fields) DEPRECATED_CONFIG_KEYS"
  "list_all (\<lambda>(k, d). d \<noteq> JNull \<or> k \<in> set OPTIONAL_STR_KEYS) config_fields"
  by code_simp+

lemma default_ok: "(k, d) \<in> set config_fields \<Longrightarrow> field_ok k d d \<and> check_field k d d = d"
  using config_fields_facts(2) by (auto simp: list_all_iff)

lemma typed_like_same: "typed_like d v = Some w \<Longrightarrow> same_type d w \<and> w \<noteq> JNull"
  by (cases d; cases v) (auto simp: typed_like_def same_type_def)

lemma optional_rules: "list_all (\<lambda>k. map_of VALIDATORS k = None \<and> k \<noteq> ''elc_accounts'') OPTIONAL_STR_KEYS"
  "map_of VALIDATORS ''elc_accounts'' = None" "''elc_accounts'' \<notin> set OPTIONAL_STR_KEYS"
  by code_simp+

text \<open>A checked value is a default or passes the check unchanged.\<close>

lemma check_field_ok:
  assumes "(k, d) \<in> set config_fields"
  shows "field_ok k d (check_field k d v) \<and> check_field k d (check_field k d v) = check_field k d v"
proof (cases "k \<in> set OPTIONAL_STR_KEYS")
  case True
  then have "map_of VALIDATORS k = None" "k \<noteq> ''elc_accounts''" using optional_rules(1) by (auto simp: list_all_iff)
  then show ?thesis using True default_ok [OF assms] by (auto simp: check_field_def field_ok_def validate_config_value_def)
next
  case False
  show ?thesis
  proof (cases "k = ''elc_accounts''")
    case True
    have "valid_elc_accounts (JObj [])" by (simp add: valid_elc_accounts_def)
    then show ?thesis using True optional_rules(2,3) by (auto simp: check_field_def field_ok_def validate_config_value_def)
  next
    case elc: False
    obtain t where t: "t = (if d \<noteq> JNull \<and> v \<noteq> JNull then typed_like d v else Some v)" by blast
    show ?thesis
    proof (cases "\<exists>w. t = Some w \<and> validate_config_value k w = Inr ()")
      case True
      then obtain w where w: "t = Some w" "validate_config_value k w = Inr ()" by blast
      then have c: "check_field k d v = w" using False elc t by (simp add: check_field_def)
      show ?thesis
      proof (cases "d \<noteq> JNull \<and> v \<noteq> JNull")
        case True
        then have "same_type d w" "w \<noteq> JNull" using typed_like_same [of d v w] w(1) t by simp_all
        then show ?thesis using w(2) c False elc True by (simp add: check_field_def field_ok_def same_type_def)
      next
        case n: False
        then have "w = v" using w(1) t by (auto split: if_splits)
        moreover have "d \<noteq> JNull" using config_fields_facts(4) assms False by (auto simp: list_all_iff)
        ultimately show ?thesis using w(2) c False elc n by (auto simp: check_field_def field_ok_def)
      qed
    next
      case not: False
      then have "check_field k d v = d" using False elc t by (auto simp: check_field_def split: option.splits sum.splits)
      then show ?thesis using default_ok [OF assms] by simp
    qed
  qed
qed

lemma keys_validate: "map fst (validate_config cfg) = map fst config_fields"
  by (simp add: validate_config_def case_prod_beta comp_def)

text \<open>The value a loaded configuration has, from the one that was read.\<close>

definition settled :: "config_env \<Rightarrow> string \<Rightarrow> json \<Rightarrow> json \<Rightarrow> json" where
  "settled E k d v =
    (let w = check_field k d v
     in if k = ''user_agent'' \<and> w = JStr ''MegaBasterd-CLI/1.0'' then JStr []
        else if k = ''download_path'' \<and> \<not> truthy w then JStr (cf_output E)
        else w)"

lemma dict_set_map:
  "distinct (map fst d) \<Longrightarrow> k \<in> fst ` set d \<Longrightarrow> dict_set k v d = map (\<lambda>(k', x). (k', if k' = k then v else x)) d"
proof (induction d)
  case (Cons p d)
  obtain k' x where p: "p = (k', x)" by fastforce
  show ?case
  proof (cases "k' = k")
    case True
    then have "map (\<lambda>(k', x). (k', if k' = k then v else x)) d = d" using Cons.prems p by (intro map_idI) (auto simp: image_iff dest: bspec)
    then show ?thesis using p True by simp
  qed (use Cons p in auto)
qed simp

lemma jget_map:
  "distinct (map fst d) \<Longrightarrow> (k, x) \<in> set d \<Longrightarrow> jget_none k (map (\<lambda>(k, x). (k, f k x)) d) = f k x"
proof -
  assume d: "distinct (map fst d)" and m: "(k, x) \<in> set d"
  have "map_of (map (\<lambda>(k, x). (k, f k x)) d) k = Some (f k x)"
    using d m by (intro map_of_is_SomeI) (force simp: case_prod_beta comp_def)+
  then show ?thesis by (simp add: jget_default_def jget_def)
qed

lemma two_fields: "(''user_agent'', JStr []) \<in> set config_fields" "(''download_path'', JStr []) \<in> set config_fields"
  by code_simp+

lemma settle_map: "settle E cfg = map (\<lambda>(k, d). (k, settled E k d (jget_none k cfg))) config_fields"
proof -
  let ?v = "\<lambda>k d. check_field k d (jget_none k cfg)"
  let ?u = "\<lambda>k d. if k = ''user_agent'' \<and> ?v k d = JStr ''MegaBasterd-CLI/1.0'' then JStr [] else ?v k d"
  have d: "distinct (map fst config_fields)" by (rule config_fields_facts)
  have keys: "map fst (map (\<lambda>(k, d). (k, f k d)) config_fields) = map fst config_fields" for f :: "string \<Rightarrow> json \<Rightarrow> json"
    by (simp add: case_prod_beta comp_def)
  have in_keys: "k \<in> fst ` set config_fields" if "(k, d) \<in> set config_fields" for k d using that by force
  have upd: "dict_set k w (map (\<lambda>(k, d). (k, f k d)) config_fields) = map (\<lambda>(k', d). (k', if k' = k then w else f k' d)) config_fields"
    if "(k, d) \<in> set config_fields" for k d w and f :: "string \<Rightarrow> json \<Rightarrow> json"
    using dict_set_map [of "map (\<lambda>(k, d). (k, f k d)) config_fields" k w] keys [of f] d in_keys [OF that]
    by (simp add: case_prod_beta comp_def image_image)
  have u: "(if jget_none ''user_agent'' (validate_config cfg) = JStr ''MegaBasterd-CLI/1.0''
      then dict_set ''user_agent'' (JStr []) (validate_config cfg) else validate_config cfg) = map (\<lambda>(k, d). (k, ?u k d)) config_fields"
    unfolding validate_config_def jget_map [OF d two_fields(1)] upd [OF two_fields(1)]
    by (auto split: prod.splits dest: eq_key_imp_eq_value [OF d two_fields(1)])
  have "settle E cfg = (if truthy (?u ''download_path'' (JStr [])) then map (\<lambda>(k, d). (k, ?u k d)) config_fields
      else dict_set ''download_path'' (JStr (cf_output E)) (map (\<lambda>(k, d). (k, ?u k d)) config_fields))"
    unfolding settle_def Let_def u jget_map [OF d two_fields(2)] with_default_def by simp
  then show ?thesis unfolding upd [OF two_fields(2)] using d
    by (auto simp: settled_def Let_def split: prod.splits dest: eq_key_imp_eq_value [OF d two_fields(2)])
qed

lemma settled_ok:
  assumes "(k, d) \<in> set config_fields" and "cf_output E \<noteq> []"
  shows "field_ok k d (settled E k d v) \<and> settled E k d (settled E k d v) = settled E k d v"
proof -
  have c: "field_ok k d (check_field k d v)" "check_field k d (check_field k d v) = check_field k d v"
    using check_field_ok [OF assms(1)] by blast+
  have str: "field_ok k d (JStr t) \<and> check_field k d (JStr t) = JStr t" if "k = ''user_agent'' \<or> k = ''download_path''" for t
  proof -
    have "d = JStr []" using that two_fields assms(1) eq_key_imp_eq_value [OF config_fields_facts(1)] by blast
    moreover have "map_of VALIDATORS k = None" "k \<notin> set OPTIONAL_STR_KEYS" "k \<noteq> ''elc_accounts''"
      using that by (elim disjE; simp; code_simp)+
    ultimately show ?thesis by (simp add: field_ok_def same_type_def typed_like_def check_field_def validate_config_value_def)
  qed
  show ?thesis using c str assms(2) by (auto simp: settled_def Let_def)
qed

section \<open>Loading what was written\<close>

lemma field_key: "(k, d) \<in> set config_fields \<Longrightarrow> k \<in> fst ` set config_fields"
  by force

lemma keys_settle: "map fst (settle E cfg) = map fst config_fields"
  by (simp add: settle_map case_prod_beta comp_def)

lemma settle_value:
  assumes "(k, d) \<in> set config_fields"
  shows "jget_none k (settle E cfg) = settled E k d (jget_none k cfg)"
  unfolding settle_map by (rule jget_map [OF config_fields_facts(1) assms])

lemma take_members:
  assumes "set (map fst d) \<subseteq> fst ` set config_fields" and "distinct (map fst d)"
  shows "\<exists>cfg'. foldR (take_member E) d cfg = Inr cfg' \<and> map_of cfg' = map_of cfg ++ map_of d"
  using assms
proof (induction d arbitrary: cfg)
  case (Cons m d)
  obtain k v where m: "m = (k, v)" by fastforce
  have "k \<notin> set DEPRECATED_CONFIG_KEYS" using Cons.prems(1) m config_fields_facts(3) by (auto simp: list_all_iff)
  then have t: "take_member E m cfg = Inr (dict_set k v cfg)" using Cons.prems(1) m by (simp add: take_member_def set_member_def)
  have "\<exists>cfg'. foldR (take_member E) d (dict_set k v cfg) = Inr cfg' \<and> map_of cfg' = map_of (dict_set k v cfg) ++ map_of d"
    using Cons.prems by (intro Cons.IH) auto
  then obtain cfg' where c: "foldR (take_member E) d (dict_set k v cfg) = Inr cfg'" "map_of cfg' = map_of (dict_set k v cfg) ++ map_of d"
    by blast
  have "k \<notin> dom (map_of d)" using Cons.prems(2) m by (simp add: dom_map_of_conv_image_fst)
  then have e: "map_of cfg' = map_of cfg ++ map_of (m # d)" using c(2) m by (simp add: map_add_upd_left)
  have "foldR (take_member E) (m # d) cfg = Inr cfg'" using t c(1) by simp
  then show ?case using e by (intro exI conjI)
qed simp

lemma load_written:
  assumes "cs_file s = Some (Doc (JObj cfg))" and "map fst cfg = map fst config_fields" and "cf_read E"
  shows "load_config E held s = (Inr (settle E cfg), s\<lparr>cs_corrupt := False, cs_backup := None\<rparr>)"
proof -
  have "set (map fst cfg) \<subseteq> fst ` set config_fields" unfolding assms(2) by simp
  moreover have "distinct (map fst cfg)" unfolding assms(2) by (rule config_fields_facts(1))
  ultimately obtain c where c: "foldR (take_member E) cfg config_fields = Inr c" "map_of c = map_of config_fields ++ map_of cfg"
    using take_members by blast
  have "jget_none k c = jget_none k cfg" if "(k, d) \<in> set config_fields" for k d
  proof -
    have "k \<in> fst ` set cfg" using field_key [OF that] assms(2) by (metis list.set_map)
    then obtain v where "map_of cfg k = Some v" by (metis map_of_eq_None_iff option.exhaust)
    then show ?thesis using c(2) by (simp add: jget_default_def jget_def map_add_def)
  qed
  then have "settle E c = settle E cfg" by (auto simp: settle_map)
  then show ?thesis using assms(1,3) c(1) by (simp add: load_config_def Let_def)
qed

text \<open>A file that is there and cannot be read as an object.\<close>

definition corrupt_config :: "config_env \<Rightarrow> config_store \<Rightarrow> bool" where
  "corrupt_config E s \<longleftrightarrow> cs_file s \<noteq> None \<and> (cf_read E \<longrightarrow> \<not> (\<exists>d. cs_file s = Some (Doc (JObj d))))"

lemma load_cases:
  assumes "load_config E held s = (r, s')"
  shows "corrupt_config E s \<and> r = Inr (config_defaults E)
      \<and> (\<exists>data. s' = mark_config_corrupt E held data (s\<lparr>cs_corrupt := False, cs_backup := None\<rparr>) \<and> (data = None \<or> data = cs_file s))
    \<or> \<not> corrupt_config E s \<and> s' = s\<lparr>cs_corrupt := False, cs_backup := None\<rparr>
      \<and> (r = Inr (config_defaults E) \<or> (\<exists>d. r = bindR (foldR (take_member E) d config_fields) (\<lambda>cfg. Inr (settle E cfg))))"
proof (cases "cs_file s")
  case None
  then show ?thesis using assms by (simp add: load_config_def corrupt_config_def)
next
  case (Some c)
  show ?thesis
  proof (cases "cf_read E \<and> (\<exists>d. c = Doc (JObj d))")
    case True
    then show ?thesis using assms Some by (auto simp: load_config_def corrupt_config_def)
  next
    case False
    have "s' = mark_config_corrupt E held (if cf_read E then Some c else None) (s\<lparr>cs_corrupt := False, cs_backup := None\<rparr>)"
      "r = Inr (config_defaults E)"
      using assms Some False
      by (cases c; cases "case c of Doc j \<Rightarrow> j | _ \<Rightarrow> JNull"; simp add: load_config_def Let_def split: if_splits)+
    then show ?thesis using Some False by (auto simp: corrupt_config_def)
  qed
qed

text \<open>Marking keeps the file and everything beside it; the backup it names is a copy.\<close>

lemma mark_facts:
  fixes E held data s
  defines "s' \<equiv> mark_config_corrupt E held data s"
  shows "cs_file s' = cs_file s" "cs_config s' = cs_config s" "cs_corrupt s'" "set (cs_siblings s) \<subseteq> set (cs_siblings s')"
    and "cs_backup s' = Some b \<Longrightarrow> data \<noteq> None \<and> (b, the data) \<in> set (cs_siblings s')"
proof -
  obtain b2 sibs where p: "preserve_corrupt_file (cf_backup E) (cf_name E) (the data) (cs_siblings s) = (b2, sibs)" by fastforce
  note k = preserve_keeps [OF p]
  show "cs_file s' = cs_file s" "cs_config s' = cs_config s" "cs_corrupt s'" "set (cs_siblings s) \<subseteq> set (cs_siblings s')"
    using p k(1) by (auto simp: s'_def mark_config_corrupt_def split: option.splits)
  show "data \<noteq> None \<and> (b, the data) \<in> set (cs_siblings s')" if "cs_backup s' = Some b"
    using that p k(2) find_backup by (fastforce simp: s'_def mark_config_corrupt_def split: option.splits if_splits)
qed

lemma load_keys:
  assumes "load_config E held s = (Inr cfg, s')"
  shows "map fst cfg = map fst config_fields"
proof -
  have "map fst (config_defaults E) = map fst config_fields"
    using dict_set_map [OF config_fields_facts(1), of "''download_path''"] field_key [OF two_fields(2)]
    by (simp add: config_defaults_def with_default_def case_prod_beta comp_def)
  then show ?thesis using load_cases [OF assms] keys_settle by (auto simp: bindR_Inr_iff dest!: sym [of "Inr _"])
qed

lemma load_frame:
  assumes "load_config E held s = (r, s')"
  shows "cs_file s' = cs_file s" "cs_config s' = cs_config s" "set (cs_siblings s) \<subseteq> set (cs_siblings s')"
    and "cs_corrupt s' = corrupt_config E s"
    and "cs_backup s' = Some b \<Longrightarrow> (b, the (cs_file s)) \<in> set (cs_siblings s')"
proof -
  let ?s0 = "s\<lparr>cs_corrupt := False, cs_backup := None\<rparr>"
  have "cs_file s' = cs_file s \<and> cs_config s' = cs_config s \<and> set (cs_siblings s) \<subseteq> set (cs_siblings s')
    \<and> cs_corrupt s' = corrupt_config E s \<and> (\<forall>b. cs_backup s' = Some b \<longrightarrow> (b, the (cs_file s)) \<in> set (cs_siblings s'))"
  proof (cases "corrupt_config E s")
    case True
    then obtain data where m: "s' = mark_config_corrupt E held data ?s0" "data = None \<or> data = cs_file s"
      using load_cases [OF assms] by blast
    note f = mark_facts [where E = E and held = held and data = data and s = ?s0, folded m(1)]
    have "\<forall>b. cs_backup s' = Some b \<longrightarrow> (b, the (cs_file s)) \<in> set (cs_siblings s')" using f(5) m(2) by auto
    then show ?thesis using f(1-4) True by simp
  next
    case False
    then have "s' = ?s0" using load_cases [OF assms] by blast
    then show ?thesis using False by simp
  qed
  then show "cs_file s' = cs_file s" "cs_config s' = cs_config s" "set (cs_siblings s) \<subseteq> set (cs_siblings s')"
    "cs_corrupt s' = corrupt_config E s" "cs_backup s' = Some b \<Longrightarrow> (b, the (cs_file s)) \<in> set (cs_siblings s')" by blast+
qed

text \<open>A validated configuration: every field has a value it can have.\<close>

lemma loaded_ok:
  assumes "load_config E held s = (Inr cfg, s')" and "cf_output E \<noteq> []" and "(k, d) \<in> set config_fields"
  shows "field_ok k d (jget_none k cfg)" and "settled E k d (jget_none k cfg) = jget_none k cfg"
proof -
  have defaults: "config_defaults E = settle E config_fields"
  proof -
    have "settled E k d (jget_none k config_fields) = (if k = ''download_path'' then JStr (cf_output E) else d)" if "(k, d) \<in> set config_fields" for k d
    proof -
      have "jget_none k config_fields = d" using that config_fields_facts(1) by (simp add: jget_default_def jget_def)
      moreover have "k = ''download_path'' \<Longrightarrow> d = JStr []" "k = ''user_agent'' \<Longrightarrow> d = JStr []"
        using that two_fields eq_key_imp_eq_value [OF config_fields_facts(1)] by blast+
      ultimately show ?thesis using default_ok [OF that] by (auto simp: settled_def Let_def)
    qed
    then have "settle E config_fields = map (\<lambda>(k, d). (k, if k = ''download_path'' then JStr (cf_output E) else d)) config_fields"
      by (auto simp: settle_map)
    then show ?thesis
      using dict_set_map [OF config_fields_facts(1) field_key [OF two_fields(2)]] by (simp add: config_defaults_def with_default_def)
  qed
  then obtain c where "cfg = settle E c" using load_cases [OF assms(1)] by (auto simp: bindR_Inr_iff dest!: sym [of "Inr _"])
  then show "field_ok k d (jget_none k cfg)" and "settled E k d (jget_none k cfg) = jget_none k cfg"
    using settled_ok [OF assms(3,2)] settle_value [OF assms(3)] by simp_all
qed

section \<open>Setting a value\<close>

lemma write_after_load:
  assumes "save_held E s = (Inr (), s')" and "cs_config s = Some cfg"
  shows "cs_file s' = Some (Doc (JObj cfg))" and "\<not> corrupt_config E s"
proof -
  obtain r s1 where l: "load_config E True s = (r, s1)" by fastforce
  then obtain c where r: "r = Inr c" "\<not> cs_corrupt s1" "write_locked E s1 = (Inr (), s')"
    using assms(1) by (auto simp: save_held_def split: sum.splits if_splits)
  have "cs_config s1 = Some cfg" "cs_corrupt s1 = corrupt_config E s" using load_frame [OF l] assms(2) by simp_all
  then show "cs_file s' = Some (Doc (JObj cfg))" "\<not> corrupt_config E s"
    using r by (auto simp: write_locked_def config_of_def split: if_splits)
qed

text \<open>
  C23: setting a value changes that setting alone. What \<open>set\<close> writes is the configuration in the newest
  file with the one field replaced by the value that the text stands for, so no change of another
  process is lost; and every later load reads back that field and, for each other field, exactly what the
  newest file held.
\<close>

theorem config_set_exact:
  assumes "set_config E key text s = (Inr (), s')" and "key \<in> fst ` set config_fields" and "cf_output E \<noteq> []" and "cf_read E"
  shows "\<exists>cfg v. fst (load_config E True s) = Inr cfg \<and> coerce E cfg key text = Inr v \<and> validate_config_value key v = Inr ()
    \<and> cs_file s' = Some (Doc (JObj (dict_set key v cfg)))
    \<and> (\<forall>t. cs_file t = cs_file s' \<longrightarrow> (\<exists>new. fst (load_config E True t) = Inr new
         \<and> (\<forall>(k, d) \<in> set config_fields. jget_none k new = (if k = key then settled E k d v else jget_none k cfg))))"
proof -
  obtain r s1 where l: "load_config E True s = (r, s1)" by fastforce
  obtain cfg where cfg: "r = Inr cfg" using assms(1) l by (auto simp: set_config_def config_locked_def with_newest_def split: if_splits sum.splits)
  obtain v where v: "coerce E cfg key text = Inr v" "validate_config_value key v = Inr ()"
    "change_member E key v cfg (s1\<lparr>cs_config := Some cfg\<rparr>) = (Inr (), s')"
    using assms(1) l cfg by (auto simp: set_config_def config_locked_def with_newest_def bindR_Inr_iff split: if_splits sum.splits)
  have "save_held E (s1\<lparr>cs_config := Some (dict_set key v cfg)\<rparr>) = (Inr (), s')"
    using v(3) assms(2) by (simp add: change_member_def set_member_def)
  note w = write_after_load [OF this] 
  have saved: "cs_file s' = Some (Doc (JObj (dict_set key v cfg)))" using w(1) by simp
  have keys: "map fst cfg = map fst config_fields" using load_keys l cfg by blast
  then have dk: "distinct (map fst cfg)" "key \<in> fst ` set cfg" using config_fields_facts(1) assms(2) by (simp_all flip: set_map)
  then have keys': "map fst (dict_set key v cfg) = map fst config_fields"
    using keys by (simp add: dict_set_map case_prod_beta comp_def)
  have "\<exists>new. fst (load_config E True t) = Inr new
      \<and> (\<forall>(k, d) \<in> set config_fields. jget_none k new = (if k = key then settled E k d v else jget_none k cfg))"
    if t: "cs_file t = cs_file s'" for t
  proof -
    have "jget_none k (settle E (dict_set key v cfg)) = (if k = key then settled E k d v else jget_none k cfg)"
      if "(k, d) \<in> set config_fields" for k d
      using settle_value [OF that] loaded_ok(2) [OF l [unfolded cfg] assms(3) that] by (simp add: jget_default_def jget_def)
    moreover have "load_config E True t = (Inr (settle E (dict_set key v cfg)), t\<lparr>cs_corrupt := False, cs_backup := None\<rparr>)"
      using t saved by (intro load_written keys' assms(4)) simp
    ultimately show ?thesis by auto
  qed
  then show ?thesis using l cfg v(1,2) saved by auto
qed

section \<open>A corrupt file stays\<close>

datatype config_command = Save | Set string string | Unset string | Migrate | Reset

fun config_run :: "config_env \<Rightarrow> config_command \<Rightarrow> config_store \<Rightarrow> unit py \<times> config_store" where
  "config_run E Save s = save_config E s"
| "config_run E (Set key text) s = set_config E key text s"
| "config_run E (Unset key) s = unset_config E key s"
| "config_run E Migrate s = (case migrate_config E s of (r, s) \<Rightarrow> (bindR r (\<lambda>_. Inr ()), s))"
| "config_run E Reset s = reset_config E s"

text \<open>The file is as it was and what stood beside it is still there.\<close>

definition untouched :: "config_store \<Rightarrow> config_store \<Rightarrow> bool" where
  "untouched s s' \<longleftrightarrow> cs_file s' = cs_file s \<and> set (cs_siblings s) \<subseteq> set (cs_siblings s')"

lemma untouched_simps: "untouched s s" "untouched s (s'\<lparr>cs_config := c\<rparr>) = untouched s s'"
  by (simp_all add: untouched_def)

lemma untouched_trans: "untouched s s' \<Longrightarrow> untouched s' s'' \<Longrightarrow> untouched s s''"
  by (auto simp: untouched_def)

lemma load_untouched:
  assumes "load_config E held s = (r, s')" and "corrupt_config E s"
  shows "untouched s s'" "cs_corrupt s'" "corrupt_config E s'"
  using load_frame [OF assms(1)] assms(2) by (simp_all add: untouched_def corrupt_config_def)

lemma corrupt_set_config [simp]: "corrupt_config E (s\<lparr>cs_config := c\<rparr>) = corrupt_config E s"
  by (simp add: corrupt_config_def)

lemma save_held_corrupt:
  assumes "corrupt_config E s" and "save_held E s = (r, s')"
  shows "untouched s s'" "\<exists>e. r = Inl e"
proof -
  obtain x s1 where l: "load_config E True s = (x, s1)" by fastforce
  have "s' = s1 \<and> (\<exists>e. r = Inl e)" using load_untouched(2) [OF l assms(1)] assms(2) l by (auto simp: save_held_def split: sum.splits)
  then show "untouched s s'" "\<exists>e. r = Inl e" using load_untouched(1) [OF l assms(1)] by simp_all
qed

lemma change_member_corrupt:
  assumes "corrupt_config E s" and "change_member E key v cfg s = (r, s')"
  shows "untouched s s'" "\<exists>e. r = Inl e"
proof -
  have "untouched s s' \<and> (\<exists>e. r = Inl e)"
  proof (cases "set_member E key v cfg")
    case (Inl e)
    then show ?thesis using assms(2) by (auto simp: change_member_def untouched_simps)
  next
    case (Inr c)
    have "corrupt_config E (s\<lparr>cs_config := Some c\<rparr>)" using assms(1) by simp
    from save_held_corrupt [OF this] show ?thesis using assms(2) Inr by (auto simp: change_member_def untouched_def)
  qed
  then show "untouched s s'" "\<exists>e. r = Inl e" by blast+
qed

lemma with_newest_corrupt:
  assumes "corrupt_config E s" and "with_newest E f s = (r, s')"
    and "\<And>cfg t r t'. corrupt_config E t \<Longrightarrow> cs_corrupt t \<Longrightarrow> f cfg t = (r, t') \<Longrightarrow> untouched t t' \<and> (\<exists>e. r = Inl e)"
  shows "untouched s s'" "\<exists>e. r = Inl e"
proof -
  obtain x s1 where l: "load_config E True s = (x, s1)" by fastforce
  note u = load_untouched [OF l assms(1)]
  have "untouched s s' \<and> (\<exists>e. r = Inl e)"
  proof (cases x)
    case (Inr cfg)
    then have "f cfg (s1\<lparr>cs_config := Some cfg\<rparr>) = (r, s')" using assms(2) l by (simp add: with_newest_def)
    then have "untouched (s1\<lparr>cs_config := Some cfg\<rparr>) s' \<and> (\<exists>e. r = Inl e)" using u by (intro assms(3)) simp_all
    then show ?thesis using u(1) by (auto simp: untouched_def)
  qed (use assms(2) l u(1) in \<open>auto simp: with_newest_def\<close>)
  then show "untouched s s'" "\<exists>e. r = Inl e" by blast+
qed

text \<open>
  C24: a corrupt configuration is never overwritten. While the file is there and is not a readable
  object, no operation but the recovery changes it or removes a backup beside it, and each reports an
  error.
\<close>

theorem corrupt_config_untouched:
  assumes "corrupt_config E s" and "config_run E cmd s = (r, s')"
  shows "cs_file s' = cs_file s \<and> set (cs_siblings s) \<subseteq> set (cs_siblings s') \<and> (\<exists>e. r = Inl e)"
proof (cases "cf_lock E")
  case True
  have "untouched s s' \<and> (\<exists>e. r = Inl e)"
  proof (cases cmd)
    case Save
    then show ?thesis using save_held_corrupt [OF assms(1)] assms(2) True by (simp add: save_config_def config_locked_def)
  next
    case (Set key w)
    then have "with_newest E (\<lambda>cfg s. case bindR (coerce E cfg key w) (\<lambda>v. bindR (validate_config_value key v) (\<lambda>_. Inr v)) of
        Inl e \<Rightarrow> (Inl e, s) | Inr v \<Rightarrow> change_member E key v cfg s) s = (r, s')"
      using assms(2) True by (simp add: set_config_def config_locked_def)
    then show ?thesis using change_member_corrupt
      by (intro conjI; elim with_newest_corrupt [OF assms(1)]) (auto simp: untouched_simps split: sum.splits)
  next
    case (Unset key)
    then have "with_newest E (\<lambda>cfg s. if key \<in> set DEPRECATED_CONFIG_KEYS then (raise ValueError, s)
      else if key \<notin> fst ` set config_fields \<and> cf_attr E key = None then (raise KeyError, s)
      else if key \<notin> set OPTIONAL_STR_KEYS then (raise ValueError, s) else change_member E key JNull cfg s) s = (r, s')"
      using assms(2) True by (simp add: unset_config_def config_locked_def)
    then show ?thesis using change_member_corrupt
      by (intro conjI; elim with_newest_corrupt [OF assms(1)]) (auto simp: untouched_simps split: if_splits)
  next
    case Migrate
    then obtain x where x: "migrate_config E s = (x, s')" "r = bindR x (\<lambda>_. Inr ())" using assms(2) by (auto split: prod.splits)
    have "untouched s s' \<and> (\<exists>e. x = Inl e)"
      using x(1) True unfolding migrate_config_def config_locked_def if_P [OF True]
      by (intro conjI; elim with_newest_corrupt [OF assms(1)]) (auto simp: untouched_simps)
    then show ?thesis using x(2) by auto
  next
    case Reset
    obtain x s1 where l: "load_config E True s = (x, s1)" by fastforce
    show ?thesis using load_untouched [OF l assms(1)] assms(2) Reset l True
      by (auto simp: reset_config_def config_locked_def split: sum.splits)
  qed
  then show ?thesis by (simp add: untouched_def)
next
  case False
  then show ?thesis using assms(2)
    by (cases cmd) (auto simp: save_config_def set_config_def unset_config_def migrate_config_def reset_config_def config_locked_def)
qed

text \<open>Recovery, which does overwrite the file, names a backup that holds what was there.\<close>

lemma recover_keeps_copy:
  assumes "recover_config E s = (Inr (Some b), s')"
  shows "(b, the (cs_file s)) \<in> set (cs_siblings s')"
proof -
  obtain x s1 where l: "load_config E True s = (x, s1)" by fastforce
  have "cs_backup s1 = Some b \<and> cs_siblings s' = cs_siblings s1"
    using assms l by (auto simp: recover_config_def config_locked_def write_locked_def config_of_def bindR_Inr_iff split: if_splits sum.splits prod.splits)
  then show ?thesis using load_frame(5) [OF l] by simp
qed

section \<open>Concrete files\<close>

definition demo_config_env :: config_env where
  "demo_config_env = \<lparr>cf_name = ''config.json'', cf_output = ''Output'', cf_attr = (\<lambda>_. None), cf_loads = (\<lambda>_. raise JSONDecodeError),
     cf_float = (\<lambda>_. raise ValueError), cf_utf8 = (\<lambda>_. True), cf_read = True, cf_lock = True, cf_mkdir = True, cf_replace = True,
     cf_backup = \<lparr>bk_digest = (\<lambda>_. ''00''), bk_stamp = ''t'', bk_open = (\<lambda>_. True), bk_write = (\<lambda>_. True)\<rparr>\<rparr>"

definition demo_config_store :: "content \<Rightarrow> config_store" where
  "demo_config_store c = \<lparr>cs_config = None, cs_corrupt = False, cs_backup = None, cs_file = Some c, cs_siblings = []\<rparr>"

definition demo_old_config :: json where
  "demo_old_config = JObj [(''max_workers'', JInt 12), (''chunk_size_kb'', JInt 4), (''streaming_port'', JInt 70000)]"

lemma demo_set_runs: "fst (set_config demo_config_env ''timeout_seconds'' ''90'' (demo_config_store (Doc demo_old_config))) = Inr ()"
  by code_simp

theorem config_set_exact_witness:
  "\<exists>cfg v. fst (load_config demo_config_env True (demo_config_store (Doc demo_old_config))) = Inr cfg
    \<and> coerce demo_config_env cfg ''timeout_seconds'' ''90'' = Inr v
    \<and> cs_file (snd (set_config demo_config_env ''timeout_seconds'' ''90'' (demo_config_store (Doc demo_old_config))))
      = Some (Doc (JObj (dict_set ''timeout_seconds'' v cfg)))"
proof -
  obtain s' where s': "set_config demo_config_env ''timeout_seconds'' ''90'' (demo_config_store (Doc demo_old_config)) = (Inr (), s')"
    using demo_set_runs by (metis prod.collapse)
  have k: "''timeout_seconds'' \<in> fst ` set config_fields" by code_simp
  have "cf_output demo_config_env \<noteq> []" "cf_read demo_config_env" by (simp_all add: demo_config_env_def)
  from config_set_exact [OF s' k this] show ?thesis using s' by auto
qed

theorem corrupt_config_untouched_witness:
  "cs_file (snd (config_run demo_config_env Reset (demo_config_store (Raw [1, 2])))) = Some (Raw [1, 2])"
proof -
  have c: "corrupt_config demo_config_env (demo_config_store (Raw [1, 2]))" by (simp add: corrupt_config_def demo_config_store_def)
  show ?thesis using corrupt_config_untouched [OF c surjective_pairing, of Reset] by (simp add: demo_config_store_def)
qed

section \<open>What validation lets through\<close>

text \<open>
  A null passes the validation of every field that has no range, although only the nullable fields are
  meant to take it: with \<open>"verify_integrity": null\<close> the check of a download is off.
\<close>

lemma null_survives_validation:
  "map_sum id (jget_none ''verify_integrity'')
      (fst (load_config demo_config_env True (demo_config_store (Doc (JObj [(''verify_integrity'', JNull)]))))) = Inr JNull
    \<and> \<not> truthy JNull"
  by code_simp

text \<open>The speed limits are declared as floats but their defaults are integers, so a fraction is refused.\<close>

lemma fractional_limit_refused:
  "check_field ''speed_limit_kbps'' (JInt 0) (JFloat 3 2) = JInt 0"
  "coerce demo_config_env config_fields ''speed_limit_kbps'' ''1.5'' = raise ValueError"
  by code_simp+

text \<open>
  Every attribute of an object counts as a known key, not only the fields: a file with the key
  \<open>__class__\<close>, which Python refuses to set, cannot be loaded at all.
\<close>

lemma attribute_key_breaks_load:
  assumes "cf_attr E ''__class__'' = Some \<lparr>at_dict = False, at_set = Some (Exc TypeError None)\<rparr>" and "cf_read E"
    and "cs_file s = Some (Doc (JObj [(''__class__'', JStr ''x'')]))"
  shows "fst (load_config E held s) = raise TypeError"
proof -
  have "''__class__'' \<notin> set DEPRECATED_CONFIG_KEYS" "''__class__'' \<notin> fst ` set config_fields" by code_simp+
  then show ?thesis using assms by (simp add: load_config_def Let_def take_member_def set_member_def)
qed

end
