(* ===== verification/Ledger.thy ===== *)
theory Ledger
  imports Errors
begin

text \<open>
  \<open>upload_support.py\<close> and the part of \<open>commands/upload_cmd.py\<close> that decides which account a file goes to:
  the ledger of free space, the job of one file with its retries over the accounts, and what counts as
  its success. What the uploader, the API and the account file answer for an account is an argument;
  messages and progress rows leave no trace.
\<close>

section \<open>The ledger\<close>

type_synonym ledger = "(string \<times> int) list"

definition make_ledger :: "(string \<times> int) list \<Rightarrow> ledger" where
  "make_ledger free = map (\<lambda>(email, n). (email, max 0 n)) free"

text \<open>The order of the pairs \<open>(free, email)\<close>.\<close>

definition larger :: "string \<times> int \<Rightarrow> string \<times> int \<Rightarrow> string \<times> int" where
  "larger a b = (if snd a < snd b \<or> snd a = snd b \<and> str_less (fst a) (fst b) then b else a)"

definition reserve :: "int \<Rightarrow> string list \<Rightarrow> ledger \<Rightarrow> string option \<times> ledger" where
  "reserve n exclude L =
    (case filter (\<lambda>(email, free). n \<le> free \<and> email \<notin> set exclude) L of
       [] \<Rightarrow> (None, L)
     | c # cs \<Rightarrow> (case foldl larger c cs of (email, free) \<Rightarrow> (Some email, dict_set email (free - n) L)))"

definition release :: "string \<Rightarrow> int \<Rightarrow> ledger \<Rightarrow> ledger" where
  "release email n L =
    (case map_of L email of None \<Rightarrow> L | Some free \<Rightarrow> dict_set email (free + n) L)"

definition reconcile_free :: "string \<Rightarrow> int \<Rightarrow> ledger \<Rightarrow> ledger" where
  "reconcile_free email free L =
    (let current = (case map_of L email of None \<Rightarrow> 0 | Some n \<Rightarrow> n)
     in dict_set email (min current (max 0 free)) L)"

definition free_of :: "string \<Rightarrow> ledger \<Rightarrow> int option" where
  "free_of email L = map_of L email"

section \<open>The success of an upload\<close>

text \<open>The link that was asked for; a failure to make it is reported when it is a \<open>MegaError\<close>.\<close>

definition finalize_upload_success :: "bool \<Rightarrow> string py \<Rightarrow> string option py" where
  "finalize_upload_success share export =
    (if share
     then (case export of
         Inr link \<Rightarrow> Inr (Some link)
       | Inl e \<Rightarrow> if isinstance e MegaError then Inr None else Inl e)
     else Inr None)"

text \<open>What \<open>upload_directory\<close> ended with, and the failures it lists.\<close>

definition upload_structured_directory :: "unit py \<times> string list \<Rightarrow> bool py" where
  "upload_structured_directory r =
    (case fst r of
       Inr _ \<Rightarrow> Inr (snd r = [])
     | Inl e \<Rightarrow> if isinstance e MegaError then Inr False else Inl e)"

section \<open>One job\<close>

text \<open>
  The answers for each account: whether there is a client, the target, the uploader, the upload of the
  file or of the tree, the public link, and the live quota with the saving of it.
\<close>

record upload_world =
  uw_worker :: "string \<Rightarrow> bool py"
  uw_target :: "string \<Rightarrow> unit py"
  uw_make :: "string \<Rightarrow> unit py"
  uw_file :: "string \<Rightarrow> unit py"
  uw_tree :: "string \<Rightarrow> unit py \<times> string list"
  uw_share :: bool
  uw_export :: "string \<Rightarrow> string py"
  uw_known :: "string \<Rightarrow> bool"
  uw_quota :: "string \<Rightarrow> (int \<times> int) py"
  uw_save :: "string \<Rightarrow> unit py"

definition refresh_quota_after_error :: "upload_world \<Rightarrow> string \<Rightarrow> ledger option \<Rightarrow> unit py \<times> ledger option" where
  "refresh_quota_after_error W email L =
    (case L of
       None \<Rightarrow> (Inr (), None)
     | Some l \<Rightarrow>
         if \<not> uw_known W email then (Inr (), Some (reconcile_free email 0 l))
         else (case (case uw_quota W email of
                  Inl e \<Rightarrow> (Inl e, l)
                | Inr (used, quota) \<Rightarrow> (uw_save W email, reconcile_free email (quota - used) l)) of
             (Inl e, l) \<Rightarrow>
               if isinstance e MegaError then (Inr (), Some (reconcile_free email 0 l)) else (Inl e, Some l)
           | (Inr _, l) \<Rightarrow> (Inr (), Some l)))"

text \<open>The guarded part: the upload with what follows it.\<close>

definition attempt_upload :: "upload_world \<Rightarrow> bool \<Rightarrow> string \<Rightarrow> ledger option \<Rightarrow> bool py \<times> ledger option" where
  "attempt_upload W tree email L =
    (if tree
     then (case upload_structured_directory (uw_tree W email) of
         Inr False \<Rightarrow>
           (case refresh_quota_after_error W email L of
              (Inl e, L) \<Rightarrow> (Inl e, L)
            | (Inr _, L) \<Rightarrow> (Inr False, L))
       | r \<Rightarrow> (r, L))
     else (bindR (uw_file W email) (\<lambda>_. bindR (finalize_upload_success (uw_share W) (uw_export W email)) (\<lambda>_. Inr True)), L))"

text \<open>One turn of the loop: the job is over, or it goes on without the account.\<close>

datatype turn = Over "bool py" "ledger option" | Again string ledger

definition again_without :: "string \<Rightarrow> ledger option \<Rightarrow> turn" where
  "again_without email L = (case L of None \<Rightarrow> Over (Inr False) None | Some l \<Rightarrow> Again email l)"

definition failed_upload :: "upload_world \<Rightarrow> bool \<Rightarrow> int \<Rightarrow> string \<Rightarrow> exc \<Rightarrow> ledger option \<Rightarrow> turn" where
  "failed_upload W tree n email e L =
    (if isinstance e QuotaError \<or> tree
     then (case refresh_quota_after_error W email L of
         (Inl x, L) \<Rightarrow> Over (Inl x) L
       | (Inr _, L) \<Rightarrow> if isinstance e QuotaError \<and> \<not> tree then again_without email L else Over (Inr False) L)
     else Over (Inr False) (map_option (release email n) L))"

definition upload_turn :: "upload_world \<Rightarrow> bool \<Rightarrow> int \<Rightarrow> string option \<Rightarrow> string list \<Rightarrow> ledger option \<Rightarrow> turn" where
  "upload_turn W tree n fixed attempted L =
    (case (case L of None \<Rightarrow> (fixed, None) | Some l \<Rightarrow> (case reserve n attempted l of (e, l) \<Rightarrow> (e, Some l))) of
       (None, L) \<Rightarrow> Over (Inr False) L
     | (Some email, L) \<Rightarrow>
         (case uw_worker W email of
            Inl e \<Rightarrow> Over (Inl e) L
          | Inr False \<Rightarrow> again_without email (map_option (release email n) L)
          | Inr True \<Rightarrow>
              (case uw_target W email of
                 Inl e \<Rightarrow> if isinstance e MegaError then Over (Inr False) (map_option (release email n) L) else Over (Inl e) L
               | Inr _ \<Rightarrow>
                   (case uw_make W email of
                      Inl e \<Rightarrow> Over (Inl e) L
                    | Inr _ \<Rightarrow>
                        (case attempt_upload W tree email L of
                           (Inr ok, L) \<Rightarrow> Over (Inr ok) L
                         | (Inl e, L) \<Rightarrow> failed_upload W tree n email e L)))))"

section \<open>The job ends\<close>

lemma foldl_larger_in: "foldl larger c cs \<in> set (c # cs)"
proof (induction cs arbitrary: c)
  case (Cons d cs)
  have "foldl larger (larger c d) cs \<in> set (larger c d # cs)" by (rule Cons)
  moreover have "larger c d \<in> {c, d}" by (simp add: larger_def)
  ultimately show ?case by auto
qed simp

lemma reserve_facts:
  assumes "reserve n exclude L = (Some email, L')"
  shows "\<exists>free. (email, free) \<in> set L \<and> n \<le> free \<and> email \<notin> set exclude \<and> L' = dict_set email (free - n) L"
proof -
  let ?cs = "filter (\<lambda>(email, free). n \<le> free \<and> email \<notin> set exclude) L"
  obtain c cs where c: "?cs = c # cs" using assms by (cases ?cs) (simp_all add: reserve_def)
  obtain e f where m: "foldl larger c cs = (e, f)" by fastforce
  then have "(e, f) \<in> set ?cs" using foldl_larger_in [of c cs] unfolding c by simp
  then have "(e, f) \<in> set L" "n \<le> f" "e \<notin> set exclude" by auto
  moreover have "e = email \<and> dict_set e (f - n) L = L'" using assms c m by (auto simp: reserve_def)
  ultimately show ?thesis by blast
qed

lemma reserve_none: "reserve n exclude L = (None, L') \<Longrightarrow> L' = L"
  by (auto simp: reserve_def split: list.splits prod.splits)

lemma reserve_map:
  assumes "reserve n exclude L = (Some e, L')"
  shows "e \<in> dom (map_of L)" "e \<notin> set exclude" "dom (map_of L') = dom (map_of L)"
    and "distinct (map fst L) \<Longrightarrow> \<exists>m. map_of L e = Some m \<and> n \<le> m \<and> map_of L' = (map_of L)(e \<mapsto> m - n)"
    and "distinct (map fst L) \<Longrightarrow> distinct (map fst L')"
proof -
  obtain m where m: "(e, m) \<in> set L" "n \<le> m" "e \<notin> set exclude" "L' = dict_set e (m - n) L"
    using reserve_facts [OF assms] by blast
  have "e \<in> fst ` set L" using m(1) by force
  then show "e \<in> dom (map_of L)" "e \<notin> set exclude" using m(3) by (simp_all add: dom_map_of_conv_image_fst)
  then show "dom (map_of L') = dom (map_of L)" unfolding m(4) by auto
  show "\<exists>m. map_of L e = Some m \<and> n \<le> m \<and> map_of L' = (map_of L)(e \<mapsto> m - n)" if "distinct (map fst L)"
    using m that by (intro exI [of _ m]) simp
  show "distinct (map fst L')" if "distinct (map fst L)" using that unfolding m(4) by (rule distinct_dict_set)
qed

lemma release_map: "map_of (release e n L) = (case map_of L e of None \<Rightarrow> map_of L | Some m \<Rightarrow> (map_of L)(e \<mapsto> m + n))"
  by (simp add: release_def split: option.split)

lemma release_dom [simp]: "dom (map_of (release e n L)) = dom (map_of L)"
  by (auto simp: release_map split: option.splits)

lemma release_distinct: "distinct (map fst L) \<Longrightarrow> distinct (map fst (release e n L))"
  by (simp add: release_def distinct_dict_set split: option.split)

text \<open>The balance of one account is replaced, downwards.\<close>

definition lowered :: "string \<Rightarrow> ledger \<Rightarrow> ledger \<Rightarrow> bool" where
  "lowered e L L' \<longleftrightarrow> (\<exists>m. map_of L' = (map_of L)(e \<mapsto> m) \<and> (\<forall>k. map_of L e = Some k \<longrightarrow> m \<le> k))
    \<and> (distinct (map fst L) \<longrightarrow> distinct (map fst L'))"

lemma lowered_reconcile: "lowered e L (reconcile_free e n L)"
proof -
  let ?m = "min (case map_of L e of None \<Rightarrow> 0 | Some k \<Rightarrow> k) (max 0 n)"
  have "map_of (reconcile_free e n L) = (map_of L)(e \<mapsto> ?m)" by (simp add: reconcile_free_def Let_def)
  moreover have "\<forall>k. map_of L e = Some k \<longrightarrow> ?m \<le> k" by simp
  ultimately show ?thesis using distinct_dict_set by (auto simp: lowered_def reconcile_free_def Let_def)
qed

lemma lowered_trans:
  assumes "lowered e L L'" and "lowered e L' L''"
  shows "lowered e L L''"
proof -
  obtain m m' where m: "map_of L' = (map_of L)(e \<mapsto> m)" "\<forall>k. map_of L e = Some k \<longrightarrow> m \<le> k"
    "map_of L'' = (map_of L')(e \<mapsto> m')" "m' \<le> m"
    using assms by (auto simp: lowered_def)
  then have "map_of L'' = (map_of L)(e \<mapsto> m')" "\<forall>k. map_of L e = Some k \<longrightarrow> m' \<le> k" by auto
  then show ?thesis using assms by (auto simp: lowered_def)
qed

lemma lowered_refl: "e \<in> dom (map_of L) \<Longrightarrow> lowered e L L"
  by (auto simp: lowered_def) (metis fun_upd_triv order_refl)

lemma lowered_dom: "lowered e L L' \<Longrightarrow> e \<in> dom (map_of L) \<Longrightarrow> dom (map_of L') = dom (map_of L)"
  by (auto simp: lowered_def split: if_splits)

lemma refresh_map:
  assumes "refresh_quota_after_error W e (Some l) = (r, L)" and "e \<in> dom (map_of l)"
  shows "\<exists>l'. L = Some l' \<and> lowered e l l'"
proof (cases "uw_known W e")
  case True
  obtain x l1 where x: "(case uw_quota W e of Inl e \<Rightarrow> (Inl e, l)
      | Inr (used, quota) \<Rightarrow> (uw_save W e, reconcile_free e (quota - used) l)) = (x, l1)" by fastforce
  then have "lowered e l l1" using lowered_refl [OF assms(2)] lowered_reconcile by (auto split: sum.splits prod.splits)
  moreover have "L = Some l1 \<or> L = Some (reconcile_free e 0 l1)"
    using assms(1) True x by (auto simp: refresh_quota_after_error_def split: sum.splits if_splits)
  ultimately show ?thesis using lowered_trans [OF _ lowered_reconcile] by blast
next
  case False
  then show ?thesis using assms(1) lowered_reconcile by (auto simp: refresh_quota_after_error_def)
qed

lemma refresh_none [simp]: "refresh_quota_after_error W e None = (Inr (), None)"
  by (simp add: refresh_quota_after_error_def)

lemma attempt_upload_keys:
  assumes "attempt_upload W tree e (Some l) = (r, L)" and "e \<in> dom (map_of l)"
  shows "\<exists>l'. L = Some l' \<and> dom (map_of l') = dom (map_of l)"
proof (cases "tree \<and> upload_structured_directory (uw_tree W e) = Inr False")
  case True
  obtain x L1 where x: "refresh_quota_after_error W e (Some l) = (x, L1)" by fastforce
  then have "L = L1" using assms(1) True by (auto simp: attempt_upload_def split: sum.splits)
  then show ?thesis using refresh_map [OF x assms(2)] lowered_dom assms(2) by blast
next
  case False
  then have "L = Some l" using assms(1) by (auto simp: attempt_upload_def split: sum.splits bool.splits if_splits)
  then show ?thesis by simp
qed

lemma failed_upload_again:
  assumes "failed_upload W tree n e x (Some l) = Again e' l'" and "e \<in> dom (map_of l)"
  shows "e' = e \<and> dom (map_of l') = dom (map_of l) \<and> isinstance x QuotaError \<and> \<not> tree
    \<and> (\<exists>y. refresh_quota_after_error W e (Some l) = (Inr y, Some l'))"
proof -
  obtain y L1 where y: "refresh_quota_after_error W e (Some l) = (y, L1)" by fastforce
  obtain l1 where l1: "L1 = Some l1" "lowered e l l1" using refresh_map [OF y assms(2)] by blast
  have "e' = e \<and> l' = l1 \<and> isinstance x QuotaError \<and> \<not> tree \<and> (\<exists>z. y = Inr z)"
    using assms(1) y l1 by (auto simp: failed_upload_def again_without_def split: if_splits sum.splits)
  then show ?thesis using y l1 lowered_dom [OF l1(2) assms(2)] by auto
qed

lemma turn_again:
  assumes "upload_turn W tree n fixed attempted L = Again e l'"
  shows "\<exists>l. L = Some l \<and> e \<in> dom (map_of l) \<and> e \<notin> set attempted \<and> dom (map_of l') = dom (map_of l)"
proof (cases L)
  case None
  then show ?thesis using assms
    by (auto simp: upload_turn_def again_without_def attempt_upload_def failed_upload_def
        split: option.splits sum.splits if_splits bool.splits prod.splits)
next
  case (Some l)
  obtain pick l1 where r: "reserve n attempted l = (pick, l1)" by fastforce
  obtain e1 where e1: "pick = Some e1" using assms Some r by (cases pick) (simp_all add: upload_turn_def)
  note k = reserve_map [OF r [unfolded e1]]
  obtain x L2 where x: "attempt_upload W tree e1 (Some l1) = (x, L2)" by fastforce
  then obtain l2 where l2: "L2 = Some l2" "dom (map_of l2) = dom (map_of l1)" using attempt_upload_keys k by blast
  have "e = e1 \<and> l' = release e1 n l1 \<or> (\<exists>y. failed_upload W tree n e1 y L2 = Again e l')"
    using assms Some r e1 x by (auto simp: upload_turn_def again_without_def split: sum.splits if_splits bool.splits)
  then show ?thesis
  proof
    assume "e = e1 \<and> l' = release e1 n l1"
    then show ?thesis using Some k by simp
  next
    assume "\<exists>y. failed_upload W tree n e1 y L2 = Again e l'"
    then obtain y where "failed_upload W tree n e1 y (Some l2) = Again e l'" using l2 by auto
    from failed_upload_again [OF this] have "e = e1" "dom (map_of l') = dom (map_of l)" using l2 k by simp_all
    then show ?thesis using k Some by simp
  qed
qed

text \<open>The loop of \<open>_upload_one_sequential\<close>. It ends because an account is tried once.\<close>

definition accounts_left :: "string list \<Rightarrow> ledger option \<Rightarrow> nat" where
  "accounts_left attempted L = (case L of None \<Rightarrow> 0 | Some l \<Rightarrow> card (dom (map_of l) - set attempted))"

function upload_one :: "upload_world \<Rightarrow> bool \<Rightarrow> int \<Rightarrow> string option \<Rightarrow> string list \<Rightarrow> ledger option \<Rightarrow> bool py \<times> ledger option" where
  "upload_one W tree n fixed attempted L =
    (case upload_turn W tree n fixed attempted L of
       Over r L \<Rightarrow> (r, L)
     | Again email l \<Rightarrow> upload_one W tree n fixed (email # attempted) (Some l))"
  by pat_completeness auto

termination
proof (relation "measure (\<lambda>(W, tree, n, fixed, attempted, L). accounts_left attempted L)")
  fix W tree n fixed attempted L email l
  assume "upload_turn W tree n fixed attempted L = Again email l"
  then obtain l0 where l0: "L = Some l0" "email \<in> dom (map_of l0)" "email \<notin> set attempted" "dom (map_of l) = dom (map_of l0)"
    using turn_again by blast
  then have "dom (map_of l) - set (email # attempted) \<subset> dom (map_of l0) - set attempted" by auto
  then have "card (dom (map_of l) - set (email # attempted)) < card (dom (map_of l0) - set attempted)"
    by (intro psubset_card_mono) (simp_all add: finite_dom_map_of)
  then show "((W, tree, n, fixed, email # attempted, Some l), (W, tree, n, fixed, attempted, L))
      \<in> measure (\<lambda>(W, tree, n, fixed, attempted, L). accounts_left attempted L)"
    using l0 by (simp add: accounts_left_def)
qed simp

declare upload_one.simps [simp del]

section \<open>Where the space goes\<close>

text \<open>What the guarded part ends with for a file, and the accounts that are out of quota for it.\<close>

definition landed :: "upload_world \<Rightarrow> string \<Rightarrow> bool" where
  "landed W e \<longleftrightarrow> uw_file W e = Inr () \<and> (\<exists>l. finalize_upload_success (uw_share W) (uw_export W e) = Inr l)"

definition out_of_quota :: "upload_world \<Rightarrow> string \<Rightarrow> bool" where
  "out_of_quota W e \<longleftrightarrow> (\<exists>x. uw_file W e = Inl x \<and> isinstance x QuotaError)"

text \<open>The balance of an account is what it was, or less when the account was out of quota.\<close>

definition kept :: "upload_world \<Rightarrow> ledger \<Rightarrow> ledger \<Rightarrow> string \<Rightarrow> bool" where
  "kept W L L' e \<longleftrightarrow> map_of L' e = map_of L e
    \<or> out_of_quota W e \<and> (\<exists>m m'. map_of L e = Some m \<and> map_of L' e = Some m' \<and> m' \<le> m)"

lemma kept_trans: "kept W L L' e \<Longrightarrow> kept W L' L'' e \<Longrightarrow> kept W L L'' e"
  by (auto simp: kept_def) (metis option.inject order_trans)+

lemma kept_released:
  assumes "map_of L' = (map_of L)(e \<mapsto> m - n)" and "map_of L e = Some m"
  shows "kept W L (release e n L') e'"
  using assms by (auto simp: kept_def release_map)

lemma quota_is_mega: "isinstance e QuotaError \<Longrightarrow> isinstance e MegaError"
  by (cases "exc_cls e") (simp_all add: isinstance_def ancestors_5)

lemma finalize_error: "finalize_upload_success share r = Inl e \<Longrightarrow> \<not> isinstance e MegaError"
  by (auto simp: finalize_upload_success_def split: if_splits sum.splits)

lemma turn_kept:
  assumes "upload_turn W False n fixed attempted (Some l) = t" and "distinct (map fst l)" and "0 \<le> n"
  shows "case t of
      Again e l' \<Rightarrow> distinct (map fst l') \<and> (\<forall>a. kept W l l' a)
    | Over (Inr ok) L \<Rightarrow>
        (\<exists>l'. L = Some l' \<and> distinct (map fst l')
          \<and> (if ok then \<exists>e m. map_of l e = Some m \<and> n \<le> m \<and> landed W e \<and> map_of l' = (map_of l)(e \<mapsto> m - n)
             else \<forall>a. kept W l l' a))
    | Over (Inl x) L \<Rightarrow> True"
proof -
  obtain pick l1 where r: "reserve n attempted l = (pick, l1)" by fastforce
  show ?thesis
  proof (cases pick)
    case None
    then show ?thesis using assms(1,2) r reserve_none [of n attempted l l1] by (auto simp: upload_turn_def kept_def)
  next
    case (Some e)
    obtain m where m: "map_of l e = Some m" "n \<le> m" "map_of l1 = (map_of l)(e \<mapsto> m - n)" "distinct (map fst l1)"
      using reserve_map(4,5) [OF r [unfolded Some] assms(2)] by blast
    have free: "distinct (map fst (release e n l1)) \<and> (\<forall>a. kept W l (release e n l1) a)"
      using release_distinct [OF m(4)] kept_released [OF m(3,1)] by simp
    let ?a = "bindR (uw_file W e) (\<lambda>_. bindR (finalize_upload_success (uw_share W) (uw_export W e)) (\<lambda>_. Inr True))"
    consider y where "t = Over (Inl y) (Some l1)" | "t = Over (Inr False) (Some (release e n l1))" | "t = Again e (release e n l1)"
      | "?a = Inr True" "t = Over (Inr True) (Some l1)" | y where "?a = Inl y" "t = failed_upload W False n e y (Some l1)"
      using assms(1) r Some
      by (cases "uw_worker W e"; cases "uw_target W e"; cases "uw_make W e"; cases ?a)
        (auto simp: upload_turn_def again_without_def attempt_upload_def bindR_Inr_iff split: if_splits bool.splits)
    then show ?thesis
    proof cases
      case 4
      then have "landed W e" by (auto simp: landed_def bindR_Inr_iff)
      then show ?thesis using 4 m by auto
    next
      case (5 y)
      show ?thesis
      proof (cases "isinstance y QuotaError")
        case True
        obtain x L2 where x: "refresh_quota_after_error W e (Some l1) = (x, L2)" by fastforce
        have "e \<in> dom (map_of l1)" using m by simp
        then obtain l2 where l2: "L2 = Some l2" "lowered e l1 l2" using refresh_map [OF x] by blast
        have "out_of_quota W e" using 5(1) True finalize_error quota_is_mega [OF True] by (auto simp: out_of_quota_def bindR_Inl_iff)
        moreover obtain k where "map_of l2 = (map_of l1)(e \<mapsto> k)" "k \<le> m - n" "distinct (map fst l2)"
          using l2(2) m by (auto simp: lowered_def)
        ultimately have "distinct (map fst l2) \<and> (\<forall>a. kept W l l2 a)" using m assms(3) by (simp add: kept_def)
        then show ?thesis using 5 True x l2 by (auto simp: failed_upload_def again_without_def split: sum.splits)
      qed (use 5 free in \<open>auto simp: failed_upload_def\<close>)
    qed (use free in auto)
  qed
qed

lemma landed_not_out: "landed W e \<Longrightarrow> \<not> out_of_quota W e"
  by (auto simp: landed_def out_of_quota_def)

lemma kept_not_out: "kept W L L' e \<Longrightarrow> \<not> out_of_quota W e \<Longrightarrow> map_of L' e = map_of L e"
  by (auto simp: kept_def)

text \<open>
  C22: a file costs the space of the one account it landed on. When the job of a file ends, its size is
  taken from that account, which had it, and every other balance is what it was, except that an account
  that answered that its quota is exhausted is set to no more than it had; a job that failed costs
  nothing.
\<close>

theorem job_settles_ledger:
  assumes "distinct (map fst l)" and "0 \<le> n" and "upload_one W False n fixed attempted (Some l) = (Inr ok, L')"
  shows "\<exists>l'. L' = Some l'
    \<and> (if ok then \<exists>e m. map_of l e = Some m \<and> n \<le> m \<and> landed W e \<and> map_of l' e = Some (m - n) \<and> (\<forall>a. a \<noteq> e \<longrightarrow> kept W l l' a)
       else \<forall>a. kept W l l' a)"
proof -
  have "L = Some l \<Longrightarrow> \<not> tree \<Longrightarrow> upload_one W tree n fixed attempted L = (Inr ok, L') \<Longrightarrow> distinct (map fst l) \<Longrightarrow> 0 \<le> n \<Longrightarrow> ?thesis" for L tree
  proof (induction W tree n fixed attempted L arbitrary: l rule: upload_one.induct)
    case (1 W tree n fixed attempted L)
    note t = turn_kept [OF refl 1(5,6), of W fixed attempted]
    show ?case
    proof (cases "upload_turn W False n fixed attempted (Some l)")
      case (Over r K)
      then have "r = Inr ok" "K = L'" using 1(2,3,4) by (simp_all add: upload_one.simps [of W False n fixed attempted "Some l"])
      then show ?thesis using t Over by (cases ok) (auto simp: kept_def)
    next
      case (Again e l1)
      then have k: "distinct (map fst l1)" "\<forall>a. kept W l l1 a" using t by simp_all
      have u: "upload_turn W tree n fixed attempted L = Again e l1" using Again 1(2,3) by simp
      then have "upload_one W tree n fixed (e # attempted) (Some l1) = (Inr ok, L')"
        using 1(4) by (simp add: upload_one.simps [of W tree n fixed attempted L])
      from "1.IH" [OF u refl 1(3) this k(1) 1(6)] obtain l' where l': "L' = Some l'"
        "if ok then \<exists>e m. map_of l1 e = Some m \<and> n \<le> m \<and> landed W e \<and> map_of l' e = Some (m - n) \<and> (\<forall>a. a \<noteq> e \<longrightarrow> kept W l1 l' a)
         else \<forall>a. kept W l1 l' a" by blast
      show ?thesis
      proof (cases ok)
        case True
        then obtain b m where b: "map_of l1 b = Some m" "n \<le> m" "landed W b" "map_of l' b = Some (m - n)" "\<forall>a. a \<noteq> b \<longrightarrow> kept W l1 l' a"
          using l'(2) by auto
        have "map_of l b = Some m" using kept_not_out [of W l l1 b] k(2) landed_not_out [OF b(3)] b(1) by simp
        moreover have "\<forall>a. a \<noteq> b \<longrightarrow> kept W l l' a" using k(2) b(5) kept_trans by blast
        ultimately show ?thesis using True l'(1) b by auto
      next
        case False
        then have "\<forall>a. kept W l l' a" using l'(2) k(2) kept_trans by (metis (full_types))
        then show ?thesis using False l'(1) by simp
      qed
    qed
  qed
  then show ?thesis using assms by blast
qed

section \<open>No account is promised twice\<close>

text \<open>
  The calls of all jobs in the order in which they hold the lock: a reservation, the return of one that is
  held, the correction of a balance. With the ledger go the reservations that were made and not returned.
\<close>

datatype ledger_event = Reserve int "string list" | Release nat | Reconcile string int

fun ledger_step :: "ledger_event \<Rightarrow> ledger \<times> (string \<times> int) list \<Rightarrow> ledger \<times> (string \<times> int) list" where
  "ledger_step (Reserve n exclude) (L, held) =
    (case reserve n exclude L of (None, L) \<Rightarrow> (L, held) | (Some e, L) \<Rightarrow> (L, (e, n) # held))"
| "ledger_step (Release i) (L, held) =
    (if i < length held then (release (fst (held ! i)) (snd (held ! i)) L, take i held @ drop (Suc i) held) else (L, held))"
| "ledger_step (Reconcile e n) (L, held) = (reconcile_free e n L, held)"

definition ledger_run :: "ledger_event list \<Rightarrow> ledger \<times> (string \<times> int) list \<Rightarrow> ledger \<times> (string \<times> int) list" where
  "ledger_run evs s = foldl (\<lambda>s ev. ledger_step ev s) s evs"

definition held_by :: "string \<Rightarrow> (string \<times> int) list \<Rightarrow> int" where
  "held_by e held = sum_list (map snd (filter (\<lambda>p. fst p = e) held))"

lemma held_by_simps [simp]:
  "held_by e [] = 0" "held_by e (p # held) = (if fst p = e then snd p else 0) + held_by e held"
  "held_by e (xs @ ys) = held_by e xs + held_by e ys"
  by (simp_all add: held_by_def)

text \<open>Every account of the ledger has its balance and its reservations within its capacity.\<close>

definition committed_within :: "(string \<Rightarrow> int) \<Rightarrow> ledger \<times> (string \<times> int) list \<Rightarrow> bool" where
  "committed_within cap s \<longleftrightarrow> distinct (map fst (fst s)) \<and> (\<forall>p \<in> set (snd s). 0 \<le> snd p \<and> fst p \<in> dom (map_of (fst s)))
    \<and> (\<forall>e m. map_of (fst s) e = Some m \<longrightarrow> 0 \<le> m \<and> held_by e (snd s) + m \<le> cap e)"

lemma held_by_nonneg: "\<forall>p \<in> set held. 0 \<le> snd p \<Longrightarrow> 0 \<le> held_by e held"
  by (induction held) auto

lemma held_by_absent: "e \<notin> fst ` set held \<Longrightarrow> held_by e held = 0"
  by (induction held) auto

lemma ledger_step_within:
  assumes "committed_within cap (L, held)" and "case ev of Reserve n _ \<Rightarrow> 0 \<le> n | _ \<Rightarrow> True" and "\<forall>e. 0 \<le> cap e"
  shows "committed_within cap (ledger_step ev (L, held))"
proof (cases ev)
  case (Reserve n exclude)
  obtain pick L1 where r: "reserve n exclude L = (pick, L1)" by fastforce
  show ?thesis
  proof (cases pick)
    case None
    then show ?thesis using assms(1) r reserve_none [of n exclude L L1] by (simp add: Reserve)
  next
    case (Some e)
    obtain m where m: "map_of L e = Some m" "n \<le> m" "map_of L1 = (map_of L)(e \<mapsto> m - n)" "distinct (map fst L1)"
      using reserve_map(4,5) [OF r [unfolded Some]] assms(1) by (auto simp: committed_within_def)
    have "0 \<le> m" "held_by e held + m \<le> cap e" using assms(1) m(1) by (simp_all add: committed_within_def)
    then show ?thesis using assms(1,2) m by (auto simp: Reserve r Some committed_within_def)
  qed
next
  case (Release i)
  show ?thesis
  proof (cases "i < length held")
    case True
    obtain e n where p: "held ! i = (e, n)" by fastforce
    have split: "held = take i held @ (e, n) # drop (Suc i) held" using id_take_nth_drop [OF True] p by simp
    have in_held: "(e, n) \<in> set held" using True p by (metis nth_mem)
    then obtain m where m: "0 \<le> n" "map_of L e = Some m" using assms(1) by (force simp: committed_within_def)
    have sub: "set (take i held @ drop (Suc i) held) \<subseteq> set held" by (auto dest: in_set_takeD in_set_dropD)
    have held: "held_by a held = held_by a (take i held @ drop (Suc i) held) + (if a = e then n else 0)" for a
      by (subst split) simp
    have "map_of (release e n L) = (map_of L)(e \<mapsto> m + n)" "distinct (map fst (release e n L))"
      using m assms(1) release_distinct by (auto simp: release_map committed_within_def)
    then show ?thesis using assms(1) m sub held by (fastforce simp: Release True p committed_within_def)
  qed (use assms(1) Release in simp)
next
  case (Reconcile e n)
  define k where "k = min (case map_of L e of None \<Rightarrow> 0 | Some m \<Rightarrow> m) (max 0 n)"
  have k: "map_of (reconcile_free e n L) = (map_of L)(e \<mapsto> k)" by (simp add: reconcile_free_def Let_def k_def)
  have d: "distinct (map fst (reconcile_free e n L))"
    using assms(1) distinct_dict_set by (auto simp: committed_within_def reconcile_free_def Let_def)
  have "0 \<le> k \<and> held_by e held + k \<le> cap e"
  proof (cases "map_of L e")
    case None
    then have "e \<notin> fst ` set held" using assms(1) by (force simp: committed_within_def)
    then show ?thesis using None assms(3) by (simp add: k_def held_by_absent)
  next
    case (Some m)
    then have "0 \<le> m" "held_by e held + m \<le> cap e" using assms(1) by (simp_all add: committed_within_def)
    then show ?thesis using Some by (simp add: k_def)
  qed
  then show ?thesis using assms(1) k d by (auto simp: Reconcile committed_within_def)
qed

lemma make_ledger_map: "map_of (make_ledger free) e = map_option (max 0) (map_of free e)"
  by (induction free) (auto simp: make_ledger_def)

text \<open>
  C21: no account is promised more than it has. However the calls of the jobs interleave, the
  reservations that an account has not got back never exceed its free space at the start, and what the
  ledger still offers fits beside them.
\<close>

theorem reservations_never_overcommit:
  assumes "distinct (map fst free)" and "\<forall>ev \<in> set evs. case ev of Reserve n _ \<Rightarrow> 0 \<le> n | _ \<Rightarrow> True"
    and "ledger_run evs (make_ledger free, []) = (L, held)" and "map_of L e = Some m"
  shows "0 \<le> m \<and> 0 \<le> held_by e held \<and> held_by e held + m \<le> (case map_of free e of None \<Rightarrow> 0 | Some n \<Rightarrow> max 0 n)"
proof -
  define cap where "cap = (\<lambda>e. case map_of free e of None \<Rightarrow> 0 | Some n \<Rightarrow> max 0 n)"
  have "\<forall>ev \<in> set evs. case ev of Reserve n _ \<Rightarrow> 0 \<le> n | _ \<Rightarrow> True \<Longrightarrow> committed_within cap s \<Longrightarrow> committed_within cap (ledger_run evs s)" for evs s
  proof (induction evs arbitrary: s)
    case (Cons ev evs)
    have "\<forall>e. 0 \<le> cap e" by (simp add: cap_def split: option.split)
    then have "committed_within cap (ledger_step ev s)" using ledger_step_within [of cap "fst s" "snd s" ev] Cons.prems by simp
    then show ?case using Cons by (simp add: ledger_run_def)
  qed (simp add: ledger_run_def)
  moreover have "map fst (make_ledger free) = map fst free" by (simp add: make_ledger_def case_prod_beta)
  then have "committed_within cap (make_ledger free, [])"
    using assms(1) by (auto simp: committed_within_def make_ledger_map cap_def)
  ultimately have c: "committed_within cap (L, held)" using assms(2,3) by fastforce
  then have "0 \<le> held_by e held" by (intro held_by_nonneg) (simp add: committed_within_def)
  then show ?thesis using c assms(4) by (simp add: committed_within_def cap_def)
qed

definition demo_jobs :: upload_world where
  "demo_jobs = \<lparr>uw_worker = (\<lambda>_. Inr True), uw_target = (\<lambda>_. Inr ()), uw_make = (\<lambda>_. Inr ()),
     uw_file = (\<lambda>e. if e = ''b'' then raise QuotaError else Inr ()), uw_tree = (\<lambda>_. (Inr (), [])), uw_share = False,
     uw_export = (\<lambda>_. Inr ''u''), uw_known = (\<lambda>_. True), uw_quota = (\<lambda>_. Inr (95, 100)), uw_save = (\<lambda>_. Inr ())\<rparr>"

definition demo_before :: ledger where
  "demo_before = [(''a'', 40), (''b'', 70), (''c'', 10)]"

definition demo_after :: ledger where
  "demo_after = [(''a'', 10), (''b'', 5), (''c'', 10)]"

lemma demo_job: "upload_one demo_jobs False 30 None [] (Some demo_before) = (Inr True, Some demo_after)"
proof -
  have "upload_turn demo_jobs False 30 None [] (Some demo_before) = Again ''b'' [(''a'', 40), (''b'', 5), (''c'', 10)]" by code_simp
  moreover have "upload_turn demo_jobs False 30 None [''b''] (Some [(''a'', 40), (''b'', 5), (''c'', 10)])
      = Over (Inr True) (Some demo_after)" by code_simp
  ultimately show ?thesis by (simp add: upload_one.simps)
qed

theorem job_settles_ledger_witness:
  "\<exists>e m. map_of demo_before e = Some m \<and> 30 \<le> m \<and> landed demo_jobs e \<and> map_of demo_after e = Some (m - 30)"
proof -
  have "distinct (map fst demo_before)" "(0 :: int) \<le> 30" by (simp_all add: demo_before_def)
  from job_settles_ledger [OF this demo_job] show ?thesis by auto
qed

theorem reservations_never_overcommit_witness:
  "ledger_run [Reserve 30 [], Reserve 30 [], Reconcile ''b'' 90, Release 1, Reserve 35 []] (make_ledger [(''a'', 40), (''b'', 70)], [])
    = ([(''a'', 40), (''b'', 5)], [(''b'', 35), (''b'', 30)]) \<and> (35 :: int) + 30 + 5 \<le> 70"
proof -
  have r: "ledger_run [Reserve 30 [], Reserve 30 [], Reconcile ''b'' 90, Release 1, Reserve 35 []] (make_ledger [(''a'', 40), (''b'', 70)], [])
    = ([(''a'', 40), (''b'', 5)], [(''b'', 35), (''b'', 30)])" by code_simp
  show ?thesis using reservations_never_overcommit [OF _ _ r, of "''b''" 5] r by (simp add: held_by_def)
qed

section \<open>What a share or a transport fault costs\<close>

text \<open>
  A public link that cannot be made is meant to leave the upload a success, and does for a \<open>MegaError\<close>;
  any other exception of the request makes it a failure and returns the space that the file occupies.
\<close>

lemma share_fault_fails_upload:
  assumes "reserve n attempted l = (Some e, l1)" and "uw_worker W e = Inr True" and "uw_target W e = Inr ()" and "uw_make W e = Inr ()"
    and "uw_file W e = Inr ()" and "uw_share W" and "uw_export W e = raise HTTPError"
  shows "upload_one W False n fixed attempted (Some l) = (Inr False, Some (release e n l1))"
proof -
  have "\<not> isinstance (Exc HTTPError None) MegaError" "\<not> isinstance (Exc HTTPError None) QuotaError" by code_simp+
  then show ?thesis using assms
    by (simp add: upload_one.simps upload_turn_def attempt_upload_def finalize_upload_success_def failed_upload_def)
qed

text \<open>A transport fault while the target is resolved ends the whole batch, and the reservation stays.\<close>

lemma target_fault_escapes:
  assumes "reserve n attempted l = (Some e, l1)" and "uw_worker W e = Inr True" and "uw_target W e = raise HTTPError"
  shows "upload_one W False n fixed attempted (Some l) = (raise HTTPError, Some l1)"
proof -
  have "\<not> isinstance (Exc HTTPError None) MegaError" by code_simp
  then show ?thesis using assms by (simp add: upload_one.simps upload_turn_def)
qed

end
