(* ===== verification/RateLimit.thy ===== *)
theory RateLimit
  imports Complex_Main Errors
begin

text \<open>
  \<open>utils/speed.py\<close>: the token bucket that limits the rate of all transfers of a command, and the rolling
  speed meter. Floats are rationals here, so the bounds hold up to their rounding; the clock is the list
  of its readings, in the order in which the lock is held.
\<close>

section \<open>The token bucket\<close>

record bucket =
  tb_rate :: rat
  tb_burst :: rat
  tb_tokens :: rat
  tb_last :: rat

definition make_bucket :: "rat \<Rightarrow> rat option \<Rightarrow> rat \<Rightarrow> bucket" where
  "make_bucket rate burst now =
    (let b = (case burst of None \<Rightarrow> max rate 1 | Some b \<Rightarrow> b)
     in \<lparr>tb_rate = rate, tb_burst = b, tb_tokens = b, tb_last = now\<rparr>)"

definition set_rate :: "rat \<Rightarrow> bucket \<Rightarrow> bucket" where
  "set_rate rate b =
    (let burst = max (tb_burst b) rate
     in b\<lparr>tb_rate := rate, tb_burst := burst, tb_tokens := min (tb_tokens b) burst\<rparr>)"

text \<open>
  One turn of \<open>consume\<close> under the lock, for the bytes that remain: what remains afterwards, and the time
  to sleep when that is not nothing.
\<close>

definition take_tokens :: "rat \<Rightarrow> rat \<Rightarrow> bucket \<Rightarrow> rat \<times> rat option \<times> bucket" where
  "take_tokens now remaining b =
    (if tb_rate b \<le> 0 then (0, None, b)
     else let elapsed = max 0 (now - tb_last b);
              tokens = min (tb_burst b) (tb_tokens b + elapsed * tb_rate b);
              taken = min remaining tokens;
              b' = b\<lparr>tb_last := now, tb_tokens := tokens - taken\<rparr>;
              left = remaining - taken
          in if left \<le> 0 then (left, None, b')
             else (left, Some (min (min left (tb_burst b) / tb_rate b) 1), b'))"

text \<open>\<open>consume\<close>, over the readings of the clock: \<open>None\<close> when they end before it returns.\<close>

fun consume_from :: "rat list \<Rightarrow> rat \<Rightarrow> bucket \<Rightarrow> bucket option" where
  "consume_from [] remaining b = None"
| "consume_from (now # clock) remaining b =
    (case take_tokens now remaining b of
       (_, None, b) \<Rightarrow> Some b
     | (left, Some _, b) \<Rightarrow> consume_from clock left b)"

definition consume :: "rat list \<Rightarrow> rat \<Rightarrow> bucket \<Rightarrow> bucket option" where
  "consume clock amount b = (if amount \<le> 0 then Some b else consume_from clock amount b)"

datatype limiter = NoLimit | Limit bucket

definition make_limiter :: "rat \<Rightarrow> rat \<Rightarrow> limiter" where
  "make_limiter kbps now = (if kbps \<le> 0 then NoLimit else Limit (make_bucket (kbps * 1024) None now))"

definition limiter_consume :: "rat list \<Rightarrow> rat \<Rightarrow> limiter \<Rightarrow> limiter option" where
  "limiter_consume clock amount l =
    (case l of NoLimit \<Rightarrow> Some NoLimit | Limit b \<Rightarrow> map_option Limit (consume clock amount b))"

definition limiter_set_rate :: "rat \<Rightarrow> limiter \<Rightarrow> limiter" where
  "limiter_set_rate rate l = (case l of NoLimit \<Rightarrow> NoLimit | Limit b \<Rightarrow> Limit (set_rate rate b))"

section \<open>The speed meter\<close>

text \<open>The samples, oldest first.\<close>

record speed_meter =
  sp_window :: rat
  sp_samples :: "(rat \<times> int) list"
  sp_speed :: rat

definition make_meter :: "rat \<Rightarrow> speed_meter" where
  "make_meter window = \<lparr>sp_window = max 1 window, sp_samples = [], sp_speed = 0\<rparr>"

fun prune :: "rat \<Rightarrow> rat \<Rightarrow> (rat \<times> int) list \<Rightarrow> (rat \<times> int) list" where
  "prune window now (s # t # ss) = (if window < now - fst s then prune window now (t # ss) else s # t # ss)"
| "prune window now ss = ss"

definition meter_update :: "int \<Rightarrow> rat \<Rightarrow> speed_meter \<Rightarrow> rat \<times> speed_meter" where
  "meter_update byte_count now m =
    (let n = max 0 byte_count;
         m = (if sp_samples m \<noteq> [] \<and> n < snd (last (sp_samples m)) then m\<lparr>sp_samples := [], sp_speed := 0\<rparr> else m);
         ss = prune (sp_window m) now (sp_samples m @ [(now, n)]);
         elapsed = fst (last ss) - fst (hd ss); delta = snd (last ss) - snd (hd ss);
         speed = (if 2 \<le> length ss \<and> 1 / 4 \<le> elapsed \<and> 0 \<le> delta then of_int delta / max elapsed (1 / 10 ^ 6) else sp_speed m)
     in (speed, m\<lparr>sp_samples := ss, sp_speed := speed\<rparr>))"

definition meter_current :: "rat \<Rightarrow> speed_meter \<Rightarrow> rat \<times> speed_meter" where
  "meter_current now m =
    (let ss = prune (sp_window m) now (sp_samples m);
         elapsed = now - fst (hd ss); delta = snd (last ss) - snd (hd ss)
     in (if length ss < 2 then 0
         else if elapsed < 1 / 4 \<or> delta < 0 then sp_speed m
         else of_int delta / max elapsed (1 / 10 ^ 6),
         m\<lparr>sp_samples := ss\<rparr>))"

section \<open>The bound\<close>

text \<open>
  A turn of any of the threads: a reading of the clock and what still has to be drained. The bytes that
  the turns of one bucket let through.
\<close>

fun drain :: "(rat \<times> rat) list \<Rightarrow> bucket \<Rightarrow> rat \<times> bucket" where
  "drain [] b = (0, b)"
| "drain ((now, remaining) # turns) b =
    (case take_tokens now remaining b of (left, _, b) \<Rightarrow>
       (case drain turns b of (n, b) \<Rightarrow> (remaining - left + n, b)))"

definition bucket_ok :: "bucket \<Rightarrow> bool" where
  "bucket_ok b \<longleftrightarrow> 0 < tb_rate b \<and> 0 \<le> tb_tokens b \<and> tb_tokens b \<le> tb_burst b"

lemma make_bucket_ok: "0 < rate \<Longrightarrow> bucket_ok (make_bucket rate None now)"
  by (simp add: make_bucket_def bucket_ok_def Let_def)

text \<open>What a turn finds in the bucket.\<close>

definition filled :: "rat \<Rightarrow> bucket \<Rightarrow> rat" where
  "filled now b = min (tb_burst b) (tb_tokens b + max 0 (now - tb_last b) * tb_rate b)"

lemma filled_bounds:
  assumes "bucket_ok b"
  shows "0 \<le> filled now b" "filled now b \<le> tb_burst b"
    and "tb_last b \<le> now \<Longrightarrow> filled now b \<le> tb_tokens b + (now - tb_last b) * tb_rate b"
proof -
  have "0 \<le> max 0 (now - tb_last b) * tb_rate b" using assms by (simp add: bucket_ok_def)
  then show "0 \<le> filled now b" using assms unfolding filled_def bucket_ok_def by linarith
qed (simp_all add: filled_def)

lemma take_tokens_filled:
  assumes "bucket_ok b" and "take_tokens now remaining b = (left, w, b')"
  shows "left = remaining - min remaining (filled now b)"
    and "b' = b\<lparr>tb_last := now, tb_tokens := filled now b - min remaining (filled now b)\<rparr>"
    and "w = (if left \<le> 0 then None else Some (min (min left (tb_burst b) / tb_rate b) 1))"
  using assms by (auto simp: take_tokens_def filled_def bucket_ok_def Let_def split: if_splits)

lemma take_tokens_facts:
  assumes "bucket_ok b" and "0 \<le> remaining" and "tb_last b \<le> now" and "take_tokens now remaining b = (left, w, b')"
  shows "bucket_ok b'" "tb_rate b' = tb_rate b" "tb_burst b' = tb_burst b" "tb_last b' = now"
    and "remaining - left + tb_tokens b' \<le> tb_tokens b + (now - tb_last b) * tb_rate b"
    and "0 \<le> left" "left \<le> remaining"
proof -
  note f = filled_bounds [OF assms(1), of now] and s = take_tokens_filled [OF assms(1,4)]
  show "bucket_ok b'" "tb_rate b' = tb_rate b" "tb_burst b' = tb_burst b" "tb_last b' = now"
    using f(1,2) assms(1,2) s(2) by (auto simp: bucket_ok_def)
  have "remaining - left + tb_tokens b' = filled now b" using s(1,2) by simp
  then show "remaining - left + tb_tokens b' \<le> tb_tokens b + (now - tb_last b) * tb_rate b" using f(3) assms(3) by simp
  show "0 \<le> left" "left \<le> remaining" using f(1) assms(2) s(1) by auto
qed

text \<open>
  C25: the limit holds for all threads together. However the turns of the threads interleave, what a bucket
  lets through is at most its burst and the rate times the time that passed.
\<close>

theorem bucket_bounds_rate:
  assumes "bucket_ok b" and "sorted (tb_last b # map fst turns)" and "\<forall>(now, n) \<in> set turns. 0 \<le> n"
  shows "fst (drain turns b) \<le> tb_burst b + tb_rate b * (last (tb_last b # map fst turns) - tb_last b)"
proof -
  have "fst (drain turns b) \<le> tb_tokens b + tb_rate b * (last (tb_last b # map fst turns) - tb_last b)"
    using assms
  proof (induction turns arbitrary: b)
    case (Cons t turns)
    obtain now n where t: "t = (now, n)" by fastforce
    obtain left w b' where s: "take_tokens now n b = (left, w, b')" by (cases "take_tokens now n b")
    have p: "0 \<le> n" "tb_last b \<le> now" using Cons.prems t by auto
    note f = take_tokens_facts [OF Cons.prems(1) p s]
    have "fst (drain turns b') \<le> tb_tokens b' + tb_rate b' * (last (tb_last b' # map fst turns) - tb_last b')"
      using Cons.prems t f by (intro Cons.IH) auto
    then have "fst (drain (t # turns) b) \<le> n - left + tb_tokens b' + tb_rate b * (last (now # map fst turns) - now)"
      using f s t by (simp add: case_prod_beta)
    also have "\<dots> \<le> tb_tokens b + tb_rate b * (last (now # map fst turns) - tb_last b)"
      using f(5) by (simp add: algebra_simps)
    finally show ?case using t by (simp add: last_ConsR)
  qed (simp add: bucket_ok_def)
  then show ?thesis using assms(1) by (simp add: bucket_ok_def)
qed

text \<open>A sleeper that sleeps at least as long as it was told.\<close>

fun sleeps :: "rat list \<Rightarrow> rat \<Rightarrow> bucket \<Rightarrow> bool" where
  "sleeps (now # later # clock) remaining b =
    (case take_tokens now remaining b of
       (_, None, b) \<Rightarrow> True
     | (left, Some w, b) \<Rightarrow> now + w \<le> later \<and> sleeps (later # clock) left b)"
| "sleeps clock remaining b = True"

lemma turn_drains:
  assumes "bucket_ok b" and "0 < tb_burst b" and "0 < remaining"
    and "tb_last b + min (min remaining (tb_burst b) / tb_rate b) 1 \<le> now"
    and "take_tokens now remaining b = (left, Some w, b')"
  shows "left \<le> remaining - min (tb_burst b) (tb_rate b)" and "0 < left"
    and "tb_last b' = now" and "w = min (min left (tb_burst b) / tb_rate b) 1"
proof -
  let ?m = "min remaining (tb_burst b)" and ?refill = "max 0 (now - tb_last b) * tb_rate b"
  have r: "0 < tb_rate b" "0 \<le> tb_tokens b" using assms(1) by (simp_all add: bucket_ok_def)
  note s = take_tokens_filled [OF assms(1,5)]
  have "min (?m / tb_rate b) 1 * tb_rate b = min ?m (tb_rate b)" using r(1) by (cases "?m \<le> tb_rate b") (simp_all add: min_def)
  moreover have "min (?m / tb_rate b) 1 * tb_rate b \<le> ?refill" using assms(4) r(1) by (intro mult_right_mono) auto
  ultimately have "min ?m (tb_rate b) \<le> tb_tokens b + ?refill" using r(2) by linarith
  then have t: "min remaining (min (tb_burst b) (tb_rate b)) \<le> filled now b" unfolding filled_def by linarith
  show l: "0 < left" and "tb_last b' = now" "w = min (min left (tb_burst b) / tb_rate b) 1" using s by (auto split: if_splits)
  show "left \<le> remaining - min (tb_burst b) (tb_rate b)" using s(1) l t by linarith
qed

lemma consume_from_ends:
  assumes "bucket_ok b" and "0 < tb_burst b" and "0 < remaining" and "remaining \<le> of_nat k * min (tb_burst b) (tb_rate b)"
    and "tb_last b + min (min remaining (tb_burst b) / tb_rate b) 1 \<le> now" and "sleeps (now # clock) remaining b" and "k \<le> Suc (length clock)"
  shows "\<exists>b'. consume_from (now # clock) remaining b = Some b'"
  using assms
proof (induction k arbitrary: remaining b now clock)
  case (Suc k)
  obtain left w b' where s: "take_tokens now remaining b = (left, w, b')" by (cases "take_tokens now remaining b")
  show ?case
  proof (cases w)
    case (Some v)
    note d = turn_drains [OF Suc.prems(1-3,5) s [unfolded Some]]
    have r: "0 < tb_rate b" using Suc.prems(1) by (simp add: bucket_ok_def)
    have "0 \<le> min (min remaining (tb_burst b) / tb_rate b) 1" using r Suc.prems(2,3) by simp
    then have "tb_last b \<le> now" using Suc.prems(5) by linarith
    note f = take_tokens_facts [OF Suc.prems(1) less_imp_le [OF Suc.prems(3)] this s]
    have l: "left \<le> of_nat k * min (tb_burst b) (tb_rate b)" using d(1) Suc.prems(4) by (simp add: algebra_simps)
    then have "k \<noteq> 0" using d(2) by (cases k) auto
    then obtain later clock' where c: "clock = later # clock'" using Suc.prems(7) by (cases clock) auto
    have "now + v \<le> later" "sleeps (later # clock') left b'" using Suc.prems(6) s by (simp_all add: c Some)
    then have "\<exists>b''. consume_from (later # clock') left b' = Some b''"
      using Suc.prems(2,7) d f l by (intro Suc.IH) (simp_all add: c)
    then show ?thesis using s by (simp add: Some c)
  qed (use s in simp)
qed simp

text \<open>
  C26: a limited transfer is not held up for ever. When the sleeper sleeps as long as it is told, the bytes
  of a call are let through after at most as many turns as they contain portions of the smaller of the
  burst and of what one second admits, and one more; no amount is too large for the bucket.
\<close>

theorem limited_transfer_proceeds:
  assumes "bucket_ok b" and "0 < tb_burst b" and "tb_last b \<le> now" and "sleeps (now # clock) amount b"
    and "amount \<le> of_nat k * min (tb_burst b) (tb_rate b)" and "k \<le> length clock"
  shows "\<exists>b'. consume (now # clock) amount b = Some b'"
proof (cases "amount \<le> 0")
  case False
  obtain left w b' where s: "take_tokens now amount b = (left, w, b')" by (cases "take_tokens now amount b")
  show ?thesis
  proof (cases w)
    case (Some v)
    have r: "0 < tb_rate b" using assms(1) by (simp add: bucket_ok_def)
    note f = take_tokens_facts [OF assms(1) _ assms(3) s]
    have l: "0 < left" "v = min (min left (tb_burst b) / tb_rate b) 1"
      using take_tokens_filled(3) [OF assms(1) s] by (auto simp: Some split: if_splits)
    have "k \<noteq> 0" using assms(5) False by (cases k) auto
    then obtain later clock' where c: "clock = later # clock'" using assms(6) by (cases clock) auto
    have "now + v \<le> later" "sleeps (later # clock') left b'" using assms(4) s by (simp_all add: c Some)
    then have "\<exists>b''. consume_from (later # clock') left b' = Some b''"
      using assms(2,5,6) f l False by (intro consume_from_ends [where k = k]) (simp_all add: c)
    then show ?thesis using s False by (simp add: consume_def Some c)
  qed (use s False in \<open>simp add: consume_def\<close>)
qed (simp add: consume_def)

definition demo_bucket :: bucket where
  "demo_bucket = make_bucket 10 None 0"

theorem bucket_bounds_rate_witness:
  "fst (drain [(0, 25), (1, 15), (1, 9), (3, 100)] demo_bucket) = 30 \<and> (30 :: rat) \<le> 10 + 10 * 3"
proof -
  have d: "fst (drain [(0, 25), (1, 15), (1, 9), (3, 100)] demo_bucket) = 30"
    by (simp add: demo_bucket_def make_bucket_def take_tokens_def Let_def)
  show ?thesis
    using bucket_bounds_rate [of demo_bucket "[(0, 25), (1, 15), (1, 9), (3, 100)]"] make_bucket_ok [of 10 0] d
    by (simp add: demo_bucket_def [symmetric])
qed

theorem limited_transfer_proceeds_witness: "\<exists>b'. consume [0, 1, 2, 3] 25 demo_bucket = Some b'"
proof -
  have "sleeps [0, 1, 2, 3] 25 demo_bucket"
    by (simp add: demo_bucket_def make_bucket_def take_tokens_def Let_def)
  then show ?thesis
    using limited_transfer_proceeds [of demo_bucket 0 "[1, 2, 3]" 25 3] make_bucket_ok [of 10 0]
    by (simp add: demo_bucket_def make_bucket_def)
qed

text \<open>The displayed rate is never negative.\<close>

definition meter_ok :: "speed_meter \<Rightarrow> bool" where
  "meter_ok m \<longleftrightarrow> 0 \<le> sp_speed m"

lemma meter_update_ok: "meter_ok m \<Longrightarrow> meter_ok (snd (meter_update n now m)) \<and> 0 \<le> fst (meter_update n now m)"
  by (auto simp: meter_update_def meter_ok_def Let_def)

lemma meter_current_ok: "meter_ok m \<Longrightarrow> meter_ok (snd (meter_current now m)) \<and> 0 \<le> fst (meter_current now m)"
  by (auto simp: meter_current_def meter_ok_def Let_def)

lemma prune_window:
  "prune window now ss = s # t # rest \<Longrightarrow> now - fst s \<le> window"
  by (induction window now ss rule: prune.induct) (auto split: if_splits)

end
