(* ===== verification/Spec2Isabelle.thy ===== *)
theory Spec2Isabelle
  imports Downloader QueueSafety UploadTree Streaming StreamSlots Crypter Splitter FolderShare Selection Accounts SessionStore Hashcash
    ConfigStore Ledger RateLimit
begin

text \<open>
  A verification library of megabasterd-cli, the command line client of the MEGA file service in
  \<open>src/src/megabasterd_cli/\<close>: its transfers, its cryptography, its persistent queue, its streaming
  server and the files it keeps.

  \<^bold>\<open>The program.\<close> A link or an upload becomes a job. The \<open>queue/\<close> package keeps the jobs in one JSON
  file that several processes share under a lock; a worker claims a job under a lease and runs the
  downloader or the uploader of \<open>core/\<close>. Either cuts the file by the chunk plan of \<open>core/chunks.py\<close>,
  moves the chunks over HTTP in a pool of workers, records each in the resume state of
  \<open>core/state.py\<close>, and at the end compares the file MAC of \<open>core/chunks.py\<close> with the one in the file
  key of \<open>core/crypto.py\<close>. Every request takes its route from the selector of \<open>proxy/\<close>.
  \<open>streaming/server.py\<close> serves one remote file over local HTTP with the same ciphers and the same
  range validator. \<open>core/crypter.py\<close> and \<open>core/splitter.py\<close> work on local files alone.

  \<^bold>\<open>Theories and files.\<close> Each theory opens with what it holds; the order is the one of the imports.

  \<^item> \<open>Prelude\<close>: results (\<open>Inl\<close> a raised exception, \<open>Inr\<close> a value) and their sequencing, byte strings,
    slices, insertion-ordered dictionaries, JSON values. \<open>PyText\<close>: Python's text functions, \<open>int()\<close>,
    hexadecimal, and a matcher for the program's regular expressions. \<open>Errors\<close>: the exception classes
    with their bases, \<open>core/errors.py\<close> and the two retry allowlists.
  \<^item> \<open>Encoding\<close>, \<open>Cipher\<close>, \<open>Keys\<close>, \<open>Responses\<close>: \<open>core/crypto.py\<close> (base64, a32 words, CBC, CTR, key wrapping,
    file keys, password links, attributes) and \<open>core/responses.py\<close>. \<open>Chunks\<close>: \<open>core/chunks.py\<close>.
  \<^item> \<open>RangeValidation\<close>: \<open>core/range_validation.py\<close>. \<open>Targets\<close>: \<open>core/_link_http.py\<close>. \<open>ProxyPool\<close>:
    \<open>proxy/smart_proxy.py\<close> and \<open>proxy/selector.py\<close>.
  \<^item> \<open>TransferState\<close> and \<open>StateFile\<close>: \<open>core/state.py\<close>, data and file. \<open>Corruption\<close>: \<open>utils/corruption.py\<close>.
    \<open>Helpers\<close>: \<open>utils/helpers.py\<close>.
  \<^item> \<open>DownloadChunk\<close> and \<open>Downloader\<close>: \<open>core/download_transport.py\<close>, \<open>core/download_verify.py\<close>,
    \<open>core/downloader.py\<close>.
  \<^item> \<open>UploadIdentity\<close>, \<open>UploadChunk\<close>, \<open>Uploader\<close>, \<open>UploadTree\<close>: \<open>core/upload_identity.py\<close>,
    \<open>core/upload_transport.py\<close>, \<open>core/uploader.py\<close>, \<open>core/upload_tree.py\<close>. \<open>Nodes\<close>: \<open>core/nodes.py\<close> and
    \<open>core/cloud.py\<close>.
  \<^item> \<open>Aead\<close>, \<open>SecretBox\<close>, \<open>QueueSchema\<close>, \<open>Queue\<close>, \<open>QueueLease\<close>, \<open>QueueSafety\<close>: the \<open>queue/\<close> package.
  \<^item> \<open>Streaming\<close> and \<open>StreamSlots\<close>: \<open>streaming/server.py\<close>. \<open>AtomicFile\<close>, \<open>Crypter\<close>, \<open>Splitter\<close>:
    \<open>core/crypter.py\<close> and \<open>core/splitter.py\<close>.
  \<^item> \<open>Links\<close>: \<open>core/links.py\<close>. \<open>FolderTree\<close> and \<open>FolderShare\<close>: \<open>core/folder_downloader.py\<close>, the tree of a
    public folder and its download. \<open>Selection\<close>: \<open>utils/selection.py\<close>.
  \<^item> \<open>Hashcash\<close>, \<open>ApiClient\<close>, \<open>Auth\<close>, \<open>SessionStore\<close>: \<open>core/hashcash.py\<close>, \<open>core/api.py\<close>, \<open>core/auth.py\<close> and
    \<open>core/session_store.py\<close>. \<open>Vault\<close> and \<open>Accounts\<close>: \<open>accounts/storage.py\<close> and \<open>accounts/manager.py\<close>.
  \<^item> \<open>ConfigStore\<close>: \<open>config.py\<close>. \<open>Ledger\<close>: \<open>upload_support.py\<close> and the jobs of \<open>commands/upload_cmd.py\<close>.
    \<open>RateLimit\<close>: \<open>utils/speed.py\<close>.

  \<^bold>\<open>How state and effects are modelled.\<close> An object is a record and an operation returns the record
  updated. A file is a value (parsed JSON, bytes that do not parse, or bytes); an operation that holds a
  file lock is one step on it. What the program cannot decide is an argument: the block cipher, the
  hashes, the key derivations, random bytes, the clock, the draw of a proxy, what the operating system
  answers to each call and what the other end of a connection sends. Where a theorem needs something of
  these, a named predicate says what their documentation promises (\<open>aes_ok\<close>, \<open>aead_ok\<close>,
  \<open>aead_inverse\<close>, \<open>honest_upstream\<close>). Threads are sequences of atomic steps: the download pool is an
  arbitrary interleaving of chunk requests, the upload pool a schedule of sends and recordings, the
  stream server an inductive reachability relation, the queue a sequence of commands of any number of
  managers.

  \<^bold>\<open>What the lemmas show.\<close> Codecs, keys and attributes read back what they wrote. The chunk plan tiles
  the file and any order of writing rebuilds it. A body that the range validator accepts decrypts to the
  requested window, and on it rest the download chunk, the interleaved download, the final gate and the
  streamed range. A saved state is never replaced by an older one of the same run, a state of a newer
  format never touched, a corrupt one never lost. An upload that returns registered one node, whose key
  opens exactly the source, out of acknowledged chunks, and nothing when the source changed meanwhile. The
  queue is refined by a table of leases: a claim takes a free job and a manager whose lease was lost
  writes nothing more to the job. Destinations are claimed by one transfer at a time. Streaming serves no
  byte without the token and no truncated body as a complete one, and gives every slot back. A crypter
  file is a header and exactly the sealed chunks of its content. The jobs of a folder share stay below
  their root, and a folder download that returns left every planned file complete. A request that may have
  changed the account is not sent again blindly. A login is all or nothing, a remembered session is used
  only after the server confirmed it, and a corrupt account file or configuration is never overwritten. A
  setting changes alone. The ledger of free space is never overcommitted and every job settles with it;
  the token bucket lets through no more than burst and rate allow, and every limited transfer proceeds.
  The interfaces are locales: \<open>chunk_plan\<close>, \<open>seek_cipher\<close> (a stream cipher with random access),
  \<open>range_gate\<close> (an accepted range), \<open>route_policy\<close> (which routes are allowed), \<open>monotone_store\<close> (a
  versioned store that does not go back) and \<open>fenced_store\<close> (a table of leases), each interpreted on the
  model's own definitions in the theory that provides them.

  \<^bold>\<open>Bounds and termination.\<close> Loops are structural, or \<open>function\<close> with a measure (the rest of the bytes,
  the list of attempts). No function runs on fuel: a retry loop consumes its list of attempts, which has
  the length the code gives it, and a wait that ends at a limit counts down from it. Machine integers
  appear as \<open>8 word\<close> bytes and 32-bit words; Python's integers are \<open>int\<close> or \<open>nat\<close>, and the limits of
  \<open>struct.pack\<close> and of \<open>int()\<close> (4300 digits) are kept; the floats of \<open>RateLimit\<close> are rationals. Text is Latin-1: a code point above 255 is outside
  the model.

  \<^bold>\<open>Not modelled.\<close> The commands, the menus and the terminal output (\<open>commands/\<close> but for the upload
  jobs, \<open>ui/\<close>, \<open>cli.py\<close>, \<open>launcher_menu.py\<close>), which parse options and print; logging and redaction
  (\<open>utils/logger.py\<close>, \<open>utils/secure_log.py\<close>, \<open>utils/redaction.py\<close>), whose patterns only change what is
  shown; the link services outside MEGA (\<open>core/link_services.py\<close>), whose answers are fixed by third
  parties, and the \<open>mega://enc\<close> containers of \<open>core/links.py\<close>; the sharing of nodes (\<open>core/shares.py\<close>),
  the CONNECT proxy, thumbnails, hooks and the native launchers. The file lock is the atomicity of a step;
  the transfers abstract from the rate limiter, which changes when a byte moves and not which.
\<close>

end
